(* ===== verification/Ids.thy ===== *)
theory Ids
  imports Prelude
begin

text \<open>
  Typed identifiers and revisions (\<open>crates/core/src/ids.rs\<close>, \<open>crates/core/src/revision.rs\<close>).

  The macro \<open>typed_id!\<close> declares eight newtypes over a UUID that differ in name and prefix only.
  They are one datatype with a phantom tag, so identifiers of different entities do not type-check
  against each other.  The \<open>uuid\<close> crate renders and parses the payload; both functions are
  parameters.  Its values are 128-bit and ordered as numbers.
\<close>

type_synonym uuid = "128 word"

datatype 'k typed_id = Id (as_uuid: uuid)

datatype repository_tag = RepositoryTag
datatype feature_tag = FeatureTag
datatype task_tag = TaskTag
datatype unit_tag = UnitTag
datatype package_tag = PackageTag
datatype request_tag = RequestTag
datatype event_tag = EventTag
datatype attempt_tag = AttemptTag

type_synonym repository_id = "repository_tag typed_id"
type_synonym feature_id = "feature_tag typed_id"
type_synonym task_id = "task_tag typed_id"
type_synonym release_unit_id = "unit_tag typed_id"
type_synonym package_id = "package_tag typed_id"
type_synonym request_id = "request_tag typed_id"
type_synonym event_id = "event_tag typed_id"
type_synonym attempt_id = "attempt_tag typed_id"

instantiation typed_id :: (type) linorder
begin

definition less_eq_typed_id :: "'a typed_id \<Rightarrow> 'a typed_id \<Rightarrow> bool" where
  "less_eq_typed_id a b \<longleftrightarrow> as_uuid a \<le> as_uuid b"

definition less_typed_id :: "'a typed_id \<Rightarrow> 'a typed_id \<Rightarrow> bool" where
  "less_typed_id a b \<longleftrightarrow> as_uuid a < as_uuid b"

instance
  by standard (auto simp: less_eq_typed_id_def less_typed_id_def typed_id.expand)

end

lemma Id_le_iff [simp]: "Id a \<le> Id b \<longleftrightarrow> a \<le> b"
  by (simp add: less_eq_typed_id_def)

lemma Id_less_iff [simp]: "Id a < Id b \<longleftrightarrow> a < b"
  by (simp add: less_typed_id_def)

section \<open>Display and parsing\<close>

datatype id_kind =
    RepositoryKind | FeatureKind | TaskKind | ReleaseUnitKind
  | PackageKind | RequestKind | EventKind | AttemptKind

fun kind_name :: "id_kind \<Rightarrow> string" where
  "kind_name RepositoryKind = ''repository''"
| "kind_name FeatureKind = ''feature''"
| "kind_name TaskKind = ''task''"
| "kind_name ReleaseUnitKind = ''release unit''"
| "kind_name PackageKind = ''package''"
| "kind_name RequestKind = ''request''"
| "kind_name EventKind = ''event''"
| "kind_name AttemptKind = ''attempt''"

fun kind_prefix :: "id_kind \<Rightarrow> string" where
  "kind_prefix RepositoryKind = ''repo''"
| "kind_prefix FeatureKind = ''feature''"
| "kind_prefix TaskKind = ''task''"
| "kind_prefix ReleaseUnitKind = ''unit''"
| "kind_prefix PackageKind = ''package''"
| "kind_prefix RequestKind = ''request''"
| "kind_prefix EventKind = ''event''"
| "kind_prefix AttemptKind = ''attempt''"

record id_parse_error =
  ipe_kind :: string
  ipe_prefix :: string

definition id_parse_error_new :: "id_kind \<Rightarrow> id_parse_error" where
  "id_parse_error_new k = \<lparr>ipe_kind = kind_name k, ipe_prefix = kind_prefix k\<rparr>"

definition id_display :: "(uuid \<Rightarrow> string) \<Rightarrow> id_kind \<Rightarrow> 'k typed_id \<Rightarrow> string" where
  "id_display fmt k i = kind_prefix k @ ''_'' @ fmt (as_uuid i)"

definition id_from_str ::
  "(string \<Rightarrow> uuid option) \<Rightarrow> id_kind \<Rightarrow> string \<Rightarrow> (id_parse_error, 'k typed_id) result" where
  "id_from_str parse k v =
     (case strip_prefix (kind_prefix k @ ''_'') v of
        None \<Rightarrow> Inl (id_parse_error_new k)
      | Some u \<Rightarrow> (case parse u of
            None \<Rightarrow> Inl (id_parse_error_new k)
          | Some w \<Rightarrow> Inr (Id w)))"

lemma prefixes_clash:
  "prefix (kind_prefix k @ ''_'') (kind_prefix k' @ ''_'' @ s) \<longleftrightarrow> k = k'"
  by (cases k; cases k') simp_all

lemma id_from_str_display:
  assumes "parse (fmt (as_uuid i)) = Some (as_uuid i)"
  shows "id_from_str parse k (id_display fmt k i) = Inr i"
proof -
  have "strip_prefix (kind_prefix k @ ''_'') (id_display fmt k i) = Some (fmt (as_uuid i))"
    using strip_prefix_append [of "kind_prefix k @ ''_''"] by (simp add: id_display_def)
  with assms show ?thesis by (simp add: id_from_str_def)
qed

lemma id_from_str_other_kind:
  "k \<noteq> k' \<Longrightarrow> id_from_str parse k (id_display fmt k' i) = Inl (id_parse_error_new k)"
  using prefixes_clash [of k k' "fmt (as_uuid i)"]
  by (simp add: id_from_str_def id_display_def strip_prefix_def)

section \<open>Revisions\<close>

type_synonym u32 = "32 word"

definition u32_checked_add :: "u32 \<Rightarrow> u32 \<Rightarrow> u32 option" where
  "u32_checked_add a b = (if unat a + unat b < 2 ^ 32 then Some (a + b) else None)"

text \<open>\<open>NonZeroU32\<close>: the constructor refuses zero.\<close>

definition non_zero_new :: "u32 \<Rightarrow> u32 option" where
  "non_zero_new v = (if v = 0 then None else Some v)"

datatype revision = Revision (revision_get: u32)

instantiation revision :: linorder
begin

definition less_eq_revision :: "revision \<Rightarrow> revision \<Rightarrow> bool" where
  "less_eq_revision a b \<longleftrightarrow> revision_get a \<le> revision_get b"

definition less_revision :: "revision \<Rightarrow> revision \<Rightarrow> bool" where
  "less_revision a b \<longleftrightarrow> revision_get a < revision_get b"

instance
  by standard (auto simp: less_eq_revision_def less_revision_def revision.expand)

end

datatype revision_error = RevisionZero | RevisionOverflow

definition revision_first :: revision where
  "revision_first = Revision 1"

definition revision_new :: "u32 \<Rightarrow> (revision_error, revision) result" where
  "revision_new v = ok_or (map_option Revision (non_zero_new v)) RevisionZero"

definition revision_next :: "revision \<Rightarrow> (revision_error, revision) result" where
  "revision_next r =
     ok_or (map_option Revision
              (Option.bind (u32_checked_add (revision_get r) 1) non_zero_new))
           RevisionOverflow"

text \<open>The invariant the type carries: a revision is never zero.\<close>

definition revision_ok :: "revision \<Rightarrow> bool" where
  "revision_ok r \<longleftrightarrow> revision_get r \<noteq> 0"

lemma revision_first_ok: "revision_ok revision_first"
  by (simp add: revision_ok_def revision_first_def)

lemma revision_new_ok: "revision_new v = Inr r \<Longrightarrow> revision_ok r \<and> revision_get r = v"
  by (auto simp: revision_new_def non_zero_new_def revision_ok_def split: if_splits)

lemma revision_next_Inr:
  assumes "revision_next r = Inr r'"
  shows "unat (revision_get r') = unat (revision_get r) + 1"
  using assms
  by (auto simp: revision_next_def u32_checked_add_def non_zero_new_def unat_word_ariths
      split: if_splits)

lemma revision_next_ok:
  assumes "revision_next r = Inr r'"
  shows "revision_ok r' \<and> r < r'"
proof -
  have "unat (revision_get r') = unat (revision_get r) + 1"
    using assms by (rule revision_next_Inr)
  then show ?thesis
    by (auto simp: revision_ok_def less_revision_def word_less_nat_alt)
qed

text \<open>
  \<open>next\<close> gives the following number, refuses only the last one, and what it gives is a
  revision again and larger.
\<close>

text \<open>advancing a revision yields the next number exactly, stays non-zero and strictly
  grows; the only refusal is the overflow at the largest 32-bit value.\<close>

theorem revision_next_spec:
  "(case revision_next r of
      Inr r' \<Rightarrow> unat (revision_get r') = unat (revision_get r) + 1 \<and> revision_ok r' \<and> r < r'
    | Inl e \<Rightarrow> e = RevisionOverflow \<and> unat (revision_get r) = u32_max)"
proof (cases "revision_next r")
  case (Inr r')
  then show ?thesis using revision_next_Inr revision_next_ok by simp
next
  case (Inl e)
  have bound: "unat (revision_get r) < 2 ^ 32"
    using unsigned_less [of "revision_get r"] by simp
  have "unat (revision_get r) + 1 \<noteq> 2 ^ 32 \<Longrightarrow> revision_get r + 1 \<noteq> 0"
    using bound by (auto simp: word_unat_eq_iff unat_word_ariths)
  then show ?thesis using Inl bound
    by (auto simp: revision_next_def u32_checked_add_def non_zero_new_def u32_max_def
        split: if_splits)
qed

text \<open>an identifier rendered by \<open>Display\<close> parses back to itself under its own kind, and
  under every other kind it is refused with that kind's error, given that the UUID crate parses
  what it renders.\<close>

theorem id_roundtrip:
  assumes "\<And>u. parse (fmt u) = Some u"
  shows "id_from_str parse k (id_display fmt k' i)
    = (if k = k' then Inr i else Inl (id_parse_error_new k))"
  using id_from_str_display [of parse fmt i k', OF assms] id_from_str_other_kind [of k k' parse fmt i]
  by auto

text \<open>A renderer and parser that satisfy the hypothesis: decimal length in unary would do, here
  the value is carried by the number of characters.\<close>

theorem id_roundtrip_witness:
  "id_from_str (\<lambda>s. Some (word_of_nat (length s))) RepositoryKind
     (id_display (\<lambda>u. replicate (unat u) CHR ''0'') TaskKind (Id 3 :: task_id))
   = (Inl (id_parse_error_new RepositoryKind) :: (id_parse_error, task_id) result)
   \<and> id_from_str (\<lambda>s. Some (word_of_nat (length s))) TaskKind
     (id_display (\<lambda>u. replicate (unat u) CHR ''0'') TaskKind (Id 3 :: task_id))
   = (Inr (Id 3) :: (id_parse_error, task_id) result)"
proof -
  have h: "\<And>u :: uuid. (\<lambda>s. Some (word_of_nat (length s))) (replicate (unat u) CHR ''0'') = Some u"
    by simp
  show ?thesis
    using id_roundtrip [OF h, of RepositoryKind TaskKind "Id 3 :: task_id"]
      id_roundtrip [OF h, of TaskKind TaskKind "Id 3 :: task_id"]
    by simp
qed

end
