(* ===== verification/TaskState.thy ===== *)
theory TaskState
  imports Prelude
begin

text \<open>
  The lifecycle of a task and of a release attempt (\<open>crates/core/src/task.rs\<close>).

  A state is a status, the reason of a block or a terminal decision, and the status a block resumes
  at.  \<open>ts_transition\<close> and \<open>ts_withdraw_schedule\<close> are the only operations that change one;
  \<open>ts_restore\<close> rebuilds one from its three stored columns.  The lemmas show which states the
  operations can reach and that \<open>ts_restore\<close> admits exactly those.
\<close>

section \<open>Statuses\<close>

datatype task_status =
    Planned | Building | Captured | Validated | Queued | Scheduled | Reconciling | Verifying
  | CommitPrepared | PushPending | RemoteConfirmed | Published | Blocked | Cancelled | Superseded

fun is_terminal :: "task_status \<Rightarrow> bool" where
  "is_terminal s \<longleftrightarrow> s \<in> {Published, Cancelled, Superseded}"

fun is_publication_stage :: "task_status \<Rightarrow> bool" where
  "is_publication_stage s \<longleftrightarrow> s \<in> {Scheduled, Reconciling, Verifying, CommitPrepared,
     PushPending, RemoteConfirmed, Published, Blocked, Cancelled, Superseded}"

fun may_have_reached_remote :: "task_status \<Rightarrow> bool" where
  "may_have_reached_remote s \<longleftrightarrow> s \<in> {PushPending, RemoteConfirmed, Published}"

fun ordinary_position :: "task_status \<Rightarrow> nat option" where
  "ordinary_position Planned = Some 0"
| "ordinary_position Building = Some 1"
| "ordinary_position Captured = Some 2"
| "ordinary_position Validated = Some 3"
| "ordinary_position Queued = Some 4"
| "ordinary_position Scheduled = Some 5"
| "ordinary_position Reconciling = Some 6"
| "ordinary_position Verifying = Some 7"
| "ordinary_position CommitPrepared = Some 8"
| "ordinary_position PushPending = Some 9"
| "ordinary_position RemoteConfirmed = Some 10"
| "ordinary_position Published = Some 11"
| "ordinary_position Blocked = None"
| "ordinary_position Cancelled = None"
| "ordinary_position Superseded = None"

definition is_at_or_past :: "task_status \<Rightarrow> task_status \<Rightarrow> bool option" where
  "is_at_or_past a b =
     (case (ordinary_position a, ordinary_position b) of
        (Some mine, Some theirs) \<Rightarrow> Some (theirs \<le> mine)
      | _ \<Rightarrow> None)"

fun normal_successor :: "task_status \<Rightarrow> task_status option" where
  "normal_successor Planned = Some Building"
| "normal_successor Building = Some Captured"
| "normal_successor Captured = Some Validated"
| "normal_successor Validated = Some Queued"
| "normal_successor Queued = Some Scheduled"
| "normal_successor Scheduled = Some Reconciling"
| "normal_successor Reconciling = Some Verifying"
| "normal_successor Verifying = Some CommitPrepared"
| "normal_successor CommitPrepared = Some PushPending"
| "normal_successor PushPending = Some RemoteConfirmed"
| "normal_successor RemoteConfirmed = Some Published"
| "normal_successor Published = None"
| "normal_successor Blocked = None"
| "normal_successor Cancelled = None"
| "normal_successor Superseded = None"

definition next_ordinary :: "task_status \<Rightarrow> task_status option" where
  "next_ordinary s = normal_successor s"

section \<open>Reasons, states and errors\<close>

datatype reason_code =
    UserRequested | PrerequisiteCancelled | ReasonConflict | ReasonValidationFailed
  | DeviceUnavailable | AuthenticationRequired | SupersededByRevision | Other string

record state_reason =
  sr_code :: reason_code
  sr_message :: string

record task_state =
  ts_status :: task_status
  ts_reason :: "state_reason option"
  ts_blocked_from :: "task_status option"

datatype transition_error =
    Terminal task_status task_status
  | Invalid task_status task_status "task_status option"
  | ReasonRequired task_status
  | UnexpectedReason task_status
  | EmptyReason
  | CorruptBlockedState
  | IncoherentPersistedState task_status
  | NotScheduled task_status
  | InvalidResume task_status task_status

definition state_reason_new :: "reason_code \<Rightarrow> string \<Rightarrow> (transition_error, state_reason) result" where
  "state_reason_new code message =
     (if blank message then Inl EmptyReason else Inr \<lparr>sr_code = code, sr_message = message\<rparr>)"

definition ts_planned :: task_state where
  "ts_planned = \<lparr>ts_status = Planned, ts_reason = None, ts_blocked_from = None\<rparr>"

definition ts_restore ::
  "task_status \<Rightarrow> state_reason option \<Rightarrow> task_status option
    \<Rightarrow> (transition_error, task_state) result" where
  "ts_restore status reason blocked_from =
     (let coherent =
        (case status of
           Blocked \<Rightarrow> reason \<noteq> None
             \<and> (case blocked_from of None \<Rightarrow> False
                 | Some resume \<Rightarrow> resume \<noteq> Blocked \<and> \<not> is_terminal resume)
         | Cancelled \<Rightarrow> reason \<noteq> None \<and> blocked_from = None
         | Superseded \<Rightarrow> reason \<noteq> None \<and> blocked_from = None
         | _ \<Rightarrow> reason = None \<and> blocked_from = None)
      in if \<not> coherent then Inl (IncoherentPersistedState status)
         else Inr \<lparr>ts_status = status, ts_reason = reason, ts_blocked_from = blocked_from\<rparr>)"

definition ts_withdraw_schedule :: "task_state \<Rightarrow> (transition_error, task_state) result" where
  "ts_withdraw_schedule st =
     (if ts_status st \<noteq> Scheduled then Inl (NotScheduled (ts_status st))
      else Inr \<lparr>ts_status = Queued, ts_reason = None, ts_blocked_from = None\<rparr>)"

definition ts_transition_from_blocked ::
  "task_state \<Rightarrow> task_status \<Rightarrow> state_reason option \<Rightarrow> (transition_error, task_state) result" where
  "ts_transition_from_blocked st target reason =
     (if target \<in> {Cancelled, Superseded} then
        and_then (ok_or reason (ReasonRequired target)) (\<lambda>r.
          Inr \<lparr>ts_status = target, ts_reason = Some r, ts_blocked_from = None\<rparr>)
      else
        and_then (ok_or (ts_blocked_from st) CorruptBlockedState) (\<lambda>expected.
          if target \<noteq> expected then Inl (InvalidResume target expected)
          else if reason \<noteq> None then Inl (UnexpectedReason target)
          else Inr \<lparr>ts_status = target, ts_reason = None, ts_blocked_from = None\<rparr>))"

definition ts_transition ::
  "task_state \<Rightarrow> task_status \<Rightarrow> state_reason option \<Rightarrow> (transition_error, task_state) result" where
  "ts_transition st target reason =
     (if is_terminal (ts_status st) then Inl (Terminal (ts_status st) target)
      else if ts_status st = Blocked then ts_transition_from_blocked st target reason
      else if target = Blocked then
        and_then (ok_or reason (ReasonRequired target)) (\<lambda>r.
          Inr \<lparr>ts_status = target, ts_reason = Some r, ts_blocked_from = Some (ts_status st)\<rparr>)
      else if target \<in> {Cancelled, Superseded} then
        and_then (ok_or reason (ReasonRequired target)) (\<lambda>r.
          Inr \<lparr>ts_status = target, ts_reason = Some r, ts_blocked_from = None\<rparr>)
      else if reason \<noteq> None then Inl (UnexpectedReason target)
      else if normal_successor (ts_status st) \<noteq> Some target then
        Inl (Invalid (ts_status st) target (normal_successor (ts_status st)))
      else Inr \<lparr>ts_status = target, ts_reason = None, ts_blocked_from = None\<rparr>)"

lemmas [transition_defs] =
  ts_planned_def ts_withdraw_schedule_def ts_transition_def ts_transition_from_blocked_def

section \<open>Steps and reachable states\<close>

inductive ts_step :: "task_state \<Rightarrow> task_state \<Rightarrow> bool" where
  transition: "ts_transition st target reason = Inr st' \<Longrightarrow> ts_step st st'"
| withdraw: "ts_withdraw_schedule st = Inr st' \<Longrightarrow> ts_step st st'"

inductive ts_reachable :: "task_state \<Rightarrow> bool" where
  start: "ts_reachable ts_planned"
| step: "ts_reachable st \<Longrightarrow> ts_step st st' \<Longrightarrow> ts_reachable st'"

inductive_cases ts_step_elim: "ts_step st st'"

text \<open>The invariant between the three fields.\<close>

definition ts_coherent :: "task_state \<Rightarrow> bool" where
  "ts_coherent st \<longleftrightarrow>
     (ts_status st = Blocked \<longrightarrow> ts_reason st \<noteq> None
        \<and> (\<exists>r. ts_blocked_from st = Some r \<and> r \<noteq> Blocked \<and> \<not> is_terminal r))
   \<and> (ts_status st \<noteq> Blocked \<longrightarrow> ts_blocked_from st = None)
   \<and> (ts_status st \<in> {Cancelled, Superseded} \<longrightarrow> ts_reason st \<noteq> None)
   \<and> (ts_status st \<notin> {Blocked, Cancelled, Superseded} \<longrightarrow> ts_reason st = None)"

text \<open>How far along the path a state is, seeing through a block.\<close>

definition ts_stage :: "task_state \<Rightarrow> task_status" where
  "ts_stage st =
     (case ts_status st of
        Blocked \<Rightarrow> (case ts_blocked_from st of None \<Rightarrow> Blocked | Some r \<Rightarrow> r)
      | s \<Rightarrow> s)"

lemma ts_restore_Inr_iff:
  "ts_restore s r b = Inr st
   \<longleftrightarrow> ts_coherent st \<and> ts_status st = s \<and> ts_reason st = r \<and> ts_blocked_from st = b"
proof -
  have "ts_restore s r b = Inr st
      \<longleftrightarrow> st = \<lparr>ts_status = s, ts_reason = r, ts_blocked_from = b\<rparr> \<and> ts_coherent st"
    by (cases s; cases b) (auto simp: ts_restore_def ts_coherent_def)
  then show ?thesis by auto
qed

lemma ts_restore_Inl: "ts_restore s r b = Inl e \<Longrightarrow> e = IncoherentPersistedState s"
  by (auto simp: ts_restore_def Let_def split: if_splits)

lemma ts_planned_coherent: "ts_coherent ts_planned"
  by (simp add: ts_coherent_def ts_planned_def)

lemma normal_successor_not_special:
  "normal_successor s = Some t \<Longrightarrow> t \<notin> {Blocked, Cancelled, Superseded}"
  by (cases s) auto

lemma ts_transition_coherent:
  assumes "ts_coherent st" and "ts_transition st target reason = Inr st'"
  shows "ts_coherent st'"
  using assms normal_successor_not_special [of "ts_status st" target]
  by (auto simp: transition_defs ts_coherent_def res split: if_splits)

lemma ts_withdraw_coherent: "ts_withdraw_schedule st = Inr st' \<Longrightarrow> ts_coherent st'"
  by (auto simp: transition_defs ts_coherent_def split: if_splits)

lemma ts_step_coherent: "ts_step st st' \<Longrightarrow> ts_coherent st \<Longrightarrow> ts_coherent st'"
  by (auto elim!: ts_step_elim intro: ts_transition_coherent ts_withdraw_coherent)

lemma ts_reachable_coherent: "ts_reachable st \<Longrightarrow> ts_coherent st"
  by (induction rule: ts_reachable.induct) (auto intro: ts_planned_coherent ts_step_coherent)

text \<open>Every status on the ordinary path is reached by walking it, with no reason and no block.\<close>

definition plain :: "task_status \<Rightarrow> task_state" where
  "plain s = \<lparr>ts_status = s, ts_reason = None, ts_blocked_from = None\<rparr>"

lemma ts_reachable_successor:
  "ts_reachable (plain s) \<Longrightarrow> normal_successor s = Some t \<Longrightarrow> ts_reachable (plain t)"
  by (rule ts_reachable.step, assumption, rule ts_step.transition [where target = t and reason = None])
     (cases s; auto simp: transition_defs plain_def)

lemma ts_reachable_plain:
  assumes "s \<notin> {Blocked, Cancelled, Superseded}"
  shows "ts_reachable (plain s)"
proof -
  have p: "ts_reachable (plain Planned)"
    using ts_reachable.start by (simp add: ts_planned_def plain_def)
  note n = ts_reachable_successor
  from n [OF p] have b: "ts_reachable (plain Building)" by simp
  from n [OF b] have c: "ts_reachable (plain Captured)" by simp
  from n [OF c] have v: "ts_reachable (plain Validated)" by simp
  from n [OF v] have q: "ts_reachable (plain Queued)" by simp
  from n [OF q] have s: "ts_reachable (plain Scheduled)" by simp
  from n [OF s] have r: "ts_reachable (plain Reconciling)" by simp
  from n [OF r] have vf: "ts_reachable (plain Verifying)" by simp
  from n [OF vf] have cp: "ts_reachable (plain CommitPrepared)" by simp
  from n [OF cp] have pp: "ts_reachable (plain PushPending)" by simp
  from n [OF pp] have rc: "ts_reachable (plain RemoteConfirmed)" by simp
  from n [OF rc] have pb: "ts_reachable (plain Published)" by simp
  show ?thesis using assms p b c v q s r vf cp pp rc pb by (cases s) auto
qed

lemma ts_step_special:
  assumes "s \<notin> {Blocked, Published, Cancelled, Superseded}" and "t \<in> {Blocked, Cancelled, Superseded}"
  shows "ts_step (plain s)
    \<lparr>ts_status = t, ts_reason = Some r, ts_blocked_from = (if t = Blocked then Some s else None)\<rparr>"
  by (rule ts_step.transition [where target = t and reason = "Some r"])
     (use assms in \<open>auto simp: transition_defs plain_def\<close>)

lemma ts_coherent_reachable:
  assumes "ts_coherent st"
  shows "ts_reachable st"
proof (cases "ts_status st \<in> {Blocked, Cancelled, Superseded}")
  case False
  then have "st = plain (ts_status st)"
    using assms by (auto simp: ts_coherent_def plain_def)
  with False show ?thesis using ts_reachable_plain by metis
next
  case True
  then obtain r where r: "ts_reason st = Some r"
    using assms by (auto simp: ts_coherent_def)
  define s where "s = (case ts_blocked_from st of Some b \<Rightarrow> b | None \<Rightarrow> Planned)"
  have s: "s \<notin> {Blocked, Published, Cancelled, Superseded}"
    using True assms by (auto simp: ts_coherent_def s_def)
  have "st = \<lparr>ts_status = ts_status st, ts_reason = Some r,
      ts_blocked_from = (if ts_status st = Blocked then Some s else None)\<rparr>"
    using assms r by (auto simp: ts_coherent_def s_def)
  then have "ts_step (plain s) st"
    using ts_step_special [OF s True, of r] by simp
  moreover have "ts_reachable (plain s)"
    using s by (intro ts_reachable_plain) auto
  ultimately show ?thesis by (rule ts_reachable.step [rotated])
qed

text \<open>C25: restoring a stored state succeeds exactly on the combinations of status, reason and
  resume status that some sequence of transitions and withdrawals from the planned state produces,
  and then gives back that very state; every other combination is refused as incoherent.\<close>

theorem restore_exact:
  "(case ts_restore s r b of
      Inr st \<Rightarrow> ts_reachable st \<and> ts_status st = s \<and> ts_reason st = r \<and> ts_blocked_from st = b
    | Inl e \<Rightarrow> e = IncoherentPersistedState s
        \<and> \<not> ts_reachable \<lparr>ts_status = s, ts_reason = r, ts_blocked_from = b\<rparr>)"
proof (cases "ts_restore s r b")
  case (Inr st)
  then show ?thesis
    using ts_restore_Inr_iff [of s r b st] ts_coherent_reachable by simp
next
  case (Inl e)
  have "\<not> ts_coherent \<lparr>ts_status = s, ts_reason = r, ts_blocked_from = b\<rparr>"
    using Inl ts_restore_Inr_iff [of s r b "\<lparr>ts_status = s, ts_reason = r, ts_blocked_from = b\<rparr>"]
    by auto
  then show ?thesis
    using Inl ts_restore_Inl ts_reachable_coherent by auto
qed

section \<open>What a transition does\<close>

lemma terminal_no_step: "is_terminal (ts_status st) \<Longrightarrow> \<not> ts_step st st'"
  by (auto elim!: ts_step_elim simp: transition_defs)

text \<open>C24: a block remembers the exact status it interrupted: from the blocked state, resuming
  there gives back the interrupted state, every other status but cancelling or superseding is
  refused naming the status to resume at, and resuming with a reason is refused.\<close>

theorem block_resume:
  assumes "ts_coherent st" and "ts_transition st Blocked (Some r) = Inr b"
  shows "ts_transition b (ts_status st) None = Inr st
    \<and> (\<forall>t q. t \<notin> {ts_status st, Cancelled, Superseded}
         \<longrightarrow> ts_transition b t q = Inl (InvalidResume t (ts_status st)))
    \<and> (\<forall>q. ts_transition b (ts_status st) (Some q) = Inl (UnexpectedReason (ts_status st)))"
proof (cases "ts_status st = Blocked")
  case True
  then show ?thesis
    using assms by (auto simp: transition_defs ts_coherent_def res split: if_splits)
next
  case False
  with assms have b: "b = \<lparr>ts_status = Blocked, ts_reason = Some r, ts_blocked_from = Some (ts_status st)\<rparr>"
    and nt: "\<not> is_terminal (ts_status st)"
    by (auto simp: transition_defs res split: if_splits)
  have "ts_reason st = None" "ts_blocked_from st = None"
    using assms(1) False nt by (auto simp: ts_coherent_def)
  then show ?thesis
    using b nt False by (cases st) (auto simp: transition_defs)
qed

theorem block_resume_witness:
  "ts_transition \<lparr>ts_status = Blocked,
      ts_reason = Some \<lparr>sr_code = ReasonConflict, sr_message = ''x''\<rparr>,
      ts_blocked_from = Some Verifying\<rparr> Verifying None = Inr (plain Verifying)"
proof -
  let ?r = "\<lparr>sr_code = ReasonConflict, sr_message = ''x''\<rparr>"
  let ?b = "\<lparr>ts_status = Blocked, ts_reason = Some ?r, ts_blocked_from = Some Verifying\<rparr>"
  have c: "ts_coherent (plain Verifying)" by (simp add: ts_coherent_def plain_def)
  have t: "ts_transition (plain Verifying) Blocked (Some ?r) = Inr ?b"
    by (simp add: transition_defs plain_def)
  show ?thesis using block_resume [OF c t] by (simp add: plain_def)
qed

text \<open>The four ways a transition can succeed.\<close>

lemma ts_transition_cases [consumes 1, case_names block drop resume advance]:
  assumes "ts_transition st target reason = Inr st'"
  obtains r where "\<not> is_terminal (ts_status st)" "ts_status st \<noteq> Blocked" "target = Blocked"
      "reason = Some r"
      "st' = \<lparr>ts_status = Blocked, ts_reason = Some r, ts_blocked_from = Some (ts_status st)\<rparr>"
    | r where "\<not> is_terminal (ts_status st)" "target \<in> {Cancelled, Superseded}" "reason = Some r"
      "st' = \<lparr>ts_status = target, ts_reason = Some r, ts_blocked_from = None\<rparr>"
    | "ts_status st = Blocked" "ts_blocked_from st = Some target" "reason = None"
      "target \<notin> {Cancelled, Superseded}" "st' = plain target"
    | "normal_successor (ts_status st) = Some target" "reason = None" "st' = plain target"
proof (cases "ts_status st = Blocked")
  case True
  with assms that show ?thesis
    by (auto simp: transition_defs plain_def res split: if_splits)
next
  case False
  with assms that show ?thesis
    by (auto simp: transition_defs plain_def res split: if_splits)
qed

lemma normal_successor_nonterminal: "normal_successor s = Some t \<Longrightarrow> \<not> is_terminal s \<and> s \<noteq> Blocked"
  by (cases s) auto

lemma ts_stage_not_blocked: "ts_status st \<noteq> Blocked \<Longrightarrow> ts_stage st = ts_status st"
  by (simp add: ts_stage_def split: task_status.splits)

lemma ts_stage_blocked: "ts_status st = Blocked \<Longrightarrow> ts_blocked_from st = Some r \<Longrightarrow> ts_stage st = r"
  by (simp add: ts_stage_def)

lemma plain_sel [simp]:
  "ts_status (plain s) = s" "ts_reason (plain s) = None" "ts_blocked_from (plain s) = None"
  by (simp_all add: plain_def)

lemma ts_stage_plain [simp]: "ts_stage (plain s) = s"
  by (simp add: ts_stage_def split: task_status.splits)

text \<open>C23: no operation skips a step: from any state an operation leads to the same stage (by
  blocking or resuming), to the next stage of the ordinary path, from a selected time back to the
  queue, or out of the lifecycle by a decision that carries a reason; a terminal state admits no
  step at all.\<close>

theorem no_stage_skipped:
  assumes "ts_reachable st" and "ts_step st st'"
  shows "\<not> is_terminal (ts_status st) \<and>
    (ts_stage st' = ts_stage st
     \<or> normal_successor (ts_stage st) = Some (ts_stage st')
     \<or> ts_stage st = Scheduled \<and> ts_stage st' = Queued
     \<or> ts_status st' \<in> {Cancelled, Superseded} \<and> ts_reason st' \<noteq> None)"
  using assms(2)
proof (cases rule: ts_step.cases)
  case (transition target reason)
  then show ?thesis
  proof (cases rule: ts_transition_cases)
    case (block r)
    then show ?thesis by (simp add: ts_stage_blocked ts_stage_not_blocked)
  next
    case (drop r)
    then show ?thesis by auto
  next
    case resume
    then show ?thesis by (simp add: ts_stage_blocked)
  next
    case advance
    then have "\<not> is_terminal (ts_status st) \<and> ts_status st \<noteq> Blocked"
      by (intro normal_successor_nonterminal)
    with advance show ?thesis by (simp add: ts_stage_not_blocked)
  qed
next
  case withdraw
  then show ?thesis
    by (auto simp: ts_withdraw_schedule_def ts_stage_def split: if_splits)
qed

theorem no_stage_skipped_witness:
  "ts_step (plain Scheduled) (plain Queued) \<and> \<not> is_terminal Scheduled"
proof -
  have r: "ts_reachable (plain Scheduled)" by (rule ts_reachable_plain) simp
  have s: "ts_step (plain Scheduled) (plain Queued)"
    by (rule ts_step.withdraw) (simp add: ts_withdraw_schedule_def plain_def)
  show ?thesis using no_stage_skipped [OF r s] s by simp
qed

section \<open>Positions on the ordinary path\<close>

lemma next_ordinary_position:
  "next_ordinary s = Some t \<Longrightarrow>
     (\<exists>n. ordinary_position s = Some n \<and> ordinary_position t = Some (Suc n))"
  by (cases s) (auto simp: next_ordinary_def)

lemma ordinary_position_inj:
  "ordinary_position s = Some n \<Longrightarrow> ordinary_position t = Some n \<Longrightarrow> s = t"
  by (cases s; cases t) auto

lemma next_ordinary_total:
  "ordinary_position s = Some n \<Longrightarrow> ordinary_position t = Some m \<Longrightarrow> n < m
    \<Longrightarrow> \<exists>s'. next_ordinary s = Some s'"
  by (cases s; cases t) (auto simp: next_ordinary_def)

end
