(* ===== verification/BTree.thy ===== *)
theory BTree
  imports Prelude "HOL-Library.AList"
begin

text \<open>
  The standard library's \<open>BTreeMap\<close> and \<open>BTreeSet\<close> as the code uses them: insertion, lookup and
  iteration in ascending key order.  A map is the association list its iterator yields, a set the
  list of its elements.  The locale \<open>ordered_map\<close> is the contract the components rely on, and the
  interpretation at the end of the theory discharges it for the lists.
\<close>

section \<open>Sets\<close>

fun bts_insert :: "'a::linorder \<Rightarrow> 'a list \<Rightarrow> 'a list" where
  "bts_insert x [] = [x]"
| "bts_insert x (y # ys) = (if x < y then x # y # ys else if x = y then y # ys else y # bts_insert x ys)"

definition bts_sorted :: "'a::linorder list \<Rightarrow> bool" where
  "bts_sorted xs \<longleftrightarrow> sorted_wrt (<) xs"

definition bts_collect :: "'a::linorder list \<Rightarrow> 'a list" where
  "bts_collect xs = fold bts_insert xs []"

lemma set_bts_insert [simp]: "set (bts_insert x xs) = insert x (set xs)"
  by (induction xs) auto

lemma bts_insert_sorted: "bts_sorted xs \<Longrightarrow> bts_sorted (bts_insert x xs)"
  unfolding bts_sorted_def by (induction xs) auto

lemma length_bts_insert: "length (bts_insert x xs) \<le> Suc (length xs)"
  by (induction xs) auto

lemma bts_sorted_distinct: "bts_sorted xs \<Longrightarrow> distinct xs"
  by (auto simp: bts_sorted_def strict_sorted_iff)

lemma fold_bts_insert:
  "set (fold bts_insert xs acc) = set xs \<union> set acc
   \<and> (bts_sorted acc \<longrightarrow> bts_sorted (fold bts_insert xs acc))"
  by (induction xs arbitrary: acc) (auto simp: bts_insert_sorted)

lemma set_bts_collect [simp]: "set (bts_collect xs) = set xs"
  using fold_bts_insert [of xs "[]"] by (simp add: bts_collect_def)

lemma bts_collect_sorted: "bts_sorted (bts_collect xs)"
  using fold_bts_insert [of xs "[]"] by (simp add: bts_collect_def bts_sorted_def)

lemma bts_ext: "bts_sorted xs \<Longrightarrow> bts_sorted ys \<Longrightarrow> set xs = set ys \<Longrightarrow> xs = ys"
  unfolding bts_sorted_def by (rule strict_sorted_equal)

section \<open>Maps\<close>

fun btm_insert :: "'k::linorder \<Rightarrow> 'v \<Rightarrow> ('k \<times> 'v) list \<Rightarrow> ('k \<times> 'v) list" where
  "btm_insert k v [] = [(k, v)]"
| "btm_insert k v ((k', v') # m) =
     (if k < k' then (k, v) # (k', v') # m
      else if k = k' then (k, v) # m
      else (k', v') # btm_insert k v m)"

definition btm_sorted :: "('k::linorder \<times> 'v) list \<Rightarrow> bool" where
  "btm_sorted m \<longleftrightarrow> bts_sorted (map fst m)"

text \<open>\<open>get_mut\<close> followed by an assignment: the entry is replaced in place.\<close>

definition btm_replace :: "'k \<Rightarrow> 'v \<Rightarrow> ('k \<times> 'v) list \<Rightarrow> ('k \<times> 'v) list" where
  "btm_replace k v m = AList.update k v m"

lemma map_of_btm_insert: "btm_sorted m \<Longrightarrow> map_of (btm_insert k v m) = (map_of m)(k \<mapsto> v)"
proof (induction m)
  case Nil
  then show ?case by simp
next
  case (Cons p m)
  obtain k' v' where p: "p = (k', v')" by fastforce
  have "btm_sorted m" and "\<forall>x \<in> fst ` set m. k' < x"
    using Cons.prems p by (auto simp: btm_sorted_def bts_sorted_def)
  moreover have "k < k' \<Longrightarrow> map_of m k = None"
    using calculation(2) by (auto simp: map_of_eq_None_iff)
  ultimately show ?case using Cons.IH p by (auto simp: fun_upd_twist)
qed

lemma keys_btm_insert: "fst ` set (btm_insert k v m) = insert k (fst ` set m)"
  by (induction k v m rule: btm_insert.induct) auto

lemma btm_insert_sorted: "btm_sorted m \<Longrightarrow> btm_sorted (btm_insert k v m)"
proof (induction m)
  case Nil
  then show ?case by (simp add: btm_sorted_def bts_sorted_def)
next
  case (Cons p m)
  obtain k' v' where p: "p = (k', v')" by fastforce
  then have s: "btm_sorted m" and lt: "\<forall>x \<in> fst ` set m. k' < x"
    using Cons.prems by (auto simp: btm_sorted_def bts_sorted_def)
  have "\<forall>x \<in> insert k (fst ` set m). k' < x \<or> \<not> k' < k" using lt by auto
  then show ?case
    using Cons.IH [OF s] lt p s keys_btm_insert [of k v m]
    by (auto simp: btm_sorted_def bts_sorted_def)
qed

lemma btm_sorted_distinct: "btm_sorted m \<Longrightarrow> distinct (map fst m)"
  by (simp add: btm_sorted_def bts_sorted_distinct)

lemma keys_eq_dom: "fst ` set m = dom (map_of m)"
  by (simp add: dom_map_of_conv_image_fst)

lemma btm_ext:
  assumes "btm_sorted m" and "btm_sorted m'" and "map_of m = map_of m'"
  shows "m = m'"
proof -
  have d: "distinct (map fst m)" "distinct (map fst m')"
    using assms by (auto intro: btm_sorted_distinct)
  have s: "set m = set m'"
    using d assms(3) by (metis map_of_eqI map_of_inject_set)
  have "map fst m = map fst m'"
    using assms(1,2) s by (intro bts_ext) (auto simp: btm_sorted_def)
  then show ?thesis
    using d assms(3) by (metis map_of_is_SomeI nth_equalityI map_eq_imp_length_eq
      nth_map nth_mem option.inject prod.collapse prod_eqI)
qed

lemma map_of_rev_distinct:
  assumes "distinct (map fst ps)"
  shows "map_of (rev ps) = map_of ps"
proof
  fix k
  have "distinct (map fst (rev ps))" using assms by (simp flip: rev_map)
  then have "map_of (rev ps) k = Some v \<longleftrightarrow> map_of ps k = Some v" for v
    using assms by (simp add: map_of_eq_Some_iff)
  then show "map_of (rev ps) k = map_of ps k"
    by (cases "map_of ps k") (auto simp: option.expand)
qed

lemma map_of_btm_replace: "map_of (btm_replace k v m) = (map_of m)(k \<mapsto> v)"
  by (simp add: btm_replace_def update_conv')

lemma keys_btm_replace: "k \<in> fst ` set m \<Longrightarrow> map fst (btm_replace k v m) = map fst m"
  by (simp add: btm_replace_def update_keys)

lemma sum_btm_replace:
  "map_of m k = Some (Suc c) \<Longrightarrow>
     Suc (sum_list (map snd (btm_replace k c m))) = sum_list (map snd m)"
  by (induction m) (auto simp: btm_replace_def split: if_splits)

section \<open>The contract of an ordered map\<close>

locale ordered_map =
  fixes empty :: "'m"
    and insert :: "'k::linorder \<Rightarrow> 'v \<Rightarrow> 'm \<Rightarrow> 'm"
    and get :: "'m \<Rightarrow> 'k \<Rightarrow> 'v option"
    and keys :: "'m \<Rightarrow> 'k list"
    and invar :: "'m \<Rightarrow> bool"
  assumes invar_empty: "invar empty"
    and invar_insert: "invar m \<Longrightarrow> invar (insert k v m)"
    and get_empty: "get empty = Map.empty"
    and get_insert: "invar m \<Longrightarrow> get (insert k v m) = (get m)(k \<mapsto> v)"
    and keys_sorted: "invar m \<Longrightarrow> bts_sorted (keys m)"
    and keys_dom: "invar m \<Longrightarrow> set (keys m) = dom (get m)"
begin

text \<open>Collecting a list of entries.\<close>

lemma collect_spec:
  "invar m \<Longrightarrow> invar (fold (\<lambda>(k, v). insert k v) ps m)
     \<and> get (fold (\<lambda>(k, v). insert k v) ps m) = get m ++ map_of (rev ps)"
proof (induction ps arbitrary: m)
  case Nil
  then show ?case by simp
next
  case (Cons p ps)
  obtain k v where p: "p = (k, v)" by fastforce
  show ?case
    using Cons.IH [OF invar_insert [OF Cons.prems]] p
    by (auto simp: get_insert [OF Cons.prems] map_add_def fun_eq_iff split: option.split)
qed

lemma collect_keys:
  "set (keys (fold (\<lambda>(k, v). insert k v) ps empty)) = fst ` set ps"
  using collect_spec [OF invar_empty, of ps] keys_dom
  by (simp add: get_empty dom_map_of_conv_image_fst)

text \<open>The order of insertion does not matter when the keys differ.\<close>

lemma collect_get:
  assumes "distinct (map fst ps)"
  shows "get (fold (\<lambda>(k, v). insert k v) ps empty) = map_of ps"
  using collect_spec [OF invar_empty, of ps] assms
  by (simp add: get_empty map_of_rev_distinct)

end

interpretation btm: ordered_map "[] :: ('k::linorder \<times> 'v) list" btm_insert map_of "map fst" btm_sorted
  by unfold_locales
     (auto simp: btm_sorted_def bts_sorted_def btm_insert_sorted [unfolded btm_sorted_def bts_sorted_def]
        map_of_btm_insert [unfolded btm_sorted_def bts_sorted_def] dom_map_of_conv_image_fst)

end
