(* ===== verification/Policy.thy ===== *)
theory Policy
  imports Ids BTree
begin

text \<open>
  Repository policies, package revisions and release units (\<open>crates/core/src/policy.rs\<close>,
  \<open>crates/core/src/release.rs\<close>).

  A target is a full branch ref; a policy says when work becomes available, where, and whether the
  target is pushed to or reached by a pull request.  \<open>policy_ok\<close> is the invariant the two
  constructors establish.
\<close>

section \<open>Policy data\<close>

datatype publication_mode = ScheduledCreation | ImmediateAvailability

datatype target_integration = DirectPush | PullRequest

datatype target_milestone = MCaptured | MDevelopmentAvailable | MTargetPublished

datatype target_ref = TargetRef (target_ref_str: string)

record policy_ref =
  pr_repository_id :: repository_id
  pr_revision :: revision

record repository_policy =
  rp_repository_id :: repository_id
  rp_revision :: revision
  rp_publication_mode :: publication_mode
  rp_target :: target_ref
  rp_development_target :: "target_ref option"
  rp_target_integration :: target_integration

record package_revision =
  pk_package_id :: package_id
  pk_revision :: revision
  pk_policy :: policy_ref
  pk_task_ids :: "task_id list"
  pk_required_milestone :: target_milestone

datatype policy_error =
    InvalidTargetRef string string
  | UnexpectedDevelopmentTarget
  | MissingDevelopmentTarget
  | TargetsMustDiffer
  | PullRequestNeedsDevelopmentBranch

datatype package_error = PackageNoTasks

definition heads :: string where
  "heads = ''refs/heads/''"

definition target_ref_new :: "string \<Rightarrow> (policy_error, target_ref) result" where
  "target_ref_new value =
     and_then (ok_or (strip_prefix heads value)
        (InvalidTargetRef value ''target must start with refs/heads/'')) (\<lambda>branch.
     if branch = [] \<or> prefix ''-'' branch \<or> contains branch ''..'' then
       Inl (InvalidTargetRef value ''branch name is empty or contains a disallowed sequence'')
     else Inr (TargetRef value))"

definition repository_policy_new ::
  "repository_id \<Rightarrow> revision \<Rightarrow> publication_mode \<Rightarrow> target_ref \<Rightarrow> target_ref option
    \<Rightarrow> (policy_error, repository_policy) result" where
  "repository_policy_new repo rv mode target dev =
     and_then
       (case mode of
          ScheduledCreation \<Rightarrow> if dev \<noteq> None then Inl UnexpectedDevelopmentTarget else Inr ()
        | ImmediateAvailability \<Rightarrow> if dev = None then Inl MissingDevelopmentTarget else Inr ())
       (\<lambda>_. if dev = Some target then Inl TargetsMustDiffer
            else Inr \<lparr>rp_repository_id = repo, rp_revision = rv, rp_publication_mode = mode,
                      rp_target = target, rp_development_target = dev,
                      rp_target_integration = DirectPush\<rparr>)"

definition with_target_integration ::
  "repository_policy \<Rightarrow> target_integration \<Rightarrow> (policy_error, repository_policy) result" where
  "with_target_integration p ti =
     (if ti = PullRequest \<and> rp_publication_mode p \<noteq> ImmediateAvailability
      then Inl PullRequestNeedsDevelopmentBranch
      else Inr (p\<lparr>rp_target_integration := ti\<rparr>))"

definition policy_reference :: "repository_policy \<Rightarrow> policy_ref" where
  "policy_reference p = \<lparr>pr_repository_id = rp_repository_id p, pr_revision = rp_revision p\<rparr>"

definition package_revision_new ::
  "package_id \<Rightarrow> revision \<Rightarrow> policy_ref \<Rightarrow> task_id list \<Rightarrow> target_milestone
    \<Rightarrow> (package_error, package_revision) result" where
  "package_revision_new pid rv pol tasks milestone =
     (if tasks = [] then Inl PackageNoTasks
      else Inr \<lparr>pk_package_id = pid, pk_revision = rv, pk_policy = pol, pk_task_ids = tasks,
                pk_required_milestone = milestone\<rparr>)"

section \<open>The policy invariant\<close>

definition policy_ok :: "repository_policy \<Rightarrow> bool" where
  "policy_ok p \<longleftrightarrow>
     (rp_publication_mode p = ScheduledCreation \<longleftrightarrow> rp_development_target p = None)
   \<and> rp_development_target p \<noteq> Some (rp_target p)
   \<and> (rp_target_integration p = PullRequest \<longrightarrow> rp_development_target p \<noteq> None)"

lemma repository_policy_new_ok: "repository_policy_new r v m t d = Inr p \<Longrightarrow> policy_ok p"
  by (auto simp: repository_policy_new_def policy_ok_def res split: publication_mode.splits if_splits)

lemma with_target_integration_ok:
  "with_target_integration p ti = Inr q \<Longrightarrow> policy_ok p \<Longrightarrow> policy_ok q"
  by (cases "rp_publication_mode p")
     (auto simp: with_target_integration_def policy_ok_def split: if_splits)

text \<open>whatever sequence of construction and integration choice produced a policy, it has a
  development branch exactly in immediate mode, that branch differs from the target, and a
  pull-request policy always has a branch to open the request from; construction fails only when
  one of these would not hold.\<close>

theorem repository_policy_invariant:
  "(\<forall>p. and_then (repository_policy_new r v m t d) (\<lambda>p. with_target_integration p ti) = Inr p
      \<longrightarrow> policy_ok p \<and> rp_target p = t \<and> rp_development_target p = d \<and> rp_target_integration p = ti)
   \<and> ((m = ScheduledCreation \<longleftrightarrow> d = None) \<and> d \<noteq> Some t \<and> (ti = PullRequest \<longrightarrow> d \<noteq> None)
      \<longleftrightarrow> is_ok (and_then (repository_policy_new r v m t d) (\<lambda>p. with_target_integration p ti)))"
  by (cases m; cases d; cases ti)
     (auto simp: repository_policy_new_def with_target_integration_def policy_ok_def)

theorem repository_policy_invariant_witness:
  "\<exists>p. and_then (repository_policy_new (Id 1) revision_first ImmediateAvailability
           (TargetRef ''refs/heads/main'') (Some (TargetRef ''refs/heads/dev'')))
         (\<lambda>p. with_target_integration p PullRequest) = Inr p \<and> policy_ok p"
proof -
  let ?run = "and_then (repository_policy_new (Id 1) revision_first ImmediateAvailability
           (TargetRef ''refs/heads/main'') (Some (TargetRef ''refs/heads/dev'')))
         (\<lambda>p. with_target_integration p PullRequest)"
  have "is_ok ?run"
    using repository_policy_invariant [of "Id 1" revision_first ImmediateAvailability
        "TargetRef ''refs/heads/main''" "Some (TargetRef ''refs/heads/dev'')" PullRequest]
    by simp
  then obtain p where "?run = Inr p" by (auto simp: res)
  then show ?thesis using repository_policy_invariant by blast
qed

lemma target_ref_new_Inr_iff:
  "target_ref_new s = Inr r \<longleftrightarrow>
     r = TargetRef s \<and> (\<exists>b. s = heads @ b \<and> b \<noteq> [] \<and> \<not> prefix ''-'' b \<and> \<not> sublist ''..'' b)"
  by (auto simp: target_ref_new_def res contains_iff_sublist split: if_splits)

section \<open>Release units\<close>

record release_unit =
  ru_id :: release_unit_id
  ru_task_ids :: "task_id list"

datatype release_unit_error = UnitEmpty | MissingPrerequisite task_id "task_id list"

text \<open>The dependencies are a map from a task to the set of tasks it needs.\<close>

definition unit_missing :: "task_id list \<Rightarrow> (task_id \<times> task_id list) list \<Rightarrow> task_id \<Rightarrow> task_id list" where
  "unit_missing tasks dependencies t =
     filter (\<lambda>d. d \<notin> set tasks) (case map_of dependencies t of None \<Rightarrow> [] | Some ds \<Rightarrow> ds)"

fun unit_check ::
  "task_id list \<Rightarrow> (task_id \<times> task_id list) list \<Rightarrow> task_id list
    \<Rightarrow> (release_unit_error, unit) result" where
  "unit_check tasks dependencies [] = Inr ()"
| "unit_check tasks dependencies (t # ts) =
     (if unit_missing tasks dependencies t \<noteq> []
      then Inl (MissingPrerequisite t (unit_missing tasks dependencies t))
      else unit_check tasks dependencies ts)"

definition release_unit_new ::
  "release_unit_id \<Rightarrow> task_id list \<Rightarrow> (task_id \<times> task_id list) list
    \<Rightarrow> (release_unit_error, release_unit) result" where
  "release_unit_new i tasks dependencies =
     (if tasks = [] then Inl UnitEmpty
      else and_then (unit_check tasks dependencies tasks)
             (\<lambda>_. Inr \<lparr>ru_id = i, ru_task_ids = tasks\<rparr>))"

text \<open>A set of tasks is closed under the dependencies.\<close>

definition closed_under :: "(task_id \<times> task_id list) list \<Rightarrow> task_id set \<Rightarrow> bool" where
  "closed_under dependencies ts \<longleftrightarrow>
     (\<forall>t \<in> ts. \<forall>ds. map_of dependencies t = Some ds \<longrightarrow> set ds \<subseteq> ts)"

lemma unit_missing_empty_iff:
  "unit_missing tasks dependencies t = []
   \<longleftrightarrow> (\<forall>ds. map_of dependencies t = Some ds \<longrightarrow> set ds \<subseteq> set tasks)"
  by (cases "map_of dependencies t") (auto simp: unit_missing_def filter_empty_conv)

lemma unit_check_Inr_iff:
  "unit_check tasks deps ts = Inr u \<longleftrightarrow> (\<forall>t \<in> set ts. unit_missing tasks deps t = [])"
  by (induction ts) auto

lemma unit_check_Inl:
  "unit_check tasks deps ts = Inl e \<Longrightarrow>
     \<exists>t \<in> set ts. unit_missing tasks deps t \<noteq> []
       \<and> e = MissingPrerequisite t (unit_missing tasks deps t)"
  by (induction ts) (auto split: if_splits)

text \<open>a release unit is accepted exactly when it is non-empty and closed under its tasks'
  required inputs; a refusal names a task of the unit and precisely the inputs it omits, at least
  one.\<close>

theorem release_unit_closed:
  "(case release_unit_new i tasks deps of
      Inr u \<Rightarrow> u = \<lparr>ru_id = i, ru_task_ids = tasks\<rparr> \<and> tasks \<noteq> [] \<and> closed_under deps (set tasks)
    | Inl UnitEmpty \<Rightarrow> tasks = []
    | Inl (MissingPrerequisite t missing) \<Rightarrow>
        t \<in> set tasks \<and> missing \<noteq> [] \<and> \<not> closed_under deps (set tasks)
        \<and> (\<exists>ds. map_of deps t = Some ds \<and> set missing = set ds - set tasks))"
proof (cases "release_unit_new i tasks deps")
  case (Inr u)
  then show ?thesis
    by (auto simp: release_unit_new_def res unit_check_Inr_iff unit_missing_empty_iff closed_under_def
        split: if_splits)
next
  case (Inl e)
  show ?thesis
  proof (cases "tasks = []")
    case True
    then show ?thesis by (simp add: release_unit_new_def)
  next
    case False
    then obtain t where t: "t \<in> set tasks" "unit_missing tasks deps t \<noteq> []"
      and e: "e = MissingPrerequisite t (unit_missing tasks deps t)"
      using Inl by (auto simp: release_unit_new_def res dest!: unit_check_Inl)
    then obtain ds where "map_of deps t = Some ds"
      by (cases "map_of deps t") (auto simp: unit_missing_def)
    moreover have "\<not> closed_under deps (set tasks)"
      using t unit_missing_empty_iff [of tasks deps t] by (auto simp: closed_under_def)
    ultimately show ?thesis using Inl t e by (auto simp: unit_missing_def)
  qed
qed

end
