(* ===== verification/Remote.thy ===== *)
theory Remote
  imports Prelude
begin

text \<open>
  The identity of a Git remote (\<open>crates/core/src/remote.rs\<close>).

  A remote URL is an address and one repository has several; the identity drops the scheme, the
  user, the case of the host, the \<open>.git\<close> suffix and surrounding slashes.  The lemmas give the
  identity of each address form in closed form, and a pair of different repositories that share one.
\<close>

datatype remote_identity = RemoteIdentity (identity_str: string)

text \<open>\<open>str::trim_matches\<close> with a single character.\<close>

definition trim_matches :: "char \<Rightarrow> string \<Rightarrow> string" where
  "trim_matches c s = rev (dropWhile (\<lambda>x. x = c) (rev (dropWhile (\<lambda>x. x = c) s)))"

text \<open>The text after the first occurrence of a separator, or all of it.\<close>

definition after_once :: "string \<Rightarrow> string \<Rightarrow> string" where
  "after_once sep s = (case split_once sep s of None \<Rightarrow> s | Some (_, after) \<Rightarrow> after)"

definition split_host_and_path :: "string \<Rightarrow> string option \<times> string" where
  "split_host_and_path address =
     (case split_once ''://'' address of
        Some (_, rest) \<Rightarrow>
          (let rest = after_once ''@'' rest
           in case split_once ''/'' rest of
                Some (authority, path) \<Rightarrow> (Some authority, path)
              | None \<Rightarrow> (Some rest, []))
      | None \<Rightarrow>
          (case split_once '':'' address of
             Some (authority, path) \<Rightarrow>
               if \<not> prefix ''/'' address \<and> \<not> prefix ''/'' path
               then (Some (after_once ''@'' authority), path)
               else (None, address)
           | None \<Rightarrow> (None, address)))"

definition strip_git :: "string \<Rightarrow> string" where
  "strip_git p = (case strip_suffix ''.git'' p of None \<Rightarrow> p | Some q \<Rightarrow> q)"

definition remote_identity_of :: "string \<Rightarrow> remote_identity" where
  "remote_identity_of address =
     (let (host, path) = split_host_and_path (trim address);
          path = strip_git (trim_matches CHR ''/'' path)
      in case host of
           Some host \<Rightarrow> RemoteIdentity (to_ascii_lowercase host @ ''/'' @ path)
         | None \<Rightarrow> RemoteIdentity (''/'' @ path))"

section \<open>Splitting\<close>

lemma split_once_char: "c \<notin> set a \<Longrightarrow> split_once [c] (a @ c # b) = Some (a, b)"
  by (induction a) auto

lemma split_once_char_None: "c \<notin> set a \<Longrightarrow> split_once [c] a = None"
  by (induction a) auto

lemma split_once_scheme: "CHR '':'' \<notin> set s \<Longrightarrow> split_once ''://'' (s @ ''://'' @ r) = Some (s, r)"
  by (induction s) auto

lemma split_once_scheme_None: "\<not> contains s ''://'' \<Longrightarrow> split_once ''://'' s = None"
  by (induction s) auto

lemma after_once_here: "c \<notin> set a \<Longrightarrow> after_once [c] (a @ c # b) = b"
  by (simp add: after_once_def split_once_char)

lemma after_once_absent: "c \<notin> set a \<Longrightarrow> after_once [c] a = a"
  by (simp add: after_once_def split_once_char_None)

lemma dropWhile_hd_id: "xs \<noteq> [] \<Longrightarrow> \<not> P (hd xs) \<Longrightarrow> dropWhile P xs = xs"
  by (cases xs) auto

lemma trim_matches_slash_end: "trim_matches c (s @ [c]) = trim_matches c s"
  by (cases "\<forall>x \<in> set s. x = c") (auto simp: trim_matches_def dropWhile_append3 dest: set_dropWhileD)

lemma trim_matches_slash_front: "trim_matches c (c # s) = trim_matches c s"
  by (simp add: trim_matches_def)

lemma trim_matches_id: "s \<noteq> [] \<Longrightarrow> hd s \<noteq> c \<Longrightarrow> last s \<noteq> c \<Longrightarrow> trim_matches c s = s"
  using dropWhile_hd_id [of s "\<lambda>x. x = c"] dropWhile_hd_id [of "rev s" "\<lambda>x. x = c"]
  by (simp add: trim_matches_def hd_rev)

lemma strip_git_suffix [simp]: "strip_git (p @ ''.git'') = p"
  by (simp add: strip_git_def strip_suffix_def suffix_def)

text \<open>A path as an owner writes it: no slash at either end, and not itself ending in the suffix.\<close>

definition clean_path :: "string \<Rightarrow> bool" where
  "clean_path p \<longleftrightarrow> p \<noteq> [] \<and> hd p \<noteq> CHR ''/'' \<and> last p \<noteq> CHR ''/'' \<and> \<not> suffix ''.git'' p"

lemma clean_path_forms:
  assumes "clean_path p"
  shows "strip_git (trim_matches CHR ''/'' p) = p"
    and "strip_git (trim_matches CHR ''/'' (p @ ''/'')) = p"
    and "strip_git (trim_matches CHR ''/'' (p @ ''.git'')) = p"
    and "strip_git (trim_matches CHR ''/'' (p @ ''.git/'')) = p"
proof -
  have "p \<noteq> []" "hd p \<noteq> CHR ''/''" "last p \<noteq> CHR ''/''" "\<not> suffix ''.git'' p"
    using assms by (auto simp: clean_path_def)
  then have 1: "trim_matches CHR ''/'' p = p"
    and 2: "trim_matches CHR ''/'' (p @ ''.git'') = p @ ''.git''"
    by (auto intro!: trim_matches_id)
  show "strip_git (trim_matches CHR ''/'' p) = p"
    and "strip_git (trim_matches CHR ''/'' (p @ ''/'')) = p"
    using \<open>\<not> suffix ''.git'' p\<close> 1
    by (simp_all add: strip_git_def strip_suffix_def trim_matches_slash_end)
  show "strip_git (trim_matches CHR ''/'' (p @ ''.git'')) = p"
    using 2 by simp
  have "trim_matches CHR ''/'' ((p @ ''.git'') @ ''/'') = p @ ''.git''"
    using 2 trim_matches_slash_end by metis
  then show "strip_git (trim_matches CHR ''/'' (p @ ''.git/'')) = p"
    by simp
qed

section \<open>The address forms\<close>

definition address_suffixes :: "string list" where
  "address_suffixes = ['''', ''/'', ''.git'', ''.git/'']"

lemma clean_path_address_suffixes:
  "clean_path p \<Longrightarrow> e \<in> set address_suffixes \<Longrightarrow> strip_git (trim_matches CHR ''/'' (p @ e)) = p"
  using clean_path_forms by (auto simp: address_suffixes_def)

text \<open>every way of writing one hosted repository has one identity: any scheme, with or without
  a user, or the scp form, the host in any case, and the path with or without a trailing slash or
  \<open>.git\<close>, all give the lower-cased host and the path as written.  The path may hold no at sign and
  the address no white space at its ends.\<close>

theorem remote_identity_forms:
  assumes host: "CHR ''/'' \<notin> set h" "CHR ''@'' \<notin> set h" "CHR '':'' \<notin> set h"
    and user: "CHR ''@'' \<notin> set u" "CHR '':'' \<notin> set u" "\<not> prefix ''/'' (u @ ''@'' @ h)"
    and scheme: "CHR '':'' \<notin> set s"
    and path: "clean_path p" "CHR ''@'' \<notin> set p" "\<not> contains (u @ ''@'' @ h @ '':'' @ p @ e) ''://''"
    and e: "e \<in> set address_suffixes"
    and address: "a \<in> {s @ ''://'' @ h @ ''/'' @ p @ e, s @ ''://'' @ u @ ''@'' @ h @ ''/'' @ p @ e,
                        u @ ''@'' @ h @ '':'' @ p @ e}"
    and trimmed: "trim a = a"
  shows "remote_identity_of a = RemoteIdentity (to_ascii_lowercase h @ ''/'' @ p)"
proof -
  note forms = clean_path_address_suffixes [OF path(1) e]
  have at_e: "CHR ''@'' \<notin> set e" using e by (auto simp: address_suffixes_def)
  have no_slash: "\<not> prefix ''/'' (p @ e)"
    using path(1) by (cases p) (auto simp: clean_path_def)
  have plain: "CHR ''@'' \<notin> set (h @ ''/'' @ p @ e)" using host path(2) at_e by auto
  have split1: "split_host_and_path (s @ ''://'' @ h @ ''/'' @ p @ e) = (Some h, p @ e)"
    using split_once_scheme [OF scheme, of "h @ ''/'' @ p @ e"] after_once_absent [OF plain]
      split_once_char [OF host(1), of "p @ e"]
    by (simp add: split_host_and_path_def Let_def)
  have split2: "split_host_and_path (s @ ''://'' @ u @ ''@'' @ h @ ''/'' @ p @ e) = (Some h, p @ e)"
    using split_once_scheme [OF scheme, of "u @ ''@'' @ h @ ''/'' @ p @ e"]
      after_once_here [OF user(1), of "h @ ''/'' @ p @ e"] split_once_char [OF host(1), of "p @ e"]
    by (simp add: split_host_and_path_def Let_def)
  have colon: "CHR '':'' \<notin> set (u @ ''@'' @ h)" using host user by auto
  have split3: "split_host_and_path (u @ ''@'' @ h @ '':'' @ p @ e) = (Some h, p @ e)"
    using split_once_scheme_None [OF path(3)] split_once_char [OF colon, of "p @ e"]
      after_once_here [OF user(1), of h] user(3) no_slash
    by (auto simp: split_host_and_path_def prefix_def split: if_splits)
       (metis append_Cons append_Nil append_self_conv2 hd_append2 list.sel(1))+
  have "split_host_and_path a = (Some h, p @ e)" using address split1 split2 split3 by auto
  then show ?thesis
    using trimmed forms by (simp add: remote_identity_of_def)
qed

theorem remote_identity_forms_witness:
  "remote_identity_of ''git@GitHub.com:example/project.git''
     = RemoteIdentity ''github.com/example/project''
   \<and> remote_identity_of ''https://GitHub.com/example/project/''
     = RemoteIdentity ''github.com/example/project''"
proof -
  have lower: "to_ascii_lowercase ''GitHub.com'' = ''github.com''"
    by code_simp
  have trims: "trim ''git@GitHub.com:example/project.git'' = ''git@GitHub.com:example/project.git''"
    "trim ''https://GitHub.com/example/project/'' = ''https://GitHub.com/example/project/''"
    by (simp_all add: trim_def trim_start_def trim_end_def ws_encodings_def)
  have "remote_identity_of ''git@GitHub.com:example/project.git''
      = RemoteIdentity (to_ascii_lowercase ''GitHub.com'' @ ''/'' @ ''example/project'')"
    by (rule remote_identity_forms [where s = "''https''" and u = "''git''" and e = "''.git''"])
       (simp_all add: clean_path_def address_suffixes_def trims suffix_def)
  moreover have "remote_identity_of ''https://GitHub.com/example/project/''
      = RemoteIdentity (to_ascii_lowercase ''GitHub.com'' @ ''/'' @ ''example/project'')"
    by (rule remote_identity_forms [where s = "''https''" and u = "''git''" and e = "''/''"])
       (simp_all add: clean_path_def address_suffixes_def trims suffix_def)
  ultimately show ?thesis using lower by simp
qed

text \<open>an at sign in the path is taken for the end of a user name, so two repositories on
  different hosts can share an identity: the host is dropped and a path component takes its
  place.\<close>

theorem remote_identity_at_sign_collision:
  "remote_identity_of ''https://github.com/@acme/tool'' = remote_identity_of ''https://gitlab.com/@acme/tool''
   \<and> remote_identity_of ''https://github.com/@acme/tool'' = RemoteIdentity ''acme/tool''"
proof -
  have "trim ''https://github.com/@acme/tool'' = ''https://github.com/@acme/tool''"
    "trim ''https://gitlab.com/@acme/tool'' = ''https://gitlab.com/@acme/tool''"
    by (simp_all add: trim_def trim_start_def trim_end_def ws_encodings_def)
  then show ?thesis
    by (simp add: remote_identity_of_def split_host_and_path_def after_once_def trim_matches_def
        strip_git_def strip_suffix_def suffix_def to_ascii_lowercase_def ascii_lower_def)
qed

end
