(* ===== verification/Graph.thy ===== *)
theory Graph
  imports Policy "HOL-Library.Multiset"
begin

text \<open>
  The task graph (\<open>crates/core/src/graph.rs\<close>).

  \<open>topological_order\<close> is Kahn's algorithm on ordered containers: a count of open dependencies
  per task, the dependents of each task, and the set of ready tasks, of which the smallest is taken
  first.  A panic of the source (a missing dependent, a count below zero) is \<open>None\<close>; the theorems
  show that none happens, that the order puts every task after its dependencies, and that the
  algorithm fails exactly on cyclic graphs.
\<close>

section \<open>Definitions\<close>

record task_definition =
  td_id :: task_id
  td_name :: string
  td_dependencies :: "(task_id \<times> target_milestone) list"

datatype task_definition_error = EmptyName task_id

definition task_definition_new ::
  "task_id \<Rightarrow> string \<Rightarrow> (task_id \<times> target_milestone) list
    \<Rightarrow> (task_definition_error, task_definition) result" where
  "task_definition_new i name deps =
     (if blank name then Inl (EmptyName i)
      else Inr \<lparr>td_id = i, td_name = name, td_dependencies = deps\<rparr>)"

datatype graph_error =
    DuplicateTask task_id
  | SelfDependency task_id
  | UnknownDependency task_id task_id
  | DependencyCycle "task_id list"

type_synonym task_map = "(task_id \<times> task_definition) list"

record task_graph =
  tg_tasks :: task_map
  tg_topological_order :: "task_id list"

definition dep_keys :: "task_definition \<Rightarrow> task_id list" where
  "dep_keys t = map fst (td_dependencies t)"

text \<open>The first loop of \<open>TaskGraph::new\<close>.\<close>

fun collect_tasks :: "task_map \<Rightarrow> task_definition list \<Rightarrow> (graph_error, task_map) result" where
  "collect_tasks m [] = Inr m"
| "collect_tasks m (t # ts) =
     (if map_of m (td_id t) \<noteq> None then Inl (DuplicateTask (td_id t))
      else collect_tasks (btm_insert (td_id t) t m) ts)"

text \<open>The second loop: every dependency is another, known task.\<close>

definition check_dependency :: "task_map \<Rightarrow> task_definition \<Rightarrow> task_id \<Rightarrow> (graph_error, unit) result" where
  "check_dependency m t d =
     (if d = td_id t then Inl (SelfDependency (td_id t))
      else if map_of m d = None then Inl (UnknownDependency (td_id t) d)
      else Inr ())"

definition check_dependencies :: "task_map \<Rightarrow> (graph_error, unit) result" where
  "check_dependencies m = for_each (\<lambda>(_, t). for_each (check_dependency m t) (dep_keys t)) m"

text \<open>\<open>dependents.entry(d).or_default().insert(t)\<close> for every dependency of every task.\<close>

definition add_dependent ::
  "task_id \<Rightarrow> task_id \<Rightarrow> (task_id \<times> task_id list) list \<Rightarrow> (task_id \<times> task_id list) list" where
  "add_dependent t d m =
     btm_insert d (bts_insert t (case map_of m d of None \<Rightarrow> [] | Some s \<Rightarrow> s)) m"

definition dependents_of :: "task_map \<Rightarrow> (task_id \<times> task_id list) list" where
  "dependents_of m = fold (\<lambda>(_, t) acc. fold (add_dependent (td_id t)) (dep_keys t) acc) m []"

text \<open>The inner loop: one dependency of each dependent is settled.\<close>

fun settle ::
  "(task_id \<times> nat) list \<Rightarrow> task_id list \<Rightarrow> task_id list \<Rightarrow> ((task_id \<times> nat) list \<times> task_id list) option" where
  "settle remaining ready [] = Some (remaining, ready)"
| "settle remaining ready (d # ds) =
     (case map_of remaining d of
        None \<Rightarrow> None
      | Some 0 \<Rightarrow> None
      | Some (Suc c) \<Rightarrow>
          settle (btm_replace d c remaining) (if c = 0 then bts_insert d ready else ready) ds)"

lemma settle_measure:
  "settle remaining ready ds = Some (remaining', ready') \<Longrightarrow>
     sum_list (map snd remaining') + length ready' \<le> sum_list (map snd remaining) + length ready"
proof (induction remaining ready ds rule: settle.induct)
  case (1 remaining ready)
  then show ?case by simp
next
  case (2 remaining ready d ds)
  then obtain c where c: "map_of remaining d = Some (Suc c)"
    by (auto split: option.splits nat.splits)
  have "sum_list (map snd remaining') + length ready'
      \<le> sum_list (map snd (btm_replace d c remaining)) + length (if c = 0 then bts_insert d ready else ready)"
    using 2 c by simp
  then show ?case
    using sum_btm_replace [OF c] length_bts_insert [of d ready] by (auto split: if_splits)
qed

text \<open>The outer loop: the smallest ready task is taken until none is left.\<close>

function kahn ::
  "(task_id \<times> task_id list) list \<Rightarrow> (task_id \<times> nat) list \<Rightarrow> task_id list \<Rightarrow> task_id list
    \<Rightarrow> ((task_id \<times> nat) list \<times> task_id list) option" where
  "kahn dependents remaining [] ordered = Some (remaining, ordered)"
| "kahn dependents remaining (t # ready) ordered =
     (case settle remaining ready (case map_of dependents t of None \<Rightarrow> [] | Some ds \<Rightarrow> ds) of
        None \<Rightarrow> None
      | Some (remaining', ready') \<Rightarrow> kahn dependents remaining' ready' (ordered @ [t]))"
  by pat_completeness auto
termination
  by (relation "measure (\<lambda>(dependents, remaining, ready, ordered).
        sum_list (map snd remaining) + length ready)")
     (auto dest: settle_measure)

definition initial_remaining :: "task_map \<Rightarrow> (task_id \<times> nat) list" where
  "initial_remaining m = map (\<lambda>(i, t). (i, length (td_dependencies t))) m"

definition initial_ready :: "(task_id \<times> nat) list \<Rightarrow> task_id list" where
  "initial_ready remaining = bts_collect (map fst (filter (\<lambda>(_, c). c = 0) remaining))"

definition topological_order :: "task_map \<Rightarrow> (graph_error, task_id list) result option" where
  "topological_order m =
     (let remaining = initial_remaining m
      in map_option
           (\<lambda>(remaining, ordered).
              if length ordered \<noteq> length m
              then Inl (DependencyCycle (map fst (filter (\<lambda>(_, c). 0 < c) remaining)))
              else Inr ordered)
           (kahn (dependents_of m) remaining (initial_ready remaining) []))"

definition task_graph_new :: "task_definition list \<Rightarrow> (graph_error, task_graph) result option" where
  "task_graph_new tasks =
     (case and_then (collect_tasks [] tasks)
             (\<lambda>m. and_then (check_dependencies m) (\<lambda>_. Inr m)) of
        Inl e \<Rightarrow> Some (Inl e)
      | Inr m \<Rightarrow> map_option
          (\<lambda>r. and_then r (\<lambda>order. Inr \<lparr>tg_tasks = m, tg_topological_order = order\<rparr>))
          (topological_order m))"

definition tg_len :: "task_graph \<Rightarrow> nat" where "tg_len g = length (tg_tasks g)"

definition tg_is_empty :: "task_graph \<Rightarrow> bool" where "tg_is_empty g \<longleftrightarrow> tg_tasks g = []"

definition tg_task :: "task_graph \<Rightarrow> task_id \<Rightarrow> task_definition option" where
  "tg_task g i = map_of (tg_tasks g) i"

section \<open>What the loops compute\<close>

text \<open>A map of tasks as the first two loops leave it.\<close>

definition graph_wf :: "task_map \<Rightarrow> bool" where
  "graph_wf m \<longleftrightarrow> btm_sorted m
     \<and> (\<forall>(i, t) \<in> set m. td_id t = i \<and> distinct (dep_keys t)
          \<and> (\<forall>d \<in> set (dep_keys t). d \<noteq> i \<and> d \<in> fst ` set m))"

definition ids :: "task_map \<Rightarrow> task_id set" where "ids m = fst ` set m"

definition deps :: "task_map \<Rightarrow> task_id \<Rightarrow> task_id set" where
  "deps m x = (case map_of m x of None \<Rightarrow> {} | Some t \<Rightarrow> set (dep_keys t))"

definition get_or_empty :: "(task_id \<times> task_id list) list \<Rightarrow> task_id \<Rightarrow> task_id list" where
  "get_or_empty mm x = (case map_of mm x of None \<Rightarrow> [] | Some s \<Rightarrow> s)"

text \<open>Every element of a list has its dependencies before it.\<close>

definition deps_first :: "(task_id \<Rightarrow> task_id set) \<Rightarrow> task_id list \<Rightarrow> bool" where
  "deps_first D xs \<longleftrightarrow> (\<forall>as x bs. xs = as @ x # bs \<longrightarrow> D x \<subseteq> set as)"

lemma deps_first_Nil [simp]: "deps_first D []"
  by (simp add: deps_first_def)

lemma deps_first_snoc: "deps_first D xs \<Longrightarrow> D x \<subseteq> set xs \<Longrightarrow> deps_first D (xs @ [x])"
  unfolding deps_first_def
  by (metis append_eq_append_conv2 append_eq_Cons_conv butlast.simps(2) butlast_append
      butlast_snoc last_snoc last_ConsL last_appendR list.distinct(1))

lemma deps_first_subset: "deps_first D xs \<Longrightarrow> x \<in> set xs \<Longrightarrow> D x \<subseteq> set xs"
  unfolding deps_first_def by (metis in_set_conv_decomp set_append sup.coboundedI1)

lemma deps_finite: "finite (deps m x)"
  by (simp add: deps_def split: option.split)

lemma graph_wf_entry:
  assumes "graph_wf m" and "map_of m x = Some t"
  shows "td_id t = x" and "distinct (dep_keys t)" and "x \<notin> set (dep_keys t)"
    and "set (dep_keys t) \<subseteq> ids m"
  using assms by (auto simp: graph_wf_def ids_def dest!: map_of_SomeD)

lemma deps_wf:
  assumes "graph_wf m"
  shows "deps m x \<subseteq> ids m" and "x \<notin> deps m x"
  using graph_wf_entry [OF assms] by (auto simp: deps_def split: option.splits)

lemma card_deps:
  assumes "graph_wf m" and "map_of m x = Some t"
  shows "card (deps m x) = length (td_dependencies t)"
  using graph_wf_entry(2) [OF assms] assms(2) distinct_card [of "dep_keys t"]
  by (simp add: deps_def dep_keys_def)

lemma ids_dom: "x \<in> ids m \<longleftrightarrow> (\<exists>t. map_of m x = Some t)"
  using keys_eq_dom [of m] by (auto simp: ids_def)

lemma add_dependent_spec:
  assumes "btm_sorted mm"
  shows "btm_sorted (add_dependent t d mm)"
    and "get_or_empty (add_dependent t d mm) x
      = (if x = d then bts_insert t (get_or_empty mm d) else get_or_empty mm x)"
  using assms btm.invar_insert btm.get_insert [OF assms]
  by (auto simp: add_dependent_def get_or_empty_def)

lemma add_dependents_inner:
  assumes "btm_sorted mm" and "\<forall>x. bts_sorted (get_or_empty mm x)"
  shows "btm_sorted (fold (add_dependent t) ks mm)
    \<and> (\<forall>x. bts_sorted (get_or_empty (fold (add_dependent t) ks mm) x))
    \<and> (\<forall>x. set (get_or_empty (fold (add_dependent t) ks mm) x)
          = set (get_or_empty mm x) \<union> (if x \<in> set ks then {t} else {}))"
  using assms
proof (induction ks arbitrary: mm)
  case Nil
  then show ?case by simp
next
  case (Cons k ks)
  note spec = add_dependent_spec [OF Cons.prems(1), of t k]
  have "\<forall>x. bts_sorted (get_or_empty (add_dependent t k mm) x)"
    using Cons.prems(2) spec(2) by (auto intro: bts_insert_sorted)
  from Cons.IH [OF spec(1) this] show ?case by (auto simp: spec(2))
qed

lemma add_dependents_outer:
  assumes "btm_sorted mm" and "\<forall>x. bts_sorted (get_or_empty mm x)"
  shows "(\<forall>x. bts_sorted (get_or_empty
            (fold (\<lambda>(_, t) acc. fold (add_dependent (td_id t)) (dep_keys t) acc) ts mm) x))
    \<and> (\<forall>x. set (get_or_empty
            (fold (\<lambda>(_, t) acc. fold (add_dependent (td_id t)) (dep_keys t) acc) ts mm) x)
          = set (get_or_empty mm x) \<union> {td_id t | i t. (i, t) \<in> set ts \<and> x \<in> set (dep_keys t)})"
  using assms
proof (induction ts arbitrary: mm)
  case Nil
  then show ?case by simp
next
  case (Cons p ts)
  obtain i t where p: "p = (i, t)" by fastforce
  define mm' where "mm' = fold (add_dependent (td_id t)) (dep_keys t) mm"
  have 1: "btm_sorted mm'" and 2: "\<forall>x. bts_sorted (get_or_empty mm' x)"
    and 3: "\<And>x. set (get_or_empty mm' x)
      = set (get_or_empty mm x) \<union> (if x \<in> set (dep_keys t) then {td_id t} else {})"
    using add_dependents_inner [OF Cons.prems, of "td_id t" "dep_keys t"] by (auto simp: mm'_def)
  have f: "fold (\<lambda>(_, t) acc. fold (add_dependent (td_id t)) (dep_keys t) acc) (p # ts) mm
      = fold (\<lambda>(_, t) acc. fold (add_dependent (td_id t)) (dep_keys t) acc) ts mm'"
    by (simp add: p mm'_def)
  have "{td_id t | i t. (i, t) \<in> set (p # ts) \<and> x \<in> set (dep_keys t)}
      = (if x \<in> set (dep_keys t) then {td_id t} else {})
        \<union> {td_id t | i t. (i, t) \<in> set ts \<and> x \<in> set (dep_keys t)}" for x
    by (auto simp: p)
  then show ?case unfolding f using Cons.IH [OF 1 2] by (simp add: 3 Un_assoc)
qed

lemma dependents_of_spec:
  assumes "graph_wf m"
  shows "set (get_or_empty (dependents_of m) x) = {i \<in> ids m. x \<in> deps m i}"
    and "distinct (get_or_empty (dependents_of m) x)"
proof -
  have e: "btm_sorted ([] :: (task_id \<times> task_id list) list)"
    "\<forall>x. bts_sorted (get_or_empty [] x)"
    using btm.invar_empty by (auto simp: get_or_empty_def bts_sorted_def)
  have e0: "get_or_empty [] x = []" by (simp add: get_or_empty_def)
  have d: "distinct (map fst m)" using assms by (auto simp: graph_wf_def btm_sorted_distinct)
  have h: "(i, t) \<in> set m \<longleftrightarrow> map_of m i = Some t" for i t
    using d by (simp add: map_of_eq_Some_iff)
  have "{td_id t | i t. (i, t) \<in> set m \<and> x \<in> set (dep_keys t)} = {i \<in> ids m. x \<in> deps m i}"
  proof (intro equalityI subsetI)
    fix y
    assume "y \<in> {td_id t | i t. (i, t) \<in> set m \<and> x \<in> set (dep_keys t)}"
    then obtain i t where t: "y = td_id t" "map_of m i = Some t" "x \<in> set (dep_keys t)"
      using h by blast
    then have "y = i" using graph_wf_entry(1) [OF assms] by simp
    then show "y \<in> {i \<in> ids m. x \<in> deps m i}" using t by (auto simp: ids_dom deps_def)
  next
    fix y
    assume "y \<in> {i \<in> ids m. x \<in> deps m i}"
    then obtain t where t: "map_of m y = Some t" "x \<in> set (dep_keys t)"
      by (auto simp: ids_dom deps_def)
    then have "td_id t = y" using graph_wf_entry(1) [OF assms] by simp
    then show "y \<in> {td_id t | i t. (i, t) \<in> set m \<and> x \<in> set (dep_keys t)}"
      using t h by blast
  qed
  then show "set (get_or_empty (dependents_of m) x) = {i \<in> ids m. x \<in> deps m i}"
    using add_dependents_outer [OF e, of m] e0 by (simp add: dependents_of_def)
  show "distinct (get_or_empty (dependents_of m) x)"
    using add_dependents_outer [OF e, of m] by (simp add: dependents_of_def bts_sorted_distinct)
qed

lemma settle_spec:
  assumes "distinct ds" and "\<forall>d \<in> set ds. \<exists>c. map_of remaining d = Some (Suc c)"
    and "bts_sorted ready"
  shows "\<exists>remaining' ready'. settle remaining ready ds = Some (remaining', ready')
    \<and> map fst remaining' = map fst remaining
    \<and> (\<forall>x. map_of remaining' x
          = (if x \<in> set ds then map_option (\<lambda>c. c - 1) (map_of remaining x) else map_of remaining x))
    \<and> bts_sorted ready'
    \<and> set ready' = set ready \<union> {x \<in> set ds. map_of remaining x = Some 1}"
  using assms
proof (induction ds arbitrary: remaining ready)
  case Nil
  then show ?case by simp
next
  case (Cons d ds)
  then obtain c where c: "map_of remaining d = Some (Suc c)" by auto
  define r where "r = btm_replace d c remaining"
  define q where "q = (if c = 0 then bts_insert d ready else ready)"
  have keys: "map fst r = map fst remaining"
    using keys_btm_replace [of d remaining c] map_of_SomeD [OF c] unfolding r_def by force
  have rd: "map_of r = (map_of remaining)(d \<mapsto> c)" by (simp add: r_def map_of_btm_replace)
  have "\<forall>x \<in> set ds. \<exists>c. map_of r x = Some (Suc c)" using Cons.prems rd by auto
  moreover have "bts_sorted q" using Cons.prems(3) by (simp add: q_def bts_insert_sorted)
  moreover have "distinct ds" using Cons.prems(1) by simp
  ultimately obtain r' q' where s: "settle r q ds = Some (r', q')"
    and k: "map fst r' = map fst r" and o: "bts_sorted q'"
    and m: "\<And>x. map_of r' x = (if x \<in> set ds then map_option (\<lambda>c. c - 1) (map_of r x) else map_of r x)"
    and qs: "set q' = set q \<union> {x \<in> set ds. map_of r x = Some 1}"
    using Cons.IH by blast
  have dn: "d \<notin> set ds" using Cons.prems(1) by simp
  have "settle remaining ready (d # ds) = Some (r', q')"
    using c s by (simp add: r_def q_def)
  moreover have "\<forall>x. map_of r' x = (if x \<in> set (d # ds)
      then map_option (\<lambda>c. c - 1) (map_of remaining x) else map_of remaining x)"
    using m rd dn c by auto
  moreover have "set q' = set ready \<union> {x \<in> set (d # ds). map_of remaining x = Some 1}"
  proof -
    have "{x \<in> set ds. map_of r x = Some 1} = {x \<in> set ds. map_of remaining x = Some 1}"
      using rd dn by auto
    moreover have "set q = set ready \<union> (if c = 0 then {d} else {})" by (simp add: q_def)
    moreover have "{x \<in> set (d # ds). map_of remaining x = Some 1}
        = (if c = 0 then {d} else {}) \<union> {x \<in> set ds. map_of remaining x = Some 1}"
      using c by auto
    ultimately show ?thesis using qs by (simp only: Un_assoc)
  qed
  moreover have "map fst r' = map fst remaining" using k keys by simp
  ultimately show ?case using o by blast
qed

section \<open>The invariant of the outer loop\<close>

definition kahn_inv :: "task_map \<Rightarrow> (task_id \<times> nat) list \<Rightarrow> task_id list \<Rightarrow> task_id list \<Rightarrow> bool" where
  "kahn_inv m remaining ready ordered \<longleftrightarrow>
     distinct ordered \<and> set ordered \<subseteq> ids m \<and> deps_first (deps m) ordered
   \<and> map fst remaining = map fst m
   \<and> (\<forall>x \<in> ids m. map_of remaining x = Some (card (deps m x - set ordered)))
   \<and> bts_sorted ready
   \<and> set ready = {x \<in> ids m. x \<notin> set ordered \<and> deps m x \<subseteq> set ordered}"

lemma kahn_inv_initial:
  assumes "graph_wf m"
  shows "kahn_inv m (initial_remaining m) (initial_ready (initial_remaining m)) []"
proof -
  have r: "map_of (initial_remaining m) x = map_option (\<lambda>t. length (td_dependencies t)) (map_of m x)" for x
    by (simp add: initial_remaining_def map_of_map)
  have c: "map_of (initial_remaining m) x = Some (card (deps m x))" if "x \<in> ids m" for x
    using that r card_deps [OF assms] by (auto simp: ids_dom)
  have k: "map fst (initial_remaining m) = map fst m"
    by (simp add: initial_remaining_def comp_def case_prod_unfold)
  have "distinct (map fst (initial_remaining m))"
    using assms k by (simp add: graph_wf_def btm_sorted_distinct)
  then have e: "(x, n) \<in> set (initial_remaining m) \<longleftrightarrow> map_of (initial_remaining m) x = Some n" for x n
    by (simp add: map_of_eq_Some_iff)
  have n: "x \<in> ids m" if "map_of (initial_remaining m) x = Some n" for x n
    using that r by (auto simp: ids_dom)
  have "set (initial_ready (initial_remaining m)) = {x. map_of (initial_remaining m) x = Some 0}"
    by (force simp: initial_ready_def e)
  moreover have "map_of (initial_remaining m) x = Some 0 \<longleftrightarrow> x \<in> ids m \<and> deps m x = {}" for x
    using c [of x] n [of x 0] deps_finite [of m x] by (auto simp: card_eq_0_iff)
  ultimately have "set (initial_ready (initial_remaining m)) = {x \<in> ids m. deps m x = {}}"
    by simp
  then show ?thesis
    using c k by (simp add: kahn_inv_def initial_ready_def bts_collect_sorted)
qed

lemma kahn_inv_step:
  assumes wf: "graph_wf m" and inv: "kahn_inv m remaining (t # ready) ordered"
  shows "\<exists>remaining' ready'.
      settle remaining ready (get_or_empty (dependents_of m) t) = Some (remaining', ready')
      \<and> kahn_inv m remaining' ready' (ordered @ [t])"
proof -
  let ?D = "deps m" and ?o = "set ordered"
  have o: "distinct ordered" "?o \<subseteq> ids m" "deps_first ?D ordered" "map fst remaining = map fst m"
    "bts_sorted ready" "t \<notin> set ready"
    and cnt: "\<And>x. x \<in> ids m \<Longrightarrow> map_of remaining x = Some (card (?D x - ?o))"
    and rdy: "insert t (set ready) = {x \<in> ids m. x \<notin> ?o \<and> ?D x \<subseteq> ?o}"
    using inv by (auto simp: kahn_inv_def bts_sorted_def)
  have t: "t \<in> ids m" "t \<notin> ?o" "?D t \<subseteq> ?o" using rdy by auto
  define ds where "ds = get_or_empty (dependents_of m) t"
  have ds: "set ds = {i \<in> ids m. t \<in> ?D i}" "distinct ds"
    using dependents_of_spec [OF wf, of t] by (simp_all add: ds_def)
  have minus: "?D x - set (ordered @ [t]) = ?D x - ?o - {t}" for x by auto
  have pos: "card (?D x - ?o) = Suc (card (?D x - set (ordered @ [t])))" if "x \<in> set ds" for x
    using that ds t(2) card_Suc_Diff1 [of "?D x - ?o" t] deps_finite [of m x] minus by auto
  have same: "?D x - ?o = ?D x - set (ordered @ [t])" if "x \<in> ids m" "x \<notin> set ds" for x
    using that ds by auto
  have "\<forall>d \<in> set ds. \<exists>c. map_of remaining d = Some (Suc c)" using pos cnt ds by auto
  from settle_spec [OF ds(2) this o(5)] obtain r' q'
    where s: "settle remaining ready ds = Some (r', q')" and k: "map fst r' = map fst remaining"
      and m': "\<And>x. map_of r' x
        = (if x \<in> set ds then map_option (\<lambda>c. c - 1) (map_of remaining x) else map_of remaining x)"
      and q: "bts_sorted q'" "set q' = set ready \<union> {x \<in> set ds. map_of remaining x = Some 1}"
    by blast
  have cnt': "map_of r' x = Some (card (?D x - set (ordered @ [t])))" if "x \<in> ids m" for x
  proof (cases "x \<in> set ds")
    case True
    then show ?thesis unfolding m' cnt [OF that] pos [OF True] by simp
  next
    case False
    then show ?thesis unfolding m' cnt [OF that] same [OF that False] by simp
  qed
  have one: "map_of remaining x = Some 1 \<longleftrightarrow> ?D x \<subseteq> set (ordered @ [t])" if "x \<in> set ds" for x
  proof -
    have "map_of remaining x = Some (Suc (card (?D x - set (ordered @ [t]))))"
      using pos [OF that] cnt [of x] ds that by simp
    then show ?thesis using deps_finite [of m x] by (simp add: card_eq_0_iff)
  qed
  have not_done: "x \<notin> ?o" if "x \<in> set ds" for x
    using that ds t(2) deps_first_subset [OF o(3), of x] by auto
  have "t \<notin> set ds" using deps_wf(2) [OF wf] ds by auto
  have "set q' = {x \<in> ids m. x \<notin> set (ordered @ [t]) \<and> ?D x \<subseteq> set (ordered @ [t])}"
  proof (intro equalityI subsetI)
    fix x
    assume "x \<in> set q'"
    then consider "x \<in> set ready" | "x \<in> set ds" "map_of remaining x = Some 1" using q by auto
    then show "x \<in> {x \<in> ids m. x \<notin> set (ordered @ [t]) \<and> ?D x \<subseteq> set (ordered @ [t])}"
    proof cases
      case 1
      then show ?thesis using rdy o(6) by auto
    next
      case 2
      then show ?thesis using one not_done ds \<open>t \<notin> set ds\<close> by auto
    qed
  next
    fix x
    assume x: "x \<in> {x \<in> ids m. x \<notin> set (ordered @ [t]) \<and> ?D x \<subseteq> set (ordered @ [t])}"
    show "x \<in> set q'"
    proof (cases "t \<in> ?D x")
      case True
      then show ?thesis using x one ds q by auto
    next
      case False
      then have "x \<in> insert t (set ready)" using x rdy by auto
      then show ?thesis using x q by auto
    qed
  qed
  then have "kahn_inv m r' q' (ordered @ [t])"
    using o t cnt' k q deps_first_snoc [OF o(3) t(3)] by (simp add: kahn_inv_def)
  then show ?thesis using s by (auto simp: ds_def)
qed

lemma kahn_spec:
  assumes "graph_wf m" and "kahn_inv m remaining ready ordered"
  shows "\<exists>remaining' ordered'. kahn (dependents_of m) remaining ready ordered = Some (remaining', ordered')
    \<and> kahn_inv m remaining' [] ordered'"
  using assms(2)
proof (induction "dependents_of m" remaining ready ordered rule: kahn.induct)
  case (1 remaining ordered)
  then show ?case by simp
next
  case (2 remaining t ready ordered)
  from kahn_inv_step [OF assms(1) "2.prems"] obtain r' q'
    where s: "settle remaining ready (get_or_empty (dependents_of m) t) = Some (r', q')"
      and i: "kahn_inv m r' q' (ordered @ [t])" by blast
  then show ?case
    using "2.hyps" [of "(r', q')" r' q'] by (simp add: get_or_empty_def)
qed

section \<open>Correctness of the order\<close>

definition edges :: "task_map \<Rightarrow> task_id rel" where
  "edges m = {(d, x). x \<in> ids m \<and> d \<in> deps m x}"

lemma deps_first_acyclic:
  assumes "distinct xs" and "deps_first D xs"
  shows "acyclic {(d, x). x \<in> set xs \<and> d \<in> D x}"
proof -
  define rank where "rank x = length (takeWhile (\<lambda>y. y \<noteq> x) xs)" for x
  have "rank d < rank x" if x: "x \<in> set xs" and d: "d \<in> D x" for x d
  proof -
    obtain as bs where xs: "xs = as @ x # bs" "x \<notin> set as" using x split_list_first by fastforce
    then have "d \<in> set as" using assms(2) d by (auto simp: deps_first_def)
    then obtain cs es where "as = cs @ d # es" "d \<notin> set cs" using split_list_first by fastforce
    then have "rank d = length cs" "rank x = length as"
      using xs by (auto simp: rank_def takeWhile_append)
    then show ?thesis using \<open>as = cs @ d # es\<close> by simp
  qed
  then have "{(d, x). x \<in> set xs \<and> d \<in> D x} \<subseteq> measure rank" by auto
  then show ?thesis using acyclic_subset wf_acyclic wf_measure by blast
qed

lemma no_start_cyclic:
  assumes "finite r" and "S \<noteq> {}" and "\<And>x. x \<in> S \<Longrightarrow> \<exists>d \<in> S. (d, x) \<in> r"
  shows "\<not> acyclic r"
proof
  assume "acyclic r"
  with assms(1) have "wf r" by (rule finite_acyclic_wf)
  from assms(2) obtain x where "x \<in> S" by blast
  with \<open>wf r\<close> obtain z where "z \<in> S" and "\<And>y. (y, z) \<in> r \<Longrightarrow> y \<notin> S" by (rule wfE_min) blast
  then show False using assms(3) by blast
qed

lemma edges_finite: "finite (edges m)"
proof -
  have "edges m = (\<Union>x \<in> ids m. (\<lambda>d. (d, x)) ` deps m x)" by (auto simp: edges_def)
  then show ?thesis by (simp add: ids_def deps_finite)
qed

text \<open>The result on a valid map: an order, or a cycle among the reported tasks.\<close>

lemma topological_order_spec:
  assumes wf: "graph_wf m"
  shows "(\<exists>order. topological_order m = Some (Inr order) \<and> acyclic (edges m)
            \<and> distinct order \<and> set order = ids m \<and> deps_first (deps m) order)
       \<or> (\<exists>ts. topological_order m = Some (Inl (DependencyCycle ts)) \<and> \<not> acyclic (edges m)
            \<and> ts \<noteq> [] \<and> set ts \<subseteq> ids m \<and> (\<forall>x \<in> set ts. \<exists>d \<in> set ts. d \<in> deps m x))"
proof -
  obtain r ord where k: "kahn (dependents_of m) (initial_remaining m)
      (initial_ready (initial_remaining m)) [] = Some (r, ord)" and inv: "kahn_inv m r [] ord"
    using kahn_spec [OF wf kahn_inv_initial [OF wf]] by blast
  have dm: "distinct (map fst m)" using wf by (simp add: graph_wf_def btm_sorted_distinct)
  have o: "distinct ord" "set ord \<subseteq> ids m" "deps_first (deps m) ord" "map fst r = map fst m"
    and cnt: "\<And>x. x \<in> ids m \<Longrightarrow> map_of r x = Some (card (deps m x - set ord))"
    and stuck: "\<And>x. x \<in> ids m \<Longrightarrow> x \<notin> set ord \<Longrightarrow> \<not> deps m x \<subseteq> set ord"
    using inv by (auto simp: kahn_inv_def)
  have len: "length m = card (ids m)"
    using dm distinct_card [of "map fst m"] by (simp add: ids_def)
  have fin: "finite (ids m)" by (simp add: ids_def)
  show ?thesis
  proof (cases "length ord = length m")
    case True
    then have eq: "set ord = ids m"
      using o len fin distinct_card [OF o(1)] card_subset_eq by metis
    then have "acyclic (edges m)"
      using deps_first_acyclic [OF o(1,3)] by (simp add: edges_def)
    then show ?thesis using k o eq True by (simp add: topological_order_def)
  next
    case False
    define ts where "ts = map fst (filter (\<lambda>(_, c). 0 < c) r)"
    have "distinct (map fst r)" using dm o(4) by simp
    then have e: "(x, n) \<in> set r \<longleftrightarrow> map_of r x = Some n" for x n
      by (simp add: map_of_eq_Some_iff)
    have dom_r: "x \<in> ids m" if "map_of r x = Some n" for x n
    proof -
      have "x \<in> set (map fst r)" using that e by force
      then show ?thesis unfolding o(4) by (simp add: ids_def)
    qed
    have "set ts = {x. \<exists>n. map_of r x = Some n \<and> 0 < n}" by (force simp: ts_def e)
    then have ts: "set ts = {x \<in> ids m. \<not> deps m x \<subseteq> set ord}"
    proof -
      have "(\<exists>n. map_of r x = Some n \<and> 0 < n) \<longleftrightarrow> x \<in> ids m \<and> \<not> deps m x \<subseteq> set ord" for x
        using cnt [of x] dom_r [of x] deps_finite [of m x] by (auto simp: card_gt_0_iff)
      then show ?thesis using \<open>set ts = {x. \<exists>n. map_of r x = Some n \<and> 0 < n}\<close> by simp
    qed
    have rest: "set ts = ids m - set ord"
      using ts stuck deps_first_subset [OF o(3)] by auto
    have "set ord \<noteq> ids m" using False len o distinct_card by metis
    then have ne: "set ts \<noteq> {}" using rest o(2) by auto
    have step: "\<exists>d \<in> set ts. d \<in> deps m x" if "x \<in> set ts" for x
    proof -
      have "\<not> deps m x \<subseteq> set ord" using that ts by blast
      then obtain d where "d \<in> deps m x" "d \<notin> set ord" by blast
      then show ?thesis using rest deps_wf(1) [OF wf, of x] by blast
    qed
    have "\<not> acyclic (edges m)"
    proof (rule no_start_cyclic [OF edges_finite ne])
      fix x
      assume "x \<in> set ts"
      then show "\<exists>d \<in> set ts. (d, x) \<in> edges m" using step rest by (auto simp: edges_def)
    qed
    moreover have "topological_order m = Some (Inl (DependencyCycle ts))"
      using k False by (simp add: topological_order_def ts_def)
    ultimately show ?thesis using ne rest step by auto
  qed
qed

section \<open>Construction from a list of definitions\<close>

lemma collect_tasks_Inr_iff:
  "collect_tasks m ts = Inr m' \<longleftrightarrow>
     distinct (map td_id ts) \<and> (\<forall>t \<in> set ts. map_of m (td_id t) = None)
     \<and> m' = fold (\<lambda>(k, t). btm_insert k t) (map (\<lambda>t. (td_id t, t)) ts) m" if "btm_sorted m"
  using that
proof (induction ts arbitrary: m)
  case Nil
  then show ?case by auto
next
  case (Cons t ts)
  show ?case
    using Cons.IH [OF btm.invar_insert [OF Cons.prems]] btm.get_insert [OF Cons.prems, of "td_id t" t]
    by auto (metis image_eqI)
qed

lemma collect_tasks_Inl:
  "collect_tasks m ts = Inl e \<Longrightarrow> \<exists>x. e = DuplicateTask x"
  by (induction m ts rule: collect_tasks.induct) (auto split: if_splits)

text \<open>The map built from definitions with distinct identifiers.\<close>

definition by_id :: "task_definition list \<Rightarrow> task_map" where
  "by_id tasks = fold (\<lambda>(k, t). btm_insert k t) (map (\<lambda>t. (td_id t, t)) tasks) []"

lemma collect_tasks_by_id:
  "collect_tasks [] tasks = Inr m \<longleftrightarrow> distinct (map td_id tasks) \<and> m = by_id tasks"
  using collect_tasks_Inr_iff [OF btm.invar_empty, of tasks m] by (simp add: by_id_def)

lemma by_id_sorted: "btm_sorted (by_id tasks)"
  using btm.collect_spec [OF btm.invar_empty, of "map (\<lambda>t. (td_id t, t)) tasks"]
  unfolding by_id_def by blast

lemma map_of_by_id:
  assumes "distinct (map td_id tasks)"
  shows "map_of (by_id tasks) x = Some t \<longleftrightarrow> t \<in> set tasks \<and> td_id t = x"
proof -
  have d: "distinct (map fst (map (\<lambda>t. (td_id t, t)) tasks))" using assms by (simp add: comp_def)
  then show ?thesis
    using btm.collect_get [OF d] map_of_eq_Some_iff [OF d] by (auto simp: by_id_def)
qed

lemma set_by_id:
  assumes "distinct (map td_id tasks)"
  shows "set (by_id tasks) = (\<lambda>t. (td_id t, t)) ` set tasks"
proof -
  have "(x, t) \<in> set (by_id tasks) \<longleftrightarrow> t \<in> set tasks \<and> td_id t = x" for x t
    using map_of_by_id [OF assms] btm_sorted_distinct [OF by_id_sorted]
    by (metis map_of_eq_Some_iff)
  then show ?thesis by auto
qed

lemma ids_by_id: "distinct (map td_id tasks) \<Longrightarrow> ids (by_id tasks) = td_id ` set tasks"
  by (force simp: ids_def set_by_id)

text \<open>The dependency relation of a list of definitions.\<close>

definition depends :: "task_definition list \<Rightarrow> task_id rel" where
  "depends tasks = {(d, td_id t) | d t. t \<in> set tasks \<and> d \<in> set (dep_keys t)}"

lemma edges_by_id:
  assumes "distinct (map td_id tasks)"
  shows "edges (by_id tasks) = depends tasks"
proof -
  note m = map_of_by_id [OF assms]
  have "(d, x) \<in> edges (by_id tasks) \<longleftrightarrow> (\<exists>t. map_of (by_id tasks) x = Some t \<and> d \<in> set (dep_keys t))"
    for d x
    by (auto simp: edges_def deps_def ids_dom)
  then show ?thesis by (auto simp: depends_def m)
qed

lemma check_dependencies_Inr_iff:
  "check_dependencies m = Inr u \<longleftrightarrow>
     (\<forall>(i, t) \<in> set m. \<forall>d \<in> set (dep_keys t). d \<noteq> td_id t \<and> map_of m d \<noteq> None)"
  by (force simp: check_dependencies_def res check_dependency_def case_prod_unfold split: if_splits)

lemma for_each_Inl: "for_each f xs = Inl e \<Longrightarrow> \<exists>x \<in> set xs. f x = Inl e"
  by (induction xs) (auto simp: res)

lemma check_dependencies_Inl:
  assumes "check_dependencies m = Inl e"
  shows "\<exists>(i, t) \<in> set m. \<exists>d \<in> set (dep_keys t).
     e = SelfDependency (td_id t) \<and> d = td_id t
     \<or> e = UnknownDependency (td_id t) d \<and> map_of m d = None"
proof -
  obtain i t where it: "(i, t) \<in> set m" "for_each (check_dependency m t) (dep_keys t) = Inl e"
    using for_each_Inl [OF assms [unfolded check_dependencies_def]] by auto
  obtain d where "d \<in> set (dep_keys t)" "check_dependency m t d = Inl e"
    using for_each_Inl [OF it(2)] by blast
  then show ?thesis using it(1) by (fastforce simp: check_dependency_def split: if_splits)
qed

text \<open>The definitions a valid graph is made of.\<close>

definition tasks_valid :: "task_definition list \<Rightarrow> bool" where
  "tasks_valid tasks \<longleftrightarrow> distinct (map td_id tasks)
     \<and> (\<forall>t \<in> set tasks. \<forall>d \<in> set (dep_keys t). d \<noteq> td_id t \<and> d \<in> td_id ` set tasks)"

definition dependency_maps :: "task_definition list \<Rightarrow> bool" where
  "dependency_maps tasks \<longleftrightarrow> (\<forall>t \<in> set tasks. btm_sorted (td_dependencies t))"

lemma check_by_id:
  assumes "distinct (map td_id tasks)"
  shows "check_dependencies (by_id tasks) = Inr u \<longleftrightarrow> tasks_valid tasks"
  using assms ids_by_id [OF assms]
  by (force simp: check_dependencies_Inr_iff set_by_id tasks_valid_def ids_dom set_eq_iff image_iff)

lemma graph_wf_by_id:
  assumes "tasks_valid tasks" and "dependency_maps tasks"
  shows "graph_wf (by_id tasks)"
proof -
  have d: "distinct (map td_id tasks)" using assms(1) by (simp add: tasks_valid_def)
  show ?thesis
    using assms ids_by_id [OF d] btm_sorted_distinct
    by (auto simp: graph_wf_def by_id_sorted set_by_id [OF d] tasks_valid_def dependency_maps_def
        dep_keys_def ids_def)
qed

lemma task_graph_new_invalid:
  assumes "\<not> tasks_valid tasks"
  shows "\<exists>e. task_graph_new tasks = Some (Inl e) \<and>
     (case e of
        DuplicateTask x \<Rightarrow> \<not> distinct (map td_id tasks)
      | SelfDependency x \<Rightarrow> (x, x) \<in> depends tasks
      | UnknownDependency x d \<Rightarrow> (d, x) \<in> depends tasks \<and> d \<notin> td_id ` set tasks
      | DependencyCycle ts \<Rightarrow> False)"
proof (cases "collect_tasks [] tasks")
  case (Inl e)
  moreover have "\<not> distinct (map td_id tasks)"
    using Inl collect_tasks_by_id [of tasks "by_id tasks"] by auto
  ultimately show ?thesis using collect_tasks_Inl [OF Inl] by (auto simp: task_graph_new_def)
next
  case (Inr m)
  then have d: "distinct (map td_id tasks)" and m: "m = by_id tasks"
    using collect_tasks_by_id by auto
  then obtain e where e: "check_dependencies m = Inl e"
    using check_by_id [OF d] assms by (cases "check_dependencies m") auto
  obtain t k where t: "t \<in> set tasks" "k \<in> set (dep_keys t)"
    and k: "e = SelfDependency (td_id t) \<and> k = td_id t
      \<or> e = UnknownDependency (td_id t) k \<and> map_of m k = None"
    using check_dependencies_Inl [OF e] set_by_id [OF d] m by auto
  have "(k, td_id t) \<in> depends tasks" using t by (auto simp: depends_def)
  moreover have "map_of m k = None \<longleftrightarrow> k \<notin> td_id ` set tasks"
    using ids_by_id [OF d] ids_dom [of k m] m by auto
  ultimately show ?thesis using Inr e k by (auto simp: task_graph_new_def)
qed

lemma task_graph_new_valid:
  assumes "tasks_valid tasks" and "dependency_maps tasks"
  shows "task_graph_new tasks = map_option
      (\<lambda>r. and_then r (\<lambda>order. Inr \<lparr>tg_tasks = by_id tasks, tg_topological_order = order\<rparr>))
      (topological_order (by_id tasks))"
proof -
  have d: "distinct (map td_id tasks)" using assms(1) by (simp add: tasks_valid_def)
  then show ?thesis
    using collect_tasks_by_id [of tasks "by_id tasks"] check_by_id [OF d] assms(1)
    by (simp add: task_graph_new_def)
qed

text \<open>The facts other components build on; the properties below state them in full.\<close>

lemma task_graph_new_order:
  assumes "dependency_maps tasks" and "task_graph_new tasks = Some (Inr g)"
  shows "mset (tg_topological_order g) = mset (map td_id tasks)
    \<and> distinct (tg_topological_order g)
    \<and> (\<forall>as x bs. tg_topological_order g = as @ x # bs
          \<longrightarrow> (\<forall>d. (d, x) \<in> depends tasks \<longrightarrow> d \<in> set as))
    \<and> (\<forall>x t. tg_task g x = Some t \<longleftrightarrow> t \<in> set tasks \<and> td_id t = x)"
proof -
  have v: "tasks_valid tasks"
    using assms(2) task_graph_new_invalid by fastforce
  then have d: "distinct (map td_id tasks)" by (simp add: tasks_valid_def)
  obtain order where t: "topological_order (by_id tasks) = Some (Inr order)"
    and g: "g = \<lparr>tg_tasks = by_id tasks, tg_topological_order = order\<rparr>"
    using assms(2) task_graph_new_valid [OF v assms(1)] by (auto simp: res)
  have o: "distinct order" "set order = ids (by_id tasks)" "deps_first (deps (by_id tasks)) order"
    using topological_order_spec [OF graph_wf_by_id [OF v assms(1)]] t by auto
  have "mset order = mset (map td_id tasks)"
    using set_eq_iff_mset_eq_distinct [OF o(1) d] o(2) ids_by_id [OF d] by simp
  moreover have "\<forall>as x bs. order = as @ x # bs \<longrightarrow> (\<forall>d. (d, x) \<in> depends tasks \<longrightarrow> d \<in> set as)"
  proof (intro allI impI)
    fix as x bs d
    assume "order = as @ x # bs" and "(d, x) \<in> depends tasks"
    moreover from this(2) have "d \<in> deps (by_id tasks) x"
      using edges_by_id [OF d] by (auto simp: edges_def)
    ultimately show "d \<in> set as" using o(3) unfolding deps_first_def by blast
  qed
  moreover have "\<forall>x t. map_of (by_id tasks) x = Some t \<longleftrightarrow> t \<in> set tasks \<and> td_id t = x"
    using map_of_by_id [OF d] by blast
  ultimately show ?thesis
    using o(1) unfolding g tg_task_def by (simp only: task_graph.simps simp_thms)
qed

lemma task_graph_new_total:
  assumes "dependency_maps tasks"
  shows "\<exists>r. task_graph_new tasks = Some r
    \<and> (is_ok r \<longleftrightarrow> tasks_valid tasks \<and> acyclic (depends tasks))"
proof (cases "tasks_valid tasks")
  case False
  then show ?thesis using task_graph_new_invalid by fastforce
next
  case True
  then have d: "distinct (map td_id tasks)" by (simp add: tasks_valid_def)
  note new = task_graph_new_valid [OF True assms]
  from topological_order_spec [OF graph_wf_by_id [OF True assms]]
  consider (ok) order where "topological_order (by_id tasks) = Some (Inr order)"
      "acyclic (edges (by_id tasks))"
    | (cycle) ts where "topological_order (by_id tasks) = Some (Inl (DependencyCycle ts))"
      "\<not> acyclic (edges (by_id tasks))"
    by blast
  then show ?thesis
  proof cases
    case ok
    then show ?thesis using True by (simp add: new edges_by_id [OF d])
  next
    case cycle
    then show ?thesis by (simp add: new edges_by_id [OF d])
  qed
qed

text \<open>C26: a constructed graph lists every given task exactly once and every task after all the
  tasks it depends on, and its lookup returns exactly the given definitions.\<close>

theorem task_graph_order:
  assumes "dependency_maps tasks" and "task_graph_new tasks = Some (Inr g)"
  shows "mset (tg_topological_order g) = mset (map td_id tasks)
    \<and> distinct (tg_topological_order g)
    \<and> (\<forall>as x bs. tg_topological_order g = as @ x # bs
          \<longrightarrow> (\<forall>d. (d, x) \<in> depends tasks \<longrightarrow> d \<in> set as))
    \<and> (\<forall>x t. tg_task g x = Some t \<longleftrightarrow> t \<in> set tasks \<and> td_id t = x)"
  using assms by (rule task_graph_new_order)

text \<open>C27: construction never panics, and it succeeds exactly on lists of distinct tasks whose
  dependencies are other tasks of the list and contain no cycle.\<close>

theorem task_graph_decides:
  assumes "dependency_maps tasks"
  shows "\<exists>r. task_graph_new tasks = Some r
    \<and> (is_ok r \<longleftrightarrow> tasks_valid tasks \<and> acyclic (depends tasks))"
  using assms by (rule task_graph_new_total)

text \<open>when construction reports a dependency cycle, the reported tasks are a non-empty set of
  given tasks each of which waits on another of them, so none of them could ever be released.\<close>

theorem task_graph_cycle_report:
  assumes "dependency_maps tasks" and "task_graph_new tasks = Some (Inl (DependencyCycle ts))"
  shows "ts \<noteq> [] \<and> set ts \<subseteq> td_id ` set tasks
    \<and> (\<forall>x \<in> set ts. \<exists>d \<in> set ts. (d, x) \<in> depends tasks)"
proof -
  have v: "tasks_valid tasks"
    using assms(2) task_graph_new_invalid by fastforce
  then have d: "distinct (map td_id tasks)" by (simp add: tasks_valid_def)
  have "topological_order (by_id tasks) = Some (Inl (DependencyCycle ts))"
    using assms(2) task_graph_new_valid [OF v assms(1)] by (auto simp: res)
  then have ts: "ts \<noteq> []" "set ts \<subseteq> ids (by_id tasks)"
    "\<forall>x \<in> set ts. \<exists>d \<in> set ts. d \<in> deps (by_id tasks) x"
    using topological_order_spec [OF graph_wf_by_id [OF v assms(1)]] by auto
  have "(k, x) \<in> depends tasks" if "x \<in> set ts" "k \<in> deps (by_id tasks) x" for k x
    using that ts(2) unfolding edges_by_id [OF d, symmetric] edges_def by blast
  then show ?thesis using ts unfolding ids_by_id [OF d] by blast
qed

text \<open>the result does not depend on the order in which tasks with distinct identifiers are
  given.\<close>

theorem task_graph_deterministic:
  assumes "mset xs = mset ys" and "distinct (map td_id xs)"
  shows "task_graph_new xs = task_graph_new ys"
proof -
  have s: "set xs = set ys" using assms(1) by (rule mset_eq_setD)
  have dy: "distinct (map td_id ys)"
    using assms by (metis distinct_map mset_eq_imp_distinct_iff mset_map)
  have "map_of (by_id xs) = map_of (by_id ys)"
  proof
    fix k
    have "map_of (by_id xs) k = Some t \<longleftrightarrow> map_of (by_id ys) k = Some t" for t
      using map_of_by_id [OF assms(2)] map_of_by_id [OF dy] s by simp
    then show "map_of (by_id xs) k = map_of (by_id ys) k"
      by (cases "map_of (by_id ys) k") (auto simp: option.expand)
  qed
  then have "by_id xs = by_id ys" using by_id_sorted by (intro btm_ext)
  then have "collect_tasks [] xs = collect_tasks [] ys"
    using collect_tasks_by_id [of xs "by_id xs"] collect_tasks_by_id [of ys "by_id ys"] assms(2) dy
    by simp
  then show ?thesis by (simp add: task_graph_new_def)
qed

section \<open>A graph of three tasks\<close>

definition sample_tasks :: "task_definition list" where
  "sample_tasks =
     [\<lparr>td_id = Id 1, td_name = ''client'', td_dependencies = [(Id 2, MTargetPublished)]\<rparr>,
      \<lparr>td_id = Id 3, td_name = ''schema'', td_dependencies = []\<rparr>,
      \<lparr>td_id = Id 2, td_name = ''api'', td_dependencies = [(Id 3, MTargetPublished)]\<rparr>]"

definition cyclic_tasks :: "task_definition list" where
  "cyclic_tasks =
     [\<lparr>td_id = Id 1, td_name = ''left'', td_dependencies = [(Id 2, MTargetPublished)]\<rparr>,
      \<lparr>td_id = Id 2, td_name = ''right'', td_dependencies = [(Id 1, MTargetPublished)]\<rparr>]"

lemmas graph_eval =
  task_graph_new_def topological_order_def initial_remaining_def initial_ready_def dependents_of_def
  add_dependent_def check_dependencies_def check_dependency_def dep_keys_def bts_collect_def
  btm_replace_def ensure_def

lemma sample_run:
  "map_option (map_sum id tg_topological_order) (task_graph_new sample_tasks)
     = Some (Inr [Id 3, Id 2, Id 1])"
  by (simp add: graph_eval sample_tasks_def)

lemma cyclic_run: "task_graph_new cyclic_tasks = Some (Inl (DependencyCycle [Id 1, Id 2]))"
  by (simp add: graph_eval cyclic_tasks_def)

lemma sample_maps: "dependency_maps sample_tasks" "dependency_maps cyclic_tasks"
  by (simp_all add: dependency_maps_def sample_tasks_def cyclic_tasks_def btm_sorted_def bts_sorted_def)

theorem task_graph_order_witness:
  "\<exists>g. task_graph_new sample_tasks = Some (Inr g) \<and> distinct (tg_topological_order g)"
proof -
  obtain g where g: "task_graph_new sample_tasks = Some (Inr g)"
  proof -
    obtain r where "task_graph_new sample_tasks = Some r"
      and "map_sum id tg_topological_order r = Inr [Id 3, Id 2, Id 1]"
      using sample_run by auto
    then show ?thesis using that by (cases r) auto
  qed
  show ?thesis using task_graph_order [OF sample_maps(1) g] g by blast
qed

theorem task_graph_decides_witness:
  "\<exists>r. task_graph_new cyclic_tasks = Some r \<and> \<not> is_ok r \<and> tasks_valid cyclic_tasks
     \<and> \<not> acyclic (depends cyclic_tasks)"
proof -
  have v: "tasks_valid cyclic_tasks" by (simp add: tasks_valid_def cyclic_tasks_def dep_keys_def)
  show ?thesis using task_graph_decides [OF sample_maps(2)] v cyclic_run by auto
qed

theorem task_graph_cycle_report_witness:
  "(\<exists>d \<in> {Id 1, Id 2}. (d, Id 1) \<in> depends cyclic_tasks)
   \<and> (\<exists>d \<in> {Id 1, Id 2}. (d, Id 2) \<in> depends cyclic_tasks)"
  using task_graph_cycle_report [OF sample_maps(2) cyclic_run] by simp

theorem task_graph_deterministic_witness:
  "task_graph_new sample_tasks = task_graph_new (rev sample_tasks)"
  by (rule task_graph_deterministic) (simp_all add: sample_tasks_def)

end
