(* ===== verification/Plan.thy ===== *)
theory Plan
  imports Graph
begin

text \<open>
  The feature plan document (\<open>crates/core/src/plan.rs\<close>).

  \<open>plan_validate\<close> walks phases, tasks and acceptance checks in document order and stops at the
  first fault; \<open>plan_task_order\<close> validates and returns the dependency order.  The theorems say what
  a validated plan is and that its order exists.
\<close>

section \<open>The document\<close>

definition plan_schema_version :: nat where "plan_schema_version = 1"

record acceptance_check =
  ac_id :: string
  ac_description :: string

record plan_task =
  pt_id :: task_id
  pt_name :: string
  pt_dependencies :: "(task_id \<times> target_milestone) list"
  pt_acceptance_checks :: "acceptance_check list"

record plan_phase =
  pp_id :: string
  pp_name :: string
  pp_tasks :: "plan_task list"

record feature_plan =
  fp_schema_version :: nat
  fp_feature_id :: feature_id
  fp_revision :: revision
  fp_repository_id :: repository_id
  fp_goal :: string
  fp_target :: target_ref
  fp_sealed :: bool
  fp_phases :: "plan_phase list"

datatype plan_error =
    UnsupportedSchema nat nat
  | NoPhases
  | NoTasks
  | EmptyPhase string
  | DuplicatePhase string
  | NoAcceptanceChecks task_id
  | DuplicateAcceptanceCheck task_id string
  | InvalidKey string string
  | EmptyText string
  | TextTooLong string nat
  | InvalidTask task_definition_error
  | InvalidGraph graph_error

section \<open>Validation\<close>

definition key_char :: "char \<Rightarrow> bool" where
  "key_char c \<longleftrightarrow> is_ascii_lowercase c \<or> is_ascii_digit c \<or> c \<in> set ''_-''"

definition validate_key :: "string \<Rightarrow> string \<Rightarrow> (plan_error, unit) result" where
  "validate_key kind value =
     (if value = [] \<or> 64 < length value \<or> \<not> list_all key_char value
        \<or> \<not> (case value of [] \<Rightarrow> False | c # _ \<Rightarrow> is_ascii_lowercase c \<or> is_ascii_digit c)
      then Inl (InvalidKey kind value) else Inr ())"

definition validate_text :: "string \<Rightarrow> string \<Rightarrow> nat \<Rightarrow> (plan_error, unit) result" where
  "validate_text kind value maximum =
     (if blank value then Inl (EmptyText kind)
      else if maximum < length value then Inl (TextTooLong kind maximum)
      else Inr ())"

text \<open>The loop over one task's checks; the state is the set of check keys seen so far.\<close>

definition validate_check ::
  "task_id \<Rightarrow> string list \<Rightarrow> acceptance_check \<Rightarrow> (plan_error, string list) result" where
  "validate_check t seen c =
     and_then (validate_key ''acceptance check'' (ac_id c)) (\<lambda>_.
     and_then (validate_text ''acceptance check description'' (ac_description c) 1000) (\<lambda>_.
     if ac_id c \<in> set seen then Inl (DuplicateAcceptanceCheck t (ac_id c))
     else Inr (ac_id c # seen)))"

definition validate_task ::
  "task_definition list \<Rightarrow> plan_task \<Rightarrow> (plan_error, task_definition list) result" where
  "validate_task definitions t =
     and_then (validate_text ''task name'' (pt_name t) 300) (\<lambda>_.
     if pt_acceptance_checks t = [] then Inl (NoAcceptanceChecks (pt_id t))
     else
       and_then (fold_res (validate_check (pt_id t)) [] (pt_acceptance_checks t)) (\<lambda>_.
       and_then (map_err InvalidTask
                   (task_definition_new (pt_id t) (pt_name t) (pt_dependencies t))) (\<lambda>d.
       Inr (definitions @ [d]))))"

definition validate_phase ::
  "string list \<times> task_definition list \<Rightarrow> plan_phase
    \<Rightarrow> (plan_error, string list \<times> task_definition list) result" where
  "validate_phase st p =
     (let (phase_ids, definitions) = st in
     and_then (validate_key ''phase'' (pp_id p)) (\<lambda>_.
     and_then (validate_text ''phase name'' (pp_name p) 200) (\<lambda>_.
     if pp_id p \<in> set phase_ids then Inl (DuplicatePhase (pp_id p))
     else if pp_tasks p = [] then Inl (EmptyPhase (pp_id p))
     else
       and_then (fold_res validate_task definitions (pp_tasks p)) (\<lambda>definitions.
       Inr (pp_id p # phase_ids, definitions)))))"

text \<open>Everything \<open>validate\<close> does before it builds the graph: the definitions it collected.\<close>

definition plan_definitions :: "feature_plan \<Rightarrow> (plan_error, task_definition list) result" where
  "plan_definitions p =
     (if fp_schema_version p \<noteq> plan_schema_version
      then Inl (UnsupportedSchema (fp_schema_version p) plan_schema_version)
      else
        and_then (validate_text ''goal'' (fp_goal p) 5000) (\<lambda>_.
        if fp_phases p = [] then Inl NoPhases
        else
          and_then (fold_res validate_phase ([], []) (fp_phases p)) (\<lambda>(phase_ids, definitions).
          if definitions = [] then Inl NoTasks else Inr definitions)))"

definition plan_validate :: "feature_plan \<Rightarrow> (plan_error, unit) result option" where
  "plan_validate p =
     (case plan_definitions p of
        Inl e \<Rightarrow> Some (Inl e)
      | Inr definitions \<Rightarrow>
          map_option (\<lambda>r. and_then (map_err InvalidGraph r) (\<lambda>_. Inr ()))
            (task_graph_new definitions))"

text \<open>
  \<open>task_order\<close> repeats the construction and unwraps it; a failed \<open>expect\<close> is \<open>None\<close>.
\<close>

fun expect_all :: "('e, 'a) result list \<Rightarrow> 'a list option" where
  "expect_all [] = Some []"
| "expect_all (Inl _ # rs) = None"
| "expect_all (Inr x # rs) = map_option (\<lambda>xs. x # xs) (expect_all rs)"

definition plan_tasks_of :: "feature_plan \<Rightarrow> plan_task list" where
  "plan_tasks_of p = concat (map pp_tasks (fp_phases p))"

definition plan_task_order :: "feature_plan \<Rightarrow> (plan_error, task_id list) result option" where
  "plan_task_order p =
     (case plan_validate p of
        None \<Rightarrow> None
      | Some (Inl e) \<Rightarrow> Some (Inl e)
      | Some (Inr _) \<Rightarrow>
          (case expect_all (map (\<lambda>t. task_definition_new (pt_id t) (pt_name t) (pt_dependencies t))
                  (plan_tasks_of p)) of
             None \<Rightarrow> None
           | Some definitions \<Rightarrow>
               (case task_graph_new definitions of
                  Some (Inr g) \<Rightarrow> Some (Inr (tg_topological_order g))
                | _ \<Rightarrow> None)))"

section \<open>What validation establishes\<close>

definition key_ok :: "string \<Rightarrow> bool" where
  "key_ok k \<longleftrightarrow> 1 \<le> length k \<and> length k \<le> 64 \<and> list_all key_char k \<and> hd k \<notin> set ''_-''"

definition text_ok :: "string \<Rightarrow> nat \<Rightarrow> bool" where
  "text_ok s maximum \<longleftrightarrow> \<not> blank s \<and> length s \<le> maximum"

definition check_ok :: "acceptance_check \<Rightarrow> bool" where
  "check_ok c \<longleftrightarrow> key_ok (ac_id c) \<and> text_ok (ac_description c) 1000"

definition plan_task_ok :: "plan_task \<Rightarrow> bool" where
  "plan_task_ok t \<longleftrightarrow> text_ok (pt_name t) 300 \<and> pt_acceptance_checks t \<noteq> []
     \<and> (\<forall>c \<in> set (pt_acceptance_checks t). check_ok c) \<and> distinct (map ac_id (pt_acceptance_checks t))"

definition phase_ok :: "plan_phase \<Rightarrow> bool" where
  "phase_ok p \<longleftrightarrow> key_ok (pp_id p) \<and> text_ok (pp_name p) 200 \<and> pp_tasks p \<noteq> []
     \<and> (\<forall>t \<in> set (pp_tasks p). plan_task_ok t)"

definition definition_of :: "plan_task \<Rightarrow> task_definition" where
  "definition_of t = \<lparr>td_id = pt_id t, td_name = pt_name t, td_dependencies = pt_dependencies t\<rparr>"

definition plan_ok :: "feature_plan \<Rightarrow> bool" where
  "plan_ok p \<longleftrightarrow> fp_schema_version p = plan_schema_version \<and> text_ok (fp_goal p) 5000
     \<and> fp_phases p \<noteq> [] \<and> (\<forall>ph \<in> set (fp_phases p). phase_ok ph) \<and> distinct (map pp_id (fp_phases p))"

definition plan_graph_ok :: "feature_plan \<Rightarrow> bool" where
  "plan_graph_ok p \<longleftrightarrow> tasks_valid (map definition_of (plan_tasks_of p))
     \<and> acyclic (depends (map definition_of (plan_tasks_of p)))"

lemma key_char_head: "key_char c \<Longrightarrow> is_ascii_lowercase c \<or> is_ascii_digit c \<longleftrightarrow> c \<notin> set ''_-''"
  by (auto simp: key_char_def is_ascii_lowercase_def is_ascii_digit_def)

lemma validate_key_Inr: "validate_key kind k = Inr u \<longleftrightarrow> key_ok k"
  using key_char_head
  by (cases k) (auto simp: validate_key_def key_ok_def Suc_le_eq)

lemma validate_text_Inr: "validate_text kind s n = Inr u \<longleftrightarrow> text_ok s n"
  by (auto simp: validate_text_def text_ok_def)

lemma validate_checks_Inr:
  "fold_res (validate_check t) seen cs = Inr seen' \<longleftrightarrow>
     (\<forall>c \<in> set cs. check_ok c \<and> ac_id c \<notin> set seen) \<and> distinct (map ac_id cs)
     \<and> seen' = rev (map ac_id cs) @ seen"
  by (induction cs arbitrary: seen)
     (auto simp: res validate_check_def validate_key_Inr validate_text_Inr check_ok_def,
      (metis image_eqI)+)

lemma validate_task_Inr:
  "validate_task ds t = Inr ds' \<longleftrightarrow> plan_task_ok t \<and> ds' = ds @ [definition_of t]"
  by (auto simp: validate_task_def res validate_text_Inr validate_checks_Inr plan_task_ok_def
      task_definition_new_def definition_of_def text_ok_def)

lemma validate_tasks_Inr:
  "fold_res validate_task ds ts = Inr ds' \<longleftrightarrow>
     (\<forall>t \<in> set ts. plan_task_ok t) \<and> ds' = ds @ map definition_of ts"
  by (induction ts arbitrary: ds) (auto simp: res validate_task_Inr)

lemma validate_phase_Inr:
  "validate_phase (seen, ds) p = Inr (seen', ds') \<longleftrightarrow>
     phase_ok p \<and> pp_id p \<notin> set seen \<and> seen' = pp_id p # seen
     \<and> ds' = ds @ map definition_of (pp_tasks p)"
  by (auto simp: validate_phase_def res validate_key_Inr validate_text_Inr validate_tasks_Inr phase_ok_def)

lemma validate_phases_Inr:
  "fold_res validate_phase (seen, ds) ps = Inr (seen', ds') \<longleftrightarrow>
     (\<forall>p \<in> set ps. phase_ok p \<and> pp_id p \<notin> set seen) \<and> distinct (map pp_id ps)
     \<and> seen' = rev (map pp_id ps) @ seen
     \<and> ds' = ds @ map definition_of (concat (map pp_tasks ps))"
proof (induction ps arbitrary: seen ds)
  case Nil
  then show ?case by auto
next
  case (Cons p ps)
  have s: "fold_res validate_phase (seen, ds) (p # ps) = Inr (seen', ds')
    \<longleftrightarrow> phase_ok p \<and> pp_id p \<notin> set seen
      \<and> fold_res validate_phase (pp_id p # seen, ds @ map definition_of (pp_tasks p)) ps = Inr (seen', ds')"
    by (auto simp: res validate_phase_Inr)
  have "(\<forall>q \<in> set ps. pp_id q \<notin> set (pp_id p # seen))
    \<longleftrightarrow> (\<forall>q \<in> set ps. pp_id q \<notin> set seen) \<and> pp_id p \<notin> pp_id ` set ps"
    by (auto simp: image_iff)
  then show ?case unfolding s Cons.IH by auto
qed

lemma plan_definitions_Inr:
  "plan_definitions p = Inr ds \<longleftrightarrow> plan_ok p \<and> ds = map definition_of (plan_tasks_of p)"
proof -
  have ne: "plan_tasks_of p \<noteq> []" if "plan_ok p"
    using that by (cases "fp_phases p") (auto simp: plan_ok_def phase_ok_def plan_tasks_of_def)
  show ?thesis
    using ne
    by (auto simp: plan_definitions_def res validate_text_Inr validate_phases_Inr plan_ok_def
        plan_tasks_of_def)
qed

definition plan_maps :: "feature_plan \<Rightarrow> bool" where
  "plan_maps p \<longleftrightarrow> (\<forall>t \<in> set (plan_tasks_of p). btm_sorted (pt_dependencies t))"

lemma dependency_maps_plan: "plan_maps p \<Longrightarrow> dependency_maps (map definition_of (plan_tasks_of p))"
  by (auto simp: plan_maps_def dependency_maps_def definition_of_def)

lemma expect_all_map:
  "(\<forall>t \<in> set ts. \<not> blank (pt_name t)) \<Longrightarrow>
     expect_all (map (\<lambda>t. task_definition_new (pt_id t) (pt_name t) (pt_dependencies t)) ts)
       = Some (map definition_of ts)"
  by (induction ts) (auto simp: task_definition_new_def definition_of_def)

lemma plan_validate_total:
  assumes "plan_maps p"
  shows "\<exists>r. plan_validate p = Some r \<and> (is_ok r \<longleftrightarrow> plan_ok p \<and> plan_graph_ok p)"
proof (cases "plan_definitions p")
  case (Inl e)
  then have "\<not> plan_ok p" using plan_definitions_Inr [of p "map definition_of (plan_tasks_of p)"] by auto
  then show ?thesis using Inl by (simp add: plan_validate_def)
next
  case (Inr ds)
  then have ok: "plan_ok p" and ds: "ds = map definition_of (plan_tasks_of p)"
    using plan_definitions_Inr by auto
  obtain r where r: "task_graph_new ds = Some r"
    and "is_ok r \<longleftrightarrow> tasks_valid ds \<and> acyclic (depends ds)"
    using task_graph_new_total [OF dependency_maps_plan [OF assms]] ds by blast
  then have "is_ok r \<longleftrightarrow> plan_graph_ok p" by (simp add: plan_graph_ok_def ds)
  then show ?thesis using Inr ok r by (cases r) (auto simp: plan_validate_def)
qed

text \<open>C29: validation of a plan never panics and accepts exactly the documents of the supported
  schema whose texts and keys are well formed, whose phases are distinct and non-empty, whose tasks
  each have distinct acceptance checks, and whose tasks are distinct, depend on other tasks of the
  plan, and form no cycle.\<close>

theorem plan_validate_decides:
  assumes "plan_maps p"
  shows "\<exists>r. plan_validate p = Some r \<and> (is_ok r \<longleftrightarrow> plan_ok p \<and> plan_graph_ok p)"
  using assms by (rule plan_validate_total)

text \<open>for a validated plan the task order exists, the repeated construction cannot fail, and
  the order lists every task of every phase once, after all the tasks it depends on; for any other
  plan the validation error is returned.\<close>

theorem plan_task_order_spec:
  assumes "plan_maps p"
  shows "\<exists>r. plan_validate p = Some r \<and>
     (case r of
        Inl e \<Rightarrow> plan_task_order p = Some (Inl e)
      | Inr _ \<Rightarrow> (\<exists>order. plan_task_order p = Some (Inr order)
          \<and> mset order = mset (map pt_id (plan_tasks_of p))
          \<and> (\<forall>as x bs. order = as @ x # bs \<longrightarrow>
               (\<forall>d. (d, x) \<in> depends (map definition_of (plan_tasks_of p)) \<longrightarrow> d \<in> set as))))"
proof (cases "plan_definitions p")
  case (Inl e)
  then show ?thesis by (simp add: plan_validate_def plan_task_order_def)
next
  case (Inr ds)
  then have ok: "plan_ok p" and ds: "ds = map definition_of (plan_tasks_of p)"
    using plan_definitions_Inr by auto
  have maps: "dependency_maps ds" using dependency_maps_plan [OF assms] ds by simp
  have names: "\<forall>t \<in> set (plan_tasks_of p). \<not> blank (pt_name t)"
    using ok by (auto simp: plan_ok_def phase_ok_def plan_task_ok_def text_ok_def plan_tasks_of_def)
  obtain r where r: "task_graph_new ds = Some r"
    using task_graph_new_total [OF maps] by blast
  show ?thesis
  proof (cases r)
    case (Inl e)
    then show ?thesis using Inr r by (simp add: plan_validate_def plan_task_order_def)
  next
    case (Inr g)
    have "plan_validate p = Some (Inr ())"
      using \<open>plan_definitions p = Inr ds\<close> r Inr by (simp add: plan_validate_def)
    moreover have "plan_task_order p = Some (Inr (tg_topological_order g))"
      using calculation expect_all_map [OF names] r Inr ds by (simp add: plan_task_order_def)
    moreover have "map td_id ds = map pt_id (plan_tasks_of p)"
      by (simp add: ds definition_of_def)
    ultimately show ?thesis
      using task_graph_new_order [OF maps, of g] r Inr ds by (simp del: map_map)
  qed
qed

section \<open>A plan of two tasks\<close>

definition sample_plan :: feature_plan where
  "sample_plan =
     \<lparr>fp_schema_version = 1, fp_feature_id = Id 1, fp_revision = revision_first,
      fp_repository_id = Id 1, fp_goal = ''Ship'', fp_target = TargetRef ''refs/heads/main'',
      fp_sealed = True,
      fp_phases =
        [\<lparr>pp_id = ''delivery'', pp_name = ''Delivery'',
          pp_tasks =
            [\<lparr>pt_id = Id 2, pt_name = ''Add API'', pt_dependencies = [(Id 1, MCaptured)],
              pt_acceptance_checks = [\<lparr>ac_id = ''response'', ac_description = ''API returns''\<rparr>]\<rparr>,
             \<lparr>pt_id = Id 1, pt_name = ''Add schema'', pt_dependencies = [],
              pt_acceptance_checks = [\<lparr>ac_id = ''migration'', ac_description = ''Completes''\<rparr>]\<rparr>]\<rparr>]\<rparr>"

lemma sample_plan_maps: "plan_maps sample_plan"
  by (simp add: plan_maps_def sample_plan_def plan_tasks_of_def btm_sorted_def bts_sorted_def)

lemma sample_plan_definitions:
  "plan_definitions sample_plan = Inr (map definition_of (plan_tasks_of sample_plan))"
  by code_simp

lemma sample_plan_valid: "plan_validate sample_plan = Some (Inr ())"
proof -
  have "map_option is_ok (task_graph_new (map definition_of (plan_tasks_of sample_plan))) = Some True"
    by (simp add: graph_eval sample_plan_def plan_tasks_of_def definition_of_def)
  then obtain g where "task_graph_new (map definition_of (plan_tasks_of sample_plan)) = Some (Inr g)"
    by (auto simp: res)
  then show ?thesis by (simp add: plan_validate_def sample_plan_definitions)
qed

theorem plan_validate_decides_witness: "plan_ok sample_plan \<and> plan_graph_ok sample_plan"
  using plan_validate_decides [OF sample_plan_maps] sample_plan_valid by simp

theorem plan_task_order_spec_witness:
  "\<exists>order. plan_task_order sample_plan = Some (Inr order)
     \<and> mset order = mset (map pt_id (plan_tasks_of sample_plan))"
  using plan_task_order_spec [OF sample_plan_maps] sample_plan_valid by auto

end
