(* ===== verification/States.thy ===== *)
theory States
  imports TaskState Policy
begin

text \<open>
  Errors of the store and the column encodings of a lifecycle state
  (\<open>crates/store/src/states.rs\<close>, \<open>crates/store/src/lib.rs\<close>, the milestone columns of
  \<open>crates/store/src/tasks.rs\<close>).

  A status is stored as text.  A reason is stored as JSON by serde, which is not code of the
  repository: the model keeps the decoded reason in its column.
\<close>

datatype store_error =
    InvalidData string
  | Conflict string
  | Sqlite string
  | Json string
  | PolicyRepositoryMismatch repository_id repository_id

section \<open>Column constraints\<close>

text \<open>SQLite's \<open>trim\<close> removes spaces only.  A check on a column that may be \<open>NULL\<close> holds of \<open>NULL\<close>.\<close>

definition sql_blank :: "string \<Rightarrow> bool" where
  "sql_blank s \<longleftrightarrow> list_all (\<lambda>c. c = CHR '' '') s"

fun null_or :: "('a \<Rightarrow> bool) \<Rightarrow> 'a option \<Rightarrow> bool" where
  "null_or P None \<longleftrightarrow> True"
| "null_or P (Some x) \<longleftrightarrow> P x"

lemma strip_leading_spaces:
  "sql_blank s \<Longrightarrow> strip_leading (length s) ws_encodings s = []"
proof (induction s)
  case (Cons c s)
  then have "c = CHR '' ''" by (simp add: sql_blank_def)
  moreover have "List.find (\<lambda>w. prefix w (CHR '' '' # s)) ws_encodings = Some '' ''"
    by (simp add: ws_encodings_def)
  ultimately show ?case using Cons by (simp add: sql_blank_def)
qed simp

lemma sql_blank_blank: "sql_blank s \<Longrightarrow> blank s"
  by (simp add: blank_def trim_def trim_start_def strip_leading_spaces trim_end_def)

section \<open>Texts\<close>

text \<open>The derived \<open>Debug\<close> rendering, used in error messages.\<close>

fun debug_status :: "task_status \<Rightarrow> string" where
  "debug_status Planned = ''Planned''"
| "debug_status Building = ''Building''"
| "debug_status Captured = ''Captured''"
| "debug_status Validated = ''Validated''"
| "debug_status Queued = ''Queued''"
| "debug_status Scheduled = ''Scheduled''"
| "debug_status Reconciling = ''Reconciling''"
| "debug_status Verifying = ''Verifying''"
| "debug_status CommitPrepared = ''CommitPrepared''"
| "debug_status PushPending = ''PushPending''"
| "debug_status RemoteConfirmed = ''RemoteConfirmed''"
| "debug_status Published = ''Published''"
| "debug_status Blocked = ''Blocked''"
| "debug_status Cancelled = ''Cancelled''"
| "debug_status Superseded = ''Superseded''"

fun debug_option :: "task_status option \<Rightarrow> string" where
  "debug_option None = ''None''"
| "debug_option (Some s) = ''Some('' @ debug_status s @ '')''"

fun transition_error_text :: "transition_error \<Rightarrow> string" where
  "transition_error_text (Terminal c r) =
     ''cannot transition terminal state '' @ debug_status c @ '' to '' @ debug_status r"
| "transition_error_text (Invalid c r e) =
     ''cannot transition '' @ debug_status c @ '' to '' @ debug_status r @ ''; expected '' @ debug_option e"
| "transition_error_text (ReasonRequired t) =
     ''transition to '' @ debug_status t @ '' requires a non-empty reason''"
| "transition_error_text (UnexpectedReason t) =
     ''transition to '' @ debug_status t @ '' must not include a reason''"
| "transition_error_text EmptyReason = ''reason message must not be empty''"
| "transition_error_text CorruptBlockedState = ''blocked state is missing its resume state''"
| "transition_error_text (IncoherentPersistedState s) =
     ''persisted '' @ debug_status s @ '' state carries incoherent reason or resume information''"
| "transition_error_text (NotScheduled c) =
     ''only a scheduled task can have its release time withdrawn; this task is '' @ debug_status c"
| "transition_error_text (InvalidResume r e) =
     ''cannot resume blocked task at '' @ debug_status r @ ''; resume at '' @ debug_status e"

section \<open>Status columns\<close>

fun status_column :: "task_status \<Rightarrow> string" where
  "status_column Planned = ''planned''"
| "status_column Building = ''building''"
| "status_column Captured = ''captured''"
| "status_column Validated = ''validated''"
| "status_column Queued = ''queued''"
| "status_column Scheduled = ''scheduled''"
| "status_column Reconciling = ''reconciling''"
| "status_column Verifying = ''verifying''"
| "status_column CommitPrepared = ''commit_prepared''"
| "status_column PushPending = ''push_pending''"
| "status_column RemoteConfirmed = ''remote_confirmed''"
| "status_column Published = ''published''"
| "status_column Blocked = ''blocked''"
| "status_column Cancelled = ''cancelled''"
| "status_column Superseded = ''superseded''"

definition status_from_column :: "string \<Rightarrow> (store_error, task_status) result" where
  "status_from_column v =
     (if v = ''planned'' then Inr Planned
      else if v = ''building'' then Inr Building
      else if v = ''captured'' then Inr Captured
      else if v = ''validated'' then Inr Validated
      else if v = ''queued'' then Inr Queued
      else if v = ''scheduled'' then Inr Scheduled
      else if v = ''reconciling'' then Inr Reconciling
      else if v = ''verifying'' then Inr Verifying
      else if v = ''commit_prepared'' then Inr CommitPrepared
      else if v = ''push_pending'' then Inr PushPending
      else if v = ''remote_confirmed'' then Inr RemoteConfirmed
      else if v = ''published'' then Inr Published
      else if v = ''blocked'' then Inr Blocked
      else if v = ''cancelled'' then Inr Cancelled
      else if v = ''superseded'' then Inr Superseded
      else Inl (InvalidData (''stored status '' @ v @ '' is not a known lifecycle state'')))"

definition restore_state ::
  "string \<Rightarrow> state_reason option \<Rightarrow> string option \<Rightarrow> (store_error, task_state) result" where
  "restore_state status reason blocked_from =
     and_then (status_from_column status) (\<lambda>status.
     and_then (case blocked_from of
                 None \<Rightarrow> Inr None
               | Some v \<Rightarrow> and_then (status_from_column v) (\<lambda>s. Inr (Some s))) (\<lambda>blocked_from.
       map_err (\<lambda>e. InvalidData (transition_error_text e)) (ts_restore status reason blocked_from)))"

fun milestone_column :: "target_milestone \<Rightarrow> string" where
  "milestone_column MCaptured = ''captured''"
| "milestone_column MDevelopmentAvailable = ''development_available''"
| "milestone_column MTargetPublished = ''target_published''"

definition milestone_from_column :: "string \<Rightarrow> (store_error, target_milestone) result" where
  "milestone_from_column v =
     (if v = ''captured'' then Inr MCaptured
      else if v = ''development_available'' then Inr MDevelopmentAvailable
      else if v = ''target_published'' then Inr MTargetPublished
      else Inl (InvalidData (''stored dependency milestone '' @ v @ '' is not defined'')))"

section \<open>The columns determine the state\<close>

lemma status_from_column_column [simp]: "status_from_column (status_column s) = Inr s"
  by (cases s) (simp_all add: status_from_column_def)

lemma status_from_column_Inr: "status_from_column v = Inr s \<longleftrightarrow> v = status_column s"
proof
  assume "status_from_column v = Inr s"
  then show "v = status_column s"
    by (auto simp: status_from_column_def split: if_splits)
qed simp

lemma status_column_inject [simp]: "status_column s = status_column t \<longleftrightarrow> s = t"
  by (metis status_from_column_column sum.inject(2))

lemma milestone_roundtrip: "milestone_from_column v = Inr m \<longleftrightarrow> v = milestone_column m"
  by (cases m) (auto simp: milestone_from_column_def split: if_splits)

lemma restore_state_columns:
  assumes "ts_reachable st"
  shows "restore_state (status_column (ts_status st)) (ts_reason st)
    (map_option status_column (ts_blocked_from st)) = Inr st"
proof -
  have "ts_restore (ts_status st) (ts_reason st) (ts_blocked_from st) = Inr st"
    using assms by (simp add: ts_restore_Inr_iff ts_reachable_coherent)
  then show ?thesis by (cases "ts_blocked_from st") (simp_all add: restore_state_def)
qed

lemma restore_state_Inr_iff:
  "restore_state s r b = Inr st \<longleftrightarrow> ts_reachable st \<and> s = status_column (ts_status st)
     \<and> r = ts_reason st \<and> b = map_option status_column (ts_blocked_from st)"
proof
  assume "restore_state s r b = Inr st"
  then have "\<exists>s' b'. s = status_column s' \<and> map_option status_column b' = b \<and> ts_restore s' r b' = Inr st"
    by (cases b) (fastforce simp: restore_state_def res status_from_column_Inr)+
  then obtain s' b' where "s = status_column s'" "b = map_option status_column b'" "ts_restore s' r b' = Inr st"
    by blast
  then show "ts_reachable st \<and> s = status_column (ts_status st)
     \<and> r = ts_reason st \<and> b = map_option status_column (ts_blocked_from st)"
    by (auto simp: ts_restore_Inr_iff ts_coherent_reachable)
qed (use restore_state_columns in blast)

text \<open>C32: the three stored columns determine a state exactly.  Storing a state some operations can
  reach and reading its columns gives the state back, and whatever the columns hold, reading them
  gives a reachable state with those very columns or fails.\<close>

theorem state_columns_roundtrip:
  "(ts_reachable st \<longrightarrow>
      restore_state (status_column (ts_status st)) (ts_reason st)
        (map_option status_column (ts_blocked_from st)) = Inr st)
   \<and> (restore_state s r b = Inr st' \<longrightarrow> ts_reachable st' \<and> s = status_column (ts_status st')
        \<and> r = ts_reason st' \<and> b = map_option status_column (ts_blocked_from st'))"
  using restore_state_columns [of st] by (auto simp: restore_state_Inr_iff)

theorem state_columns_roundtrip_witness:
  "restore_state ''verifying'' None None = Inr (plain Verifying)"
proof -
  have "ts_reachable (plain Verifying)" by (rule ts_reachable_plain) simp
  then show ?thesis using state_columns_roundtrip [of "plain Verifying"] by simp
qed

end
