(* ===== verification/Integration.thy ===== *)
theory Integration
  imports States
begin

text \<open>
  External integrations, their faults and their backoff (\<open>crates/core/src/integration.rs\<close>,
  \<open>crates/store/src/integrations.rs\<close>).

  The locale \<open>backoff\<close> is the contract of a bounded exponential delay: it is interpreted here for
  the integration backoff and in \<open>GitRetry\<close> for the publication retry.  The stored table is a map
  from an integration and a scope to the recorded health.
\<close>

section \<open>The contract of a bounded delay\<close>

locale backoff =
  fixes delay :: "nat \<Rightarrow> duration"
    and factor :: "nat \<Rightarrow> nat"
    and initial :: duration
    and ceiling :: duration
  assumes delay_eq: "1 \<le> n \<Longrightarrow> delay n = min ceiling (initial * factor n)"
    and factor_first: "factor 1 = 1"
    and factor_mono: "1 \<le> n \<Longrightarrow> factor n \<le> factor (Suc n)"
    and factor_double: "1 \<le> n \<Longrightarrow> factor (Suc n) \<le> 2 * factor n"
begin

lemma delay_first: "delay 1 = min ceiling initial"
  using delay_eq [of 1] factor_first by simp

lemma delay_le_ceiling: "1 \<le> n \<Longrightarrow> delay n \<le> ceiling"
  by (simp add: delay_eq)

lemma delay_step: "1 \<le> n \<Longrightarrow> delay n \<le> delay (Suc n) \<and> delay (Suc n) \<le> 2 * delay n"
proof -
  assume n: "1 \<le> n"
  define x y where "x = initial * factor n" and "y = initial * factor (Suc n)"
  have "x \<le> y"
    unfolding x_def y_def by (rule mult_le_mono2 [OF factor_mono [OF n]])
  moreover have "y \<le> 2 * x"
    using mult_le_mono2 [OF factor_double [OF n], of initial] by (simp add: x_def y_def mult.left_commute)
  moreover have "delay n = min ceiling x" "delay (Suc n) = min ceiling y"
    using n by (simp_all add: delay_eq x_def y_def)
  ultimately show ?thesis by auto
qed

lemma delay_mono: "1 \<le> n \<Longrightarrow> n \<le> m \<Longrightarrow> delay n \<le> delay m"
proof (induction m)
  case 0
  then show ?case by simp
next
  case (Suc m)
  then show ?case using delay_step [of m] by (cases "n = Suc m") auto
qed

lemma delay_ge_first: "1 \<le> n \<Longrightarrow> min ceiling initial \<le> delay n"
  using delay_mono [of 1 n] delay_first by simp

text \<open>Once the ceiling is reached the delay stays there.\<close>

lemma delay_stays: "1 \<le> n \<Longrightarrow> n \<le> m \<Longrightarrow> delay n = ceiling \<Longrightarrow> delay m = ceiling"
  using delay_mono [of n m] delay_le_ceiling [of m] by simp

end

section \<open>Integrations and faults\<close>

datatype integration = Git | AiProvider | Telegram

fun integration_as_str :: "integration \<Rightarrow> string" where
  "integration_as_str Git = ''git''"
| "integration_as_str AiProvider = ''ai_provider''"
| "integration_as_str Telegram = ''telegram''"

definition integration_parse :: "string \<Rightarrow> integration option" where
  "integration_parse v =
     (if v = ''git'' then Some Git
      else if v = ''ai_provider'' then Some AiProvider
      else if v = ''telegram'' then Some Telegram
      else None)"

datatype connectivity_fault = Unreachable | Rejected | Refused | TimedOut

fun is_worth_retrying :: "connectivity_fault \<Rightarrow> bool" where
  "is_worth_retrying f \<longleftrightarrow> f \<in> {Unreachable, TimedOut}"

definition rejected_needles :: "string list" where
  "rejected_needles =
     [''authentication failed'', ''permission denied'', ''invalid username or password'',
      ''access denied'', ''could not read username'', ''host key verification failed'']"

definition refused_needles :: "string list" where
  "refused_needles =
     [''protected branch'', ''pre-receive hook declined'', ''refusing to allow'', ''non-fast-forward'']"

definition timed_out_needles :: "string list" where
  "timed_out_needles = [''timed out'', ''timeout'', ''operation timed out'']"

definition mentions :: "string list \<Rightarrow> string \<Rightarrow> bool" where
  "mentions needles s \<longleftrightarrow> list_ex (contains s) needles"

definition classify_git :: "string \<Rightarrow> connectivity_fault" where
  "classify_git message =
     (let lowered = to_ascii_lowercase message
      in if mentions rejected_needles lowered then Rejected
         else if mentions refused_needles lowered then Refused
         else if mentions timed_out_needles lowered then TimedOut
         else Unreachable)"

lemma integration_parse_as_str: "integration_parse (integration_as_str i) = Some i"
  by (cases i) (simp_all add: integration_parse_def)

lemma integration_parse_Some: "integration_parse v = Some i \<Longrightarrow> v = integration_as_str i"
  by (auto simp: integration_parse_def split: if_splits)

lemma classify_git_lower: "classify_git (to_ascii_lowercase m) = classify_git m"
  by (simp add: classify_git_def)

lemma mentions_append: "mentions ns a \<Longrightarrow> mentions ns (p @ a @ q)"
  by (auto simp: mentions_def list_ex_iff contains_iff_sublist sublist_def)
     (metis append.assoc)

section \<open>The delay after a failure\<close>

record backoff_policy =
  bp_initial :: duration
  bp_ceiling :: duration

definition backoff_default :: backoff_policy where
  "backoff_default = \<lparr>bp_initial = from_secs 30, bp_ceiling = from_secs (30 * 60)\<rparr>"

definition delay_after :: "backoff_policy \<Rightarrow> nat \<Rightarrow> connectivity_fault \<Rightarrow> duration option" where
  "delay_after p consecutive_failures fault =
     (if \<not> is_worth_retrying fault \<or> consecutive_failures = 0 then None
      else
        let doublings = min (consecutive_failures - 1) 20;
            scaled = unwrap_or
              (duration_checked_mul (bp_initial p) (unwrap_or (u32_one_checked_shl doublings) u32_max))
              (bp_ceiling p)
        in Some (min scaled (bp_ceiling p)))"

definition backoff_policy_ok :: "backoff_policy \<Rightarrow> bool" where
  "backoff_policy_ok p \<longleftrightarrow> bp_ceiling p \<le> duration_max"

lemma delay_after_eq:
  assumes "backoff_policy_ok p" and "is_worth_retrying f" and "1 \<le> n"
  shows "delay_after p n f = Some (min (bp_ceiling p) (bp_initial p * 2 ^ min (n - 1) 20))"
  using assms
  by (auto simp: delay_after_def unwrap_or_def u32_one_checked_shl_def duration_checked_mul_def
      backoff_policy_ok_def min_def Let_def)

lemma delay_after_None: "delay_after p n f = None \<longleftrightarrow> \<not> is_worth_retrying f \<or> n = 0"
  by (auto simp: delay_after_def Let_def)

lemma backoff_default_ok: "backoff_policy_ok backoff_default"
  by (simp add: backoff_policy_ok_def backoff_default_def from_secs_def duration_max_def)

lemma two_power_step:
  "1 \<le> n \<Longrightarrow> (2::nat) ^ min (n - 1) k \<le> 2 ^ min (Suc n - 1) k
   \<and> (2::nat) ^ min (Suc n - 1) k \<le> 2 * 2 ^ min (n - 1) k"
proof -
  assume "1 \<le> n"
  then obtain j where n: "n = Suc j" by (cases n) auto
  show ?thesis
  proof (cases "j < k")
    case True
    then show ?thesis by (simp add: n min_def)
  next
    case False
    then show ?thesis by (simp add: n min_def)
  qed
qed

interpretation integration_delay: backoff
  "\<lambda>n. the (delay_after backoff_default n Unreachable)" "\<lambda>n. 2 ^ min (n - 1) 20"
  "bp_initial backoff_default" "bp_ceiling backoff_default"
  by unfold_locales
     (use two_power_step [where k = 20] in \<open>auto simp: delay_after_eq [OF backoff_default_ok]\<close>)

section \<open>The stored health\<close>

record integration_health =
  ih_integration :: integration
  ih_scope :: string
  ih_consecutive_failures :: nat
  ih_fault :: connectivity_fault
  ih_detail :: string
  ih_next_attempt :: "int option"
  ih_updated :: int

type_synonym backoff_table = "integration \<times> string \<Rightarrow> integration_health option"

definition is_ready_at :: "integration_health \<Rightarrow> int \<Rightarrow> bool" where
  "is_ready_at h now = (case ih_next_attempt h of Some at \<Rightarrow> at \<le> now | None \<Rightarrow> False)"

fun fault_column :: "connectivity_fault \<Rightarrow> string" where
  "fault_column Unreachable = ''unreachable''"
| "fault_column Rejected = ''rejected''"
| "fault_column Refused = ''refused''"
| "fault_column TimedOut = ''timed_out''"

definition fault_from_column :: "string \<Rightarrow> (store_error, connectivity_fault) result" where
  "fault_from_column v =
     (if v = ''unreachable'' then Inr Unreachable
      else if v = ''rejected'' then Inr Rejected
      else if v = ''refused'' then Inr Refused
      else if v = ''timed_out'' then Inr TimedOut
      else Inl (InvalidData (''stored connectivity fault '' @ v @ '' is not defined'')))"

definition integration_health_of :: "backoff_table \<Rightarrow> integration \<Rightarrow> string \<Rightarrow> integration_health option" where
  "integration_health_of t i scope = t (i, scope)"

definition record_integration_failure ::
  "backoff_table \<Rightarrow> integration \<Rightarrow> string \<Rightarrow> connectivity_fault \<Rightarrow> string \<Rightarrow> backoff_policy \<Rightarrow> int
    \<Rightarrow> (store_error, backoff_table \<times> integration_health) result" where
  "record_integration_failure t i scope fault detail policy now =
     (if blank scope \<or> blank detail \<or> 1024 < length detail then
        Inl (InvalidData ''integration failure needs a scope and a short non-empty detail'')
      else
        let previous = (case t (i, scope) of None \<Rightarrow> 0 | Some h \<Rightarrow> ih_consecutive_failures h);
            failures = u32_saturating_add previous 1;
            next_at = map_option (\<lambda>d. i64_saturating_add now d)
              (Option.bind (delay_after policy failures fault) (\<lambda>d. i64_try_from (as_millis d)));
            h = \<lparr>ih_integration = i, ih_scope = scope, ih_consecutive_failures = failures,
                 ih_fault = fault, ih_detail = detail, ih_next_attempt = next_at, ih_updated = now\<rparr>
        in Inr (t((i, scope) \<mapsto> h), h))"

definition clear_integration_failure :: "backoff_table \<Rightarrow> integration \<Rightarrow> string \<Rightarrow> backoff_table" where
  "clear_integration_failure t i scope = t((i, scope) := None)"

definition integration_is_ready :: "backoff_table \<Rightarrow> integration \<Rightarrow> string \<Rightarrow> int \<Rightarrow> bool" where
  "integration_is_ready t i scope now =
     (case integration_health_of t i scope of None \<Rightarrow> True | Some h \<Rightarrow> is_ready_at h now)"

lemma fault_column_roundtrip: "fault_from_column (fault_column f) = Inr f"
  by (cases f) (simp_all add: fault_from_column_def)

lemma record_integration_failure_Inr:
  "record_integration_failure t i scope fault detail policy now = Inr (t', h) \<Longrightarrow>
     t' = t((i, scope) \<mapsto> h) \<and> ih_fault h = fault \<and> ih_updated h = now
     \<and> ih_consecutive_failures h
        = u32_saturating_add (case t (i, scope) of None \<Rightarrow> 0 | Some h \<Rightarrow> ih_consecutive_failures h) 1
     \<and> ih_next_attempt h = map_option (\<lambda>d. i64_saturating_add now d)
        (Option.bind (delay_after policy (ih_consecutive_failures h) fault) (\<lambda>d. i64_try_from (as_millis d)))"
  by (auto simp: record_integration_failure_def Let_def split: if_splits)

text \<open>a recorded delay starts at the configured first delay, never shrinks as failures
  accumulate, at most doubles from one to the next, and never exceeds the ceiling; a fault that
  waiting cannot fix gets no delay however often it occurs.\<close>

theorem default_backoff_bounded:
  "(\<forall>n m d e. delay_after backoff_default n f = Some d \<and> delay_after backoff_default m f = Some e \<and> n \<le> m
      \<longrightarrow> bp_initial backoff_default \<le> d \<and> d \<le> e \<and> e \<le> bp_ceiling backoff_default
        \<and> (m = Suc n \<longrightarrow> e \<le> 2 * d))
   \<and> (\<forall>n. delay_after backoff_default n f = None \<longleftrightarrow> n = 0 \<or> f = Rejected \<or> f = Refused)"
proof -
  have same: "the (delay_after backoff_default n Unreachable) = d \<and> 1 \<le> n"
    if "delay_after backoff_default n f = Some d" for n d
    using that delay_after_None [of backoff_default n f] delay_after_eq [OF backoff_default_ok, of f n]
      delay_after_eq [OF backoff_default_ok, of Unreachable n]
    by (cases "n = 0") auto
  have first: "bp_initial backoff_default = min (bp_ceiling backoff_default) (bp_initial backoff_default)"
    by (simp add: backoff_default_def from_secs_def)
  have none: "delay_after backoff_default n f = None \<longleftrightarrow> n = 0 \<or> f = Rejected \<or> f = Refused" for n
    by (cases f) (auto simp: delay_after_None)
  have "bp_initial backoff_default \<le> d \<and> d \<le> e \<and> e \<le> bp_ceiling backoff_default \<and> (m = Suc n \<longrightarrow> e \<le> 2 * d)"
    if "delay_after backoff_default n f = Some d" "delay_after backoff_default m f = Some e" "n \<le> m"
    for n m d e
    using same [OF that(1)] same [OF that(2)] that(3) first integration_delay.delay_ge_first [of n]
      integration_delay.delay_mono [of n m] integration_delay.delay_le_ceiling [of m]
      integration_delay.delay_step [of n]
    by auto
  then show ?thesis using none by blast
qed

theorem default_backoff_bounded_witness:
  "delay_after backoff_default 2 TimedOut = Some (from_secs 60)
   \<and> delay_after backoff_default 3 TimedOut = Some (from_secs 120)
   \<and> from_secs 120 \<le> bp_ceiling backoff_default"
proof -
  have a: "delay_after backoff_default 2 TimedOut = Some (from_secs 60)"
    and b: "delay_after backoff_default 3 TimedOut = Some (from_secs 120)"
    using delay_after_eq [OF backoff_default_ok, of TimedOut 2] delay_after_eq [OF backoff_default_ok, of TimedOut 3]
    by (simp_all add: backoff_default_def from_secs_def)
  show ?thesis
    using default_backoff_bounded [THEN conjunct1, rule_format, OF conjI, OF a conjI, OF b] a b
    by simp
qed

text \<open>C30: recording a failure touches one integration and one scope only: every other endpoint is
  exactly as ready as before.  The endpoint itself is refused at once; after a fault that waiting
  can fix it becomes ready no later than the ceiling, after any other fault it stays refused at
  every later time, until a success clears it.\<close>

theorem failure_is_contained:
  assumes "record_integration_failure t i s f d backoff_default now = Inr (t', h)"
    and "0 \<le> now" and "now + 1800000 \<le> i64_max"
  shows "(\<forall>j r at. (j, r) \<noteq> (i, s) \<longrightarrow> integration_is_ready t' j r at = integration_is_ready t j r at)
    \<and> \<not> integration_is_ready t' i s now
    \<and> (is_worth_retrying f \<longrightarrow> integration_is_ready t' i s (now + 1800000))
    \<and> (\<not> is_worth_retrying f \<longrightarrow> (\<forall>at. \<not> integration_is_ready t' i s at))
    \<and> (\<forall>at. integration_is_ready (clear_integration_failure t' i s) i s at)"
proof -
  note r = record_integration_failure_Inr [OF assms(1)]
  have n: "1 \<le> ih_consecutive_failures h"
    using r by (simp add: u32_saturating_add_def u32_max_def)
  have worth: "\<exists>k. ih_next_attempt h = Some (now + int k) \<and> 0 < k \<and> k \<le> 1800000"
    if w: "is_worth_retrying f"
  proof -
    let ?n = "ih_consecutive_failures h"
    obtain e where e: "delay_after backoff_default ?n f = Some e"
      using delay_after_None [of backoff_default ?n f] w n by (cases "delay_after backoff_default ?n f") auto
    then have "e = the (delay_after backoff_default ?n Unreachable)"
      using delay_after_eq [OF backoff_default_ok w n] delay_after_eq [OF backoff_default_ok _ n, of Unreachable]
      by simp
    then have "from_secs 30 \<le> e" "e \<le> from_secs 1800"
      using integration_delay.delay_ge_first [OF n] integration_delay.delay_le_ceiling [OF n]
      by (simp_all add: backoff_default_def from_secs_def)
    then have k: "30000 \<le> as_millis e" "as_millis e \<le> 1800000"
      using div_le_mono [of "from_secs 30" e 1000000] div_le_mono [of e "from_secs 1800" 1000000]
      by (simp_all add: as_millis_def from_secs_def)
    then have "int (as_millis e) \<le> i64_max" using assms(2,3) by simp
    moreover have "i64_min \<le> now + int (as_millis e)" "now + int (as_millis e) \<le> i64_max"
      using assms(2,3) k by (auto simp: i64_min_def)
    ultimately have "ih_next_attempt h = Some (now + int (as_millis e))"
      using r e by (simp add: i64_try_from_def i64_saturating_add_def)
    then show ?thesis using k by (intro exI [of _ "as_millis e"]) simp
  qed
  have never: "ih_next_attempt h = None" if "\<not> is_worth_retrying f"
    using r that by (simp add: delay_after_def)
  have same: "integration_is_ready t' i s at = is_ready_at h at" for at
    using r by (simp add: integration_is_ready_def integration_health_of_def)
  have "\<not> is_ready_at h now \<and> (is_worth_retrying f \<longrightarrow> is_ready_at h (now + 1800000))
      \<and> (\<not> is_worth_retrying f \<longrightarrow> (\<forall>at. \<not> is_ready_at h at))"
    using worth never by (cases "is_worth_retrying f") (auto simp: is_ready_at_def)
  then show ?thesis
    using r unfolding same
    by (auto simp: integration_is_ready_def integration_health_of_def clear_integration_failure_def)
qed

theorem failure_is_contained_witness:
  "\<exists>t' h. record_integration_failure Map.empty Git ''repo_1'' Rejected ''denied'' backoff_default 5
       = Inr (t', h) \<and> (\<forall>at. \<not> integration_is_ready t' Git ''repo_1'' at)
     \<and> integration_is_ready t' Telegram ''repo_1'' 5"
proof -
  have ok: "\<not> blank ''repo_1''" "\<not> blank ''denied''"
    by (simp_all add: blank_def trim_def trim_start_def trim_end_def ws_encodings_def)
  then obtain t' h where r: "record_integration_failure Map.empty Git ''repo_1'' Rejected ''denied''
      backoff_default 5 = Inr (t', h)"
    by (simp add: record_integration_failure_def Let_def)
  show ?thesis
    using failure_is_contained [OF r] r
    by (simp add: i64_max_def integration_is_ready_def [of Map.empty] integration_health_of_def)
qed

end
