(* ===== verification/Schedule.thy ===== *)
theory Schedule
  imports Prelude "HOL-Library.Word" "HOL-Library.Multiset"
begin

text \<open>
  Civil-time scheduling policies and the slot generator (\<open>crates/core/src/schedule.rs\<close>).

  The time-zone database and the civil calendar belong to the crate \<open>jiff\<close>: they are the record
  \<open>'d calendar\<close>, an argument of every operation that uses them, where \<open>'d\<close> is jiff's date.
  Instants are Unix milliseconds.  The code keeps them in an \<open>i64\<close>: an instant that jiff accepts is
  below $2^{48}$ and a stored one is not negative, so the differences below never overflow and an
  \<open>int\<close> stands for them.  Where the code would panic the generator's result is \<open>None\<close>.
\<close>

unbundle bit_operations_syntax

section \<open>Days, times and windows\<close>

datatype weekday = Monday | Tuesday | Wednesday | Thursday | Friday | Saturday | Sunday

datatype jiff_weekday = JMonday | JTuesday | JWednesday | JThursday | JFriday | JSaturday | JSunday

fun weekday_from_jiff :: "jiff_weekday \<Rightarrow> weekday" where
  "weekday_from_jiff JMonday = Monday"
| "weekday_from_jiff JTuesday = Tuesday"
| "weekday_from_jiff JWednesday = Wednesday"
| "weekday_from_jiff JThursday = Thursday"
| "weekday_from_jiff JFriday = Friday"
| "weekday_from_jiff JSaturday = Saturday"
| "weekday_from_jiff JSunday = Sunday"

datatype daily_time = DailyTime (dt_hour: nat) (dt_minute: nat)

instantiation daily_time :: linorder
begin

definition less_eq_daily_time :: "daily_time \<Rightarrow> daily_time \<Rightarrow> bool" where
  "less_eq_daily_time a b \<longleftrightarrow>
     dt_hour a < dt_hour b \<or> dt_hour a = dt_hour b \<and> dt_minute a \<le> dt_minute b"

definition less_daily_time :: "daily_time \<Rightarrow> daily_time \<Rightarrow> bool" where
  "less_daily_time a b \<longleftrightarrow>
     dt_hour a < dt_hour b \<or> dt_hour a = dt_hour b \<and> dt_minute a < dt_minute b"

instance
  by standard (auto simp: less_eq_daily_time_def less_daily_time_def daily_time.expand)

end

datatype daily_window = DailyWindow (dw_start: daily_time) (dw_end: daily_time)

record daily_release_range =
  dr_minimum :: nat
  dr_maximum :: nat

datatype missed_window_behavior = RescheduleForward | CatchUp nat

datatype schedule_policy_error =
    InvalidTimeZone string
  | InvalidDailyTime nat nat
  | InvalidWindow daily_time daily_time
  | NoAllowedDays
  | NoWindows
  | TooManyWindows
  | OverlappingWindows
  | InvalidDailyReleaseRange nat nat
  | InvalidMinimumSpacing nat
  | DailyLimitExceedsWindowCapacity nat nat
  | InvalidCatchUpLimit nat
  | InvalidSchedulingTimestamp int
  | InsufficientSchedulingCapacity nat nat
  | SchedulingHorizonExceeded
  | RequestedTimeInPast string
  | RequestedDayNotAllowed weekday
  | RequestedTimeOutsideWindows string
  | RequestedTimeTooClose string nat int
  | RequestedDayIsFull string nat

definition max_daily_releases :: nat where "max_daily_releases = 24"
definition max_windows :: nat where "max_windows = 32"
definition max_scheduling_horizon_days :: nat where "max_scheduling_horizon_days = 366"

definition daily_time_new :: "nat \<Rightarrow> nat \<Rightarrow> (schedule_policy_error, daily_time) result" where
  "daily_time_new hour minute =
     (if 23 < hour \<or> 59 < minute then Inl (InvalidDailyTime hour minute)
      else Inr (DailyTime hour minute))"

definition minutes_after_midnight :: "daily_time \<Rightarrow> nat" where
  "minutes_after_midnight t = dt_hour t * 60 + dt_minute t"

definition daily_window_new ::
  "daily_time \<Rightarrow> daily_time \<Rightarrow> (schedule_policy_error, daily_window) result" where
  "daily_window_new s e = (if e \<le> s then Inl (InvalidWindow s e) else Inr (DailyWindow s e))"

definition daily_release_range_new ::
  "nat \<Rightarrow> nat \<Rightarrow> (schedule_policy_error, daily_release_range) result" where
  "daily_release_range_new minimum maximum =
     (if maximum = 0 \<or> maximum < minimum \<or> max_daily_releases < maximum
      then Inl (InvalidDailyReleaseRange minimum maximum)
      else Inr \<lparr>dr_minimum = minimum, dr_maximum = maximum\<rparr>)"

section \<open>What jiff provides\<close>

record 'd calendar =
  cal_zone_known :: "string \<Rightarrow> bool"
  cal_timestamp_ok :: "int \<Rightarrow> bool"
  cal_date :: "string \<Rightarrow> int \<Rightarrow> 'd"
  cal_local_text :: "string \<Rightarrow> int \<Rightarrow> string"
  cal_weekday :: "'d \<Rightarrow> jiff_weekday"
  cal_tomorrow :: "'d \<Rightarrow> 'd option"
  cal_date_text :: "'d \<Rightarrow> string"
  cal_instant :: "string \<Rightarrow> 'd \<Rightarrow> daily_time \<Rightarrow> int option"

definition iana_time_zone_new :: "'d calendar \<Rightarrow> string \<Rightarrow> (schedule_policy_error, string) result" where
  "iana_time_zone_new cal v =
     (if blank v \<or> 128 < length v \<or> list_ex (contains v) ws_encodings then Inl (InvalidTimeZone v)
      else if \<not> cal_zone_known cal v then Inl (InvalidTimeZone v)
      else Inr v)"

definition local_date :: "'d calendar \<Rightarrow> int \<Rightarrow> string \<Rightarrow> (schedule_policy_error, 'd) result" where
  "local_date cal instant timezone =
     (if \<not> cal_timestamp_ok cal instant then Inl (InvalidSchedulingTimestamp instant)
      else if \<not> cal_zone_known cal timezone then Inl (InvalidTimeZone timezone)
      else Inr (cal_date cal timezone instant))"

section \<open>The policy\<close>

record schedule_policy =
  sp_timezone :: string
  sp_allowed_days :: "weekday set"
  sp_windows :: "daily_window list"
  sp_daily_releases :: daily_release_range
  sp_minimum_spacing :: nat
  sp_missed_window :: missed_window_behavior

text \<open>The inner loop of \<open>slot_capacity\<close>.  Its only caller has checked that the spacing is positive;
  the second guard makes the recursion well-founded and is true on every call.\<close>

function capacity_in :: "nat \<Rightarrow> nat \<Rightarrow> nat \<Rightarrow> nat \<times> nat" where
  "capacity_in spacing candidate stop =
     (if candidate < stop \<and> 0 < spacing then
        (case capacity_in spacing (candidate + spacing) stop of (n, next_candidate) \<Rightarrow> (Suc n, next_candidate))
      else (0, candidate))"
  by auto
termination by (relation "measure (\<lambda>(spacing, candidate, stop). stop - candidate)") auto

declare capacity_in.simps [simp del]

fun capacity_from :: "nat \<Rightarrow> nat option \<Rightarrow> daily_window list \<Rightarrow> nat" where
  "capacity_from spacing next_candidate [] = 0"
| "capacity_from spacing next_candidate (w # ws) =
     (let start = minutes_after_midnight (dw_start w);
          stop = minutes_after_midnight (dw_end w)
      in case capacity_in spacing (max (unwrap_or next_candidate start) start) stop of
           (n, candidate) \<Rightarrow> n + capacity_from spacing (Some candidate) ws)"

definition slot_capacity :: "daily_window list \<Rightarrow> nat \<Rightarrow> nat" where
  "slot_capacity windows spacing = capacity_from spacing None windows"

fun overlapping :: "daily_window list \<Rightarrow> bool" where
  "overlapping (v # w # ws) \<longleftrightarrow> dw_start w < dw_end v \<or> overlapping (w # ws)"
| "overlapping _ \<longleftrightarrow> False"

fun catch_up_limit_ok :: "missed_window_behavior \<Rightarrow> (schedule_policy_error, unit) result" where
  "catch_up_limit_ok RescheduleForward = Inr ()"
| "catch_up_limit_ok (CatchUp n) = ensure (0 < n \<and> n \<le> max_daily_releases) (InvalidCatchUpLimit n)"

definition schedule_policy_new ::
  "string \<Rightarrow> weekday set \<Rightarrow> daily_window list \<Rightarrow> daily_release_range \<Rightarrow> nat \<Rightarrow> missed_window_behavior
    \<Rightarrow> (schedule_policy_error, schedule_policy) result" where
  "schedule_policy_new timezone allowed_days windows daily spacing missed =
     (if allowed_days = {} then Inl NoAllowedDays
      else if windows = [] then Inl NoWindows
      else if max_windows < length windows then Inl TooManyWindows
      else if spacing = 0 \<or> 24 * 60 < spacing then Inl (InvalidMinimumSpacing spacing)
      else
        let windows = sort_key dw_start windows
        in if overlapping windows then Inl OverlappingWindows
           else and_then (catch_up_limit_ok missed) (\<lambda>_.
             let capacity = slot_capacity windows spacing
             in if capacity < dr_maximum daily
                then Inl (DailyLimitExceedsWindowCapacity (dr_maximum daily) capacity)
                else Inr \<lparr>sp_timezone = timezone, sp_allowed_days = allowed_days, sp_windows = windows,
                          sp_daily_releases = daily, sp_minimum_spacing = spacing,
                          sp_missed_window = missed\<rparr>))"

record schedule_policy_override =
  so_timezone :: "string option"
  so_allowed_days :: "weekday set option"
  so_windows :: "daily_window list option"
  so_daily_releases :: "daily_release_range option"
  so_minimum_spacing :: "nat option"
  so_missed_window :: "missed_window_behavior option"

definition with_override ::
  "schedule_policy \<Rightarrow> schedule_policy_override \<Rightarrow> (schedule_policy_error, schedule_policy) result" where
  "with_override p ov =
     schedule_policy_new
       (unwrap_or (so_timezone ov) (sp_timezone p))
       (unwrap_or (so_allowed_days ov) (sp_allowed_days p))
       (unwrap_or (so_windows ov) (sp_windows p))
       (unwrap_or (so_daily_releases ov) (sp_daily_releases p))
       (unwrap_or (so_minimum_spacing ov) (sp_minimum_spacing p))
       (unwrap_or (so_missed_window ov) (sp_missed_window p))"

section \<open>Choosing slots\<close>

record planned_slot =
  ps_selected_at :: int
  ps_local_date :: string
  ps_timezone :: string

type_synonym slot_generator = "64 word"

definition seeded :: "64 word \<Rightarrow> slot_generator" where
  "seeded seed = (if seed = 0 then 0x9E3779B97F4A7C15 else seed)"

definition xorshift :: "64 word \<Rightarrow> 64 word" where
  "xorshift s =
     (let s = s XOR drop_bit 12 s;
          s = s XOR push_bit 25 s
      in s XOR drop_bit 27 s)"

text \<open>The remainder by zero panics.\<close>

definition next_index :: "slot_generator \<Rightarrow> nat \<Rightarrow> (nat \<times> slot_generator) option" where
  "next_index g upper_bound =
     (if upper_bound = 0 then None
      else let g = xorshift g
           in Some (unat (g * 0x2545F4914F6CDD1D) mod upper_bound, g))"

text \<open>The \<open>while\<close> loop over the minutes of one window that stay clear of the occupied instants.\<close>

function free_minutes :: "int list \<Rightarrow> int \<Rightarrow> int \<Rightarrow> int \<Rightarrow> int list" where
  "free_minutes occupied spacing_ms candidate stop =
     (if candidate < stop then
        (if list_all (\<lambda>existing. spacing_ms \<le> \<bar>candidate - existing\<bar>) occupied
         then candidate # free_minutes occupied spacing_ms (candidate + 60000) stop
         else free_minutes occupied spacing_ms (candidate + 60000) stop)
      else [])"
  by auto
termination by (relation "measure (\<lambda>(occupied, spacing_ms, candidate, stop). nat (stop - candidate))") auto

declare free_minutes.simps [simp del]

definition first_minute :: "int \<Rightarrow> int" where
  "first_minute i = i div 60000 * 60000 + (if i mod 60000 = 0 then 0 else 60000)"

fun candidates_in ::
  "'d calendar \<Rightarrow> string \<Rightarrow> 'd \<Rightarrow> int \<Rightarrow> int list \<Rightarrow> int \<Rightarrow> daily_window list
    \<Rightarrow> (schedule_policy_error, int list) result" where
  "candidates_in cal timezone date not_before occupied spacing_ms [] = Inr []"
| "candidates_in cal timezone date not_before occupied spacing_ms (w # ws) =
     and_then (ok_or (cal_instant cal timezone date (dw_start w)) SchedulingHorizonExceeded) (\<lambda>start.
     and_then (ok_or (cal_instant cal timezone date (dw_end w)) SchedulingHorizonExceeded) (\<lambda>stop.
     and_then (candidates_in cal timezone date not_before occupied spacing_ms ws) (\<lambda>rest.
       Inr (free_minutes occupied spacing_ms (first_minute (max start not_before)) stop @ rest))))"

definition candidates_for_date ::
  "'d calendar \<Rightarrow> schedule_policy \<Rightarrow> 'd \<Rightarrow> int \<Rightarrow> int list \<Rightarrow> int
    \<Rightarrow> (schedule_policy_error, int list) result" where
  "candidates_for_date cal p date not_before occupied spacing_ms =
     candidates_in cal (sp_timezone p) date not_before occupied spacing_ms (sp_windows p)"

definition swap_remove :: "nat \<Rightarrow> 'a list \<Rightarrow> 'a list" where
  "swap_remove i xs = butlast (xs[i := last xs])"

definition spacing_ms_of :: "schedule_policy \<Rightarrow> int" where
  "spacing_ms_of p = int (sp_minimum_spacing p) * 60000"

definition existing_on :: "'d calendar \<Rightarrow> string \<Rightarrow> 'd \<Rightarrow> int list \<Rightarrow> nat" where
  "existing_on cal timezone date instants =
     length (filter (\<lambda>i. local_date cal i timezone = Inr date) instants)"

text \<open>The \<open>for _ in 0..count\<close> loop of one day: draw a candidate, drop what is now too close.\<close>

fun pick_slots ::
  "int \<Rightarrow> (int \<Rightarrow> planned_slot) \<Rightarrow> nat \<Rightarrow> slot_generator \<Rightarrow> int list \<Rightarrow> int list \<Rightarrow> planned_slot list
    \<Rightarrow> (slot_generator \<times> int list \<times> planned_slot list) option" where
  "pick_slots spacing_ms slot 0 g candidates occupied selected = Some (g, occupied, selected)"
| "pick_slots spacing_ms slot (Suc n) g candidates occupied selected =
     (case next_index g (length candidates) of
        None \<Rightarrow> None
      | Some (index, g) \<Rightarrow>
          let instant = candidates ! index;
              rest = swap_remove index candidates
          in pick_slots spacing_ms slot n g
               (filter (\<lambda>candidate. spacing_ms \<le> \<bar>candidate - instant\<bar>) rest)
               (occupied @ [instant]) (selected @ [slot instant]))"

text \<open>How many slots one eligible day is asked for.\<close>

definition wanted_today ::
  "slot_generator \<Rightarrow> nat \<Rightarrow> nat \<Rightarrow> nat \<Rightarrow> (nat \<times> slot_generator) option" where
  "wanted_today g remaining daily_minimum daily_maximum =
     (if remaining \<le> daily_minimum then Some (remaining, g)
      else
        let lower = min daily_minimum daily_maximum
        in map_option (\<lambda>(i, g). (lower + i, g)) (next_index g (daily_maximum - lower + 1)))"

definition select_day ::
  "'d calendar \<Rightarrow> schedule_policy \<Rightarrow> int \<Rightarrow> nat \<Rightarrow> 'd
    \<Rightarrow> slot_generator \<Rightarrow> int list \<Rightarrow> planned_slot list
    \<Rightarrow> (schedule_policy_error, slot_generator \<times> int list \<times> planned_slot list) result option" where
  "select_day cal p not_before requested date g occupied selected =
     (if weekday_from_jiff (cal_weekday cal date) \<notin> sp_allowed_days p
      then Some (Inr (g, occupied, selected))
      else
        let existing_today = existing_on cal (sp_timezone p) date occupied;
            remaining_capacity = dr_maximum (sp_daily_releases p) - existing_today
        in if remaining_capacity = 0 then Some (Inr (g, occupied, selected))
           else
             let remaining = requested - length selected;
                 daily_minimum = dr_minimum (sp_daily_releases p) - existing_today;
                 daily_maximum = min remaining_capacity remaining
             in case wanted_today g remaining daily_minimum daily_maximum of
                  None \<Rightarrow> None
                | Some (wanted, g) \<Rightarrow>
                    (case candidates_for_date cal p date not_before occupied (spacing_ms_of p) of
                       Inl e \<Rightarrow> Some (Inl e)
                     | Inr candidates \<Rightarrow>
                         map_option Inr
                           (pick_slots (spacing_ms_of p)
                              (\<lambda>instant. \<lparr>ps_selected_at = instant, ps_local_date = cal_date_text cal date,
                                          ps_timezone = sp_timezone p\<rparr>)
                              (min wanted (length candidates)) g candidates occupied selected)))"

text \<open>The loop over the days of the horizon.\<close>

fun select_days ::
  "'d calendar \<Rightarrow> schedule_policy \<Rightarrow> int \<Rightarrow> nat \<Rightarrow> nat \<Rightarrow> 'd
    \<Rightarrow> slot_generator \<Rightarrow> int list \<Rightarrow> planned_slot list
    \<Rightarrow> (schedule_policy_error, slot_generator \<times> int list \<times> planned_slot list) result option" where
  "select_days cal p not_before requested 0 date g occupied selected = Some (Inr (g, occupied, selected))"
| "select_days cal p not_before requested (Suc n) date g occupied selected =
     (if length selected = requested then Some (Inr (g, occupied, selected))
      else
        case select_day cal p not_before requested date g occupied selected of
          None \<Rightarrow> None
        | Some (Inl e) \<Rightarrow> Some (Inl e)
        | Some (Inr (g, occupied, selected)) \<Rightarrow>
            (case cal_tomorrow cal date of
               None \<Rightarrow> Some (Inl SchedulingHorizonExceeded)
             | Some date \<Rightarrow> select_days cal p not_before requested n date g occupied selected))"

definition select ::
  "'d calendar \<Rightarrow> slot_generator \<Rightarrow> schedule_policy \<Rightarrow> int \<Rightarrow> nat \<Rightarrow> int list
    \<Rightarrow> (schedule_policy_error, planned_slot list \<times> slot_generator) result option" where
  "select cal g p not_before requested existing =
     (if requested = 0 then Some (Inr ([], g))
      else if not_before < 0 then Some (Inl (InvalidSchedulingTimestamp not_before))
      else
        case local_date cal not_before (sp_timezone p) of
          Inl e \<Rightarrow> Some (Inl e)
        | Inr date \<Rightarrow>
            (case select_days cal p not_before requested max_scheduling_horizon_days date g existing [] of
               None \<Rightarrow> None
             | Some (Inl e) \<Rightarrow> Some (Inl e)
             | Some (Inr (g, occupied, selected)) \<Rightarrow>
                 if length selected \<noteq> requested
                 then Some (Inl (InsufficientSchedulingCapacity requested (length selected)))
                 else Some (Inr (sort_key ps_selected_at selected, g))))"

section \<open>Checking a requested slot\<close>

text \<open>\<open>Iterator::min_by_key\<close>: the first of the least elements.\<close>

fun min_by_key :: "('a \<Rightarrow> int) \<Rightarrow> 'a list \<Rightarrow> 'a option" where
  "min_by_key f [] = None"
| "min_by_key f (x # xs) =
     (case min_by_key f xs of
        None \<Rightarrow> Some x
      | Some y \<Rightarrow> if f x \<le> f y then Some x else Some y)"

definition too_close :: "schedule_policy \<Rightarrow> int \<Rightarrow> int list \<Rightarrow> int option" where
  "too_close p requested existing =
     (case min_by_key (\<lambda>e. \<bar>e - requested\<bar>) (filter (\<lambda>e. e \<noteq> requested) existing) of
        None \<Rightarrow> None
      | Some conflict \<Rightarrow>
          if \<bar>conflict - requested\<bar> < spacing_ms_of p then Some \<bar>conflict - requested\<bar> else None)"

definition validate_requested_slot ::
  "'d calendar \<Rightarrow> schedule_policy \<Rightarrow> int \<Rightarrow> int \<Rightarrow> int list
    \<Rightarrow> (schedule_policy_error, planned_slot) result" where
  "validate_requested_slot cal p requested not_before existing =
     (if requested < 0 then Inl (InvalidSchedulingTimestamp requested)
      else and_then (local_date cal requested (sp_timezone p)) (\<lambda>date.
        let requested_local = cal_local_text cal (sp_timezone p) requested;
            weekday = weekday_from_jiff (cal_weekday cal date)
        in if requested < not_before then Inl (RequestedTimeInPast requested_local)
           else if weekday \<notin> sp_allowed_days p then Inl (RequestedDayNotAllowed weekday)
           else and_then (candidates_for_date cal p date requested [] (spacing_ms_of p)) (\<lambda>window_minutes.
             if requested \<notin> set window_minutes then Inl (RequestedTimeOutsideWindows requested_local)
             else
               case too_close p requested existing of
                 Some distance \<Rightarrow>
                   Inl (RequestedTimeTooClose requested_local (sp_minimum_spacing p) (distance div 60000))
               | None \<Rightarrow>
                   if dr_maximum (sp_daily_releases p)
                      \<le> existing_on cal (sp_timezone p) date (filter (\<lambda>i. i \<noteq> requested) existing)
                   then Inl (RequestedDayIsFull (cal_date_text cal date) (dr_maximum (sp_daily_releases p)))
                   else Inr \<lparr>ps_selected_at = requested, ps_local_date = cal_date_text cal date,
                             ps_timezone = sp_timezone p\<rparr>)))"

definition windows_on :: "'d calendar \<Rightarrow> schedule_policy \<Rightarrow> int \<Rightarrow> daily_window list" where
  "windows_on cal p instant =
     (case local_date cal instant (sp_timezone p) of
        Inl _ \<Rightarrow> []
      | Inr date \<Rightarrow>
          if weekday_from_jiff (cal_weekday cal date) \<notin> sp_allowed_days p then [] else sp_windows p)"

section \<open>Capacity of the windows of a day\<close>

definition time_wf :: "daily_time \<Rightarrow> bool" where
  "time_wf t \<longleftrightarrow> dt_hour t \<le> 23 \<and> dt_minute t \<le> 59"

definition window_wf :: "daily_window \<Rightarrow> bool" where
  "window_wf w \<longleftrightarrow> time_wf (dw_start w) \<and> time_wf (dw_end w) \<and> dw_start w < dw_end w"

lemma daily_time_new_wf: "daily_time_new h m = Inr t \<longleftrightarrow> t = DailyTime h m \<and> time_wf t"
  by (auto simp: daily_time_new_def time_wf_def)

lemma daily_window_new_wf:
  "time_wf a \<Longrightarrow> time_wf b \<Longrightarrow> daily_window_new a b = Inr w \<longleftrightarrow> w = DailyWindow a b \<and> window_wf w"
  by (auto simp: daily_window_new_def window_wf_def)

lemma minutes_le: "time_wf a \<Longrightarrow> time_wf b \<Longrightarrow>
    minutes_after_midnight a \<le> minutes_after_midnight b \<longleftrightarrow> a \<le> b"
  by (auto simp: minutes_after_midnight_def time_wf_def less_eq_daily_time_def)

lemma minutes_less: "time_wf a \<Longrightarrow> time_wf b \<Longrightarrow>
    minutes_after_midnight a < minutes_after_midnight b \<longleftrightarrow> a < b"
  using minutes_le [of b a] by (simp add: not_le [symmetric])

definition in_window :: "nat \<Rightarrow> daily_window \<Rightarrow> bool" where
  "in_window m w \<longleftrightarrow>
     minutes_after_midnight (dw_start w) \<le> m \<and> m < minutes_after_midnight (dw_end w)"

text \<open>The abstract question: can \<open>n\<close> releases be placed in the windows, from minute \<open>lo\<close> on, each at
  least the spacing after the one before?\<close>

definition placement :: "nat \<Rightarrow> nat \<Rightarrow> daily_window list \<Rightarrow> nat list \<Rightarrow> bool" where
  "placement spacing lo ws ms \<longleftrightarrow>
     sorted_wrt (\<lambda>a b. a + spacing \<le> b) ms
     \<and> (\<forall>m \<in> set ms. lo \<le> m \<and> (\<exists>w \<in> set ws. in_window m w))"

fun disjoint_windows :: "daily_window list \<Rightarrow> bool" where
  "disjoint_windows [] \<longleftrightarrow> True"
| "disjoint_windows (w # ws) \<longleftrightarrow>
     (\<forall>v \<in> set ws. minutes_after_midnight (dw_end w) \<le> minutes_after_midnight (dw_start v))
     \<and> disjoint_windows ws"

lemma disjoint_windows_ordered:
  "list_all window_wf ws \<Longrightarrow> \<not> overlapping ws \<Longrightarrow> disjoint_windows ws \<and> sorted (map dw_start ws)"
proof (induction ws rule: overlapping.induct)
  case (1 v w ws)
  then have ih: "disjoint_windows (w # ws)" "sorted (map dw_start (w # ws))" and le: "dw_end v \<le> dw_start w"
    and wf: "window_wf v" "window_wf w" "\<forall>u \<in> set ws. window_wf u"
    by (auto simp: list_all_iff)
  have "dw_end v \<le> dw_start u" if "u \<in> set (w # ws)" for u
    using that le ih(2) by fastforce
  then have "minutes_after_midnight (dw_end v) \<le> minutes_after_midnight (dw_start u)" if "u \<in> set (w # ws)" for u
    using that wf by (auto simp: window_wf_def minutes_le)
  moreover have "dw_start v \<le> dw_start u" if "u \<in> set (w # ws)" for u
    using that \<open>\<And>u. u \<in> set (w # ws) \<Longrightarrow> dw_end v \<le> dw_start u\<close> [OF that] wf(1)
    by (auto simp: window_wf_def)
  ultimately show ?case using ih by auto
qed (auto)

text \<open>What the loop over the windows computes once it has reached minute \<open>c\<close> of the first one.\<close>

definition cap_at :: "nat \<Rightarrow> nat \<Rightarrow> daily_window list \<Rightarrow> nat" where
  "cap_at spacing c ws = capacity_from spacing (Some c) ws"

definition cap_in :: "nat \<Rightarrow> nat \<Rightarrow> nat \<Rightarrow> daily_window list \<Rightarrow> nat" where
  "cap_in spacing c stop ws = (case capacity_in spacing c stop of (n, d) \<Rightarrow> n + cap_at spacing d ws)"

lemma cap_in_step:
  "0 < s \<Longrightarrow> c < stop \<Longrightarrow> cap_in s c stop ws = Suc (cap_in s (c + s) stop ws)"
  "stop \<le> c \<Longrightarrow> cap_in s c stop ws = cap_at s c ws"
  by (simp_all add: cap_in_def capacity_in.simps [of s c stop] split: prod.splits)

lemma cap_at_Cons:
  "cap_at s c (w # ws) =
     cap_in s (max c (minutes_after_midnight (dw_start w))) (minutes_after_midnight (dw_end w)) ws"
  by (simp add: cap_at_def cap_in_def unwrap_or_def Let_def split: prod.splits)

lemma cap_at_Nil [simp]: "cap_at s c [] = 0"
  by (simp add: cap_at_def)

lemma cap_in_antimono:
  assumes s: "0 < s"
    and anti: "\<And>a b. a \<le> b \<Longrightarrow> cap_at s b ws \<le> cap_at s a ws"
    and step: "\<And>a. cap_at s a ws \<le> Suc (cap_at s (a + s) ws)"
  shows "c \<le> d \<Longrightarrow> cap_in s d stop ws \<le> cap_in s c stop ws"
proof (induction "stop - c" arbitrary: c d rule: less_induct)
  case less
  show ?case
  proof (cases "c < stop")
    case False
    then show ?thesis using less.prems anti by (simp add: cap_in_step(2))
  next
    case c: True
    have ih: "c + s \<le> d' \<Longrightarrow> cap_in s d' stop ws \<le> cap_in s (c + s) stop ws" for d'
      using less.hyps [of "c + s" d'] c s by simp
    show ?thesis
    proof (cases "d < stop")
      case True
      then show ?thesis using ih [of "d + s"] less.prems c s by (simp add: cap_in_step(1))
    next
      case False
      show ?thesis
      proof (cases "c + s \<le> d")
        case True
        then show ?thesis using ih [of d] c s by (simp add: cap_in_step(1))
      next
        case near: False
        then show ?thesis
          using False c s step [of d] anti [of "c + s" "d + s"] less.prems
          by (simp add: cap_in_step)
      qed
    qed
  qed
qed

lemma cap_at_props:
  assumes s: "0 < s"
  shows "(\<forall>a b. a \<le> b \<longrightarrow> cap_at s b ws \<le> cap_at s a ws) \<and> (\<forall>a. cap_at s a ws \<le> Suc (cap_at s (a + s) ws))"
proof (induction ws)
  case Nil
  then show ?case by simp
next
  case (Cons w ws)
  let ?b = "minutes_after_midnight (dw_start w)" and ?e = "minutes_after_midnight (dw_end w)"
  note mono = cap_in_antimono [OF s, of ws]
  have anti: "c \<le> d \<Longrightarrow> cap_in s d ?e ws \<le> cap_in s c ?e ws" for c d
    using Cons.IH by (intro mono) auto
  have step: "cap_in s c ?e ws \<le> Suc (cap_in s (c + s) ?e ws)" for c
    using Cons.IH s by (cases "c < ?e") (auto simp: cap_in_step)
  have "cap_at s a (w # ws) \<le> Suc (cap_at s (a + s) (w # ws))" for a
    using step [of "max a ?b"] anti [of "max (a + s) ?b" "max a ?b + s"]
    by (simp add: cap_at_Cons) (metis (no_types) Suc_le_mono le_add1 max.cobounded2 order_trans)
  moreover have "cap_at s b (w # ws) \<le> cap_at s a (w # ws)" if "a \<le> b" for a b
    using that anti [of "max a ?b" "max b ?b"] by (simp add: cap_at_Cons)
  ultimately show ?case by blast
qed

lemma cap_at_member:
  assumes s: "0 < s" and "disjoint_windows ws" and "w \<in> set ws" and "in_window m w"
    and "\<forall>v \<in> set ws. minutes_after_midnight (dw_start v) \<le> minutes_after_midnight (dw_end v)"
  shows "Suc (cap_at s (m + s) ws) \<le> cap_at s m ws"
  using assms(2-)
proof (induction ws)
  case Nil
  then show ?case by simp
next
  case (Cons v ws)
  let ?b = "minutes_after_midnight (dw_start v)" and ?e = "minutes_after_midnight (dw_end v)"
  show ?case
  proof (cases "w = v")
    case True
    then have "?b \<le> m" "m < ?e" using Cons.prems by (simp_all add: in_window_def)
    then show ?thesis using s by (simp add: cap_at_Cons cap_in_step(1) max_def)
  next
    case False
    then have "?b \<le> m" "?e \<le> m"
      using Cons.prems by (auto simp: in_window_def intro: order_trans)
    moreover from this have "max m ?b = m" "max (m + s) ?b = m + s" by simp_all
    ultimately show ?thesis using Cons False by (simp add: cap_at_Cons cap_in_step(2))
  qed
qed

lemma placement_bound:
  assumes s: "0 < s" and d: "disjoint_windows ws"
    and "\<forall>v \<in> set ws. minutes_after_midnight (dw_start v) \<le> minutes_after_midnight (dw_end v)"
  shows "placement s lo ws ms \<Longrightarrow> length ms \<le> cap_at s lo ws"
proof (induction ms arbitrary: lo)
  case Nil
  then show ?case by simp
next
  case (Cons m ms)
  then obtain w where w: "w \<in> set ws" "in_window m w" "lo \<le> m" by (auto simp: placement_def)
  have "placement s (m + s) ws ms" using Cons.prems by (auto simp: placement_def)
  then have "length (m # ms) \<le> Suc (cap_at s (m + s) ws)" using Cons.IH by simp
  also have "\<dots> \<le> cap_at s m ws" using cap_at_member [OF s d w(1,2) assms(3)] .
  also have "\<dots> \<le> cap_at s lo ws" using cap_at_props [OF s] w(3) by blast
  finally show ?case .
qed

lemma placement_weaken:
  "placement s lo ws ms \<Longrightarrow> lo' \<le> lo \<Longrightarrow> set ws \<subseteq> set ws' \<Longrightarrow> placement s lo' ws' ms"
  unfolding placement_def by (meson order_trans subsetD)

lemma placement_in:
  assumes s: "0 < s" and rest: "\<And>lo. \<exists>ms. placement s lo ws ms \<and> length ms = cap_at s lo ws"
    and "minutes_after_midnight (dw_start w) \<le> c"
  shows "\<exists>ms. placement s c (w # ws) ms
    \<and> length ms = cap_in s c (minutes_after_midnight (dw_end w)) ws"
  using assms(3)
proof (induction "minutes_after_midnight (dw_end w) - c" arbitrary: c rule: less_induct)
  case less
  let ?e = "minutes_after_midnight (dw_end w)"
  show ?case
  proof (cases "c < ?e")
    case False
    then show ?thesis using rest [of c] placement_weaken [of s c ws _ c "w # ws"]
      by (auto simp: cap_in_step(2))
  next
    case True
    have "\<exists>ms. placement s (c + s) (w # ws) ms \<and> length ms = cap_in s (c + s) ?e ws"
      using less.hyps [of "c + s"] less.prems True s by simp
    then obtain ms where ms: "placement s (c + s) (w # ws) ms" "length ms = cap_in s (c + s) ?e ws"
      by blast
    have "placement s c (w # ws) (c # ms)"
      using ms(1) True less.prems by (fastforce simp: placement_def in_window_def)
    then show ?thesis using ms(2) True s by (intro exI [of _ "c # ms"]) (simp add: cap_in_step(1))
  qed
qed

lemma placement_exists:
  assumes s: "0 < s"
  shows "\<exists>ms. placement s lo ws ms \<and> length ms = cap_at s lo ws"
proof (induction ws arbitrary: lo)
  case Nil
  then show ?case by (intro exI [of _ "[]"]) (simp add: placement_def)
next
  case (Cons w ws)
  let ?c = "max lo (minutes_after_midnight (dw_start w))"
  obtain ms where "placement s ?c (w # ws) ms" "length ms = cap_at s lo (w # ws)"
    using placement_in [OF s Cons.IH, of w ?c] by (auto simp: cap_at_Cons)
  then show ?case using placement_weaken [of s ?c "w # ws" ms lo "w # ws"]
    by (intro exI [of _ ms]) simp
qed

lemma slot_capacity_cap_at: "slot_capacity ws s = cap_at s 0 ws"
  by (cases ws) (simp_all add: slot_capacity_def cap_at_def unwrap_or_def)

section \<open>The policy's invariant\<close>

definition schedule_policy_ok :: "schedule_policy \<Rightarrow> bool" where
  "schedule_policy_ok p \<longleftrightarrow>
     sp_allowed_days p \<noteq> {} \<and> sp_windows p \<noteq> [] \<and> length (sp_windows p) \<le> max_windows
     \<and> 0 < sp_minimum_spacing p \<and> sp_minimum_spacing p \<le> 24 * 60
     \<and> sorted (map dw_start (sp_windows p)) \<and> \<not> overlapping (sp_windows p)
     \<and> catch_up_limit_ok (sp_missed_window p) = Inr ()
     \<and> dr_maximum (sp_daily_releases p) \<le> slot_capacity (sp_windows p) (sp_minimum_spacing p)"

lemma schedule_policy_new_Inr:
  "schedule_policy_new tz days ws dr sp mb = Inr p \<longleftrightarrow>
     schedule_policy_ok p
     \<and> p = \<lparr>sp_timezone = tz, sp_allowed_days = days, sp_windows = sort_key dw_start ws,
           sp_daily_releases = dr, sp_minimum_spacing = sp, sp_missed_window = mb\<rparr>"
  by (auto simp: schedule_policy_new_def schedule_policy_ok_def Let_def res split: if_splits)
     (metis length_0_conv length_sort)

lemma sort_key_sorted: "sorted (map f xs) \<Longrightarrow> sort_key f xs = xs"
  by (induction xs) (auto simp: insort_is_Cons)

definition no_override :: schedule_policy_override where
  "no_override = \<lparr>so_timezone = None, so_allowed_days = None, so_windows = None,
     so_daily_releases = None, so_minimum_spacing = None, so_missed_window = None\<rparr>"

definition noon_policy :: schedule_policy where
  "noon_policy = \<lparr>sp_timezone = ''UTC'', sp_allowed_days = UNIV,
     sp_windows = [DailyWindow (DailyTime 12 0) (DailyTime 12 3)],
     sp_daily_releases = \<lparr>dr_minimum = 2, dr_maximum = 2\<rparr>, sp_minimum_spacing = 2,
     sp_missed_window = RescheduleForward\<rparr>"

lemma noon_capacity: "slot_capacity (sp_windows noon_policy) 2 = 2"
  by (simp add: slot_capacity_def noon_policy_def unwrap_or_def minutes_after_midnight_def
      capacity_in.simps Let_def)

lemma noon_windows_wf: "list_all window_wf (sp_windows noon_policy)"
  by (simp add: noon_policy_def window_wf_def time_wf_def less_daily_time_def)

lemma noon_policy_ok: "schedule_policy_ok noon_policy"
  using noon_capacity by (simp add: schedule_policy_ok_def noon_policy_def max_windows_def)

text \<open>a constructed policy always satisfies the invariant: days, windows and spacing in
  bounds, the windows in order and disjoint, the catch-up limit in bounds and the daily maximum
  within the capacity of its windows.  A repository override is checked as one unit with what it
  inherits, so it can break nothing, and overriding nothing gives back the same policy.\<close>

theorem schedule_policy_invariant:
  "(schedule_policy_new tz days ws dr sp mb = Inr p \<longrightarrow> schedule_policy_ok p)
   \<and> (with_override q ov = Inr r \<longrightarrow> schedule_policy_ok r)
   \<and> (schedule_policy_ok q \<longrightarrow> with_override q no_override = Inr q)"
proof -
  have "with_override q no_override = Inr q" if ok: "schedule_policy_ok q"
  proof -
    have "sort_key dw_start (sp_windows q) = sp_windows q"
      using ok by (intro sort_key_sorted) (simp add: schedule_policy_ok_def)
    then show ?thesis
      using ok by (simp add: with_override_def no_override_def unwrap_or_def schedule_policy_new_Inr)
  qed
  then show ?thesis by (auto simp: schedule_policy_new_Inr with_override_def)
qed

theorem schedule_policy_invariant_witness:
  "with_override noon_policy no_override = Inr noon_policy"
  using schedule_policy_invariant [of _ _ _ _ _ _ _ noon_policy] noon_policy_ok by blast

text \<open>C31: the capacity a policy is held to is exact.  In the disjoint windows of a day \<open>n\<close> releases
  can be placed at the required spacing if and only if \<open>n\<close> is at most \<open>slot_capacity\<close>, so the greedy
  count neither refuses a daily maximum that fits nor admits one that cannot fit.\<close>

theorem slot_capacity_exact:
  assumes "list_all window_wf ws" and "\<not> overlapping ws" and "0 < spacing"
  shows "(\<exists>ms. placement spacing 0 ws ms \<and> length ms = n) \<longleftrightarrow> n \<le> slot_capacity ws spacing"
proof
  have le: "\<forall>v \<in> set ws. minutes_after_midnight (dw_start v) \<le> minutes_after_midnight (dw_end v)"
    using assms(1) by (auto simp: list_all_iff window_wf_def minutes_le)
  assume "\<exists>ms. placement spacing 0 ws ms \<and> length ms = n"
  then show "n \<le> slot_capacity ws spacing"
    using placement_bound [OF assms(3) _ le] disjoint_windows_ordered [OF assms(1,2)]
    by (auto simp: slot_capacity_cap_at)
next
  assume n: "n \<le> slot_capacity ws spacing"
  obtain ms where ms: "placement spacing 0 ws ms" "length ms = slot_capacity ws spacing"
    using placement_exists [OF assms(3)] by (auto simp: slot_capacity_cap_at)
  have "placement spacing 0 ws (take n ms)"
    using ms(1) unfolding placement_def by (auto simp: sorted_wrt_take dest: in_set_takeD)
  then show "\<exists>ms. placement spacing 0 ws ms \<and> length ms = n"
    using ms(2) n by (intro exI [of _ "take n ms"]) simp
qed

theorem slot_capacity_exact_witness:
  "(\<exists>ms. placement 2 0 (sp_windows noon_policy) ms \<and> length ms = 2)
   \<and> \<not> (\<exists>ms. placement 2 0 (sp_windows noon_policy) ms \<and> length ms = 3)"
proof -
  have "\<not> overlapping (sp_windows noon_policy)" by (simp add: noon_policy_def)
  note e = slot_capacity_exact [OF noon_windows_wf this, of 2, simplified noon_capacity]
  show ?thesis using e [of 2] e [of 3] by simp
qed

section \<open>The candidates of a day\<close>

text \<open>The minutes of a date that the policy's windows open, in absolute time.\<close>

definition open_minute :: "'d calendar \<Rightarrow> schedule_policy \<Rightarrow> 'd \<Rightarrow> int \<Rightarrow> bool" where
  "open_minute cal p date t \<longleftrightarrow> t mod 60000 = 0
     \<and> (\<exists>w \<in> set (sp_windows p). \<exists>start stop.
          cal_instant cal (sp_timezone p) date (dw_start w) = Some start
          \<and> cal_instant cal (sp_timezone p) date (dw_end w) = Some stop \<and> start \<le> t \<and> t < stop)"

definition clear_of :: "int \<Rightarrow> int list \<Rightarrow> int \<Rightarrow> bool" where
  "clear_of sp occupied t \<longleftrightarrow> (\<forall>x \<in> set occupied. sp \<le> \<bar>t - x\<bar>)"

lemma first_minute_eq:
  "first_minute i = (i div 60000 + (if i mod 60000 = 0 then 0 else 1)) * 60000"
  by (simp only: first_minute_def distrib_right if_distrib [of "\<lambda>x. x * 60000"] mult_zero_left mult_1)

lemma first_minute_mod: "first_minute i mod 60000 = 0"
  unfolding first_minute_eq by (rule mod_mult_self2_is_0)

lemma first_minute_le:
  assumes "t mod 60000 = 0"
  shows "first_minute i \<le> t \<longleftrightarrow> i \<le> t"
proof -
  define q r k where "q = i div 60000" and "r = i mod 60000" and "k = t div 60000"
  have i: "i = 60000 * q + r" and r: "0 \<le> r" "r < 60000"
    unfolding q_def r_def by (simp_all only: mult_div_mod_eq pos_mod_sign pos_mod_bound zero_less_numeral)
  have t: "t = 60000 * k"
    using mult_div_mod_eq [of 60000 t] assms unfolding k_def by linarith
  have f: "first_minute i = (q + (if r = 0 then 0 else 1)) * 60000"
    by (simp only: first_minute_eq q_def r_def)
  show ?thesis
  proof (cases "r = 0")
    case True
    then show ?thesis using f i t by simp
  next
    case False
    then have "first_minute i = 60000 * (q + 1)" using f by simp
    moreover have "60000 * (q + 1) \<le> 60000 * k \<longleftrightarrow> 60000 * q + r \<le> 60000 * k"
    proof
      assume "60000 * q + r \<le> 60000 * k"
      then have "60000 * q < 60000 * k" using False r by linarith
      then show "60000 * (q + 1) \<le> 60000 * k" by simp
    qed (use r in simp)
    ultimately show ?thesis using i t by simp
  qed
qed

lemma minute_step:
  assumes "t mod 60000 = 0" and "(c :: int) mod 60000 = 0"
  shows "c \<le> t \<longleftrightarrow> t = c \<or> c + 60000 \<le> t"
proof -
  obtain j k where "t = 60000 * k" "c = 60000 * j"
    using mult_div_mod_eq [of 60000 t] mult_div_mod_eq [of 60000 c] assms by (metis add.right_neutral)
  then show ?thesis by auto
qed

lemma free_minutes_iff:
  "c mod 60000 = 0 \<Longrightarrow>
     t \<in> set (free_minutes occ sp c stop) \<longleftrightarrow> t mod 60000 = 0 \<and> c \<le> t \<and> t < stop \<and> clear_of sp occ t"
proof (induction occ sp c stop rule: free_minutes.induct)
  case (1 occ sp c stop)
  have m: "(c + 60000) mod 60000 = 0" using 1(3) by (simp only: mod_add_self2)
  note split = minute_step [OF _ 1(3), of t]
  have here: "list_all (\<lambda>x. sp \<le> \<bar>c - x\<bar>) occ \<longleftrightarrow> clear_of sp occ c"
    by (simp add: clear_of_def list_all_iff)
  show ?case
  proof (cases "c < stop")
    case False
    then show ?thesis by (auto simp: free_minutes.simps [of occ sp c stop])
  next
    case True
    show ?thesis
    proof (cases "clear_of sp occ c")
      case clear: True
      have "t \<in> set (free_minutes occ sp c stop) \<longleftrightarrow>
          t = c \<or> t mod 60000 = 0 \<and> c + 60000 \<le> t \<and> t < stop \<and> clear_of sp occ t"
        using True clear here 1(1) [OF True _ m] by (simp add: free_minutes.simps [of occ sp c stop])
      then show ?thesis using split True clear 1(3) by metis
    next
      case blocked: False
      have "t \<in> set (free_minutes occ sp c stop) \<longleftrightarrow>
          t mod 60000 = 0 \<and> c + 60000 \<le> t \<and> t < stop \<and> clear_of sp occ t"
        using True blocked here 1(2) [OF True _ m] by (simp add: free_minutes.simps [of occ sp c stop])
      then show ?thesis using split blocked by metis
    qed
  qed
qed

lemma candidates_in_iff:
  "candidates_in cal tz date nb occ sp ws = Inr cs \<Longrightarrow>
     t \<in> set cs \<longleftrightarrow> t mod 60000 = 0 \<and> nb \<le> t \<and> clear_of sp occ t
       \<and> (\<exists>w \<in> set ws. \<exists>start stop. cal_instant cal tz date (dw_start w) = Some start
            \<and> cal_instant cal tz date (dw_end w) = Some stop \<and> start \<le> t \<and> t < stop)"
proof (induction ws arbitrary: cs)
  case Nil
  then show ?case by auto
next
  case (Cons w ws)
  then obtain a b rest where i: "cal_instant cal tz date (dw_start w) = Some a"
      "cal_instant cal tz date (dw_end w) = Some b"
    and r: "candidates_in cal tz date nb occ sp ws = Inr rest"
    and cs: "cs = free_minutes occ sp (first_minute (max a nb)) b @ rest"
    by (auto simp: res)
  have "t \<in> set (free_minutes occ sp (first_minute (max a nb)) b)
      \<longleftrightarrow> t mod 60000 = 0 \<and> nb \<le> t \<and> a \<le> t \<and> t < b \<and> clear_of sp occ t"
    using first_minute_le [of t "max a nb"] by (auto simp: free_minutes_iff [OF first_minute_mod])
  then show ?case using Cons.IH [OF r] i cs by auto
qed

lemma candidates_for_date_iff:
  "candidates_for_date cal p date nb occ sp = Inr cs \<Longrightarrow>
     t \<in> set cs \<longleftrightarrow> open_minute cal p date t \<and> nb \<le> t \<and> clear_of sp occ t"
  unfolding candidates_for_date_def open_minute_def by (drule candidates_in_iff [where t = t]) auto

lemma candidates_in_ok:
  "(\<exists>cs. candidates_in cal tz date nb occ sp ws = Inr cs) \<longleftrightarrow>
     (\<forall>w \<in> set ws. cal_instant cal tz date (dw_start w) \<noteq> None \<and> cal_instant cal tz date (dw_end w) \<noteq> None)"
  by (induction ws) (auto simp: res)

lemma candidates_for_date_ok:
  "candidates_for_date cal p date nb occ sp = Inr cs \<Longrightarrow>
     \<exists>ds. candidates_for_date cal p date nb' occ' sp' = Inr ds"
  using candidates_in_ok [of cal "sp_timezone p" date nb occ sp "sp_windows p"]
    candidates_in_ok [of cal "sp_timezone p" date nb' occ' sp' "sp_windows p"]
  by (auto simp: candidates_for_date_def)

section \<open>What the generator keeps\<close>

definition spaced :: "int \<Rightarrow> int list \<Rightarrow> bool" where
  "spaced sp ts \<longleftrightarrow> distinct ts \<and> (\<forall>a \<in> set ts. \<forall>b \<in> set ts. a \<noteq> b \<longrightarrow> sp \<le> \<bar>a - b\<bar>)"

lemma spaced_Nil [simp]: "spaced sp []"
  by (simp add: spaced_def)

lemma spaced_Cons:
  "0 < sp \<Longrightarrow> spaced sp (t # ts) \<longleftrightarrow> clear_of sp ts t \<and> spaced sp ts"
  by (auto simp: spaced_def clear_of_def abs_minus_commute)

lemma clear_of_append [simp]: "clear_of sp (xs @ ys) t \<longleftrightarrow> clear_of sp xs t \<and> clear_of sp ys t"
  by (auto simp: clear_of_def)

lemma spaced_append:
  "0 < sp \<Longrightarrow> spaced sp ts \<Longrightarrow> spaced sp us \<Longrightarrow> \<forall>u \<in> set us. clear_of sp ts u \<Longrightarrow> spaced sp (ts @ us)"
proof (induction ts)
  case (Cons t ts)
  have "clear_of sp us t" using Cons.prems(4) by (auto simp: clear_of_def abs_minus_commute)
  then show ?case using Cons by (auto simp: spaced_Cons clear_of_def)
qed simp

lemma spaced_sorted:
  "spaced sp ts \<Longrightarrow> sorted ts \<Longrightarrow> sorted_wrt (\<lambda>a b. a + sp \<le> b) ts"
proof (induction ts)
  case (Cons t ts)
  have "t + sp \<le> u" if "u \<in> set ts" for u
  proof -
    have "t \<le> u" "t \<noteq> u" "sp \<le> \<bar>t - u\<bar>" using Cons.prems that by (auto simp: spaced_def)
    then show ?thesis by simp
  qed
  then show ?case using Cons by (auto simp: spaced_def)
qed simp

lemma set_swap_remove: "i < length xs \<Longrightarrow> set (swap_remove i xs) \<subseteq> set xs"
proof -
  assume i: "i < length xs"
  then have "set (xs[i := last xs]) \<subseteq> set xs"
    by (intro set_update_subsetI last_in_set) auto
  then show ?thesis by (auto simp: swap_remove_def dest: in_set_butlastD)
qed

lemma next_index_Some: "next_index g n = Some (i, g') \<Longrightarrow> i < n"
  by (auto simp: next_index_def Let_def split: if_splits)

lemma next_index_None: "next_index g n = None \<longleftrightarrow> n = 0"
  by (simp add: next_index_def Let_def)

lemma pick_slots_Some:
  assumes "0 < sp"
  shows "pick_slots sp slot n g cs occ sel = Some (g', occ', sel') \<Longrightarrow>
     \<exists>ts. occ' = occ @ ts \<and> sel' = sel @ map slot ts \<and> length ts = n \<and> set ts \<subseteq> set cs \<and> spaced sp ts"
proof (induction n arbitrary: g cs occ sel)
  case 0
  then show ?case by simp
next
  case (Suc n)
  then obtain i g1 where i: "next_index g (length cs) = Some (i, g1)"
    by (auto split: option.splits)
  let ?t = "cs ! i"
  let ?cs = "filter (\<lambda>c. sp \<le> \<bar>c - ?t\<bar>) (swap_remove i cs)"
  have il: "i < length cs" using next_index_Some [OF i] .
  have "pick_slots sp slot n g1 ?cs (occ @ [?t]) (sel @ [slot ?t]) = Some (g', occ', sel')"
    using Suc.prems i by (simp add: Let_def)
  from Suc.IH [OF this] obtain ts where ts: "occ' = occ @ ?t # ts" "sel' = sel @ slot ?t # map slot ts"
      "length ts = n" "set ts \<subseteq> set ?cs" "spaced sp ts"
    by auto
  have "clear_of sp ts ?t" using ts(4) by (auto simp: clear_of_def abs_minus_commute)
  moreover have "set (?t # ts) \<subseteq> set cs" using ts(4) set_swap_remove [OF il] il by auto
  ultimately show ?case
    using ts assms by (intro exI [of _ "?t # ts"]) (simp add: spaced_Cons)
qed

lemma wanted_today_Some:
  "wanted_today g r mn mx = Some (w, g') \<Longrightarrow> w \<le> max mx (min r mn)"
  by (auto simp: wanted_today_def Let_def split: if_splits dest!: next_index_Some)

lemma wanted_today_total: "wanted_today g r mn mx \<noteq> None"
  using next_index_None [of g "Suc (mx - min mn mx)"] by (auto simp: wanted_today_def Let_def)

text \<open>The slots that one eligible day, and then the whole horizon, adds.\<close>

definition slot_of :: "'d calendar \<Rightarrow> schedule_policy \<Rightarrow> 'd \<Rightarrow> int \<Rightarrow> planned_slot" where
  "slot_of cal p date t = \<lparr>ps_selected_at = t, ps_local_date = cal_date_text cal date,
     ps_timezone = sp_timezone p\<rparr>"

definition permitted :: "'d calendar \<Rightarrow> schedule_policy \<Rightarrow> int \<Rightarrow> 'd \<Rightarrow> int \<Rightarrow> bool" where
  "permitted cal p nb date t \<longleftrightarrow>
     weekday_from_jiff (cal_weekday cal date) \<in> sp_allowed_days p \<and> open_minute cal p date t \<and> nb \<le> t"

lemma slot_of_fun:
  "slot_of cal p date = (\<lambda>t. \<lparr>ps_selected_at = t, ps_local_date = cal_date_text cal date,
     ps_timezone = sp_timezone p\<rparr>)"
  by (rule ext) (simp add: slot_of_def)

lemma slot_of_simps [simp]:
  "ps_selected_at (slot_of cal p d t) = t" "ps_local_date (slot_of cal p d t) = cal_date_text cal d"
  "ps_timezone (slot_of cal p d t) = sp_timezone p"
  by (simp_all add: slot_of_def)

definition day_adds ::
  "'d calendar \<Rightarrow> schedule_policy \<Rightarrow> int \<Rightarrow> nat \<Rightarrow> 'd \<Rightarrow> int list \<Rightarrow> int list \<Rightarrow> bool" where
  "day_adds cal p nb room date occ ts \<longleftrightarrow>
     spaced (spacing_ms_of p) ts \<and> length ts \<le> room
     \<and> (\<forall>t \<in> set ts. permitted cal p nb date t \<and> clear_of (spacing_ms_of p) occ t)
     \<and> (ts \<noteq> [] \<longrightarrow> length ts + existing_on cal (sp_timezone p) date occ \<le> dr_maximum (sp_daily_releases p))"

lemma day_adds_Nil [simp]: "day_adds cal p nb room date occ []"
  by (simp add: day_adds_def)

lemma select_day_Some:
  assumes sp: "0 < spacing_ms_of p" and range: "dr_minimum (sp_daily_releases p) \<le> dr_maximum (sp_daily_releases p)"
    and r: "select_day cal p nb req date g occ sel = Some (Inr (g', occ', sel'))"
  shows "\<exists>ts. occ' = occ @ ts \<and> sel' = sel @ map (slot_of cal p date) ts
    \<and> day_adds cal p nb (req - length sel) date occ ts"
proof -
  let ?e = "existing_on cal (sp_timezone p) date occ"
  let ?mx = "dr_maximum (sp_daily_releases p)" and ?mn = "dr_minimum (sp_daily_releases p)"
  show ?thesis
  proof (cases "weekday_from_jiff (cal_weekday cal date) \<in> sp_allowed_days p \<and> ?e < ?mx")
    case False
    then have "occ' = occ" "sel' = sel" using r by (auto simp: select_day_def Let_def split: if_splits)
    then show ?thesis by (intro exI [of _ "[]"]) simp
  next
    case True
    then obtain w g1 cs where w: "wanted_today g (req - length sel) (?mn - ?e) (min (?mx - ?e) (req - length sel)) = Some (w, g1)"
      and cs: "candidates_for_date cal p date nb occ (spacing_ms_of p) = Inr cs"
      and pick: "pick_slots (spacing_ms_of p) (slot_of cal p date) (min w (length cs)) g1 cs occ sel
          = Some (g', occ', sel')"
      using r unfolding select_day_def Let_def slot_of_fun [symmetric]
      by (auto split: option.splits sum.splits)
    from pick_slots_Some [OF sp pick] obtain ts where ts: "occ' = occ @ ts" "sel' = sel @ map (slot_of cal p date) ts"
        "length ts = min w (length cs)" "set ts \<subseteq> set cs" "spaced (spacing_ms_of p) ts"
      by blast
    have "w \<le> req - length sel \<and> w \<le> ?mx - ?e"
      using wanted_today_Some [OF w] range by auto
    moreover have "\<forall>t \<in> set ts. permitted cal p nb date t \<and> clear_of (spacing_ms_of p) occ t"
      using ts(4) True by (auto simp: permitted_def candidates_for_date_iff [OF cs])
    ultimately have "day_adds cal p nb (req - length sel) date occ ts"
      using ts True by (auto simp: day_adds_def)
    then show ?thesis using ts by blast
  qed
qed

text \<open>What the code relies on of jiff: \<open>tomorrow\<close> moves to the next day of the calendar, and a date's
  text determines it.\<close>

definition calendar_ok :: "'d calendar \<Rightarrow> ('d \<Rightarrow> int) \<Rightarrow> bool" where
  "calendar_ok cal day_number \<longleftrightarrow>
     (\<forall>d e. cal_tomorrow cal d = Some e \<longrightarrow> day_number e = day_number d + 1)
     \<and> inj (cal_date_text cal)"

definition slots_on :: "string \<Rightarrow> planned_slot list \<Rightarrow> nat" where
  "slots_on text slots = length (filter (\<lambda>s. ps_local_date s = text) slots)"

lemma slots_on_simps [simp]:
  "slots_on text [] = 0"
  "slots_on text (xs @ ys) = slots_on text xs + slots_on text ys"
  by (simp_all add: slots_on_def)

lemma slots_on_map: "slots_on text (map (slot_of cal p d) ts) = (if cal_date_text cal d = text then length ts else 0)"
  by (induction ts) (auto simp: slots_on_def)

lemma existing_on_append [simp]:
  "existing_on cal tz d (xs @ ys) = existing_on cal tz d xs + existing_on cal tz d ys"
  by (simp add: existing_on_def)

definition days_add ::
  "'d calendar \<Rightarrow> schedule_policy \<Rightarrow> ('d \<Rightarrow> int) \<Rightarrow> int \<Rightarrow> nat \<Rightarrow> 'd \<Rightarrow> int list \<Rightarrow> planned_slot list \<Rightarrow> bool" where
  "days_add cal p day_number nb room date occ new \<longleftrightarrow>
     spaced (spacing_ms_of p) (map ps_selected_at new) \<and> length new \<le> room
     \<and> (\<forall>s \<in> set new. clear_of (spacing_ms_of p) occ (ps_selected_at s) \<and> ps_timezone s = sp_timezone p
          \<and> (\<exists>d. ps_local_date s = cal_date_text cal d \<and> day_number date \<le> day_number d
               \<and> permitted cal p nb d (ps_selected_at s)))
     \<and> (\<forall>d. slots_on (cal_date_text cal d) new \<noteq> 0 \<longrightarrow>
          slots_on (cal_date_text cal d) new + existing_on cal (sp_timezone p) d occ
            \<le> dr_maximum (sp_daily_releases p))"

lemma days_add_Nil [simp]: "days_add cal p f nb room date occ []"
  by (simp add: days_add_def)

lemma days_add_step:
  assumes sp: "0 < spacing_ms_of p" and cal: "calendar_ok cal day_number"
    and day: "day_adds cal p nb room date occ ts" and next_date: "cal_tomorrow cal date = Some date'"
    and rest: "days_add cal p day_number nb (room - length ts) date' (occ @ ts) new"
  shows "days_add cal p day_number nb room date occ (map (slot_of cal p date) ts @ new)"
proof -
  have num: "day_number date' = day_number date + 1" and inj: "inj (cal_date_text cal)"
    using cal next_date by (auto simp: calendar_ok_def)
  have later: "slots_on (cal_date_text cal date) new = 0"
  proof -
    have "ps_local_date s \<noteq> cal_date_text cal date" if "s \<in> set new" for s
      using that rest num injD [OF inj] unfolding days_add_def by (metis add_le_same_cancel1 not_one_le_zero)
    then show ?thesis by (simp add: slots_on_def filter_empty_conv)
  qed
  have count: "slots_on (cal_date_text cal d) (map (slot_of cal p date) ts @ new)
      + existing_on cal (sp_timezone p) d occ \<le> dr_maximum (sp_daily_releases p)"
    if "slots_on (cal_date_text cal d) (map (slot_of cal p date) ts @ new) \<noteq> 0" for d
  proof (cases "d = date")
    case True
    then show ?thesis using that day later by (auto simp: slots_on_map day_adds_def)
  next
    case False
    then have "cal_date_text cal date \<noteq> cal_date_text cal d" using inj by (auto dest: injD)
    then show ?thesis
      using that rest by (auto simp: slots_on_map days_add_def) (meson le_add1 le_trans add_le_mono order_refl)
  qed
  have "spaced (spacing_ms_of p) (ts @ map ps_selected_at new)"
    using day rest by (intro spaced_append [OF sp]) (auto simp: day_adds_def days_add_def)
  then have "spaced (spacing_ms_of p) (map ps_selected_at (map (slot_of cal p date) ts @ new))"
    by (simp add: comp_def)
  moreover have "length (map (slot_of cal p date) ts @ new) \<le> room"
    using day rest by (auto simp: day_adds_def days_add_def)
  moreover have "clear_of (spacing_ms_of p) occ (ps_selected_at s) \<and> ps_timezone s = sp_timezone p
      \<and> (\<exists>d. ps_local_date s = cal_date_text cal d \<and> day_number date \<le> day_number d
           \<and> permitted cal p nb d (ps_selected_at s))"
    if "s \<in> set (map (slot_of cal p date) ts @ new)" for s
  proof (cases "s \<in> set new")
    case True
    then show ?thesis using rest num unfolding days_add_def by fastforce
  next
    case False
    then show ?thesis using that day by (auto simp: day_adds_def)
  qed
  ultimately show ?thesis using count unfolding days_add_def by blast
qed

lemma select_days_Some:
  assumes sp: "0 < spacing_ms_of p" and range: "dr_minimum (sp_daily_releases p) \<le> dr_maximum (sp_daily_releases p)"
    and cal: "calendar_ok cal day_number"
  shows "select_days cal p nb req n date g occ sel = Some (Inr (g', occ', sel')) \<Longrightarrow>
     \<exists>new. sel' = sel @ new \<and> days_add cal p day_number nb (req - length sel) date occ new"
proof (induction n arbitrary: date g occ sel)
  case 0
  then show ?case by simp
next
  case (Suc n)
  show ?case
  proof (cases "length sel = req")
    case True
    then show ?thesis using Suc.prems by simp
  next
    case False
    then obtain g1 occ1 sel1 date1 where
        day: "select_day cal p nb req date g occ sel = Some (Inr (g1, occ1, sel1))"
      and tomorrow: "cal_tomorrow cal date = Some date1"
      and rest: "select_days cal p nb req n date1 g1 occ1 sel1 = Some (Inr (g', occ', sel'))"
      using Suc.prems by (auto split: option.splits sum.splits)
    obtain ts where ts: "occ1 = occ @ ts" "sel1 = sel @ map (slot_of cal p date) ts"
        "day_adds cal p nb (req - length sel) date occ ts"
      using select_day_Some [OF sp range day] by blast
    obtain new where "sel' = sel1 @ new" "days_add cal p day_number nb (req - length sel1) date1 occ1 new"
      using Suc.IH [OF rest] by blast
    then show ?thesis
      using days_add_step [OF sp cal ts(3) tomorrow, of new] ts
      by (intro exI [of _ "map (slot_of cal p date) ts @ new"]) simp
  qed
qed


lemma pick_slots_one: "n \<le> 1 \<Longrightarrow> n \<le> length cs \<Longrightarrow> pick_slots sp slot n g cs occ sel \<noteq> None"
  using next_index_None [of g "length cs"] by (cases n) (auto simp: Let_def)

lemma select_day_one:
  assumes "req - length sel \<le> 1 \<or> dr_maximum (sp_daily_releases p) \<le> 1"
    and range: "dr_minimum (sp_daily_releases p) \<le> dr_maximum (sp_daily_releases p)"
  shows "select_day cal p nb req date g occ sel \<noteq> None"
proof -
  let ?r = "req - length sel" and ?e = "existing_on cal (sp_timezone p) date occ"
  let ?mn = "dr_minimum (sp_daily_releases p) - ?e"
  let ?mx = "min (dr_maximum (sp_daily_releases p) - ?e) ?r"
  have small: "w \<le> 1" if "wanted_today g ?r ?mn ?mx = Some (w, g1)" for w g1
    using wanted_today_Some [OF that] assms by auto
  obtain w g1 where w: "wanted_today g ?r ?mn ?mx = Some (w, g1)"
    using wanted_today_total [of g ?r ?mn ?mx] by auto
  have "pick_slots sp slot (min w (length cs)) g1 cs occ sel \<noteq> None" for sp slot and cs :: "int list"
    using small [OF w] by (intro pick_slots_one) auto
  then show ?thesis using w by (auto simp: select_day_def Let_def split: sum.splits)
qed

lemma select_days_one:
  assumes range: "dr_minimum (sp_daily_releases p) \<le> dr_maximum (sp_daily_releases p)"
    and "req \<le> 1 \<or> dr_maximum (sp_daily_releases p) \<le> 1"
  shows "select_days cal p nb req n date g occ sel \<noteq> None"
proof (induction n arbitrary: date g occ sel)
  case (Suc n)
  have "select_day cal p nb req date g occ sel \<noteq> None"
    using assms by (intro select_day_one) auto
  then show ?case using Suc.IH by (auto split: sum.splits option.splits)
qed simp

section \<open>A concrete calendar\<close>

text \<open>Coordinated universal time, with a date counted in days since 1970-01-01, a Thursday.\<close>

definition utc :: "int calendar" where
  "utc = \<lparr>cal_zone_known = (\<lambda>z. z = ''UTC''), cal_timestamp_ok = (\<lambda>i. \<bar>i\<bar> < 253402300800000),
     cal_date = (\<lambda>_ i. i div 86400000), cal_local_text = (\<lambda>_ i. show_int i),
     cal_weekday = (\<lambda>d. [JThursday, JFriday, JSaturday, JSunday, JMonday, JTuesday, JWednesday] ! nat (d mod 7)),
     cal_tomorrow = (\<lambda>d. Some (d + 1)), cal_date_text = show_int,
     cal_instant = (\<lambda>_ d t. Some (d * 86400000 + int (minutes_after_midnight t) * 60000))\<rparr>"

lemma utc_ok: "calendar_ok utc id"
  using show_int_inj by (simp add: calendar_ok_def utc_def)


lemma noon_candidates:
  "candidates_for_date utc noon_policy 0 0 [] (spacing_ms_of noon_policy) = Inr [43200000, 43260000, 43320000]"
  by (simp add: candidates_for_date_def noon_policy_def utc_def minutes_after_midnight_def first_minute_def
      free_minutes.simps)

lemma xorshift_1: "xorshift 1 = 0x2000001"
  by (simp add: xorshift_def Let_def)

lemma xorshift_3: "xorshift 3 = 0x6000003"
  by (simp add: xorshift_def Let_def)

lemma noon_first_draws:
  "next_index 1 3 = Some (1, 0x2000001)" "next_index 3 3 = Some (0, 0x6000003)"
  by (simp_all add: next_index_def xorshift_1 xorshift_3)


lemma noon_second_draws:
  "next_index 0x2000001 0 = None" "\<exists>g. next_index 0x6000003 (Suc 0) = Some (0, g)"
  by (simp_all add: next_index_def Let_def)

lemma noon_wanted: "wanted_today g 2 2 2 = Some (2, g)"
  by (simp add: wanted_today_def)

lemma noon_fields:
  "weekday_from_jiff (cal_weekday utc d) \<in> sp_allowed_days noon_policy"
  "dr_minimum (sp_daily_releases noon_policy) = 2" "dr_maximum (sp_daily_releases noon_policy) = 2"
  "spacing_ms_of noon_policy = 120000"
  by (simp_all add: noon_policy_def spacing_ms_of_def)

lemma noon_day_1: "select_day utc noon_policy 0 2 0 1 [] [] = None"
  using noon_candidates noon_first_draws noon_second_draws noon_wanted [of 1]
  by (simp add: select_day_def noon_fields existing_on_def numeral_2_eq_2 numeral_3_eq_3 swap_remove_def)

lemma noon_day_3:
  "\<exists>g. select_day utc noon_policy 0 2 0 3 [] [] =
     Some (Inr (g, [43200000, 43320000], map (slot_of utc noon_policy 0) [43200000, 43320000]))"
  using noon_candidates noon_first_draws noon_second_draws noon_wanted [of 3]
  by (auto simp: select_day_def noon_fields existing_on_def numeral_2_eq_2 numeral_3_eq_3 swap_remove_def
      slot_of_fun)

lemma noon_start: "local_date utc 0 (sp_timezone noon_policy) = Inr 0"
  by (simp add: local_date_def utc_def noon_policy_def)

lemma horizon_Suc: "max_scheduling_horizon_days = Suc (Suc 364)"
  by (simp add: max_scheduling_horizon_days_def)

lemma noon_days_1: "select_days utc noon_policy 0 2 max_scheduling_horizon_days 0 1 [] [] = None"
  by (subst horizon_Suc, subst select_days.simps) (simp add: noon_day_1)

lemma noon_select_1: "select utc (seeded 1) noon_policy 0 2 [] = None"
  using noon_days_1 by (simp add: select_def noon_start seeded_def)

lemma select_days_done:
  "length sel = req \<Longrightarrow> select_days cal p nb req n date g occ sel = Some (Inr (g, occ, sel))"
  by (cases n) simp_all

lemma noon_select_3:
  "\<exists>g. select utc (seeded 3) noon_policy 0 2 [] =
     Some (Inr (map (slot_of utc noon_policy 0) [43200000, 43320000], g))"
proof -
  obtain g where g: "select_day utc noon_policy 0 2 0 3 [] [] =
     Some (Inr (g, [43200000, 43320000], map (slot_of utc noon_policy 0) [43200000, 43320000]))"
    using noon_day_3 by blast
  moreover have "cal_tomorrow utc 0 = Some 1" by (simp add: utc_def)
  ultimately have "select_days utc noon_policy 0 2 max_scheduling_horizon_days 0 3 [] [] =
     Some (Inr (g, [43200000, 43320000], map (slot_of utc noon_policy 0) [43200000, 43320000]))"
    by (subst horizon_Suc, subst select_days.simps) (simp add: select_days_done)
  then show ?thesis by (simp add: select_def noon_start seeded_def)
qed

section \<open>Properties of the generator\<close>

lemma select_within_policy:
  assumes "select cal g p not_before requested existing = Some (Inr (slots, g'))"
    and "schedule_policy_ok p" and "dr_minimum (sp_daily_releases p) \<le> dr_maximum (sp_daily_releases p)"
    and "calendar_ok cal day_number"
  shows "length slots = requested
    \<and> sorted_wrt (\<lambda>a b. a + spacing_ms_of p \<le> b) (map ps_selected_at slots)
    \<and> (\<forall>s \<in> set slots. clear_of (spacing_ms_of p) existing (ps_selected_at s)
         \<and> (\<exists>d. ps_local_date s = cal_date_text cal d \<and> permitted cal p not_before d (ps_selected_at s)))
    \<and> (\<forall>d. 0 < slots_on (cal_date_text cal d) slots \<longrightarrow>
         slots_on (cal_date_text cal d) slots + existing_on cal (sp_timezone p) d existing
           \<le> dr_maximum (sp_daily_releases p))"
proof (cases "requested = 0")
  case True
  then show ?thesis using assms(1) by (simp add: select_def)
next
  case False
  have sp: "0 < spacing_ms_of p" using assms(2) by (simp add: schedule_policy_ok_def spacing_ms_of_def)
  obtain date g1 occ sel where
      days: "select_days cal p not_before requested max_scheduling_horizon_days date g existing [] = Some (Inr (g1, occ, sel))"
    and len: "length sel = requested" and slots: "slots = sort_key ps_selected_at sel"
    using assms(1) False by (auto simp: select_def split: if_splits option.splits sum.splits)
  have new: "days_add cal p day_number not_before requested date existing sel"
    using select_days_Some [OF sp assms(3,4) days] by auto
  have same: "set slots = set sel" "slots_on t slots = slots_on t sel" for t
    by (simp_all add: slots slots_on_def filter_sort)
  have "mset (map ps_selected_at slots) = mset (map ps_selected_at sel)"
    by (simp add: slots)
  then have "distinct (map ps_selected_at slots) \<longleftrightarrow> distinct (map ps_selected_at sel)"
    by (rule mset_eq_imp_distinct_iff)
  then have "spaced (spacing_ms_of p) (map ps_selected_at slots)"
    using new same(1) by (simp add: days_add_def spaced_def)
  then have "sorted_wrt (\<lambda>a b. a + spacing_ms_of p \<le> b) (map ps_selected_at slots)"
    by (rule spaced_sorted) (simp add: slots)
  moreover have "length slots = requested" using len by (simp add: slots)
  ultimately show ?thesis using new unfolding days_add_def same by blast
qed

text \<open>C22: whatever the seed, the slots the generator returns respect the policy.  There are as many
  as were asked for, in chronological order, none before the earliest permitted instant; each is a
  whole minute inside a window of an allowed day of the policy's own zone; any two are at least the
  minimum spacing apart, and so is each from every slot that already existed; and no local date
  that receives a slot ends up with more releases than the daily maximum, the existing ones
  included.  jiff's \<open>tomorrow\<close> is assumed to move to the next day, and the text of a date to
  determine it.\<close>

theorem select_respects_policy:
  assumes "select cal g p not_before requested existing = Some (Inr (slots, g'))"
    and "schedule_policy_ok p" and "dr_minimum (sp_daily_releases p) \<le> dr_maximum (sp_daily_releases p)"
    and "calendar_ok cal day_number"
  shows "length slots = requested
    \<and> sorted_wrt (\<lambda>a b. a + spacing_ms_of p \<le> b) (map ps_selected_at slots)
    \<and> (\<forall>s \<in> set slots. clear_of (spacing_ms_of p) existing (ps_selected_at s)
         \<and> (\<exists>d. ps_local_date s = cal_date_text cal d \<and> permitted cal p not_before d (ps_selected_at s)))
    \<and> (\<forall>d. 0 < slots_on (cal_date_text cal d) slots \<longrightarrow>
         slots_on (cal_date_text cal d) slots + existing_on cal (sp_timezone p) d existing
           \<le> dr_maximum (sp_daily_releases p))"
  by (rule select_within_policy [OF assms])

theorem select_respects_policy_witness:
  "\<exists>g slots. select utc (seeded 3) noon_policy 0 2 [] = Some (Inr (slots, g)) \<and> length slots = 2
     \<and> sorted_wrt (\<lambda>a b. a + 120000 \<le> b) (map ps_selected_at slots)"
proof -
  obtain g where g: "select utc (seeded 3) noon_policy 0 2 [] =
     Some (Inr (map (slot_of utc noon_policy 0) [43200000, 43320000], g))"
    using noon_select_3 by blast
  have range: "dr_minimum (sp_daily_releases noon_policy) \<le> dr_maximum (sp_daily_releases noon_policy)"
    by (simp add: noon_fields)
  show ?thesis
    using select_respects_policy [OF g noon_policy_ok range utc_ok] g noon_fields(4) by auto
qed

text \<open>C34: a request for one slot, which is the only request the scheduler makes, and any request
  under a policy of one release a day, ends with slots or with an error, never with a panic.  A
  larger request can panic: once a drawn slot has ruled out every remaining candidate of its day
  the loop still draws, from an empty list.\<close>

theorem select_panics_only_on_bursts:
  "(dr_minimum (sp_daily_releases p) \<le> dr_maximum (sp_daily_releases p)
     \<and> (requested \<le> 1 \<or> dr_maximum (sp_daily_releases p) \<le> 1)
     \<longrightarrow> select cal g p not_before requested existing \<noteq> None)
   \<and> (\<exists>q. schedule_policy_ok q \<and> select utc (seeded 1) q 0 2 [] = None)"
proof -
  have "select cal g p not_before requested existing \<noteq> None"
    if small: "dr_minimum (sp_daily_releases p) \<le> dr_maximum (sp_daily_releases p)"
      "requested \<le> 1 \<or> dr_maximum (sp_daily_releases p) \<le> 1"
  proof (cases "local_date cal not_before (sp_timezone p)")
    case (Inr date)
    obtain r where "select_days cal p not_before requested max_scheduling_horizon_days date g existing [] = Some r"
      using select_days_one [OF small, of cal not_before max_scheduling_horizon_days date g existing "[]"]
      by auto
    then show ?thesis using Inr by (auto simp: select_def split: sum.split)
  qed (simp add: select_def)
  then show ?thesis using noon_policy_ok noon_select_1 by blast
qed

theorem select_panics_only_on_bursts_witness:
  "select utc (seeded 1) noon_policy 0 1 [] \<noteq> None"
  using select_panics_only_on_bursts [of noon_policy 1 utc "seeded 1" 0 "[]"] by (simp add: noon_fields)

section \<open>Properties of the check of a requested slot\<close>

lemma min_by_key_None: "min_by_key f xs = None \<longleftrightarrow> xs = []"
  by (cases xs) (auto split: option.splits)

lemma min_by_key_Some: "min_by_key f xs = Some m \<Longrightarrow> m \<in> set xs \<and> (\<forall>x \<in> set xs. f m \<le> f x)"
proof (induction xs arbitrary: m)
  case (Cons x xs)
  then show ?case
    by (cases "min_by_key f xs") (force simp: min_by_key_None split: if_splits)+
qed simp

lemma too_close_None:
  "too_close p t existing = None \<longleftrightarrow> clear_of (spacing_ms_of p) (filter (\<lambda>e. e \<noteq> t) existing) t"
proof (cases "min_by_key (\<lambda>e. \<bar>e - t\<bar>) (filter (\<lambda>e. e \<noteq> t) existing)")
  case None
  then show ?thesis by (simp add: too_close_def min_by_key_None clear_of_def)
next
  case (Some m)
  have "m \<in> set (filter (\<lambda>e. e \<noteq> t) existing)" "\<forall>x \<in> set (filter (\<lambda>e. e \<noteq> t) existing). \<bar>m - t\<bar> \<le> \<bar>x - t\<bar>"
    using min_by_key_Some [OF Some] by blast+
  then show ?thesis
    using Some unfolding too_close_def clear_of_def
    by (auto simp: abs_minus_commute [of t])
qed

lemma filter_other: "t \<notin> set existing \<Longrightarrow> filter (\<lambda>e. e \<noteq> t) existing = existing"
  by (auto simp: filter_id_conv)

lemma validate_requested_slot_Inr:
  "validate_requested_slot cal p t nb existing = Inr s \<longleftrightarrow>
     0 \<le> t \<and> nb \<le> t \<and> (\<exists>date. local_date cal t (sp_timezone p) = Inr date
       \<and> weekday_from_jiff (cal_weekday cal date) \<in> sp_allowed_days p
       \<and> (\<exists>cs. candidates_for_date cal p date t [] (spacing_ms_of p) = Inr cs)
       \<and> open_minute cal p date t
       \<and> clear_of (spacing_ms_of p) (filter (\<lambda>e. e \<noteq> t) existing) t
       \<and> existing_on cal (sp_timezone p) date (filter (\<lambda>e. e \<noteq> t) existing) < dr_maximum (sp_daily_releases p)
       \<and> s = slot_of cal p date t)"
proof -
  have "t \<in> set cs \<longleftrightarrow> open_minute cal p date t"
    if "candidates_for_date cal p date t [] (spacing_ms_of p) = Inr cs" for cs date
    by (simp add: candidates_for_date_iff [OF that] clear_of_def)
  then show ?thesis
    unfolding too_close_None [symmetric]
    by (auto simp: validate_requested_slot_def res Let_def slot_of_def not_le split: if_splits option.splits)
qed

text \<open>C28: the check of a chosen time and the generator agree.  An instant that no existing slot
  holds is accepted exactly when it is one of the candidates the generator would draw from on its
  date, that day is allowed and the daily maximum leaves room; the accepted slot is the very slot
  the generator would have recorded.\<close>

theorem requested_slot_agrees_with_generator:
  assumes "requested \<notin> set existing"
  shows "validate_requested_slot cal p requested not_before existing = Inr s \<longleftrightarrow>
    0 \<le> requested \<and> (\<exists>date cs. local_date cal requested (sp_timezone p) = Inr date
      \<and> weekday_from_jiff (cal_weekday cal date) \<in> sp_allowed_days p
      \<and> candidates_for_date cal p date not_before existing (spacing_ms_of p) = Inr cs
      \<and> requested \<in> set cs
      \<and> existing_on cal (sp_timezone p) date existing < dr_maximum (sp_daily_releases p)
      \<and> s = slot_of cal p date requested)"
proof -
  let ?cs = "\<lambda>date nb occ. candidates_for_date cal p date nb occ (spacing_ms_of p)"
  have "0 \<le> requested \<and> not_before \<le> requested
      \<and> (\<exists>cs. ?cs date requested [] = Inr cs) \<and> open_minute cal p date requested
      \<and> clear_of (spacing_ms_of p) existing requested
    \<longleftrightarrow> 0 \<le> requested \<and> (\<exists>cs. ?cs date not_before existing = Inr cs \<and> requested \<in> set cs)" for date
    using candidates_for_date_ok [of cal p date requested "[]" "spacing_ms_of p" _ not_before existing "spacing_ms_of p"]
      candidates_for_date_ok [of cal p date not_before existing "spacing_ms_of p" _ requested "[]" "spacing_ms_of p"]
      candidates_for_date_iff [of cal p date not_before existing "spacing_ms_of p" _ requested]
    by blast
  then show ?thesis unfolding validate_requested_slot_Inr filter_other [OF assms] by blast
qed

theorem requested_slot_agrees_with_generator_witness:
  "validate_requested_slot utc noon_policy 43260000 0 [] = Inr (slot_of utc noon_policy 0 43260000)"
proof -
  have "local_date utc 43260000 (sp_timezone noon_policy) = Inr 0"
    by (simp add: local_date_def utc_def noon_policy_def)
  then show ?thesis
    using requested_slot_agrees_with_generator [of 43260000 "[]" utc noon_policy 0 "slot_of utc noon_policy 0 43260000"]
      noon_candidates noon_fields
    by (simp add: existing_on_def)
qed

text \<open>an instant that another release already holds is not a conflict.  The exemption meant for
  the unit's own slot drops every existing slot at that instant, so the check gives the same answer
  however many releases already hold the requested minute, the full-day check included.\<close>

theorem requested_slot_ignores_double_booking:
  "validate_requested_slot cal p requested not_before (replicate n requested @ existing)
     = validate_requested_slot cal p requested not_before existing"
proof -
  let ?other = "filter (\<lambda>e. e \<noteq> requested)"
  have "?other (replicate n requested @ existing) = ?other existing"
    by (simp add: filter_replicate)
  then show ?thesis
    unfolding validate_requested_slot_def too_close_def by (simp only:)
qed

section \<open>The random state\<close>

lemma drop_bit_fixpoint: "0 < k \<Longrightarrow> drop_bit k s = s \<Longrightarrow> s = 0" for s :: "64 word"
proof -
  assume k: "0 < k" and "drop_bit k s = s"
  then have "unat s div 2 ^ k = unat s"
    by (metis drop_bit_eq_div unat_drop_bit_eq)
  moreover have "(1::nat) < 2 ^ k" by (rule one_less_power) (use k in simp_all)
  ultimately have "unat s = 0" using div_less_dividend [of "2 ^ k" "unat s"] by (cases "unat s = 0") auto
  then show "s = 0" by (simp add: unat_eq_zero)
qed

lemma push_bit_fixpoint: "0 < k \<Longrightarrow> push_bit k s = s \<Longrightarrow> s = 0" for s :: "64 word"
proof -
  assume k: "0 < k" and s: "push_bit k s = s"
  have "\<not> bit s n" for n
  proof (induction n rule: less_induct)
    case (less n)
    have "bit s n \<longleftrightarrow> bit (push_bit k s) n" using s by simp
    then show ?case using less.IH [of "n - k"] k by (auto simp: bit_push_bit_iff)
  qed
  then show "s = 0" by (intro bit_eqI) simp
qed

lemma xor_eq_0: "s XOR t = 0 \<longleftrightarrow> s = t" for s t :: "64 word"
proof
  assume "s XOR t = 0"
  then have "(s XOR t) XOR t = 0 XOR t" by simp
  then show "s = t" by (simp only: xor.assoc xor_self_eq xor.right_neutral xor.left_neutral)
qed simp

lemma xorshift_0_iff: "xorshift s = 0 \<longleftrightarrow> s = 0"
proof
  assume z: "xorshift s = 0"
  define a b where "a = s XOR drop_bit 12 s" and "b = a XOR push_bit 25 a"
  have "b XOR drop_bit 27 b = 0" using z by (simp add: xorshift_def Let_def a_def b_def)
  then have "b = 0" using drop_bit_fixpoint [of 27 b] unfolding xor_eq_0 by simp
  then have "a = 0" using push_bit_fixpoint [of 25 a] unfolding b_def xor_eq_0 by simp
  then show "s = 0" using drop_bit_fixpoint [of 12 s] unfolding a_def xor_eq_0 by simp
qed (simp add: xorshift_def)

text \<open>The state after a sequence of draws with these bounds.\<close>

fun draws :: "slot_generator \<Rightarrow> nat list \<Rightarrow> (nat list \<times> slot_generator) option" where
  "draws g [] = Some ([], g)"
| "draws g (b # bs) =
     (case next_index g b of
        None \<Rightarrow> None
      | Some (i, g) \<Rightarrow> map_option (\<lambda>(is, g). (i # is, g)) (draws g bs))"

text \<open>the generator never falls into the absorbing all-zero state.  From any seed, zero included,
  every sequence of draws with positive bounds succeeds, each index is below its bound, and the
  state after it is not zero.\<close>

theorem generator_never_stuck:
  assumes "\<forall>b \<in> set bs. 0 < b"
  shows "\<exists>is g. draws (seeded seed) bs = Some (is, g) \<and> g \<noteq> 0 \<and> list_all2 (<) is bs"
proof -
  have "g \<noteq> 0 \<Longrightarrow> \<exists>is g'. draws g bs = Some (is, g') \<and> g' \<noteq> 0 \<and> list_all2 (<) is bs" for g
    using assms
  proof (induction bs arbitrary: g)
    case (Cons b bs)
    then have "xorshift g \<noteq> 0" by (simp add: xorshift_0_iff)
    from Cons.IH [OF this] Cons.prems(2) obtain i g' where
        i: "draws (xorshift g) bs = Some (i, g')" "g' \<noteq> 0" "list_all2 (<) i bs"
      by auto
    have "next_index g b = Some (unat (xorshift g * 0x2545F4914F6CDD1D) mod b, xorshift g)"
      using Cons.prems(2) by (simp add: next_index_def Let_def)
    moreover have "unat (xorshift g * 0x2545F4914F6CDD1D) mod b < b"
      using Cons.prems(2) by simp
    ultimately show ?case using i by simp
  qed simp
  then show ?thesis by (simp add: seeded_def)
qed

theorem generator_never_stuck_witness:
  "\<exists>is g. draws (seeded 0) [3, 5] = Some (is, g) \<and> g \<noteq> 0 \<and> list_all2 (<) is [3, 5]"
  using generator_never_stuck [of "[3, 5]" 0] by simp

end
