(* ===== verification/Attempts.thy ===== *)
theory Attempts
  imports States Ids Policy Remote
begin

text \<open>
  Durable release attempts (\<open>crates/store/src/attempts.rs\<close>, and the table \<open>release_attempts\<close> of
  \<open>crates/store/src/migrations.rs\<close> as the latest migration leaves it).

  The table is the list of its rows in insertion order, a row its columns as stored.  A statement
  that writes returns the new table, or the constraint violation that SQLite reports and the code
  turns into a conflict; SQLite checks the constraints of the whole table when the statement ends.
  The two tables the foreign keys refer to, the text SQLite reports and the rendering
  of a UUID are fields of the database.
\<close>

section \<open>Attempts and their rows\<close>

record attempt_lease =
  al_owner :: string
  al_expires :: int

definition attempt_lease_validate :: "attempt_lease \<Rightarrow> (store_error, unit) result" where
  "attempt_lease_validate l =
     and_then (ensure (\<not> blank (al_owner l) \<and> length (al_owner l) \<le> 256)
       (InvalidData ''attempt lease owner must be a non-empty identifier'')) (\<lambda>_.
     ensure (0 \<le> al_expires l) (InvalidData ''attempt lease expiry must not be negative''))"

definition is_expired_at :: "attempt_lease \<Rightarrow> int \<Rightarrow> bool" where
  "is_expired_at l now \<longleftrightarrow> al_expires l \<le> now"

record new_release_attempt =
  na_attempt_id :: attempt_id
  na_repository_id :: repository_id
  na_package_id :: package_id
  na_package_revision :: revision
  na_remote :: string
  na_target :: target_ref
  na_base_commit :: string
  na_lease :: attempt_lease
  na_created_at :: int

record release_attempt =
  ra_attempt_id :: attempt_id
  ra_repository_id :: repository_id
  ra_package_id :: package_id
  ra_package_revision :: revision
  ra_remote :: string
  ra_target :: target_ref
  ra_base_commit :: string
  ra_candidate_sha :: "string option"
  ra_candidate_parent_sha :: "string option"
  ra_push_intent_at :: "int option"
  ra_observed_remote_sha :: "string option"
  ra_failure_classification :: "string option"
  ra_failed_attempts :: nat
  ra_retry_not_before :: "int option"
  ra_state :: task_state
  ra_lease :: attempt_lease
  ra_created_at :: int
  ra_updated_at :: int

text \<open>The columns.  Identifiers and the revision are stored as their text and number; reading them
  back cannot fail and gives the same values, so the typed values stand for them.\<close>

record attempt_row =
  c_attempt_id :: attempt_id
  c_repository_id :: repository_id
  c_package_id :: package_id
  c_package_revision :: revision
  c_target_remote :: string
  c_target_remote_identity :: string
  c_target_ref :: string
  c_base_commit :: string
  c_candidate_sha :: "string option"
  c_candidate_parent_sha :: "string option"
  c_push_intent_at :: "int option"
  c_observed_remote_sha :: "string option"
  c_failure_classification :: "string option"
  c_status :: string
  c_reason :: "state_reason option"
  c_blocked_from :: "string option"
  c_failed_attempts :: nat
  c_retry_not_before :: "int option"
  c_lease_owner :: string
  c_lease_expires_at :: int
  c_created_at :: int
  c_updated_at :: int

record attempt_db =
  db_repositories :: "repository_id list"
  db_packages :: "(package_id \<times> revision) list"
  db_violation :: string
  db_uuid_text :: "uuid \<Rightarrow> string"
  db_attempts :: "attempt_row list"

definition reached_stage :: "release_attempt \<Rightarrow> task_status" where
  "reached_stage a =
     (case ts_status (ra_state a) of
        Blocked \<Rightarrow> (case ts_blocked_from (ra_state a) of Some resume \<Rightarrow> resume | None \<Rightarrow> Blocked)
      | other \<Rightarrow> other)"

definition needs_remote_resolution :: "release_attempt \<Rightarrow> bool" where
  "needs_remote_resolution a \<longleftrightarrow> reached_stage a = PushPending"

definition holds_target :: "release_attempt \<Rightarrow> bool" where
  "holds_target a =
     (case ts_status (ra_state a) of
        Published \<Rightarrow> False
      | Cancelled \<Rightarrow> False
      | Superseded \<Rightarrow> False
      | Blocked \<Rightarrow> ts_blocked_from (ra_state a) \<in> {Some PushPending, Some RemoteConfirmed}
      | _ \<Rightarrow> True)"

section \<open>The schema\<close>

definition target_held_predicate :: "attempt_row \<Rightarrow> bool" where
  "target_held_predicate r \<longleftrightarrow>
     c_status r \<in> {''scheduled'', ''reconciling'', ''verifying'', ''commit_prepared'', ''push_pending'',
       ''remote_confirmed''}
     \<or> c_status r = ''blocked'' \<and> c_blocked_from r \<in> {Some ''push_pending'', Some ''remote_confirmed''}"

definition awaiting_resolution_predicate :: "attempt_row \<Rightarrow> bool" where
  "awaiting_resolution_predicate r \<longleftrightarrow>
     c_status r = ''push_pending'' \<or> c_status r = ''blocked'' \<and> c_blocked_from r = Some ''push_pending''"

text \<open>\<open>LIKE\<close> ignores the case of ASCII letters.\<close>

definition like_branch :: "string \<Rightarrow> bool" where
  "like_branch s \<longleftrightarrow> to_ascii_lowercase (take (length heads) s) = heads \<and> length heads < length s"

definition row_checks :: "attempt_row \<Rightarrow> bool" where
  "row_checks r \<longleftrightarrow>
     \<not> sql_blank (c_target_remote r) \<and> like_branch (c_target_ref r) \<and> length (c_base_commit r) = 40
     \<and> null_or (\<lambda>s. length s = 40) (c_candidate_sha r)
     \<and> null_or (\<lambda>s. length s = 40) (c_candidate_parent_sha r)
     \<and> null_or (\<lambda>t. 0 \<le> t) (c_push_intent_at r)
     \<and> null_or (\<lambda>s. length s = 40) (c_observed_remote_sha r)
     \<and> null_or (\<lambda>s. \<not> sql_blank s) (c_failure_classification r)
     \<and> c_status r \<in> {''scheduled'', ''reconciling'', ''verifying'', ''commit_prepared'', ''push_pending'',
          ''remote_confirmed'', ''published'', ''blocked'', ''cancelled'', ''superseded''}
     \<and> c_failed_attempts r \<le> 255
     \<and> null_or (\<lambda>t. 0 \<le> t) (c_retry_not_before r)
     \<and> \<not> sql_blank (c_lease_owner r) \<and> 0 \<le> c_lease_expires_at r
     \<and> 0 \<le> c_created_at r \<and> c_created_at r \<le> c_updated_at r
     \<and> (c_status r \<in> {''push_pending'', ''remote_confirmed'', ''published''} \<longrightarrow>
          c_candidate_sha r \<noteq> None \<and> c_push_intent_at r \<noteq> None)
     \<and> (c_status r = ''blocked'' \<longleftrightarrow> c_blocked_from r \<noteq> None)"

definition live_target_keys :: "attempt_row list \<Rightarrow> (string \<times> string) list" where
  "live_target_keys rows =
     map (\<lambda>r. (c_target_remote_identity r, c_target_ref r)) (filter target_held_predicate rows)"

definition constraints_hold :: "attempt_db \<Rightarrow> bool" where
  "constraints_hold db \<longleftrightarrow>
     list_all row_checks (db_attempts db)
     \<and> distinct (map c_attempt_id (db_attempts db))
     \<and> distinct (live_target_keys (db_attempts db))
     \<and> list_all (\<lambda>r. c_repository_id r \<in> set (db_repositories db)
          \<and> (c_package_id r, c_package_revision r) \<in> set (db_packages db)) (db_attempts db)"

text \<open>A statement's new table is kept when the constraints hold of it; \<open>map_attempt_write_error\<close>
  turns a violation into a conflict.\<close>

definition commit_rows :: "attempt_db \<Rightarrow> attempt_row list \<Rightarrow> (store_error, attempt_db) result" where
  "commit_rows db rows =
     (let db' = db\<lparr>db_attempts := rows\<rparr>
      in if constraints_hold db' then Inr db'
         else Inl (Conflict (''release attempt rejected by storage rules: '' @ db_violation db)))"

definition sql_insert :: "attempt_db \<Rightarrow> attempt_row \<Rightarrow> (store_error, attempt_db) result" where
  "sql_insert db r = commit_rows db (db_attempts db @ [r])"

definition expect_one_row :: "nat \<Rightarrow> (store_error, unit) result" where
  "expect_one_row changed =
     ensure (changed = 1) (Conflict ''release attempt changed concurrently; re-read it before retrying'')"

text \<open>\<open>UPDATE .. WHERE\<close>, followed by the check that it changed one row.\<close>

definition sql_update ::
  "attempt_db \<Rightarrow> (attempt_row \<Rightarrow> bool) \<Rightarrow> (attempt_row \<Rightarrow> attempt_row) \<Rightarrow> (store_error, attempt_db) result" where
  "sql_update db cond change =
     and_then (commit_rows db (map (\<lambda>r. if cond r then change r else r) (db_attempts db))) (\<lambda>db'.
     and_then (expect_one_row (length (filter cond (db_attempts db)))) (\<lambda>_. Inr db'))"

section \<open>Reading a row\<close>

definition validate_object_id :: "string \<Rightarrow> string \<Rightarrow> (store_error, unit) result" where
  "validate_object_id name v =
     ensure (length v = 40 \<and> list_all is_ascii_hexdigit v)
       (InvalidData (name @ '' must be a full hexadecimal object ID''))"

definition validate_remote :: "string \<Rightarrow> (store_error, unit) result" where
  "validate_remote remote =
     ensure (\<not> blank remote \<and> length remote \<le> 2048)
       (InvalidData ''attempt remote must be a non-empty reference'')"

definition stage_column :: "task_status \<Rightarrow> string option" where
  "stage_column s =
     (if s \<in> {Planned, Building, Captured, Validated, Queued} then None else Some (status_column s))"

definition stage_from_column :: "string \<Rightarrow> (store_error, task_status) result" where
  "stage_from_column v =
     (if v = ''scheduled'' then Inr Scheduled
      else if v = ''reconciling'' then Inr Reconciling
      else if v = ''verifying'' then Inr Verifying
      else if v = ''commit_prepared'' then Inr CommitPrepared
      else if v = ''push_pending'' then Inr PushPending
      else if v = ''remote_confirmed'' then Inr RemoteConfirmed
      else if v = ''published'' then Inr Published
      else if v = ''blocked'' then Inr Blocked
      else if v = ''cancelled'' then Inr Cancelled
      else if v = ''superseded'' then Inr Superseded
      else Inl (InvalidData (''stored attempt status '' @ v @ '' is not a publication stage'')))"

definition require_publication_stage :: "task_status \<Rightarrow> (store_error, string) result" where
  "require_publication_stage s =
     ok_or (stage_column s)
       (InvalidData (debug_status s @ '' is a production state and cannot be a release attempt state''))"

text \<open>An error inside a row is reported by rusqlite with the index of the column.\<close>

definition conversion :: "nat \<Rightarrow> store_error" where
  "conversion column = Sqlite (''conversion of column '' @ show_nat column)"

definition attempt_from_row :: "attempt_row \<Rightarrow> (store_error, release_attempt) result" where
  "attempt_from_row r =
     and_then (map_err (\<lambda>_. conversion 5) (target_ref_new (c_target_ref r))) (\<lambda>target.
     and_then (map_err (\<lambda>_. conversion 12) (stage_from_column (c_status r))) (\<lambda>status.
     and_then (case c_blocked_from r of
                 None \<Rightarrow> Inr None
               | Some v \<Rightarrow> and_then (map_err (\<lambda>_. conversion 14) (stage_from_column v)) (\<lambda>s. Inr (Some s)))
       (\<lambda>blocked_from.
     and_then (map_err (\<lambda>_. conversion 12) (ts_restore status (c_reason r) blocked_from)) (\<lambda>state.
       Inr \<lparr>ra_attempt_id = c_attempt_id r, ra_repository_id = c_repository_id r,
            ra_package_id = c_package_id r, ra_package_revision = c_package_revision r,
            ra_remote = c_target_remote r, ra_target = target, ra_base_commit = c_base_commit r,
            ra_candidate_sha = c_candidate_sha r, ra_candidate_parent_sha = c_candidate_parent_sha r,
            ra_push_intent_at = c_push_intent_at r, ra_observed_remote_sha = c_observed_remote_sha r,
            ra_failure_classification = c_failure_classification r,
            ra_failed_attempts = c_failed_attempts r, ra_retry_not_before = c_retry_not_before r,
            ra_state = state,
            ra_lease = \<lparr>al_owner = c_lease_owner r, al_expires = c_lease_expires_at r\<rparr>,
            ra_created_at = c_created_at r, ra_updated_at = c_updated_at r\<rparr>))))"

section \<open>Operations\<close>

definition release_attempt_of ::
  "attempt_db \<Rightarrow> attempt_id \<Rightarrow> (store_error, release_attempt option) result" where
  "release_attempt_of db i =
     (case find (\<lambda>r. c_attempt_id r = i) (db_attempts db) of
        None \<Rightarrow> Inr None
      | Some r \<Rightarrow> and_then (attempt_from_row r) (\<lambda>a. Inr (Some a)))"

definition expect_attempt :: "attempt_db \<Rightarrow> attempt_id \<Rightarrow> (store_error, release_attempt) result" where
  "expect_attempt db i =
     and_then (release_attempt_of db i) (\<lambda>found.
       ok_or found (InvalidData (''release attempt '' @ id_display (db_uuid_text db) AttemptKind i @ '' is not stored'')))"

definition open_release_attempt ::
  "attempt_db \<Rightarrow> new_release_attempt \<Rightarrow> (store_error, attempt_db \<times> release_attempt) result" where
  "open_release_attempt db req =
     and_then (validate_remote (na_remote req)) (\<lambda>_.
     and_then (validate_object_id ''attempt base commit'' (na_base_commit req)) (\<lambda>_.
     and_then (attempt_lease_validate (na_lease req)) (\<lambda>_.
     and_then (ensure (0 \<le> na_created_at req)
       (InvalidData ''attempt creation timestamp must not be negative'')) (\<lambda>_.
     and_then (sql_insert db
       \<lparr>c_attempt_id = na_attempt_id req, c_repository_id = na_repository_id req,
        c_package_id = na_package_id req, c_package_revision = na_package_revision req,
        c_target_remote = na_remote req,
        c_target_remote_identity = identity_str (remote_identity_of (na_remote req)),
        c_target_ref = target_ref_str (na_target req), c_base_commit = na_base_commit req,
        c_candidate_sha = None, c_candidate_parent_sha = None, c_push_intent_at = None,
        c_observed_remote_sha = None, c_failure_classification = None, c_status = ''scheduled'',
        c_reason = None, c_blocked_from = None, c_failed_attempts = 0, c_retry_not_before = None,
        c_lease_owner = al_owner (na_lease req), c_lease_expires_at = al_expires (na_lease req),
        c_created_at = na_created_at req, c_updated_at = na_created_at req\<rparr>) (\<lambda>db'.
     and_then (release_attempt_of db' (na_attempt_id req)) (\<lambda>found.
     and_then (ok_or found (InvalidData ''opened attempt could not be read back'')) (\<lambda>a.
       Inr (db', a))))))))"

text \<open>Every guarded write ends with reading the row back.\<close>

definition write_back ::
  "attempt_id \<Rightarrow> (store_error, attempt_db) result \<Rightarrow> (store_error, attempt_db \<times> release_attempt) result" where
  "write_back i r = and_then r (\<lambda>db'. and_then (expect_attempt db' i) (\<lambda>a. Inr (db', a)))"

definition record_push_intent ::
  "attempt_db \<Rightarrow> attempt_id \<Rightarrow> string \<Rightarrow> string \<Rightarrow> int
    \<Rightarrow> (store_error, attempt_db \<times> release_attempt) result" where
  "record_push_intent db i candidate parent now =
     and_then (validate_object_id ''candidate commit'' candidate) (\<lambda>_.
     and_then (validate_object_id ''candidate parent commit'' parent) (\<lambda>_.
     and_then (expect_attempt db i) (\<lambda>attempt.
     if ts_status (ra_state attempt) \<noteq> CommitPrepared then
       Inl (Conflict (''push intent requires a prepared candidate; attempt is ''
         @ debug_status (ts_status (ra_state attempt))))
     else if (case ra_candidate_sha attempt of Some existing \<Rightarrow> existing \<noteq> candidate | None \<Rightarrow> False) then
       Inl (Conflict ''attempt already recorded a different candidate commit'')
     else
       write_back i (sql_update db
         (\<lambda>r. c_attempt_id r = i \<and> c_status r = ''commit_prepared''
            \<and> c_candidate_sha r \<in> {None, Some candidate} \<and> c_candidate_parent_sha r \<in> {None, Some parent})
         (\<lambda>r. r\<lparr>c_candidate_sha := Some candidate, c_candidate_parent_sha := Some parent,
                c_push_intent_at := Some now, c_updated_at := now\<rparr>)))))"

definition advance_release_attempt ::
  "attempt_db \<Rightarrow> attempt_id \<Rightarrow> task_status \<Rightarrow> state_reason option \<Rightarrow> int
    \<Rightarrow> (store_error, attempt_db \<times> release_attempt) result" where
  "advance_release_attempt db i target reason now =
     and_then (require_publication_stage target) (\<lambda>column.
     and_then (expect_attempt db i) (\<lambda>attempt.
     if now < ra_updated_at attempt then
       Inl (InvalidData ''attempt update time must not move backwards'')
     else
       and_then (require_publication_stage (ts_status (ra_state attempt))) (\<lambda>observed_status.
       let observed_blocked_from = Option.bind (ts_blocked_from (ra_state attempt)) stage_column
       in and_then (map_err (\<lambda>e. Conflict (transition_error_text e))
            (ts_transition (ra_state attempt) target reason)) (\<lambda>state.
          write_back i (sql_update db
            (\<lambda>r. c_attempt_id r = i \<and> c_status r = observed_status
               \<and> c_blocked_from r = observed_blocked_from)
            (\<lambda>r. r\<lparr>c_status := column, c_reason := ts_reason state,
                   c_blocked_from := Option.bind (ts_blocked_from state) stage_column,
                   c_retry_not_before :=
                     (if column = ''push_pending'' then c_retry_not_before r else None),
                   c_updated_at := now\<rparr>))))))"

definition record_remote_observation ::
  "attempt_db \<Rightarrow> attempt_id \<Rightarrow> string \<Rightarrow> int \<Rightarrow> (store_error, attempt_db \<times> release_attempt) result" where
  "record_remote_observation db i observed now =
     and_then (validate_object_id ''observed remote commit'' observed) (\<lambda>_.
     and_then (expect_attempt db i) (\<lambda>attempt.
     and_then (require_publication_stage (ts_status (ra_state attempt))) (\<lambda>observed_status.
       write_back i (sql_update db
         (\<lambda>r. c_attempt_id r = i \<and> c_status r = observed_status)
         (\<lambda>r. r\<lparr>c_observed_remote_sha := Some observed, c_updated_at := now\<rparr>)))))"

definition validate_classification :: "string \<Rightarrow> (store_error, unit) result" where
  "validate_classification c =
     ensure (\<not> blank c \<and> length c \<le> 256)
       (InvalidData ''failure classification must be a short non-empty label'')"

definition record_publication_failure ::
  "attempt_db \<Rightarrow> attempt_id \<Rightarrow> string \<Rightarrow> int \<Rightarrow> (store_error, attempt_db \<times> release_attempt) result" where
  "record_publication_failure db i classification now =
     and_then (validate_classification classification) (\<lambda>_.
     and_then (expect_attempt db i) (\<lambda>attempt.
     if ra_failed_attempts attempt = u8_max then
       Inl (Conflict ''attempt has already recorded the maximum number of failures'')
     else
       and_then (require_publication_stage (ts_status (ra_state attempt))) (\<lambda>observed_status.
         write_back i (sql_update db
           (\<lambda>r. c_attempt_id r = i \<and> c_failed_attempts r = ra_failed_attempts attempt
              \<and> c_status r = observed_status)
           (\<lambda>r. r\<lparr>c_failure_classification := Some classification,
                  c_failed_attempts := c_failed_attempts r + 1, c_updated_at := now\<rparr>)))))"

definition defer_publication_retry ::
  "attempt_db \<Rightarrow> attempt_id \<Rightarrow> string \<Rightarrow> int \<Rightarrow> int
    \<Rightarrow> (store_error, attempt_db \<times> release_attempt) result" where
  "defer_publication_retry db i classification retry_not_before now =
     and_then (validate_classification classification) (\<lambda>_.
     and_then (ensure (now \<le> retry_not_before)
       (InvalidData ''publication retry time must not precede the failure'')) (\<lambda>_.
     and_then (expect_attempt db i) (\<lambda>attempt.
     if ts_status (ra_state attempt) \<noteq> PushPending then
       Inl (Conflict ''only a transmitted push can be deferred for retry'')
     else if ra_failed_attempts attempt = u8_max then
       Inl (Conflict ''attempt has already recorded the maximum number of failures'')
     else
       write_back i (sql_update db
         (\<lambda>r. c_attempt_id r = i \<and> c_status r = ''push_pending''
            \<and> c_failed_attempts r = ra_failed_attempts attempt
            \<and> c_retry_not_before r = ra_retry_not_before attempt)
         (\<lambda>r. r\<lparr>c_failure_classification := Some classification,
                c_failed_attempts := c_failed_attempts r + 1,
                c_retry_not_before := Some retry_not_before, c_updated_at := now\<rparr>)))))"

definition claim_expired_release_attempt ::
  "attempt_db \<Rightarrow> attempt_id \<Rightarrow> attempt_lease \<Rightarrow> int
    \<Rightarrow> (store_error, attempt_db \<times> release_attempt) result" where
  "claim_expired_release_attempt db i lease now =
     and_then (attempt_lease_validate lease) (\<lambda>_.
     and_then (expect_attempt db i) (\<lambda>attempt.
     if \<not> is_expired_at (ra_lease attempt) now \<and> al_owner (ra_lease attempt) \<noteq> al_owner lease then
       Inl (Conflict (''attempt lease is held by '' @ al_owner (ra_lease attempt) @ '' until ''
         @ show_int (al_expires (ra_lease attempt))))
     else
       write_back i (sql_update db
         (\<lambda>r. c_attempt_id r = i \<and> c_lease_owner r = al_owner (ra_lease attempt)
            \<and> c_lease_expires_at r = al_expires (ra_lease attempt))
         (\<lambda>r. r\<lparr>c_lease_owner := al_owner lease, c_lease_expires_at := al_expires lease,
                c_updated_at := now\<rparr>))))"

section \<open>Queries\<close>

definition release_attempts_awaiting_remote_resolution ::
  "attempt_db \<Rightarrow> (store_error, release_attempt list) result" where
  "release_attempts_awaiting_remote_resolution db =
     collect_res attempt_from_row
       (sort_key c_updated_at (filter awaiting_resolution_predicate (db_attempts db)))"

definition live_attempts_for_repository ::
  "attempt_db \<Rightarrow> repository_id \<Rightarrow> (store_error, release_attempt list) result" where
  "live_attempts_for_repository db repository =
     collect_res attempt_from_row
       (sort_key c_created_at (filter (\<lambda>r. c_repository_id r = repository
          \<and> c_status r \<notin> {''published'', ''cancelled'', ''superseded'', ''blocked''}) (db_attempts db)))"

definition package_published_to :: "attempt_db \<Rightarrow> package_id \<Rightarrow> revision \<Rightarrow> target_ref \<Rightarrow> bool" where
  "package_published_to db package revision target \<longleftrightarrow>
     list_ex (\<lambda>r. c_package_id r = package \<and> c_package_revision r = revision
       \<and> c_status r = ''published'' \<and> c_target_ref r = target_ref_str target) (db_attempts db)"

definition live_attempt_for_package ::
  "attempt_db \<Rightarrow> package_id \<Rightarrow> revision \<Rightarrow> (store_error, release_attempt option) result" where
  "live_attempt_for_package db package revision =
     (case sort_key (\<lambda>r. - c_updated_at r)
             (filter (\<lambda>r. c_package_id r = package \<and> c_package_revision r = revision
                \<and> c_status r \<notin> {''published'', ''cancelled'', ''superseded''}) (db_attempts db)) of
        [] \<Rightarrow> Inr None
      | r # _ \<Rightarrow> and_then (attempt_from_row r) (\<lambda>a. Inr (Some a)))"

definition live_release_attempt ::
  "attempt_db \<Rightarrow> repository_id \<Rightarrow> string \<Rightarrow> target_ref \<Rightarrow> (store_error, release_attempt option) result" where
  "live_release_attempt db repository remote target =
     (case find (\<lambda>r. c_repository_id r = repository \<and> c_target_remote r = remote
             \<and> c_target_ref r = target_ref_str target \<and> target_held_predicate r) (db_attempts db) of
        None \<Rightarrow> Inr None
      | Some r \<Rightarrow> and_then (attempt_from_row r) (\<lambda>a. Inr (Some a)))"

section \<open>Rows and states\<close>

declare is_publication_stage.simps [simp del] may_have_reached_remote.simps [simp del]

text \<open>The columns of a row hold this state.\<close>

definition row_state :: "attempt_row \<Rightarrow> task_state \<Rightarrow> bool" where
  "row_state r st \<longleftrightarrow> ts_coherent st
     \<and> is_publication_stage (ts_status st) \<and> c_status r = status_column (ts_status st)
     \<and> c_reason r = ts_reason st
     \<and> c_blocked_from r = map_option status_column (ts_blocked_from st)
     \<and> null_or is_publication_stage (ts_blocked_from st)"

definition attempt_of :: "attempt_row \<Rightarrow> target_ref \<Rightarrow> task_state \<Rightarrow> release_attempt" where
  "attempt_of r target state =
     \<lparr>ra_attempt_id = c_attempt_id r, ra_repository_id = c_repository_id r,
      ra_package_id = c_package_id r, ra_package_revision = c_package_revision r,
      ra_remote = c_target_remote r, ra_target = target, ra_base_commit = c_base_commit r,
      ra_candidate_sha = c_candidate_sha r, ra_candidate_parent_sha = c_candidate_parent_sha r,
      ra_push_intent_at = c_push_intent_at r, ra_observed_remote_sha = c_observed_remote_sha r,
      ra_failure_classification = c_failure_classification r,
      ra_failed_attempts = c_failed_attempts r, ra_retry_not_before = c_retry_not_before r,
      ra_state = state,
      ra_lease = \<lparr>al_owner = c_lease_owner r, al_expires = c_lease_expires_at r\<rparr>,
      ra_created_at = c_created_at r, ra_updated_at = c_updated_at r\<rparr>"

lemma stage_from_column_Inr:
  "stage_from_column v = Inr s \<longleftrightarrow> v = status_column s \<and> is_publication_stage s"
proof
  assume "v = status_column s \<and> is_publication_stage s"
  then show "stage_from_column v = Inr s"
    by (cases s) (simp_all add: stage_from_column_def is_publication_stage.simps)
qed (auto simp: stage_from_column_def is_publication_stage.simps split: if_splits)

lemma stage_column_Some: "stage_column s = Some v \<longleftrightarrow> v = status_column s \<and> is_publication_stage s"
  by (cases s) (auto simp: stage_column_def is_publication_stage.simps)

lemma require_publication_stage_Inr:
  "require_publication_stage s = Inr v \<longleftrightarrow> v = status_column s \<and> is_publication_stage s"
  by (simp add: require_publication_stage_def res stage_column_Some)

lemma stored_block:
  "null_or is_publication_stage b \<Longrightarrow> Option.bind b stage_column = map_option status_column b"
  by (cases b) (auto simp: stage_column_Some)

lemma attempt_from_row_Inr:
  "attempt_from_row r = Inr a \<longleftrightarrow>
     (\<exists>t st. target_ref_new (c_target_ref r) = Inr t \<and> row_state r st \<and> a = attempt_of r t st)"
proof -
  have "(case c_blocked_from r of None \<Rightarrow> Inr None
         | Some v \<Rightarrow> and_then (map_err (\<lambda>_. conversion 14) (stage_from_column v)) (\<lambda>s. Inr (Some s))) = Inr b
      \<longleftrightarrow> c_blocked_from r = map_option status_column b \<and> null_or is_publication_stage b" for b
    by (cases "c_blocked_from r"; cases b) (auto simp: res stage_from_column_Inr)
  then show ?thesis
    by (auto simp: attempt_from_row_def res stage_from_column_Inr row_state_def attempt_of_def
        ts_restore_Inr_iff)
qed

lemma row_state_unique: "row_state r st \<Longrightarrow> row_state r st' \<Longrightarrow> st = st'"
proof -
  assume "row_state r st" "row_state r st'"
  moreover from this have "ts_blocked_from st = ts_blocked_from st'"
    by (cases "ts_blocked_from st"; cases "ts_blocked_from st'") (auto simp: row_state_def)
  ultimately show ?thesis by (cases st; cases st') (auto simp: row_state_def)
qed

text \<open>The invariant of a stored row.\<close>

definition row_ok :: "attempt_row \<Rightarrow> bool" where
  "row_ok r \<longleftrightarrow>
     c_target_remote_identity r = identity_str (remote_identity_of (c_target_remote r))
     \<and> (\<exists>t. target_ref_new (c_target_ref r) = Inr t)
     \<and> (\<exists>st. row_state r st \<and> (may_have_reached_remote (ts_stage st) \<longrightarrow> c_candidate_sha r \<noteq> None))
     \<and> (c_candidate_sha r = None \<longleftrightarrow> c_candidate_parent_sha r = None)
     \<and> (c_candidate_sha r = None \<longleftrightarrow> c_push_intent_at r = None)"

definition db_ok :: "attempt_db \<Rightarrow> bool" where
  "db_ok db \<longleftrightarrow> constraints_hold db \<and> (\<forall>r \<in> set (db_attempts db). row_ok r)"

text \<open>What no operation undoes.\<close>

definition row_evolves :: "attempt_row \<Rightarrow> attempt_row \<Rightarrow> bool" where
  "row_evolves r r' \<longleftrightarrow>
     c_attempt_id r' = c_attempt_id r \<and> c_repository_id r' = c_repository_id r
     \<and> c_package_id r' = c_package_id r \<and> c_package_revision r' = c_package_revision r
     \<and> c_target_remote r' = c_target_remote r \<and> c_target_ref r' = c_target_ref r
     \<and> c_base_commit r' = c_base_commit r \<and> c_created_at r' = c_created_at r
     \<and> (c_candidate_sha r \<noteq> None \<longrightarrow> c_candidate_sha r' = c_candidate_sha r
          \<and> c_candidate_parent_sha r' = c_candidate_parent_sha r)
     \<and> c_failed_attempts r \<le> c_failed_attempts r'
     \<and> (c_status r \<in> {''published'', ''cancelled'', ''superseded''} \<longrightarrow> c_status r' = c_status r)"

lemma row_evolves_refl [simp]: "row_evolves r r"
  by (simp add: row_evolves_def)

section \<open>One write\<close>

lemma commit_rows_Inr:
  "commit_rows db rows = Inr db' \<longleftrightarrow> db' = db\<lparr>db_attempts := rows\<rparr> \<and> constraints_hold db'"
  by (auto simp: commit_rows_def Let_def)

lemma find_unique:
  "distinct (map c_attempt_id rows) \<Longrightarrow> r \<in> set rows \<Longrightarrow> find (\<lambda>r. c_attempt_id r = c_attempt_id r') rows = Some q
    \<Longrightarrow> c_attempt_id r = c_attempt_id r' \<Longrightarrow> r = q"
  by (induction rows) (auto split: if_splits dest: find_Some_iff [THEN iffD1] simp: image_iff)

lemma expect_attempt_row:
  assumes "constraints_hold db" and "expect_attempt db i = Inr a"
    and "r \<in> set (db_attempts db)" and "c_attempt_id r = i"
  shows "attempt_from_row r = Inr a"
proof -
  obtain q where q: "find (\<lambda>r. c_attempt_id r = i) (db_attempts db) = Some q" "attempt_from_row q = Inr a"
    using assms(2) by (auto simp: expect_attempt_def release_attempt_of_def res split: option.splits)
  have "r = q"
    using find_unique [OF _ assms(3), of r q] q(1) assms(1,4) by (simp add: constraints_hold_def)
  then show ?thesis using q(2) by simp
qed

lemma expect_attempt_state:
  assumes "constraints_hold db" and "expect_attempt db i = Inr a"
    and "r \<in> set (db_attempts db)" and "c_attempt_id r = i"
  obtains t where "row_state r (ra_state a)" "a = attempt_of r t (ra_state a)"
  using expect_attempt_row [OF assms] by (auto simp: attempt_from_row_Inr attempt_of_def)

lemma sql_update_ok:
  assumes "db_ok db" and "write_back i (sql_update db cond change) = Inr (db', a)"
    and keeps: "\<And>r. r \<in> set (db_attempts db) \<Longrightarrow> cond r \<Longrightarrow> row_checks (change r)
      \<Longrightarrow> row_ok (change r) \<and> row_evolves r (change r)"
  shows "db_ok db' \<and> list_all2 row_evolves (db_attempts db) (db_attempts db')
    \<and> length (filter cond (db_attempts db)) = 1 \<and> expect_attempt db' i = Inr a
    \<and> db' = db\<lparr>db_attempts := map (\<lambda>r. if cond r then change r else r) (db_attempts db)\<rparr>"
proof -
  have db': "db' = db\<lparr>db_attempts := map (\<lambda>r. if cond r then change r else r) (db_attempts db)\<rparr>"
    and c: "constraints_hold db'" and one: "length (filter cond (db_attempts db)) = 1"
    and stored: "expect_attempt db' i = Inr a"
    using assms(2) by (auto simp: write_back_def sql_update_def commit_rows_Inr expect_one_row_def res)
  have checked: "row_checks (change r)" if "r \<in> set (db_attempts db)" "cond r" for r
    using c that by (auto simp: constraints_hold_def db' list_all_iff)
  have "row_ok (change r) \<and> row_evolves r (change r)" if "r \<in> set (db_attempts db)" "cond r" for r
    using keeps [OF that checked [OF that]] .
  moreover have "row_ok r" if "r \<in> set (db_attempts db)" for r
    using assms(1) that by (simp add: db_ok_def)
  ultimately show ?thesis
    using c one stored db' by (auto simp: db_ok_def list_all2_conv_all_nth)
qed

text \<open>Writes that leave the state and the candidate of the row as they are.\<close>

lemma row_ok_cong:
  assumes "row_ok r" and "c_status r' = c_status r" "c_reason r' = c_reason r"
    "c_blocked_from r' = c_blocked_from r" "c_target_ref r' = c_target_ref r"
    "c_target_remote r' = c_target_remote r" "c_target_remote_identity r' = c_target_remote_identity r"
    "c_candidate_sha r' = c_candidate_sha r" "c_candidate_parent_sha r' = c_candidate_parent_sha r"
    "c_push_intent_at r' = c_push_intent_at r"
  shows "row_ok r'"
proof -
  have "row_state r' = row_state r"
    by (rule ext) (simp add: row_state_def assms)
  note same = this
  from assms(1) [unfolded row_ok_def] show ?thesis unfolding row_ok_def same assms(2-10) by blast
qed

lemma row_ok_loads: "row_ok r \<Longrightarrow> \<exists>a. attempt_from_row r = Inr a"
  by (auto simp: row_ok_def attempt_from_row_Inr)

lemma column_terminal:
  "status_column s \<in> {''published'', ''cancelled'', ''superseded''} \<longleftrightarrow> is_terminal s"
  by (cases s) simp_all

lemma column_transmitted:
  "status_column s \<in> {''push_pending'', ''remote_confirmed'', ''published''} \<longleftrightarrow> may_have_reached_remote s"
  by (cases s) (simp_all add: may_have_reached_remote.simps)

definition same_publication :: "attempt_row \<Rightarrow> attempt_row \<Rightarrow> bool" where
  "same_publication r r' \<longleftrightarrow> c_status r' = c_status r \<and> c_reason r' = c_reason r
     \<and> c_blocked_from r' = c_blocked_from r \<and> c_target_ref r' = c_target_ref r
     \<and> c_target_remote r' = c_target_remote r
     \<and> c_target_remote_identity r' = c_target_remote_identity r
     \<and> c_candidate_sha r' = c_candidate_sha r \<and> c_candidate_parent_sha r' = c_candidate_parent_sha r
     \<and> c_push_intent_at r' = c_push_intent_at r"

lemma sql_update_same:
  assumes ok: "db_ok db" and w: "write_back i (sql_update db cond change) = Inr (db', a)"
    and same: "\<And>r. cond r \<Longrightarrow> same_publication r (change r) \<and> row_evolves r (change r)"
  shows "db_ok db' \<and> list_all2 row_evolves (db_attempts db) (db_attempts db')"
proof -
  have "row_ok (change r) \<and> row_evolves r (change r)" if "r \<in> set (db_attempts db)" "cond r" for r
    using same [OF that(2)] ok that(1) row_ok_cong [of r "change r"] by (simp add: same_publication_def db_ok_def)
  then show ?thesis using sql_update_ok [OF ok w] by blast
qed

text \<open>A state change: the row's new state, and why a transmitted push keeps its candidate.\<close>

lemma advance_row:
  assumes ok: "row_ok r" and st: "row_state r st" and t: "ts_transition st target reason = Inr st'"
    and target: "is_publication_stage target"
    and r': "c_status r' = status_column target" "c_reason r' = ts_reason st'"
      "c_blocked_from r' = Option.bind (ts_blocked_from st') stage_column"
    and checks: "row_checks r'" and same: "c_candidate_sha r' = c_candidate_sha r"
  shows "row_state r' st' \<and> (may_have_reached_remote (ts_stage st') \<longrightarrow> c_candidate_sha r' \<noteq> None)
    \<and> \<not> is_terminal (ts_status st)"
proof -
  have coherent: "ts_coherent st'" using st t ts_transition_coherent by (auto simp: row_state_def)
  have before: "may_have_reached_remote (ts_stage st) \<Longrightarrow> c_candidate_sha r \<noteq> None"
    using ok st row_state_unique by (auto simp: row_ok_def)
  have state: "ts_status st' = target \<and> null_or is_publication_stage (ts_blocked_from st')
      \<and> \<not> is_terminal (ts_status st) \<and> (ts_status st' = Blocked \<longrightarrow> ts_stage st' = ts_stage st)"
    using t
  proof (cases rule: ts_transition_cases)
    case (block q)
    then show ?thesis
      using st by (simp add: row_state_def ts_stage_blocked ts_stage_not_blocked)
  next
    case advance
    then show ?thesis using normal_successor_nonterminal [of "ts_status st" target] normal_successor_not_special
      by fastforce
  qed (use st in \<open>auto simp: row_state_def ts_coherent_def\<close>)
  then have new: "row_state r' st'"
    using coherent target r' stored_block [of "ts_blocked_from st'"] by (simp add: row_state_def)
  moreover have "c_candidate_sha r' \<noteq> None" if "may_have_reached_remote (ts_stage st')"
  proof (cases "ts_status st' = Blocked")
    case True
    then show ?thesis using that state before same by simp
  next
    case False
    then have "c_status r' \<in> {''push_pending'', ''remote_confirmed'', ''published''}"
      using that state r'(1) column_transmitted [of target] by (simp add: ts_stage_not_blocked)
    then show ?thesis using checks unfolding row_checks_def by blast
  qed
  ultimately show ?thesis using state by blast
qed

lemma advance_ok:
  assumes ok: "db_ok db" and r: "advance_release_attempt db i target reason now = Inr (db', a)"
  shows "db_ok db' \<and> list_all2 row_evolves (db_attempts db) (db_attempts db')"
proof -
  obtain column b st' where b: "expect_attempt db i = Inr b"
    and column: "column = status_column target" "is_publication_stage target"
    and t: "ts_transition (ra_state b) target reason = Inr st'"
    and w: "write_back i (sql_update db
        (\<lambda>r. c_attempt_id r = i \<and> c_status r = status_column (ts_status (ra_state b))
           \<and> c_blocked_from r = Option.bind (ts_blocked_from (ra_state b)) stage_column)
        (\<lambda>r. r\<lparr>c_status := column, c_reason := ts_reason st',
               c_blocked_from := Option.bind (ts_blocked_from st') stage_column,
               c_retry_not_before := (if column = ''push_pending'' then c_retry_not_before r else None),
               c_updated_at := now\<rparr>)) = Inr (db', a)"
    using r by (auto simp: advance_release_attempt_def res require_publication_stage_Inr Let_def split: if_splits)
  have c: "constraints_hold db" using ok by (simp add: db_ok_def)
  have keeps: "row_ok r' \<and> row_evolves q r'"
    if q: "q \<in> set (db_attempts db)" "c_attempt_id q = i" and checks: "row_checks r'"
      and r': "r' = q\<lparr>c_status := column, c_reason := ts_reason st',
               c_blocked_from := Option.bind (ts_blocked_from st') stage_column,
               c_retry_not_before := x, c_updated_at := now\<rparr>" for q r' x
  proof -
    have qok: "row_ok q" using ok q(1) by (simp add: db_ok_def)
    have qs: "row_state q (ra_state b)"
      using expect_attempt_state [OF c b q] by blast
    have new: "row_state r' st' \<and> (may_have_reached_remote (ts_stage st') \<longrightarrow> c_candidate_sha r' \<noteq> None)
        \<and> \<not> is_terminal (ts_status (ra_state b))"
      by (rule advance_row [OF qok qs t column(2)]) (use checks column(1) in \<open>simp_all add: r'\<close>)
    then have "row_ok r'" using qok unfolding row_ok_def by (auto simp: r')
    moreover have "c_status q \<notin> {''published'', ''cancelled'', ''superseded''}"
      using new qs column_terminal [of "ts_status (ra_state b)"] by (simp add: row_state_def)
    ultimately show ?thesis by (simp add: row_evolves_def r')
  qed
  show ?thesis
    using sql_update_ok [OF ok w] keeps by blast
qed

lemma record_push_intent_ok:
  assumes ok: "db_ok db" and r: "record_push_intent db i candidate parent now = Inr (db', a)"
  shows "db_ok db' \<and> list_all2 row_evolves (db_attempts db) (db_attempts db')"
proof -
  have w: "write_back i (sql_update db
      (\<lambda>r. c_attempt_id r = i \<and> c_status r = ''commit_prepared''
         \<and> c_candidate_sha r \<in> {None, Some candidate} \<and> c_candidate_parent_sha r \<in> {None, Some parent})
      (\<lambda>r. r\<lparr>c_candidate_sha := Some candidate, c_candidate_parent_sha := Some parent,
             c_push_intent_at := Some now, c_updated_at := now\<rparr>)) = Inr (db', a)"
    using r by (auto simp: record_push_intent_def res split: if_splits option.splits)
  have "row_ok q' \<and> row_evolves q q'"
    if "row_ok q" and old: "c_candidate_sha q \<in> {None, Some candidate}" "c_candidate_parent_sha q \<in> {None, Some parent}"
      "c_status q = ''commit_prepared''"
      and q': "q' = q\<lparr>c_candidate_sha := Some candidate, c_candidate_parent_sha := Some parent,
             c_push_intent_at := Some now, c_updated_at := now\<rparr>" for q q'
  proof
    have "row_state q' = row_state q" by (rule ext) (simp add: row_state_def q')
    then show "row_ok q'" using that(1) by (auto simp: row_ok_def q')
    have "c_candidate_sha q = None \<longleftrightarrow> c_candidate_parent_sha q = None"
      using that(1) by (simp add: row_ok_def)
    then show "row_evolves q q'" using old by (auto simp: row_evolves_def q')
  qed
  then show ?thesis
    using sql_update_ok [OF ok w] ok unfolding db_ok_def by blast
qed

lemma record_remote_observation_ok:
  assumes ok: "db_ok db" and r: "record_remote_observation db i observed now = Inr (db', a)"
  shows "db_ok db' \<and> list_all2 row_evolves (db_attempts db) (db_attempts db')"
proof -
  obtain v where w: "write_back i (sql_update db (\<lambda>r. c_attempt_id r = i \<and> c_status r = v)
      (\<lambda>r. r\<lparr>c_observed_remote_sha := Some observed, c_updated_at := now\<rparr>)) = Inr (db', a)"
    using r by (auto simp: record_remote_observation_def res)
  show ?thesis
    by (rule sql_update_same [OF ok w]) (simp add: row_evolves_def same_publication_def)
qed

lemma record_publication_failure_ok:
  assumes ok: "db_ok db" and r: "record_publication_failure db i classification now = Inr (db', a)"
  shows "db_ok db' \<and> list_all2 row_evolves (db_attempts db) (db_attempts db')"
proof -
  obtain n v where w: "write_back i (sql_update db
      (\<lambda>r. c_attempt_id r = i \<and> c_failed_attempts r = n \<and> c_status r = v)
      (\<lambda>r. r\<lparr>c_failure_classification := Some classification,
             c_failed_attempts := c_failed_attempts r + 1, c_updated_at := now\<rparr>)) = Inr (db', a)"
    using r by (auto simp: record_publication_failure_def res split: if_splits)
  show ?thesis
    by (rule sql_update_same [OF ok w]) (simp add: row_evolves_def same_publication_def)
qed

lemma defer_publication_retry_ok:
  assumes ok: "db_ok db" and r: "defer_publication_retry db i classification retry now = Inr (db', a)"
  shows "db_ok db' \<and> list_all2 row_evolves (db_attempts db) (db_attempts db')"
proof -
  obtain n v where w: "write_back i (sql_update db
      (\<lambda>r. c_attempt_id r = i \<and> c_status r = ''push_pending'' \<and> c_failed_attempts r = n
         \<and> c_retry_not_before r = v)
      (\<lambda>r. r\<lparr>c_failure_classification := Some classification,
             c_failed_attempts := c_failed_attempts r + 1,
             c_retry_not_before := Some retry, c_updated_at := now\<rparr>)) = Inr (db', a)"
    using r by (auto simp: defer_publication_retry_def res split: if_splits)
  show ?thesis
    by (rule sql_update_same [OF ok w]) (simp add: row_evolves_def same_publication_def)
qed

lemma claim_expired_ok:
  assumes ok: "db_ok db" and r: "claim_expired_release_attempt db i lease now = Inr (db', a)"
  shows "db_ok db' \<and> list_all2 row_evolves (db_attempts db) (db_attempts db')"
proof -
  obtain o' e where w: "write_back i (sql_update db
      (\<lambda>r. c_attempt_id r = i \<and> c_lease_owner r = o' \<and> c_lease_expires_at r = e)
      (\<lambda>r. r\<lparr>c_lease_owner := al_owner lease, c_lease_expires_at := al_expires lease,
             c_updated_at := now\<rparr>)) = Inr (db', a)"
    using r by (auto simp: claim_expired_release_attempt_def res split: if_splits)
  show ?thesis
    by (rule sql_update_same [OF ok w]) (simp add: row_evolves_def same_publication_def)
qed

text \<open>A \<open>TargetRef\<close> is only ever made by its validating constructor.\<close>

definition target_wf :: "target_ref \<Rightarrow> bool" where
  "target_wf t \<longleftrightarrow> target_ref_new (target_ref_str t) = Inr t"

lemma open_release_attempt_Inr:
  assumes "open_release_attempt db req = Inr (db', a)"
  obtains r where "db' = db\<lparr>db_attempts := db_attempts db @ [r]\<rparr>" "constraints_hold db'"
    "c_attempt_id r = na_attempt_id req" "c_status r = ''scheduled''" "c_blocked_from r = None"
    "c_reason r = None" "c_candidate_sha r = None" "c_candidate_parent_sha r = None"
    "c_push_intent_at r = None" "c_target_remote r = na_remote req"
    "c_target_remote_identity r = identity_str (remote_identity_of (na_remote req))"
    "c_target_ref r = target_ref_str (na_target req)"
  using assms by (auto simp: open_release_attempt_def sql_insert_def commit_rows_Inr res)

lemma scheduled_row_state:
  "c_status r = ''scheduled'' \<Longrightarrow> c_blocked_from r = None \<Longrightarrow> c_reason r = None \<Longrightarrow> row_state r (plain Scheduled)"
  by (simp add: row_state_def ts_coherent_def is_publication_stage.simps)

lemma open_release_attempt_ok:
  assumes ok: "db_ok db" and r: "open_release_attempt db req = Inr (db', a)" and wf: "target_wf (na_target req)"
  shows "db_ok db' \<and> (\<exists>r. db_attempts db' = db_attempts db @ [r])"
proof -
  obtain r where r: "db' = db\<lparr>db_attempts := db_attempts db @ [r]\<rparr>" "constraints_hold db'"
    "c_attempt_id r = na_attempt_id req" "c_status r = ''scheduled''" "c_blocked_from r = None"
    "c_reason r = None" "c_candidate_sha r = None" "c_candidate_parent_sha r = None"
    "c_push_intent_at r = None" "c_target_remote r = na_remote req"
    "c_target_remote_identity r = identity_str (remote_identity_of (na_remote req))"
    "c_target_ref r = target_ref_str (na_target req)"
    using r by (rule open_release_attempt_Inr)
  have "row_ok r"
    using r wf scheduled_row_state [of r]
    by (auto simp: row_ok_def target_wf_def may_have_reached_remote.simps intro!: exI [of _ "plain Scheduled"])
  then show ?thesis using r ok by (auto simp: db_ok_def)
qed

section \<open>Every sequence of operations\<close>

inductive attempt_step :: "attempt_db \<Rightarrow> attempt_db \<Rightarrow> bool" where
  open_attempt: "open_release_attempt db req = Inr (db', a) \<Longrightarrow> target_wf (na_target req) \<Longrightarrow> attempt_step db db'"
| push_intent: "record_push_intent db i candidate parent now = Inr (db', a) \<Longrightarrow> attempt_step db db'"
| advance: "advance_release_attempt db i target reason now = Inr (db', a) \<Longrightarrow> attempt_step db db'"
| observe: "record_remote_observation db i observed now = Inr (db', a) \<Longrightarrow> attempt_step db db'"
| failure: "record_publication_failure db i classification now = Inr (db', a) \<Longrightarrow> attempt_step db db'"
| defer_retry: "defer_publication_retry db i classification retry now = Inr (db', a) \<Longrightarrow> attempt_step db db'"
| claim: "claim_expired_release_attempt db i lease now = Inr (db', a) \<Longrightarrow> attempt_step db db'"

inductive attempts_reachable :: "attempt_db \<Rightarrow> bool" where
  empty_table: "db_attempts db = [] \<Longrightarrow> attempts_reachable db"
| a_step: "attempts_reachable db \<Longrightarrow> attempt_step db db' \<Longrightarrow> attempts_reachable db'"

lemma list_all2_take_all: "list_all2 P xs ys \<Longrightarrow> list_all2 P xs (take (length xs) ys)"
  using list_all2_lengthD [of P xs ys] by simp

lemma attempt_step_ok:
  assumes "db_ok db" and "attempt_step db db'"
  shows "db_ok db' \<and> list_all2 row_evolves (db_attempts db) (take (length (db_attempts db)) (db_attempts db'))"
  using assms(2)
proof cases
  case (open_attempt req a)
  then show ?thesis
    using open_release_attempt_ok [OF assms(1)] by (force simp: list_all2_same)
next
  case (push_intent i candidate parent now a)
  then show ?thesis using record_push_intent_ok [OF assms(1)] by (auto intro: list_all2_take_all)
next
  case (advance i target reason now a)
  then show ?thesis using advance_ok [OF assms(1)] by (auto intro: list_all2_take_all)
next
  case (observe i observed now a)
  then show ?thesis using record_remote_observation_ok [OF assms(1)] by (auto intro: list_all2_take_all)
next
  case (failure i classification now a)
  then show ?thesis using record_publication_failure_ok [OF assms(1)] by (auto intro: list_all2_take_all)
next
  case (defer_retry i classification retry now a)
  then show ?thesis using defer_publication_retry_ok [OF assms(1)] by (auto intro: list_all2_take_all)
next
  case (claim i lease now a)
  then show ?thesis using claim_expired_ok [OF assms(1)] by (auto intro: list_all2_take_all)
qed

lemma attempts_reachable_ok: "attempts_reachable db \<Longrightarrow> db_ok db"
proof (induction rule: attempts_reachable.induct)
  case (empty_table db)
  then show ?case by (simp add: db_ok_def constraints_hold_def live_target_keys_def)
next
  case (a_step db db')
  then show ?case using attempt_step_ok by blast
qed

section \<open>Queries against the attempts\<close>

definition stored :: "attempt_db \<Rightarrow> release_attempt \<Rightarrow> bool" where
  "stored db a \<longleftrightarrow> (\<exists>r \<in> set (db_attempts db). attempt_from_row r = Inr a)"

text \<open>The key of the lock on a target.\<close>

definition target_key :: "release_attempt \<Rightarrow> remote_identity \<times> target_ref" where
  "target_key a = (remote_identity_of (ra_remote a), ra_target a)"

lemma attempt_of_sel [simp]:
  "ra_state (attempt_of r t st) = st" "ra_target (attempt_of r t st) = t"
  "ra_remote (attempt_of r t st) = c_target_remote r" "ra_attempt_id (attempt_of r t st) = c_attempt_id r"
  "ra_candidate_sha (attempt_of r t st) = c_candidate_sha r"
  "ra_candidate_parent_sha (attempt_of r t st) = c_candidate_parent_sha r"
  "ra_push_intent_at (attempt_of r t st) = c_push_intent_at r"
  "ra_failed_attempts (attempt_of r t st) = c_failed_attempts r"
  "ra_package_id (attempt_of r t st) = c_package_id r"
  "ra_package_revision (attempt_of r t st) = c_package_revision r"
  "ra_base_commit (attempt_of r t st) = c_base_commit r"
  by (simp_all add: attempt_of_def)

lemma reached_stage_eq: "reached_stage a = ts_stage (ra_state a)"
  unfolding reached_stage_def ts_stage_def by (rule refl)

lemma holds_target_predicate:
  assumes "attempt_from_row r = Inr a"
  shows "holds_target a \<longleftrightarrow> target_held_predicate r"
proof -
  obtain st where st: "row_state r st" "ra_state a = st" using assms by (auto simp: attempt_from_row_Inr)
  show ?thesis
  proof (cases "ts_status st = Blocked")
    case True
    then obtain b where "ts_blocked_from st = Some b" using st by (auto simp: row_state_def ts_coherent_def)
    then show ?thesis
      using st True by (cases b) (auto simp: row_state_def holds_target_def target_held_predicate_def)
  next
    case False
    then show ?thesis
      using st by (cases "ts_status st")
        (auto simp: row_state_def holds_target_def target_held_predicate_def is_publication_stage.simps)
  qed
qed

lemma awaiting_predicate:
  assumes "attempt_from_row r = Inr a"
  shows "needs_remote_resolution a \<longleftrightarrow> awaiting_resolution_predicate r"
proof -
  obtain st where st: "row_state r st" "ra_state a = st" using assms by (auto simp: attempt_from_row_Inr)
  show ?thesis
  proof (cases "ts_status st = Blocked")
    case True
    then obtain b where "ts_blocked_from st = Some b" using st by (auto simp: row_state_def ts_coherent_def)
    then show ?thesis
      using st True by (cases b) (auto simp: row_state_def reached_stage_def needs_remote_resolution_def
          awaiting_resolution_predicate_def)
  next
    case False
    then show ?thesis
      using st by (cases "ts_status st")
        (auto simp: row_state_def reached_stage_def needs_remote_resolution_def awaiting_resolution_predicate_def)
  qed
qed

lemma collect_loads:
  "\<forall>r \<in> set rows. \<exists>a. f r = Inr a \<Longrightarrow> \<exists>as. collect_res f rows = Inr as"
  by (induction rows) (auto simp: res)

lemma collect_set:
  "collect_res f rows = Inr as \<Longrightarrow> a \<in> set as \<longleftrightarrow> (\<exists>r \<in> set rows. f r = Inr a)"
  by (induction rows arbitrary: as) (auto simp: res list_all2_Cons1)

lemma loaded_keys:
  assumes "list_all2 (\<lambda>r a. attempt_from_row r = Inr a) rows as" and "\<forall>r \<in> set rows. row_ok r"
  shows "map (\<lambda>a. (identity_str (remote_identity_of (ra_remote a)), target_ref_str (ra_target a)))
      (filter holds_target as) = live_target_keys rows"
  using assms
proof (induction rule: list_all2_induct)
  case Nil
  then show ?case by (simp add: live_target_keys_def)
next
  case (Cons r rows a as)
  obtain t st where a: "target_ref_new (c_target_ref r) = Inr t" "a = attempt_of r t st"
    using Cons.hyps(1) by (auto simp: attempt_from_row_Inr)
  have ref: "target_ref_str t = c_target_ref r" using a(1) by (auto simp: target_ref_new_Inr_iff)
  have identity: "c_target_remote_identity r = identity_str (remote_identity_of (c_target_remote r))"
    using Cons.prems by (simp add: row_ok_def)
  have ih: "map (\<lambda>a. (identity_str (remote_identity_of (ra_remote a)), target_ref_str (ra_target a)))
      (filter holds_target as) = live_target_keys rows"
    using Cons.IH Cons.prems by simp
  show ?case
    using ih ref identity a(2) holds_target_predicate [OF Cons.hyps(1)] by (simp add: live_target_keys_def)
qed

lemma live_keys_distinct:
  assumes "collect_res attempt_from_row (db_attempts db) = Inr as" and "db_ok db"
  shows "distinct (map target_key (filter holds_target as))"
proof -
  have "distinct (map (\<lambda>a. (identity_str (remote_identity_of (ra_remote a)), target_ref_str (ra_target a)))
      (filter holds_target as))"
    using loaded_keys [of "db_attempts db" as] assms by (simp add: res db_ok_def constraints_hold_def)
  then have "distinct (map (\<lambda>(k, t). (identity_str k, target_ref_str t)) (map target_key (filter holds_target as)))"
    by (simp add: target_key_def comp_def)
  then show ?thesis by (metis distinct_map)
qed

text \<open>C3: the table's contract, in every database the operations can produce.  Every row loads.  Two
  attempts never own the same branch of the same repository, whatever addresses they reach it by.
  An attempt whose push may have reached the remote, blocked ones included, has its candidate, the
  candidate's parent and the push intent on record.  The recovery query lists exactly the attempts
  whose push is unresolved.\<close>

theorem attempts_contract:
  assumes "attempts_reachable db"
  shows "\<exists>as bs. collect_res attempt_from_row (db_attempts db) = Inr as
    \<and> distinct (map target_key (filter holds_target as))
    \<and> (\<forall>a \<in> set as. may_have_reached_remote (reached_stage a) \<longrightarrow>
         ra_candidate_sha a \<noteq> None \<and> ra_candidate_parent_sha a \<noteq> None \<and> ra_push_intent_at a \<noteq> None)
    \<and> release_attempts_awaiting_remote_resolution db = Inr bs
    \<and> set bs = {a \<in> set as. needs_remote_resolution a}"
proof -
  have ok: "db_ok db" using assms by (rule attempts_reachable_ok)
  then have loads: "\<forall>r \<in> set (db_attempts db). \<exists>a. attempt_from_row r = Inr a"
    using row_ok_loads by (auto simp: db_ok_def)
  obtain as where as: "collect_res attempt_from_row (db_attempts db) = Inr as"
    using collect_loads [OF loads] by blast
  obtain bs where bs: "release_attempts_awaiting_remote_resolution db = Inr bs"
    using collect_loads [of "sort_key c_updated_at (filter awaiting_resolution_predicate (db_attempts db))"
        attempt_from_row] loads
    unfolding release_attempts_awaiting_remote_resolution_def by auto
  have "set bs = {a \<in> set as. needs_remote_resolution a}"
    using collect_set [OF as] collect_set [OF bs [unfolded release_attempts_awaiting_remote_resolution_def]]
      awaiting_predicate by auto
  moreover have "ra_candidate_sha a \<noteq> None \<and> ra_candidate_parent_sha a \<noteq> None \<and> ra_push_intent_at a \<noteq> None"
    if mem: "a \<in> set as" and far: "may_have_reached_remote (reached_stage a)" for a
  proof -
    obtain r t st where r: "r \<in> set (db_attempts db)" "row_state r st" "a = attempt_of r t st"
      using collect_set [OF as, of a] mem by (auto simp: attempt_from_row_Inr)
    then have "row_ok r" using ok by (simp add: db_ok_def)
    then show ?thesis
      using r far row_state_unique by (auto simp: row_ok_def reached_stage_eq)
  qed
  ultimately show ?thesis using as bs live_keys_distinct [OF as ok] by blast
qed

section \<open>An attempt's history\<close>

lemma find_unique_Some:
  "distinct (map c_attempt_id rows) \<Longrightarrow> r \<in> set rows \<Longrightarrow> find (\<lambda>q. c_attempt_id q = c_attempt_id r) rows = Some r"
  by (induction rows) (auto simp: image_iff)

lemma expect_attempt_iff:
  assumes "constraints_hold db"
  shows "expect_attempt db i = Inr a \<longleftrightarrow>
    (\<exists>r \<in> set (db_attempts db). c_attempt_id r = i \<and> attempt_from_row r = Inr a)"
proof
  assume e: "expect_attempt db i = Inr a"
  then show "\<exists>r \<in> set (db_attempts db). c_attempt_id r = i \<and> attempt_from_row r = Inr a"
    by (auto simp: expect_attempt_def release_attempt_of_def res find_Some_iff split: option.splits)
next
  assume "\<exists>r \<in> set (db_attempts db). c_attempt_id r = i \<and> attempt_from_row r = Inr a"
  then obtain r where "r \<in> set (db_attempts db)" "c_attempt_id r = i" "attempt_from_row r = Inr a" by blast
  moreover from this have "find (\<lambda>q. c_attempt_id q = i) (db_attempts db) = Some r"
    using assms find_unique_Some [of "db_attempts db" r] by (simp add: constraints_hold_def)
  ultimately show "expect_attempt db i = Inr a"
    by (simp add: expect_attempt_def release_attempt_of_def)
qed

text \<open>C4: an attempt's history.  Whatever operation runs next, on this attempt or on another, the
  attempt can still be read, under the same package revision, remote, target and base; a recorded
  candidate and its parent never change; recorded failures are never forgotten; and a published,
  cancelled or superseded attempt stays so.\<close>

theorem attempt_history:
  assumes "attempts_reachable db" and "attempt_step db db'" and "expect_attempt db i = Inr a"
  shows "\<exists>a'. expect_attempt db' i = Inr a'
    \<and> ra_package_id a' = ra_package_id a \<and> ra_package_revision a' = ra_package_revision a
    \<and> target_key a' = target_key a \<and> ra_base_commit a' = ra_base_commit a
    \<and> (ra_candidate_sha a \<noteq> None \<longrightarrow> ra_candidate_sha a' = ra_candidate_sha a
         \<and> ra_candidate_parent_sha a' = ra_candidate_parent_sha a)
    \<and> ra_failed_attempts a \<le> ra_failed_attempts a'
    \<and> (is_terminal (ts_status (ra_state a)) \<longrightarrow> ts_status (ra_state a') = ts_status (ra_state a))"
proof -
  have ok: "db_ok db" using assms(1) by (rule attempts_reachable_ok)
  have step: "db_ok db'" "list_all2 row_evolves (db_attempts db) (take (length (db_attempts db)) (db_attempts db'))"
    using attempt_step_ok [OF ok assms(2)] by simp_all
  obtain r where r: "r \<in> set (db_attempts db)" "c_attempt_id r = i" "attempt_from_row r = Inr a"
    using expect_attempt_iff assms(3) ok by (auto simp: db_ok_def)
  obtain r' where "r' \<in> set (take (length (db_attempts db)) (db_attempts db'))" and ev: "row_evolves r r'"
    using r(1) step(2) by (metis in_set_conv_nth list_all2_conv_all_nth)
  then have r': "r' \<in> set (db_attempts db')" by (meson in_set_takeD)
  then have ok': "row_ok r'" using step(1) by (simp add: db_ok_def)
  then obtain a' where a': "attempt_from_row r' = Inr a'" using row_ok_loads by blast
  have "expect_attempt db' i = Inr a'"
    using expect_attempt_iff [of db' i a'] step(1) r' ev r(2) a' by (auto simp: db_ok_def row_evolves_def)
  moreover obtain t st where t: "target_ref_new (c_target_ref r) = Inr t" "row_state r st" "a = attempt_of r t st"
    using r(3) by (auto simp: attempt_from_row_Inr)
  moreover obtain t' st' where t': "target_ref_new (c_target_ref r') = Inr t'" "row_state r' st'" "a' = attempt_of r' t' st'"
    using a' by (auto simp: attempt_from_row_Inr)
  moreover have "ts_status st' = ts_status st" if "is_terminal (ts_status st)"
  proof -
    have "c_status r \<in> {''published'', ''cancelled'', ''superseded''}"
      using that t(2) column_terminal [of "ts_status st"] by (simp add: row_state_def)
    then have "c_status r' = c_status r" using ev unfolding row_evolves_def by blast
    then have "status_column (ts_status st') = status_column (ts_status st)"
      using t(2) t'(2) by (simp add: row_state_def)
    then show ?thesis by (rule status_column_inject [THEN iffD1])
  qed
  ultimately show ?thesis using ev by (auto simp: row_evolves_def target_key_def)
qed

section \<open>Opening an attempt\<close>

lemma like_branch_target:
  assumes "target_wf t"
  shows "like_branch (target_ref_str t)"
proof -
  obtain b where b: "target_ref_str t = heads @ b" "b \<noteq> []"
    using assms by (auto simp: target_wf_def target_ref_new_Inr_iff)
  have "to_ascii_lowercase heads = heads" by code_simp
  then show ?thesis using b by (simp add: like_branch_def)
qed

definition request_ok :: "attempt_db \<Rightarrow> new_release_attempt \<Rightarrow> bool" where
  "request_ok db req \<longleftrightarrow>
     validate_remote (na_remote req) = Inr ()
     \<and> validate_object_id ''attempt base commit'' (na_base_commit req) = Inr ()
     \<and> attempt_lease_validate (na_lease req) = Inr () \<and> 0 \<le> na_created_at req
     \<and> na_repository_id req \<in> set (db_repositories db)
     \<and> (na_package_id req, na_package_revision req) \<in> set (db_packages db)
     \<and> na_attempt_id req \<notin> c_attempt_id ` set (db_attempts db)
     \<and> target_wf (na_target req)"

definition opened_row :: "new_release_attempt \<Rightarrow> attempt_row" where
  "opened_row req =
     \<lparr>c_attempt_id = na_attempt_id req, c_repository_id = na_repository_id req,
      c_package_id = na_package_id req, c_package_revision = na_package_revision req,
      c_target_remote = na_remote req,
      c_target_remote_identity = identity_str (remote_identity_of (na_remote req)),
      c_target_ref = target_ref_str (na_target req), c_base_commit = na_base_commit req,
      c_candidate_sha = None, c_candidate_parent_sha = None, c_push_intent_at = None,
      c_observed_remote_sha = None, c_failure_classification = None, c_status = ''scheduled'',
      c_reason = None, c_blocked_from = None, c_failed_attempts = 0, c_retry_not_before = None,
      c_lease_owner = al_owner (na_lease req), c_lease_expires_at = al_expires (na_lease req),
      c_created_at = na_created_at req, c_updated_at = na_created_at req\<rparr>"

lemma opened_row_checks:
  assumes "request_ok db req"
  shows "row_checks (opened_row req)"
proof -
  have "\<not> sql_blank (na_remote req)" "\<not> sql_blank (al_owner (na_lease req))"
    "length (na_base_commit req) = 40" "0 \<le> al_expires (na_lease req)" "0 \<le> na_created_at req"
    using assms sql_blank_blank
    by (auto simp: request_ok_def validate_remote_def attempt_lease_validate_def validate_object_id_def res)
  then show ?thesis
    using assms like_branch_target [of "na_target req"] by (simp add: row_checks_def opened_row_def request_ok_def)
qed

lemma opened_row_state: "row_state (opened_row req) (plain Scheduled)"
  by (rule scheduled_row_state) (simp_all add: opened_row_def)

lemma opened_row_loads:
  "target_wf (na_target req) \<Longrightarrow>
     attempt_from_row (opened_row req) = Inr (attempt_of (opened_row req) (na_target req) (plain Scheduled))"
  using opened_row_state [of req] by (auto simp: attempt_from_row_Inr target_wf_def opened_row_def)

lemma insert_constraints:
  assumes "constraints_hold db" and "request_ok db req"
  shows "constraints_hold (db\<lparr>db_attempts := db_attempts db @ [opened_row req]\<rparr>)
    \<longleftrightarrow> (identity_str (remote_identity_of (na_remote req)), target_ref_str (na_target req))
        \<notin> set (live_target_keys (db_attempts db))"
  using assms opened_row_checks [OF assms(2)]
  by (auto simp: constraints_hold_def live_target_keys_def request_ok_def opened_row_def target_held_predicate_def)

lemma live_key_iff:
  assumes "db_ok db"
  shows "(identity_str k, target_ref_str t) \<in> set (live_target_keys (db_attempts db))
    \<longleftrightarrow> (\<exists>a. stored db a \<and> holds_target a \<and> target_key a = (k, t))"
proof -
  obtain as where as: "collect_res attempt_from_row (db_attempts db) = Inr as"
    using collect_loads [of "db_attempts db" attempt_from_row] assms row_ok_loads by (auto simp: db_ok_def)
  have keys: "map (\<lambda>a. (identity_str (remote_identity_of (ra_remote a)), target_ref_str (ra_target a)))
      (filter holds_target as) = live_target_keys (db_attempts db)"
    using as assms by (intro loaded_keys) (auto simp: res db_ok_def)
  have "stored db a \<longleftrightarrow> a \<in> set as" for a using collect_set [OF as] by (simp add: stored_def)
  then show ?thesis
    unfolding keys [symmetric] target_key_def
    by (auto simp: image_iff remote_identity.expand target_ref.expand)
qed

lemma open_eq:
  assumes "db_ok db" and "request_ok db req"
  defines "db' \<equiv> db\<lparr>db_attempts := db_attempts db @ [opened_row req]\<rparr>"
    and "a \<equiv> attempt_of (opened_row req) (na_target req) (plain Scheduled)"
  shows "open_release_attempt db req =
      (if constraints_hold db' then Inr (db', a)
       else Inl (Conflict (''release attempt rejected by storage rules: '' @ db_violation db)))
    \<and> (constraints_hold db' \<longrightarrow> expect_attempt db' (na_attempt_id req) = Inr a)"
proof -
  have insert: "sql_insert db (opened_row req) =
      (if constraints_hold db' then Inr db'
       else Inl (Conflict (''release attempt rejected by storage rules: '' @ db_violation db)))"
    by (simp add: sql_insert_def commit_rows_def db'_def Let_def)
  have found: "expect_attempt db' (na_attempt_id req) = Inr a" if "constraints_hold db'"
    using expect_attempt_iff [OF that, of "na_attempt_id req" a] opened_row_loads [of req] assms(2)
    by (simp add: db'_def a_def request_ok_def opened_row_def [of req])
  have "release_attempt_of db' (na_attempt_id req) = Inr (Some a)" if "constraints_hold db'"
    using found [OF that] by (auto simp: expect_attempt_def res)
  then show ?thesis
    using assms(2) insert found
    by (auto simp: open_release_attempt_def request_ok_def opened_row_def [symmetric] ensure_def)
qed

text \<open>A database and a request on which an attempt is opened.\<close>

definition sample_db :: attempt_db where
  "sample_db = \<lparr>db_repositories = [Id 1], db_packages = [(Id 1, revision_first)], db_violation = ''UNIQUE'',
     db_uuid_text = (\<lambda>_. ''0''), db_attempts = []\<rparr>"

definition sample_request :: new_release_attempt where
  "sample_request = \<lparr>na_attempt_id = Id 1, na_repository_id = Id 1, na_package_id = Id 1,
     na_package_revision = revision_first, na_remote = ''host:app'', na_target = TargetRef ''refs/heads/main'',
     na_base_commit = replicate 40 CHR ''a'', na_lease = \<lparr>al_owner = ''daemon'', al_expires = 9\<rparr>,
     na_created_at = 5\<rparr>"

definition sample_opened :: attempt_db where
  "sample_opened = sample_db\<lparr>db_attempts := [opened_row sample_request]\<rparr>"

lemma sample_target_wf: "target_wf (TargetRef ''refs/heads/main'')"
  by (simp add: target_wf_def target_ref_new_def heads_def strip_prefix_def)

lemma sample_request_ok: "request_ok sample_db sample_request"
  by (simp add: request_ok_def sample_db_def sample_request_def validate_remote_def validate_object_id_def
      attempt_lease_validate_def ensure_def blank_def trim_def trim_start_def trim_end_def ws_encodings_def
      is_ascii_hexdigit_def sample_target_wf list_all_iff)

lemma sample_db_reachable: "attempts_reachable sample_db"
  by (rule attempts_reachable.empty_table) (simp add: sample_db_def)

lemma sample_open:
  "open_release_attempt sample_db sample_request =
     Inr (sample_opened, attempt_of (opened_row sample_request) (TargetRef ''refs/heads/main'') (plain Scheduled))
   \<and> constraints_hold sample_opened
   \<and> expect_attempt sample_opened (Id 1) =
       Inr (attempt_of (opened_row sample_request) (TargetRef ''refs/heads/main'') (plain Scheduled))"
proof -
  have ok: "db_ok sample_db" using sample_db_reachable by (rule attempts_reachable_ok)
  have fields: "db_attempts sample_db = []" "na_target sample_request = TargetRef ''refs/heads/main''"
    "na_attempt_id sample_request = Id 1"
    by (simp_all add: sample_db_def sample_request_def)
  have "constraints_hold sample_opened"
    using insert_constraints [OF _ sample_request_ok] ok
    by (simp add: db_ok_def fields live_target_keys_def sample_opened_def)
  then show ?thesis
    using open_eq [OF ok sample_request_ok] by (simp add: fields sample_opened_def)
qed

lemma sample_opened_reachable: "attempts_reachable sample_opened"
proof (rule attempts_reachable.a_step [OF sample_db_reachable])
  show "attempt_step sample_db sample_opened"
    using sample_open sample_request_ok
    by (intro attempt_step.open_attempt [where req = sample_request]) (auto simp: request_ok_def)
qed

lemma sample_failure:
  "\<exists>db a. record_publication_failure sample_opened (Id 1) ''offline'' 6 = Inr (db, a)"
proof -
  let ?a = "attempt_of (opened_row sample_request) (TargetRef ''refs/heads/main'') (plain Scheduled)"
  let ?r = "(opened_row sample_request)\<lparr>c_failure_classification := Some ''offline'',
      c_failed_attempts := Suc 0, c_updated_at := 6\<rparr>"
  let ?db = "sample_opened\<lparr>db_attempts := [?r]\<rparr>"
  have label: "validate_classification ''offline'' = Inr ()"
    by (simp add: validate_classification_def ensure_def blank_def trim_def trim_start_def trim_end_def
        ws_encodings_def)
  have row: "c_attempt_id (opened_row sample_request) = Id 1" "c_failed_attempts (opened_row sample_request) = 0"
    "c_status (opened_row sample_request) = ''scheduled''"
    by (simp_all add: opened_row_def sample_request_def)
  have checks: "row_checks ?r"
    using opened_row_checks [OF sample_request_ok]
    by (simp add: row_checks_def opened_row_def sample_request_def sql_blank_def)
  have c: "constraints_hold ?db"
    using sample_open checks
    by (simp add: constraints_hold_def sample_opened_def live_target_keys_def target_held_predicate_def)
  have update: "sql_update sample_opened
      (\<lambda>r. c_attempt_id r = Id 1 \<and> c_failed_attempts r = 0 \<and> c_status r = ''scheduled'')
      (\<lambda>r. r\<lparr>c_failure_classification := Some ''offline'',
             c_failed_attempts := c_failed_attempts r + 1, c_updated_at := 6\<rparr>) = Inr ?db"
    using c row by (simp add: sql_update_def commit_rows_def sample_opened_def expect_one_row_def ensure_def)
  have "\<exists>b. expect_attempt ?db (Id 1) = Inr b"
  proof -
    have "row_state ?r = row_state (opened_row sample_request)" by (rule ext) (simp add: row_state_def)
    moreover have "c_target_ref ?r = c_target_ref (opened_row sample_request)" by simp
    ultimately have "\<exists>b. attempt_from_row ?r = Inr b"
      using opened_row_loads [of sample_request] sample_request_ok opened_row_state [of sample_request]
      by (auto simp: attempt_from_row_Inr request_ok_def)
    then show ?thesis using expect_attempt_iff [OF c] row by auto
  qed
  then obtain b where b: "expect_attempt ?db (Id 1) = Inr b" by blast
  have "record_publication_failure sample_opened (Id 1) ''offline'' 6 = Inr (?db, b)"
    using label sample_open row update b
    by (simp add: record_publication_failure_def require_publication_stage_def stage_column_def write_back_def
        u8_max_def)
  then show ?thesis by blast
qed

theorem attempts_contract_witness:
  "\<exists>as. collect_res attempt_from_row (db_attempts sample_opened) = Inr as
     \<and> distinct (map target_key (filter holds_target as))"
  using attempts_contract [OF sample_opened_reachable] by blast

theorem attempt_history_witness:
  "\<exists>db b. attempt_step sample_opened db \<and> expect_attempt db (Id 1) = Inr b
     \<and> ra_package_id b = (Id 1 :: package_id)"
proof -
  obtain db a where "record_publication_failure sample_opened (Id 1) ''offline'' 6 = Inr (db, a)"
    using sample_failure by blast
  then have step: "attempt_step sample_opened db" by (rule attempt_step.failure)
  have "c_package_id (opened_row sample_request) = Id 1" by (simp add: opened_row_def sample_request_def)
  then show ?thesis
    using attempt_history [OF sample_opened_reachable step sample_open [THEN conjunct2, THEN conjunct2]] step
    by auto
qed

text \<open>C8: opening is the lock.  For a valid request with a fresh identifier it succeeds exactly when
  no stored attempt owns the same branch of the same repository, compared by identity and not by
  address; it then returns the new attempt at \<open>scheduled\<close>, which owns the target.  Otherwise it is
  a conflict and the table is as it was.\<close>

theorem open_is_the_lock:
  assumes "attempts_reachable db" and "request_ok db req"
  shows "(case open_release_attempt db req of
      Inr (db', a) \<Rightarrow> expect_attempt db' (na_attempt_id req) = Inr a \<and> ts_status (ra_state a) = Scheduled
        \<and> holds_target a \<and> target_key a = (remote_identity_of (na_remote req), na_target req)
        \<and> (\<nexists>b. stored db b \<and> holds_target b \<and> target_key b = target_key a)
    | Inl e \<Rightarrow> e = Conflict (''release attempt rejected by storage rules: '' @ db_violation db)
        \<and> (\<exists>b. stored db b \<and> holds_target b
             \<and> target_key b = (remote_identity_of (na_remote req), na_target req)))"
proof -
  have ok: "db_ok db" using assms(1) by (rule attempts_reachable_ok)
  have "constraints_hold (db\<lparr>db_attempts := db_attempts db @ [opened_row req]\<rparr>) \<longleftrightarrow>
      (\<nexists>b. stored db b \<and> holds_target b \<and> target_key b = (remote_identity_of (na_remote req), na_target req))"
    using insert_constraints [OF _ assms(2)] live_key_iff [OF ok] ok by (simp add: db_ok_def)
  moreover have "holds_target (attempt_of (opened_row req) t (plain Scheduled))"
    "target_key (attempt_of (opened_row req) t (plain Scheduled)) = (remote_identity_of (na_remote req), t)" for t
    by (simp_all add: holds_target_def target_key_def opened_row_def)
  ultimately show ?thesis using open_eq [OF ok assms(2)] by auto
qed

theorem open_is_the_lock_witness:
  "\<exists>db a. open_release_attempt sample_db sample_request = Inr (db, a) \<and> holds_target a"
  using open_is_the_lock [OF sample_db_reachable sample_request_ok] sample_open by simp

end
