(* ===== verification/GitPublish.thy ===== *)
theory GitPublish
  imports Integration "HOL-Library.List_Lexorder" "HOL-Library.Char_ord"
begin

text \<open>
  Publishing one candidate commit with Git (\<open>crates/git/src/lib.rs\<close>: the invocation guard, the
  candidate workspace's verification, commit, publication and recovery, the classification of
  failures and the retry policy).

  Git itself is a parameter: a runner that takes the working directory, the exact arguments the
  code passes and the timeout, and maps the state of the world to the process's outcome and the new
  state.  \<open>git_run\<close> is the code's guard around it.  An action threads that state and may fail.
\<close>

section \<open>Actions\<close>

type_synonym ('w, 'e, 'a) action = "'w \<Rightarrow> ('e, 'a) result \<times> 'w"

definition act_return :: "('e, 'a) result \<Rightarrow> ('w, 'e, 'a) action" where
  "act_return r w = (r, w)"

definition act_bind :: "('w, 'e, 'a) action \<Rightarrow> ('a \<Rightarrow> ('w, 'e, 'b) action) \<Rightarrow> ('w, 'e, 'b) action" where
  "act_bind m f w = (case m w of (Inl e, w') \<Rightarrow> (Inl e, w') | (Inr x, w') \<Rightarrow> f x w')"

definition act_err :: "('e \<Rightarrow> 'f) \<Rightarrow> ('w, 'e, 'a) action \<Rightarrow> ('w, 'f, 'a) action" where
  "act_err g m w = (case m w of (r, w') \<Rightarrow> (map_err g r, w'))"

section \<open>Errors and the runner\<close>

datatype io_kind =
    ConnectionAborted | ConnectionRefused | ConnectionReset | Interrupted | NetworkDown
  | NetworkUnreachable | IoTimedOut | WouldBlock | OtherIo string

datatype git_error =
    InvalidInvocation
  | GitIo io_kind
  | GitTimedOut duration
  | GitCancelled
  | GitFailed "int option" string
  | ManagedPathExists string
  | SnapshotInvalid string
  | CandidateSnapshotMismatch string
  | NonUtf8Output

type_synonym 'w git = "string \<Rightarrow> string list \<Rightarrow> duration \<Rightarrow> ('w, git_error, string) action"

text \<open>\<open>GitInvocation::new\<close> and the call of the process: an absolute directory starts with a slash.\<close>

definition git_run :: "'w git \<Rightarrow> string \<Rightarrow> string list \<Rightarrow> duration \<Rightarrow> ('w, git_error, string) action" where
  "git_run git dir args timeout =
     (if \<not> prefix ''/'' dir \<or> args = [] \<or> timeout = 0 then act_return (Inl InvalidInvocation)
      else git dir args timeout)"

text \<open>\<open>String::from_utf8\<close>.\<close>

definition byte_in :: "nat \<Rightarrow> nat \<Rightarrow> char \<Rightarrow> bool" where
  "byte_in lo hi c \<longleftrightarrow> lo \<le> of_char c \<and> of_char c \<le> hi"

abbreviation continuation :: "char \<Rightarrow> bool" where
  "continuation \<equiv> byte_in 0x80 0xBF"

text \<open>One well-formed character.\<close>

fun utf8_char :: "string \<Rightarrow> bool" where
  "utf8_char [a] \<longleftrightarrow> byte_in 0 0x7F a"
| "utf8_char [a, b] \<longleftrightarrow> byte_in 0xC2 0xDF a \<and> continuation b"
| "utf8_char [a, b, c] \<longleftrightarrow>
     (byte_in 0xE0 0xE0 a \<and> byte_in 0xA0 0xBF b
      \<or> (byte_in 0xE1 0xEC a \<or> byte_in 0xEE 0xEF a) \<and> continuation b
      \<or> byte_in 0xED 0xED a \<and> byte_in 0x80 0x9F b) \<and> continuation c"
| "utf8_char [a, b, c, d] \<longleftrightarrow>
     (byte_in 0xF0 0xF0 a \<and> byte_in 0x90 0xBF b
      \<or> byte_in 0xF1 0xF3 a \<and> continuation b
      \<or> byte_in 0xF4 0xF4 a \<and> byte_in 0x80 0x8F b) \<and> continuation c \<and> continuation d"
| "utf8_char _ \<longleftrightarrow> False"

fun valid_utf8 :: "string \<Rightarrow> bool" where
  "valid_utf8 [] \<longleftrightarrow> True"
| "valid_utf8 (a # s) \<longleftrightarrow>
     utf8_char [a] \<and> valid_utf8 s
     \<or> 1 \<le> length s \<and> utf8_char (a # take 1 s) \<and> valid_utf8 (drop 1 s)
     \<or> 2 \<le> length s \<and> utf8_char (a # take 2 s) \<and> valid_utf8 (drop 2 s)
     \<or> 3 \<le> length s \<and> utf8_char (a # take 3 s) \<and> valid_utf8 (drop 3 s)"

declare valid_utf8.simps(2) [simp del]

definition git_text :: "'w git \<Rightarrow> string \<Rightarrow> string list \<Rightarrow> duration \<Rightarrow> ('w, git_error, string) action" where
  "git_text git dir args timeout =
     act_bind (git_run git dir args timeout) (\<lambda>out.
       act_return (if valid_utf8 out then Inr (trim out) else Inl NonUtf8Output))"

section \<open>Reading a remote branch\<close>

text \<open>\<open>str::lines().next()\<close> and \<open>str::split_whitespace\<close>.\<close>

definition first_line :: "string \<Rightarrow> string option" where
  "first_line out =
     (if out = [] then None
      else let line = takeWhile (\<lambda>c. c \<noteq> CHR 0x0A) out
           in Some (if length line < length out \<and> suffix [CHR 0x0D] line then butlast line else line))"

fun take_field :: "string \<Rightarrow> string" where
  "take_field [] = []"
| "take_field (c # s) = (if list_ex (\<lambda>w. prefix w (c # s)) ws_encodings then [] else c # take_field s)"

fun fields_within :: "nat \<Rightarrow> string \<Rightarrow> string list" where
  "fields_within 0 s = []"
| "fields_within (Suc n) s =
     (let s = trim_start s; field = take_field s
      in if s = [] then [] else field # fields_within n (drop (length field) s))"

definition split_whitespace :: "string \<Rightarrow> string list" where
  "split_whitespace s = fields_within (length s) s"

definition is_object_id :: "string \<Rightarrow> bool" where
  "is_object_id v \<longleftrightarrow> length v \<in> {40, 64} \<and> list_all is_ascii_hexdigit v"

definition parse_remote_ref :: "string \<Rightarrow> string \<Rightarrow> (git_error, string option) result" where
  "parse_remote_ref target_ref out =
     (if \<not> valid_utf8 out then Inl NonUtf8Output
      else
        case first_line out of
          None \<Rightarrow> Inr None
        | Some line \<Rightarrow>
            (let fields = split_whitespace line
             in if 2 < length fields \<or> \<not> (case fields of _ # r # _ \<Rightarrow> r = target_ref | _ \<Rightarrow> False) then
                  Inl (GitFailed None ''remote returned an invalid ref response'')
                else if \<not> is_object_id (hd fields) then
                  Inl (GitFailed None ''remote returned an invalid object ID'')
                else Inr (Some (hd fields))))"

definition remote_ref ::
  "'w git \<Rightarrow> string \<Rightarrow> string \<Rightarrow> string \<Rightarrow> duration \<Rightarrow> ('w, git_error, string option) action" where
  "remote_ref git dir remote target_ref timeout =
     act_bind (git_run git dir [''ls-remote'', ''--refs'', remote, target_ref] timeout) (\<lambda>out.
       act_return (parse_remote_ref target_ref out))"

section \<open>The candidate workspace\<close>

record candidate_workspace =
  cw_path :: string
  cw_target_commit :: string
  cw_snapshot_commit :: string
  cw_snapshot_ref :: string

record persisted_candidate =
  pc_commit :: string
  pc_parent_commit :: string
  pc_tree :: string

record candidate_publish_request =
  pr_remote :: string
  pr_target_ref :: string
  pr_create_if_absent :: bool

record candidate_commit_request =
  cc_message :: string
  cc_author_name :: string
  cc_author_email :: string

record published_candidate =
  pd_commit :: string
  pd_target_ref :: string

datatype candidate_publish_error =
    PublishGit git_error
  | InvalidRemote
  | PublishInvalidTargetRef
  | LocalCandidateMismatch
  | TargetMissing string
  | TargetAdvanced string string string
  | ConfirmationFailed string string "string option"

datatype publication_recovery =
    RecoveredPublished published_candidate
  | PendingRetry string string
  | Ambiguous string string string

datatype candidate_apply_outcome = Applied string | Conflicted "string list"

datatype candidate_verification_error =
    VerificationGit git_error | TargetChanged string string | UnmergedPaths "string list"

datatype candidate_commit_error =
    CommitVerification candidate_verification_error
  | InvalidMessage
  | InvalidIdentity string
  | CommitGit git_error
  | ParentMismatch
  | TreeMismatch

text \<open>\<open>split\<close> on NUL, without the empty pieces, then \<open>sort\<close> and \<open>dedup\<close>.\<close>

fun split_on :: "char \<Rightarrow> string \<Rightarrow> string list" where
  "split_on c [] = [[]]"
| "split_on c (d # s) =
     (if d = c then [] # split_on c s
      else case split_on c s of p # ps \<Rightarrow> (d # p) # ps | [] \<Rightarrow> [[d]])"

fun parse_paths :: "string list \<Rightarrow> (git_error, string list) result" where
  "parse_paths [] = Inr []"
| "parse_paths (p # ps) =
     (if \<not> valid_utf8 p then Inl NonUtf8Output
      else and_then (parse_paths ps) (\<lambda>rest. Inr (p # rest)))"

definition unmerged_paths :: "'w git \<Rightarrow> candidate_workspace \<Rightarrow> duration \<Rightarrow> ('w, git_error, string list) action" where
  "unmerged_paths git cw timeout =
     act_bind (git_run git (cw_path cw) [''diff'', ''--name-only'', ''--diff-filter=U'', ''-z''] timeout) (\<lambda>out.
       act_return (and_then (parse_paths (filter (\<lambda>p. p \<noteq> []) (split_on CHR 0x00 out))) (\<lambda>paths.
         Inr (remdups_adj (sort paths)))))"

definition staged_tree :: "'w git \<Rightarrow> candidate_workspace \<Rightarrow> duration \<Rightarrow> ('w, git_error, string) action" where
  "staged_tree git cw timeout = git_text git (cw_path cw) [''write-tree''] timeout"

definition apply_snapshot ::
  "'w git \<Rightarrow> candidate_workspace \<Rightarrow> duration \<Rightarrow> ('w, git_error, candidate_apply_outcome) action" where
  "apply_snapshot git cw timeout w =
     (case git_run git (cw_path cw) [''cherry-pick'', ''--no-commit'', cw_snapshot_ref cw] timeout w of
        (Inr _, w) \<Rightarrow> act_bind (staged_tree git cw timeout) (\<lambda>tree. act_return (Inr (Applied tree))) w
      | (Inl e, w) \<Rightarrow>
          act_bind (unmerged_paths git cw timeout) (\<lambda>paths.
            act_return (if paths = [] then Inl e else Inr (Conflicted paths))) w)"

text \<open>The evidence of a verification: the target commit and the staged tree.\<close>

definition cw_verify ::
  "'w git \<Rightarrow> candidate_workspace \<Rightarrow> duration \<Rightarrow> ('w, candidate_verification_error, string \<times> string) action" where
  "cw_verify git cw timeout =
     act_bind (act_err VerificationGit (git_text git (cw_path cw) [''rev-parse'', ''HEAD''] timeout)) (\<lambda>actual.
     if actual \<noteq> cw_target_commit cw then act_return (Inl (TargetChanged (cw_target_commit cw) actual))
     else
       act_bind (act_err VerificationGit (unmerged_paths git cw timeout)) (\<lambda>paths.
       if paths \<noteq> [] then act_return (Inl (UnmergedPaths paths))
       else
         act_bind (act_err VerificationGit
           (git_run git (cw_path cw) [''diff'', ''--cached'', ''--check''] timeout)) (\<lambda>_.
         act_bind (act_err VerificationGit (staged_tree git cw timeout)) (\<lambda>tree.
           act_return (Inr (cw_target_commit cw, tree))))))"

definition has_char_of :: "char list \<Rightarrow> string \<Rightarrow> bool" where
  "has_char_of cs s \<longleftrightarrow> list_ex (\<lambda>c. c \<in> set cs) s"

definition validate_identity :: "string \<Rightarrow> string \<Rightarrow> (candidate_commit_error, unit) result" where
  "validate_identity field v =
     ensure (\<not> blank v \<and> trim v = v \<and> \<not> has_char_of [CHR 0x00, CHR 0x0A, CHR 0x0D] v \<and> length v \<le> 320)
       (InvalidIdentity field)"

definition validate_commit_request :: "candidate_commit_request \<Rightarrow> (candidate_commit_error, unit) result" where
  "validate_commit_request req =
     and_then (ensure (\<not> blank (cc_message req) \<and> \<not> has_char_of [CHR 0x00] (cc_message req)) InvalidMessage) (\<lambda>_.
     and_then (validate_identity ''author name'' (cc_author_name req)) (\<lambda>_.
     and_then (validate_identity ''author email'' (cc_author_email req)) (\<lambda>_.
       ensure (has_char_of ''@'' (cc_author_email req)) (InvalidIdentity ''author email''))))"

definition cw_persist ::
  "'w git \<Rightarrow> candidate_workspace \<Rightarrow> candidate_commit_request \<Rightarrow> duration
    \<Rightarrow> ('w, candidate_commit_error, persisted_candidate) action" where
  "cw_persist git cw req timeout =
     act_bind (act_return (validate_commit_request req)) (\<lambda>_.
     act_bind (act_err CommitVerification (cw_verify git cw timeout)) (\<lambda>(target, staged).
     act_bind (act_err CommitGit (git_run git (cw_path cw)
       [''-c'', ''user.name='' @ cc_author_name req, ''-c'', ''user.email='' @ cc_author_email req,
        ''commit'', ''--no-verify'', ''--no-gpg-sign'', ''-m'', cc_message req] timeout)) (\<lambda>_.
     act_bind (act_err CommitGit (git_text git (cw_path cw) [''rev-parse'', ''HEAD''] timeout)) (\<lambda>commit.
     act_bind (act_err CommitGit (git_text git (cw_path cw) [''rev-parse'', ''HEAD^''] timeout)) (\<lambda>parent.
     act_bind (act_err CommitGit (git_text git (cw_path cw) [''rev-parse'', ''HEAD^{tree}''] timeout)) (\<lambda>tree.
       act_return
         (if parent \<noteq> target then Inl ParentMismatch
          else if tree \<noteq> staged then Inl TreeMismatch
          else Inr \<lparr>pc_commit = commit, pc_parent_commit = parent, pc_tree = tree\<rparr>)))))))"

section \<open>Publication\<close>

definition forbidden_in_branch :: "char list" where
  "forbidden_in_branch = ''~^:?*['' @ [CHR 0x5C]"

definition validate_publish_request ::
  "candidate_publish_request \<Rightarrow> (candidate_publish_error, unit) result" where
  "validate_publish_request req =
     (if blank (pr_remote req) \<or> has_char_of [CHR 0x00, CHR 0x0A, CHR 0x0D] (pr_remote req) then Inl InvalidRemote
      else
        case strip_prefix ''refs/heads/'' (pr_target_ref req) of
          None \<Rightarrow> Inl PublishInvalidTargetRef
        | Some branch \<Rightarrow>
            if branch = [] \<or> suffix ''/'' branch \<or> suffix ''.'' branch
               \<or> contains branch ''..'' \<or> contains branch ''//'' \<or> contains branch [CHR ''@'', CHR ''{'']
               \<or> list_ex (suffix ''.lock'') (split_on CHR ''/'' branch)
               \<or> list_ex (contains branch) ws_encodings \<or> has_char_of forbidden_in_branch branch
            then Inl PublishInvalidTargetRef
            else Inr ())"

definition absent_ref_oid :: string where
  "absent_ref_oid = replicate 40 CHR ''0''"

definition validate_persisted_candidate ::
  "'w git \<Rightarrow> candidate_workspace \<Rightarrow> persisted_candidate \<Rightarrow> duration \<Rightarrow> ('w, candidate_publish_error, unit) action" where
  "validate_persisted_candidate git cw c timeout =
     act_bind (act_err PublishGit (git_text git (cw_path cw) [''rev-parse'', ''HEAD''] timeout)) (\<lambda>commit.
     act_bind (act_err PublishGit (git_text git (cw_path cw) [''rev-parse'', ''HEAD^''] timeout)) (\<lambda>parent.
     act_bind (act_err PublishGit (git_text git (cw_path cw) [''rev-parse'', ''HEAD^{tree}''] timeout)) (\<lambda>tree.
       act_return
         (if commit \<noteq> pc_commit c \<or> parent \<noteq> pc_parent_commit c \<or> parent \<noteq> cw_target_commit cw
             \<or> tree \<noteq> pc_tree c
          then Inl LocalCandidateMismatch else Inr ()))))"

text \<open>What the remote must still hold for the push to land.\<close>

definition leased_commit ::
  "candidate_workspace \<Rightarrow> candidate_publish_request \<Rightarrow> string option \<Rightarrow> (candidate_publish_error, string) result" where
  "leased_commit cw req remote_head =
     (case remote_head of
        Some actual \<Rightarrow>
          if actual = cw_target_commit cw then Inr (cw_target_commit cw)
          else Inl (TargetAdvanced (pr_target_ref req) (cw_target_commit cw) actual)
      | None \<Rightarrow>
          if pr_create_if_absent req then Inr absent_ref_oid
          else Inl (TargetMissing (pr_target_ref req)))"

definition push_args :: "candidate_publish_request \<Rightarrow> string \<Rightarrow> string \<Rightarrow> string list" where
  "push_args req leased commit =
     [''push'', ''--porcelain'', ''--force-with-lease='' @ pr_target_ref req @ '':'' @ leased, pr_remote req,
      commit @ '':'' @ pr_target_ref req]"

definition publish ::
  "'w git \<Rightarrow> candidate_workspace \<Rightarrow> persisted_candidate \<Rightarrow> candidate_publish_request \<Rightarrow> duration
    \<Rightarrow> ('w, candidate_publish_error, published_candidate) action" where
  "publish git cw c req timeout =
     act_bind (act_return (validate_publish_request req)) (\<lambda>_.
     act_bind (validate_persisted_candidate git cw c timeout) (\<lambda>_.
     act_bind (act_err PublishGit (remote_ref git (cw_path cw) (pr_remote req) (pr_target_ref req) timeout)) (\<lambda>remote_head.
     act_bind (act_return (leased_commit cw req remote_head)) (\<lambda>leased.
     act_bind (act_err PublishGit (git_run git (cw_path cw) (push_args req leased (pc_commit c)) timeout)) (\<lambda>_.
     act_bind (act_err PublishGit (remote_ref git (cw_path cw) (pr_remote req) (pr_target_ref req) timeout)) (\<lambda>actual.
       act_return
         (if actual \<noteq> Some (pc_commit c) then Inl (ConfirmationFailed (pr_target_ref req) (pc_commit c) actual)
          else Inr \<lparr>pd_commit = pc_commit c, pd_target_ref = pr_target_ref req\<rparr>)))))))"

definition recovery_of ::
  "candidate_workspace \<Rightarrow> persisted_candidate \<Rightarrow> candidate_publish_request \<Rightarrow> string option
    \<Rightarrow> (candidate_publish_error, publication_recovery) result" where
  "recovery_of cw c req remote_head =
     (case remote_head of
        Some actual \<Rightarrow>
          if actual = pc_commit c then
            Inr (RecoveredPublished \<lparr>pd_commit = pc_commit c, pd_target_ref = pr_target_ref req\<rparr>)
          else if actual = cw_target_commit cw then
            Inr (PendingRetry (pr_target_ref req) (cw_target_commit cw))
          else Inr (Ambiguous (pr_target_ref req) (cw_target_commit cw) actual)
      | None \<Rightarrow>
          if pr_create_if_absent req then Inr (PendingRetry (pr_target_ref req) (cw_target_commit cw))
          else Inl (TargetMissing (pr_target_ref req)))"

definition recover_publication ::
  "'w git \<Rightarrow> candidate_workspace \<Rightarrow> persisted_candidate \<Rightarrow> candidate_publish_request \<Rightarrow> duration
    \<Rightarrow> ('w, candidate_publish_error, publication_recovery) action" where
  "recover_publication git cw c req timeout =
     act_bind (act_return (validate_publish_request req)) (\<lambda>_.
     act_bind (validate_persisted_candidate git cw c timeout) (\<lambda>_.
     act_bind (act_err PublishGit (remote_ref git (cw_path cw) (pr_remote req) (pr_target_ref req) timeout)) (\<lambda>remote_head.
       act_return (recovery_of cw c req remote_head))))"

section \<open>Classification and retry\<close>

datatype publication_block =
    BlockAuthentication | BlockSigning | BlockBranchRule | BlockConflict | BlockConfiguration
  | BlockCancelled | BlockGitFailure | BlockRetryExhausted

datatype error_disposition = Retryable | RecoverRemote | Rebuild | Manual publication_block

datatype publication_resolution =
    Retry duration | ResolveRecoverRemote | RebuildCandidate | ResolveManual publication_block

definition authentication_markers :: "string list" where
  "authentication_markers =
     [''authentication failed'', ''could not read username'', ''permission denied (publickey)'',
      ''terminal prompts disabled'', ''access denied'']"

definition signing_markers :: "string list" where
  "signing_markers = [''gpg failed'', ''signing failed'', ''sign_and_send_pubkey'']"

definition branch_rule_markers :: "string list" where
  "branch_rule_markers = [''protected branch'', ''required status checks'', ''hook declined'', ''gh006'']"

definition transport_markers :: "string list" where
  "transport_markers =
     [''could not resolve host'', ''connection timed out'', ''connection reset'', ''network is unreachable'',
      ''temporary failure'', ''remote end hung up'', ''http 5'']"

definition classify_git_failure :: "git_error \<Rightarrow> error_disposition" where
  "classify_git_failure e =
     (case e of
        GitTimedOut _ \<Rightarrow> Retryable
      | GitCancelled \<Rightarrow> Manual BlockCancelled
      | GitIo kind \<Rightarrow>
          if kind \<in> {ConnectionAborted, ConnectionRefused, ConnectionReset, Interrupted, NetworkDown,
              NetworkUnreachable, IoTimedOut, WouldBlock}
          then Retryable else Manual BlockGitFailure
      | GitFailed _ message \<Rightarrow>
          (let message = to_ascii_lowercase message
           in if mentions authentication_markers message then Manual BlockAuthentication
              else if mentions signing_markers message then Manual BlockSigning
              else if mentions branch_rule_markers message then Manual BlockBranchRule
              else if contains message ''conflict'' then Manual BlockConflict
              else if mentions transport_markers message then Retryable
              else Manual BlockGitFailure)
      | _ \<Rightarrow> Manual BlockGitFailure)"

definition classify_publication_error :: "candidate_publish_error \<Rightarrow> error_disposition" where
  "classify_publication_error e =
     (case e of
        TargetAdvanced _ _ _ \<Rightarrow> Rebuild
      | ConfirmationFailed _ _ _ \<Rightarrow> RecoverRemote
      | InvalidRemote \<Rightarrow> Manual BlockConfiguration
      | PublishInvalidTargetRef \<Rightarrow> Manual BlockConfiguration
      | LocalCandidateMismatch \<Rightarrow> Manual BlockConfiguration
      | TargetMissing _ \<Rightarrow> Manual BlockConfiguration
      | PublishGit e \<Rightarrow> classify_git_failure e)"

record publication_retry_policy =
  rp_max_attempts :: nat
  rp_initial_delay :: duration
  rp_max_delay :: duration

definition retry_default :: publication_retry_policy where
  "retry_default = \<lparr>rp_max_attempts = 3, rp_initial_delay = from_secs 5, rp_max_delay = from_secs (5 * 60)\<rparr>"

datatype retry_policy_error = RetryPolicyInvalid

definition retry_policy_new ::
  "nat \<Rightarrow> duration \<Rightarrow> duration \<Rightarrow> (retry_policy_error, publication_retry_policy) result" where
  "retry_policy_new max_attempts initial_delay max_delay =
     (if max_attempts = 0 \<or> initial_delay = 0 \<or> max_delay < initial_delay then Inl RetryPolicyInvalid
      else Inr \<lparr>rp_max_attempts = max_attempts, rp_initial_delay = initial_delay, rp_max_delay = max_delay\<rparr>)"

definition delay_for :: "publication_retry_policy \<Rightarrow> nat \<Rightarrow> duration" where
  "delay_for p failed_attempts =
     (let multiplier = unwrap_or (u32_one_checked_shl (failed_attempts - 1)) u32_max
      in min (unwrap_or (duration_checked_mul (rp_initial_delay p) multiplier) (rp_max_delay p)) (rp_max_delay p))"

definition decide :: "publication_retry_policy \<Rightarrow> nat \<Rightarrow> candidate_publish_error \<Rightarrow> publication_resolution" where
  "decide p failed_attempts e =
     (case classify_publication_error e of
        Retryable \<Rightarrow>
          if rp_max_attempts p \<le> failed_attempts then ResolveManual BlockRetryExhausted
          else Retry (delay_for p failed_attempts)
      | RecoverRemote \<Rightarrow> ResolveRecoverRemote
      | Rebuild \<Rightarrow> RebuildCandidate
      | Manual block \<Rightarrow> ResolveManual block)"

section \<open>Reading what Git lists\<close>

lemma act_bind_Inr:
  "act_bind m f w = (Inr y, w') \<longleftrightarrow> (\<exists>x v. m w = (Inr x, v) \<and> f x v = (Inr y, w'))"
  by (auto simp: act_bind_def split: prod.splits sum.splits)

lemma act_bind_cases:
  "act_bind m f w = (r, w') \<Longrightarrow>
     (\<exists>e. m w = (Inl e, w') \<and> r = Inl e) \<or> (\<exists>x v. m w = (Inr x, v) \<and> f x v = (r, w'))"
  by (auto simp: act_bind_def split: prod.splits sum.splits)

lemma act_return_eq [simp]: "act_return x w = (r, w') \<longleftrightarrow> r = x \<and> w' = w"
  by (auto simp: act_return_def)

lemma act_err_Inr [simp]: "act_err g m w = (Inr x, w') \<longleftrightarrow> m w = (Inr x, w')"
  by (auto simp: act_err_def res split: prod.splits)

lemma act_err_Inl: "act_err g m w = (Inl d, w') \<longleftrightarrow> (\<exists>e. m w = (Inl e, w') \<and> d = g e)"
  by (auto simp: act_err_def res split: prod.splits)

definition white :: "string \<Rightarrow> bool" where
  "white s \<longleftrightarrow> list_ex (\<lambda>w. prefix w s) ws_encodings"

definition starts_white :: "char \<Rightarrow> bool" where
  "starts_white c \<longleftrightarrow> c \<in> hd ` set ws_encodings"

lemma ws_encodings_nonempty: "w \<in> set ws_encodings \<Longrightarrow> w \<noteq> []"
  by (auto simp: ws_encodings_def)

lemma white_Cons: "white (c # s) \<Longrightarrow> starts_white c"
proof -
  assume "white (c # s)"
  then obtain w where w: "w \<in> set ws_encodings" "prefix w (c # s)" by (auto simp: white_def list_ex_iff)
  then have "hd w = c" using ws_encodings_nonempty [OF w(1)] by (metis hd_append2 list.sel(1) prefix_def)
  then show "starts_white c" using w(1) by (auto simp: starts_white_def)
qed

lemma hexdigit_not_white: "is_ascii_hexdigit c \<Longrightarrow> \<not> starts_white c"
  by (auto simp: starts_white_def ws_encodings_def is_ascii_hexdigit_def is_ascii_digit_def)

lemma take_field_Cons: "take_field (c # s) = (if white (c # s) then [] else c # take_field s)"
  by (simp add: white_def)

declare take_field.simps(2) [simp del]

lemma take_field_append:
  "\<forall>c \<in> set x. \<not> starts_white c \<Longrightarrow> take_field (x @ y) = x @ take_field y"
  by (induction x) (auto simp: take_field_Cons dest: white_Cons)

lemma take_field_clean: "\<not> list_ex (contains s) ws_encodings \<Longrightarrow> take_field s = s"
proof (induction s)
  case (Cons c s)
  then have "\<not> white (c # s)" "\<not> list_ex (contains s) ws_encodings"
    by (auto simp: white_def list_ex_iff)
  then show ?case using Cons.IH by (simp add: take_field_Cons)
qed simp

lemma trim_start_clean: "\<not> white s \<Longrightarrow> trim_start s = s"
proof -
  assume "\<not> white s"
  then have "List.find (\<lambda>w. prefix w s) ws_encodings = None"
    by (auto simp: white_def list_ex_iff find_None_iff)
  then show ?thesis by (cases s) (simp_all add: trim_start_def)
qed

lemma tab_white: "white (CHR 0x09 # s)"
  by (simp add: white_def ws_encodings_def)

lemma trim_start_tab:
  assumes "\<not> white s"
  shows "trim_start (CHR 0x09 # s) = s"
proof -
  have "List.find (\<lambda>w. prefix w (CHR 0x09 # s)) ws_encodings = Some [CHR 0x09]"
    by (simp add: ws_encodings_def)
  then show ?thesis
    using trim_start_clean [OF assms] by (simp add: trim_start_def)
qed

lemma not_white_contains: "\<not> list_ex (contains s) ws_encodings \<Longrightarrow> \<not> white s"
  by (cases s) (auto simp: white_def list_ex_iff ws_encodings_nonempty)

lemma split_object_and_ref:
  assumes "list_all is_ascii_hexdigit c" "c \<noteq> []" "t \<noteq> []" "\<not> list_ex (contains t) ws_encodings"
  shows "split_whitespace (c @ CHR 0x09 # t) = [c, t]"
proof -
  have c: "\<forall>x \<in> set c. \<not> starts_white x"
    using assms(1) hexdigit_not_white by (auto simp: list_all_iff)
  then have "\<not> white (c @ CHR 0x09 # t)" using assms(2) white_Cons by (cases c) auto
  then have first: "trim_start (c @ CHR 0x09 # t) = c @ CHR 0x09 # t" by (rule trim_start_clean)
  have field: "take_field (c @ CHR 0x09 # t) = c"
    using take_field_append [OF c] by (simp add: take_field_Cons tab_white)
  have second: "trim_start (CHR 0x09 # t) = t" "take_field t = t"
    using trim_start_tab [OF not_white_contains [OF assms(4)]] take_field_clean [OF assms(4)] by auto
  have empty: "trim_start [] = []" by (simp add: trim_start_def)
  have "fields_within (Suc n) (CHR 0x09 # t) = [t]" for n
    using assms(3) by (cases n) (simp_all add: second empty)
  then have "fields_within (Suc (Suc n)) (c @ CHR 0x09 # t) = [c, t]" for n
    using assms(2) by (subst fields_within.simps) (simp add: first field)
  moreover obtain n where "length (c @ CHR 0x09 # t) = Suc (Suc n)"
    using assms(2) by (cases c) auto
  ultimately show ?thesis unfolding split_whitespace_def by simp
qed

definition ascii :: "char \<Rightarrow> bool" where
  "ascii c \<longleftrightarrow> byte_in 0 0x7F c"

lemma utf8_char_ascii_first: "ascii c \<Longrightarrow> utf8_char (c # s) \<longleftrightarrow> s = []"
  by (cases "c # s" rule: utf8_char.cases) (auto simp: ascii_def byte_in_def utf8_char.simps)

declare utf8_char.simps [simp del]

lemma valid_utf8_ascii: "ascii c \<Longrightarrow> valid_utf8 (c # s) \<longleftrightarrow> valid_utf8 s"
  by (cases s) (auto simp: valid_utf8.simps(2) [of c] utf8_char_ascii_first)

lemma valid_utf8_ascii_append: "\<forall>c \<in> set x. ascii c \<Longrightarrow> valid_utf8 (x @ y) \<longleftrightarrow> valid_utf8 y"
  by (induction x) (auto simp: valid_utf8_ascii)

text \<open>One line of \<open>git ls-remote\<close>: the object, a tab and the reference; nothing for an absent one.\<close>

fun listing :: "string \<Rightarrow> string option \<Rightarrow> string" where
  "listing target None = []"
| "listing target (Some c) = c @ CHR 0x09 # target @ [CHR 0x0A]"

definition branch_text_ok :: "string \<Rightarrow> bool" where
  "branch_text_ok t \<longleftrightarrow> t \<noteq> [] \<and> valid_utf8 t \<and> \<not> list_ex (contains t) ws_encodings"

lemma hexdigit_ascii: "is_ascii_hexdigit c \<Longrightarrow> ascii c \<and> c \<noteq> CHR 0x0A"
  by (auto simp: ascii_def byte_in_def is_ascii_hexdigit_def is_ascii_digit_def)

lemma no_white_char: "\<not> list_ex (contains t) ws_encodings \<Longrightarrow> [c] \<in> set ws_encodings \<Longrightarrow> c \<notin> set t"
proof
  assume n: "\<not> list_ex (contains t) ws_encodings" "[c] \<in> set ws_encodings" and "c \<in> set t"
  then obtain a b where "t = a @ c # b" by (meson split_list)
  then have "contains t [c]" by (simp add: contains_iff_sublist sublist_def) (metis append_Cons append_Nil)
  then show False using n by (auto simp: list_ex_iff)
qed

lemma valid_utf8_append: "valid_utf8 s \<Longrightarrow> valid_utf8 t \<Longrightarrow> valid_utf8 (s @ t)"
proof (induction s rule: valid_utf8.induct)
  case 1
  then show ?case by simp
next
  case (2 a s)
  have step: "valid_utf8 (a # s @ t)"
    if "n \<le> length s" "utf8_char (a # take n s)" "valid_utf8 (drop n s @ t)" "n \<in> {1, 2, 3}" for n
    using that by (auto simp: valid_utf8.simps(2) [of a "s @ t"])
  have "valid_utf8 (a # s @ t)" if "utf8_char [a]" "valid_utf8 (s @ t)"
    using that by (simp add: valid_utf8.simps(2) [of a "s @ t"])
  moreover from 2(5) consider "utf8_char [a]" "valid_utf8 s"
    | "1 \<le> length s" "utf8_char (a # take 1 s)" "valid_utf8 (drop 1 s)"
    | "2 \<le> length s" "utf8_char (a # take 2 s)" "valid_utf8 (drop 2 s)"
    | "3 \<le> length s" "utf8_char (a # take 3 s)" "valid_utf8 (drop 3 s)"
    unfolding valid_utf8.simps(2) by blast
  ultimately show ?case
    using 2(1-4,6) step [of 1] step [of 2] step [of 3] by cases auto
qed

lemma parse_listing:
  assumes t: "branch_text_ok t" and h: "\<forall>c. h = Some c \<longrightarrow> is_object_id c"
  shows "parse_remote_ref t (listing t h) = Inr h"
proof (cases h)
  case None
  then show ?thesis by (simp add: parse_remote_ref_def first_line_def)
next
  case (Some c)
  have c: "list_all is_ascii_hexdigit c" "c \<noteq> []" "is_object_id c"
    using h Some by (auto simp: is_object_id_def)
  have nl: "CHR 0x0A \<notin> set t" and cr: "CHR 0x0D \<notin> set t"
    using t no_white_char [of t] by (simp_all add: branch_text_ok_def ws_encodings_def)
  have "\<forall>x \<in> set (c @ [CHR 0x09]). ascii x"
    using c(1) hexdigit_ascii by (auto simp: list_all_iff ascii_def byte_in_def)
  note prefix_ascii = valid_utf8_ascii_append [OF this, of "t @ [CHR 0x0A]"]
  have "valid_utf8 [CHR 0x0A]" by (simp add: valid_utf8_ascii ascii_def byte_in_def)
  moreover have "valid_utf8 t" using t unfolding branch_text_ok_def by blast
  ultimately have "valid_utf8 (t @ [CHR 0x0A])" by (intro valid_utf8_append)
  then have "valid_utf8 ((c @ [CHR 0x09]) @ t @ [CHR 0x0A])" using prefix_ascii by (rule iffD2 [rotated])
  then have utf8: "valid_utf8 (listing t h)" by (simp add: Some)
  have "x \<noteq> CHR 0x0A" if x: "x \<in> set (c @ CHR 0x09 # t)" for x
  proof (cases "x \<in> set c")
    case True
    then show ?thesis using c(1) hexdigit_ascii [of x] by (simp add: list_all_iff)
  next
    case False
    then show ?thesis using x nl by auto
  qed
  then have "takeWhile (\<lambda>x. x \<noteq> CHR 0x0A) ((c @ CHR 0x09 # t) @ [CHR 0x0A])
      = (c @ CHR 0x09 # t) @ takeWhile (\<lambda>x. x \<noteq> CHR 0x0A) [CHR 0x0A]"
    by (rule takeWhile_append2)
  then have line: "takeWhile (\<lambda>x. x \<noteq> CHR 0x0A) (listing t h) = c @ CHR 0x09 # t"
    by (simp add: Some)
  have no_cr: "\<not> suffix [CHR 0x0D] (c @ CHR 0x09 # t)"
  proof
    assume "suffix [CHR 0x0D] (c @ CHR 0x09 # t)"
    then have "last (c @ CHR 0x09 # t) = CHR 0x0D" by (metis last_snoc suffix_def)
    moreover have "last (c @ CHR 0x09 # t) = last t" "last t \<in> set t" using t by (simp_all add: branch_text_ok_def)
    ultimately show False using cr by simp
  qed
  then have "first_line (listing t h) = Some (c @ CHR 0x09 # t)"
    using line no_cr by (simp add: first_line_def Some)
  moreover have "split_whitespace (c @ CHR 0x09 # t) = [c, t]"
    using t unfolding branch_text_ok_def by (intro split_object_and_ref [OF c(1,2)]) auto
  ultimately show ?thesis
    using utf8 c(3) by (simp add: parse_remote_ref_def Some)
qed

section \<open>What the code relies on of Git\<close>

definition lease_value :: "string \<Rightarrow> string option" where
  "lease_value leased = (if leased = absent_ref_oid then None else Some leased)"

text \<open>\<open>head\<close> is what the remote branch points at, \<open>moves\<close> the moves of it that this workspace's pushes
  made, each with the value it replaced.  Between and during the commands other publishers may move
  the branch as they like.  Git's documented behaviour: only a push makes such a move; \<open>ls-remote\<close>
  lists what the branch points at; a push under \<open>--force-with-lease\<close> makes at most one move, from the
  leased value to the pushed commit, whatever it reports.\<close>

definition git_contract ::
  "'w git \<Rightarrow> candidate_publish_request \<Rightarrow> ('w \<Rightarrow> string option) \<Rightarrow> ('w \<Rightarrow> (string option \<times> string) list) \<Rightarrow> bool" where
  "git_contract git req head moves \<longleftrightarrow>
     (\<forall>dir args t w r w'. git dir args t w = (r, w') \<longrightarrow>
        (hd args \<noteq> ''push'' \<longrightarrow> moves w' = moves w)
        \<and> (\<forall>out. args = [''ls-remote'', ''--refs'', pr_remote req, pr_target_ref req] \<and> r = Inr out \<longrightarrow>
             out = listing (pr_target_ref req) (head w') \<and> (\<forall>c. head w' = Some c \<longrightarrow> is_object_id c))
        \<and> (\<forall>leased commit. args = push_args req leased commit \<longrightarrow>
             moves w' \<in> {moves w, moves w @ [(lease_value leased, commit)]}))"

lemma git_run_quiet:
  assumes "git_contract git req head moves" and "git_run git dir args t w = (r, w')" and "hd args \<noteq> ''push''"
  shows "moves w' = moves w"
  using assms unfolding git_run_def git_contract_def by (auto split: if_splits)

lemma git_text_quiet:
  assumes "git_contract git req head moves" and "git_text git dir args t w = (r, w')" and "hd args \<noteq> ''push''"
  shows "moves w' = moves w"
  using assms(2) git_run_quiet [OF assms(1) _ assms(3)] unfolding git_text_def
  by (auto dest!: act_bind_cases)

lemma contains_white_prefix:
  "\<forall>c \<in> set x. \<not> starts_white c \<Longrightarrow>
     list_ex (contains (x @ y)) ws_encodings \<longleftrightarrow> list_ex (contains y) ws_encodings"
proof (induction x)
  case (Cons c x)
  have "\<not> white (c # x @ y)" using Cons.prems white_Cons by auto
  then have "list_ex (contains ((c # x) @ y)) ws_encodings \<longleftrightarrow> list_ex (contains (x @ y)) ws_encodings"
    by (auto simp: white_def list_ex_iff)
  then show ?case using Cons by (simp del: contains.simps)
qed simp

lemma validate_publish_request_text:
  assumes "validate_publish_request req = Inr ()" and "valid_utf8 (pr_target_ref req)"
  shows "branch_text_ok (pr_target_ref req)"
proof -
  obtain b where b: "pr_target_ref req = ''refs/heads/'' @ b" "\<not> list_ex (contains b) ws_encodings"
    using assms(1) by (auto simp: validate_publish_request_def strip_prefix_Some_iff split: if_splits option.splits)
  have "\<forall>c \<in> set ''refs/heads/''. \<not> starts_white c"
    by (simp add: starts_white_def ws_encodings_def)
  then have "\<not> list_ex (contains (pr_target_ref req)) ws_encodings"
    unfolding b(1) using contains_white_prefix b(2) by blast
  then show ?thesis using assms(2) b(1) by (simp add: branch_text_ok_def)
qed

lemma remote_ref_quiet:
  assumes "git_contract git req head moves" and "remote_ref git dir (pr_remote req) (pr_target_ref req) t w = (r, w')"
  shows "moves w' = moves w"
  using assms(2) git_run_quiet [OF assms(1)] unfolding remote_ref_def by (fastforce dest!: act_bind_cases)

lemma remote_ref_head:
  assumes "git_contract git req head moves" and "branch_text_ok (pr_target_ref req)"
    and "remote_ref git dir (pr_remote req) (pr_target_ref req) t w = (Inr h, w')"
  shows "h = head w'"
proof -
  obtain out where out: "git_run git dir [''ls-remote'', ''--refs'', pr_remote req, pr_target_ref req] t w = (Inr out, w')"
    and h: "parse_remote_ref (pr_target_ref req) out = Inr h"
    using assms(3) unfolding remote_ref_def act_bind_Inr by auto
  have "out = listing (pr_target_ref req) (head w') \<and> (\<forall>c. head w' = Some c \<longrightarrow> is_object_id c)"
    using assms(1) out unfolding git_contract_def git_run_def by (auto split: if_splits)
  then show ?thesis using h parse_listing [OF assms(2), of "head w'"] by simp
qed

lemma validate_persisted_quiet:
  assumes "git_contract git req head moves" and "validate_persisted_candidate git cw c t w = (r, w')"
  shows "moves w' = moves w"
proof -
  have quiet: "act_err PublishGit (git_text git (cw_path cw) [''rev-parse'', x] t) v = (q, v') \<Longrightarrow> moves v' = moves v"
    for x v q v'
    using git_text_quiet [OF assms(1)] unfolding act_err_def by (fastforce split: prod.splits)
  show ?thesis
    using assms(2) unfolding validate_persisted_candidate_def
    by (auto dest!: act_bind_cases quiet)
qed

lemma push_quiet:
  assumes "git_contract git req head moves" and "git_run git dir (push_args req leased commit) t w = (r, w')"
  shows "moves w' \<in> {moves w, moves w @ [(lease_value leased, commit)]}"
  using assms unfolding git_run_def git_contract_def by (auto split: if_splits)

text \<open>How far a publication gets: it fails before the push, or pushes under a lease.\<close>

lemma publish_cases:
  assumes contract: "git_contract git req head moves" and utf8: "valid_utf8 (pr_target_ref req)"
    and p: "publish git cw c req t w = (r, w')"
  obtains (before) e where "r = Inl e" "moves w' = moves w"
    | (pushed) leased v q v' where "leased_commit cw req (head v) = Inr leased" "moves v = moves w"
        "git_run git (cw_path cw) (push_args req leased (pc_commit c)) t v = (q, v')"
        "moves w' = moves v'"
        "r = Inr \<lparr>pd_commit = pc_commit c, pd_target_ref = pr_target_ref req\<rparr> \<and> head w' = Some (pc_commit c)
         \<or> (\<exists>g. r = Inl (PublishGit g)) \<or> (\<exists>a. r = Inl (ConfirmationFailed (pr_target_ref req) (pc_commit c) a))"
proof (cases "validate_publish_request req")
  case (Inl e)
  then show ?thesis using p before by (auto simp: publish_def act_bind_def act_return_def)
next
  case (Inr u)
  then have clean: "branch_text_ok (pr_target_ref req)"
    using validate_publish_request_text utf8 by (cases u) blast
  let ?head = "act_err PublishGit (remote_ref git (cw_path cw) (pr_remote req) (pr_target_ref req) t)"
  have quiet: "moves v' = moves v" if "?head v = (q, v')" for v q v'
    using that remote_ref_quiet [OF contract] unfolding act_err_def by (fastforce split: prod.splits)
  obtain q1 w1 where one: "validate_persisted_candidate git cw c t w = (q1, w1)" by fastforce
  have m1: "moves w1 = moves w" using validate_persisted_quiet [OF contract one] .
  obtain q2 w2 where two: "?head w1 = (q2, w2)" by fastforce
  have m2: "moves w2 = moves w" using quiet [OF two] m1 by simp
  show ?thesis
  proof (cases q1)
    case (Inl e)
    then show ?thesis using p \<open>validate_publish_request req = Inr u\<close> one m1 before
      by (auto simp: publish_def act_bind_def act_return_def)
  next
    case q1: (Inr u1)
    show ?thesis
    proof (cases q2)
      case (Inl e)
      then show ?thesis using p \<open>validate_publish_request req = Inr u\<close> one q1 two m2 before
        by (auto simp: publish_def act_bind_def act_return_def)
    next
      case q2: (Inr h)
      have h: "h = head w2" using remote_ref_head [OF contract clean, of "cw_path cw" t w1 h w2] two q2 by simp
      show ?thesis
      proof (cases "leased_commit cw req h")
        case (Inl e)
        then show ?thesis using p \<open>validate_publish_request req = Inr u\<close> one q1 two q2 m2 before
          by (auto simp: publish_def act_bind_def act_return_def)
      next
        case leased: (Inr leased)
        obtain q3 w3 where three: "git_run git (cw_path cw) (push_args req leased (pc_commit c)) t w2 = (q3, w3)"
          by fastforce
        have rest: "(case q3 of Inl g \<Rightarrow> (Inl (PublishGit g), w3)
            | Inr _ \<Rightarrow> act_bind ?head (\<lambda>actual. act_return
                (if actual \<noteq> Some (pc_commit c)
                 then Inl (ConfirmationFailed (pr_target_ref req) (pc_commit c) actual)
                 else Inr \<lparr>pd_commit = pc_commit c, pd_target_ref = pr_target_ref req\<rparr>)) w3) = (r, w')"
          using p \<open>validate_publish_request req = Inr u\<close> one q1 two q2 leased three
          by (cases q3; simp add: publish_def act_bind_def act_return_def act_err_def)
        show ?thesis
        proof (cases q3)
          case (Inl g)
          then show ?thesis using rest leased h m2 three pushed by auto
        next
          case (Inr out)
          obtain q4 w4 where four: "?head w3 = (q4, w4)" by fastforce
          have w4: "w' = w4" using rest Inr four by (auto simp: act_bind_def act_return_def split: sum.splits)
          have m4: "moves w' = moves w3" using quiet [OF four] w4 by simp
          have "r = Inr \<lparr>pd_commit = pc_commit c, pd_target_ref = pr_target_ref req\<rparr> \<and> head w' = Some (pc_commit c)
             \<or> (\<exists>g. r = Inl (PublishGit g)) \<or> (\<exists>a. r = Inl (ConfirmationFailed (pr_target_ref req) (pc_commit c) a))"
          proof (cases q4)
            case (Inl e)
            then show ?thesis using rest Inr four by (auto simp: act_bind_def act_err_Inl)
          next
            case (Inr a)
            have "a = head w4" using remote_ref_head [OF contract clean, of "cw_path cw" t w3 a w4] four Inr by simp
            then show ?thesis using rest \<open>q3 = Inr out\<close> four Inr w4
              by (auto simp: act_bind_def act_return_def split: if_splits)
          qed
          then show ?thesis using pushed [OF leased [unfolded h] m2 three m4] by blast
        qed
      qed
    qed
  qed
qed

section \<open>Properties of publication\<close>

text \<open>C1: a publication never overwrites anyone else's work, whoever else writes to the branch while
  it runs.  It makes at most one move of the remote branch, to its own candidate, and only from the
  target commit the candidate was built on, or from an absent branch it was allowed to create.  When
  it reports success the branch was seen to hold the candidate.  When it reports that the target
  advanced or that the request or the candidate is wrong, it made no move at all.\<close>

theorem publish_never_overwrites:
  assumes "git_contract git req head moves" and "valid_utf8 (pr_target_ref req)"
    and "cw_target_commit cw \<noteq> absent_ref_oid" and "publish git cw c req t w = (r, w')"
  shows "(moves w' = moves w \<or> (\<exists>old. moves w' = moves w @ [(old, pc_commit c)]
        \<and> (old = Some (cw_target_commit cw) \<or> old = None \<and> pr_create_if_absent req)))
    \<and> (\<forall>p. r = Inr p \<longrightarrow> pd_commit p = pc_commit c \<and> pd_target_ref p = pr_target_ref req
         \<and> head w' = Some (pc_commit c))
    \<and> (\<forall>e. r = Inl e \<and> classify_publication_error e \<in> {Rebuild, Manual BlockConfiguration}
         \<longrightarrow> moves w' = moves w)"
  using assms(1,2,4)
proof (cases rule: publish_cases)
  case (before e)
  then show ?thesis by simp
next
  case (pushed leased v q v')
  have lease: "lease_value leased = Some (cw_target_commit cw) \<or> lease_value leased = None \<and> pr_create_if_absent req"
    using pushed(1) assms(3)
    by (auto simp: leased_commit_def lease_value_def split: option.splits if_splits)
  have move: "moves w' \<in> {moves w, moves w @ [(lease_value leased, pc_commit c)]}"
    using push_quiet [OF assms(1) pushed(3)] pushed(2,4) by simp
  have "classify_git_failure g \<notin> {Rebuild, Manual BlockConfiguration}" for g
    by (auto simp: classify_git_failure_def Let_def split: git_error.splits)
  then have "classify_publication_error e \<notin> {Rebuild, Manual BlockConfiguration}" if "r = Inl e" for e
    using pushed(5) that by (auto simp: classify_publication_error_def)
  then show ?thesis using lease move pushed(5) by auto
qed

text \<open>A Git that holds one branch, with this workspace's candidate checked out.\<close>

definition sample_workspace :: candidate_workspace where
  "sample_workspace = \<lparr>cw_path = ''/w'', cw_target_commit = replicate 40 CHR ''a'',
     cw_snapshot_commit = [], cw_snapshot_ref = []\<rparr>"

definition sample_candidate :: persisted_candidate where
  "sample_candidate = \<lparr>pc_commit = replicate 40 CHR ''b'', pc_parent_commit = replicate 40 CHR ''a'',
     pc_tree = replicate 40 CHR ''c''\<rparr>"

definition sample_publish_request :: candidate_publish_request where
  "sample_publish_request = \<lparr>pr_remote = ''origin'', pr_target_ref = ''refs/heads/main'',
     pr_create_if_absent = False\<rparr>"

definition sample_git :: "(string option \<times> (string option \<times> string) list) git" where
  "sample_git dir args t w =
     (if args = [''ls-remote'', ''--refs'', ''origin'', ''refs/heads/main'']
         \<and> (case fst w of None \<Rightarrow> True | Some c \<Rightarrow> is_object_id c) then
        (Inr (listing ''refs/heads/main'' (fst w)), w)
      else if args = [''rev-parse'', ''HEAD''] then (Inr (replicate 40 CHR ''b''), w)
      else if args = [''rev-parse'', ''HEAD^''] then (Inr (replicate 40 CHR ''a''), w)
      else if args = [''rev-parse'', ''HEAD^{tree}''] then (Inr (replicate 40 CHR ''c''), w)
      else if args = push_args sample_publish_request (replicate 40 CHR ''a'') (replicate 40 CHR ''b'')
              \<and> fst w = Some (replicate 40 CHR ''a'') then
        (Inr [], (Some (replicate 40 CHR ''b''),
                  snd w @ [(Some (replicate 40 CHR ''a''), replicate 40 CHR ''b'')]))
      else (Inl (GitFailed None ''unsupported''), w))"


lemma push_args_inject: "push_args req a b = push_args req c d \<longleftrightarrow> a = c \<and> b = d"
  by (auto simp: push_args_def)

lemma push_args_hd: "hd (push_args req a b) = ''push''"
  by (simp add: push_args_def)

lemma sample_request_fields:
  "pr_remote sample_publish_request = ''origin''" "pr_target_ref sample_publish_request = ''refs/heads/main''"
  "pr_create_if_absent sample_publish_request = False"
  by (simp_all add: sample_publish_request_def)

lemma sample_git_contract: "git_contract sample_git sample_publish_request fst snd"
  unfolding git_contract_def
proof (intro allI impI conjI)
  fix dir args t w r and w' :: "string option \<times> (string option \<times> string) list"
  assume g: "sample_git dir args t w = (r, w')"
  have ls: "push_args sample_publish_request a b \<noteq> ''ls-remote'' # xs"
    "push_args sample_publish_request a b \<noteq> ''rev-parse'' # xs" for a b xs
    by (simp_all add: push_args_def)
  show "hd args \<noteq> ''push'' \<Longrightarrow> snd w' = snd w"
    using g push_args_hd [of sample_publish_request] by (auto simp: sample_git_def split: if_splits)
  fix out
  assume "args = [''ls-remote'', ''--refs'', pr_remote sample_publish_request, pr_target_ref sample_publish_request]
    \<and> r = Inr out"
  then show "out = listing (pr_target_ref sample_publish_request) (fst w')"
    "fst w' = Some c \<Longrightarrow> is_object_id c" for c
    using g ls not_sym [OF ls(1)] by (auto simp: sample_git_def sample_request_fields split: if_splits)
next
  fix dir args t w r leased commit and w' :: "string option \<times> (string option \<times> string) list"
  assume g: "sample_git dir args t w = (r, w')" and a: "args = push_args sample_publish_request leased commit"
  have "args \<noteq> ''ls-remote'' # xs" "args \<noteq> ''rev-parse'' # xs" for xs
    by (simp_all add: push_args_def a)
  moreover have "lease_value (replicate 40 CHR ''a'') = Some (replicate 40 CHR ''a'')"
    by (simp add: lease_value_def absent_ref_oid_def)
  ultimately show "snd w' \<in> {snd w, snd w @ [(lease_value leased, commit)]}"
    using g unfolding sample_git_def a push_args_inject by (auto split: if_splits)
qed

lemma sample_object: "is_object_id (replicate 40 CHR ''a'')" "is_object_id (replicate 40 CHR ''b'')"
  by code_simp+

lemma sample_texts:
  "trim (replicate 40 CHR ''a'') = replicate 40 CHR ''a''" "valid_utf8 (replicate 40 CHR ''a'')"
  "trim (replicate 40 CHR ''b'') = replicate 40 CHR ''b''" "valid_utf8 (replicate 40 CHR ''b'')"
  "trim (replicate 40 CHR ''c'') = replicate 40 CHR ''c''" "valid_utf8 (replicate 40 CHR ''c'')"
  "valid_utf8 ''refs/heads/main''"
  by code_simp+

lemma sample_request_valid: "validate_publish_request sample_publish_request = Inr ()"
  by code_simp


lemma sample_validated:
  "validate_persisted_candidate sample_git sample_workspace sample_candidate 1 w = (Inr (), w)"
  using sample_texts
  by (simp add: validate_persisted_candidate_def act_bind_def act_err_def act_return_def git_text_def git_run_def
      sample_git_def sample_workspace_def sample_candidate_def)

lemma sample_branch_text: "branch_text_ok ''refs/heads/main''"
  using validate_publish_request_text [OF sample_request_valid] sample_texts by (simp add: sample_request_fields)

lemma sample_remote_ref:
  assumes "is_object_id h"
  shows "remote_ref sample_git ''/w'' ''origin'' ''refs/heads/main'' 1 (Some h, m) = (Inr (Some h), (Some h, m))"
proof -
  have "parse_remote_ref ''refs/heads/main'' (listing ''refs/heads/main'' (Some h)) = Inr (Some h)"
    using assms by (intro parse_listing [OF sample_branch_text]) simp
  then show ?thesis
    using assms by (simp add: remote_ref_def act_bind_def act_return_def git_run_def sample_git_def)
qed

lemma sample_published:
  "publish sample_git sample_workspace sample_candidate sample_publish_request 1 (Some (replicate 40 CHR ''a''), []) =
     (Inr \<lparr>pd_commit = replicate 40 CHR ''b'', pd_target_ref = ''refs/heads/main''\<rparr>,
      (Some (replicate 40 CHR ''b''), [(Some (replicate 40 CHR ''a''), replicate 40 CHR ''b'')]))"
proof -
  let ?a = "replicate 40 CHR ''a''" and ?b = "replicate 40 CHR ''b''"
  have fields: "cw_path sample_workspace = ''/w''" "cw_target_commit sample_workspace = ?a" "pc_commit sample_candidate = ?b"
    by (simp_all add: sample_workspace_def sample_candidate_def)
  have "push_args sample_publish_request ?a ?b \<noteq> ''ls-remote'' # xs" "push_args sample_publish_request ?a ?b \<noteq> ''rev-parse'' # xs"
      "push_args sample_publish_request ?a ?b \<noteq> []" for xs
    by (simp_all add: push_args_def)
  then have "git_run sample_git ''/w'' (push_args sample_publish_request ?a ?b) 1 (Some ?a, [])
      = (Inr [], (Some ?b, [(Some ?a, ?b)]))"
    by (simp add: git_run_def sample_git_def)
  then show ?thesis
    using sample_validated [of "(Some ?a, [])"] sample_request_valid
      sample_remote_ref [OF sample_object(1), of "[]"] sample_remote_ref [OF sample_object(2), of "[(Some ?a, ?b)]"]
    by (simp add: publish_def act_bind_def act_err_def act_return_def leased_commit_def fields sample_request_fields)
qed

theorem publish_never_overwrites_witness:
  "\<exists>r w. publish sample_git sample_workspace sample_candidate sample_publish_request 1
      (Some (replicate 40 CHR ''a''), []) = (Inr r, w) \<and> fst w = Some (replicate 40 CHR ''b'')
      \<and> length (snd w) \<le> 1"
proof -
  have t: "valid_utf8 (pr_target_ref sample_publish_request)"
    using sample_texts by (simp add: sample_request_fields)
  have a: "cw_target_commit sample_workspace \<noteq> absent_ref_oid"
    by (simp add: sample_workspace_def absent_ref_oid_def)
  show ?thesis
    using publish_never_overwrites [OF sample_git_contract t a sample_published] sample_published by auto
qed

text \<open>C9: recovery reads the truth of an uncertain push off the remote without moving anything.  It
  answers that the candidate is published exactly when the branch holds it, that a retry is safe
  exactly when the branch still holds the verified target or is absent and may be created, and calls
  anything else ambiguous or missing.\<close>

theorem recovery_reads_the_remote:
  assumes "git_contract git req head moves" and "valid_utf8 (pr_target_ref req)"
    and "recover_publication git cw c req t w = (Inr v, w')"
  shows "moves w' = moves w
    \<and> (case v of
        RecoveredPublished p \<Rightarrow> head w' = Some (pc_commit c) \<and> pd_commit p = pc_commit c
      | PendingRetry ref commit \<Rightarrow> commit = cw_target_commit cw \<and> head w' \<noteq> Some (pc_commit c)
          \<and> (head w' = Some commit \<or> head w' = None \<and> pr_create_if_absent req)
      | Ambiguous ref expected actual \<Rightarrow> head w' = Some actual \<and> expected = cw_target_commit cw
          \<and> actual \<notin> {pc_commit c, cw_target_commit cw})"
proof -
  obtain u u1 w1 h where valid: "validate_publish_request req = Inr u"
    and one: "validate_persisted_candidate git cw c t w = (Inr u1, w1)"
    and two: "remote_ref git (cw_path cw) (pr_remote req) (pr_target_ref req) t w1 = (Inr h, w')"
    and v: "recovery_of cw c req h = Inr v"
    using assms(3) unfolding recover_publication_def act_bind_Inr by auto
  have clean: "branch_text_ok (pr_target_ref req)"
    using valid validate_publish_request_text assms(2) by (cases u) blast
  have "h = head w'" using remote_ref_head [OF assms(1) clean two] .
  moreover have "moves w' = moves w"
    using validate_persisted_quiet [OF assms(1) one] remote_ref_quiet [OF assms(1) two] by simp
  ultimately show ?thesis using v by (auto simp: recovery_of_def split: option.splits if_splits)
qed

theorem recovery_reads_the_remote_witness:
  "\<exists>v. recover_publication sample_git sample_workspace sample_candidate sample_publish_request 1
      (Some (replicate 40 CHR ''b''), []) = (Inr (RecoveredPublished v), (Some (replicate 40 CHR ''b''), []))
     \<and> pd_commit v = replicate 40 CHR ''b''"
proof -
  let ?b = "replicate 40 CHR ''b''"
  have t: "valid_utf8 (pr_target_ref sample_publish_request)"
    using sample_texts by (simp add: sample_request_fields)
  have fields: "cw_path sample_workspace = ''/w''" "pc_commit sample_candidate = ?b"
    by (simp_all add: sample_workspace_def sample_candidate_def)
  have r: "recover_publication sample_git sample_workspace sample_candidate sample_publish_request 1 (Some ?b, []) =
      (Inr (RecoveredPublished \<lparr>pd_commit = ?b, pd_target_ref = ''refs/heads/main''\<rparr>), (Some ?b, []))"
    using sample_validated [of "(Some ?b, [])"] sample_request_valid sample_remote_ref [OF sample_object(2), of "[]"]
    by (simp add: recover_publication_def act_bind_def act_err_def act_return_def recovery_of_def fields
        sample_request_fields)
  show ?thesis
    using recovery_reads_the_remote [OF sample_git_contract t r] r by simp
qed

section \<open>Properties of the retry policy\<close>

definition retry_factor :: "nat \<Rightarrow> nat" where
  "retry_factor n = unwrap_or (u32_one_checked_shl (n - 1)) u32_max"

lemma retry_backoff:
  assumes "rp_max_delay p \<le> duration_max"
  shows "backoff (delay_for p) retry_factor (rp_initial_delay p) (rp_max_delay p)"
proof
  fix n :: nat
  assume n: "1 \<le> n"
  show "delay_for p n = min (rp_max_delay p) (rp_initial_delay p * retry_factor n)"
    using assms by (auto simp: delay_for_def retry_factor_def duration_checked_mul_def unwrap_or_def Let_def min_def)
  obtain j where j: "n = Suc j" using n by (cases n) auto
  have f: "retry_factor n = (if j < 32 then 2 ^ j else u32_max)"
    "retry_factor (Suc n) = (if j < 31 then 2 ^ Suc j else u32_max)"
    by (auto simp: retry_factor_def u32_one_checked_shl_def unwrap_or_def j)
  show "retry_factor n \<le> retry_factor (Suc n)" "retry_factor (Suc n) \<le> 2 * retry_factor n"
    unfolding f by (cases "j = 31"; auto simp: u32_max_def)+
next
  show "retry_factor 1 = 1" by (simp add: retry_factor_def u32_one_checked_shl_def unwrap_or_def)
qed

interpretation publication_delay: backoff
  "delay_for retry_default" retry_factor "rp_initial_delay retry_default" "rp_max_delay retry_default"
  by (rule retry_backoff) (simp add: retry_default_def from_secs_def duration_max_def)


lemma decide_Retry:
  "decide p n e = Retry d \<longleftrightarrow>
     classify_publication_error e = Retryable \<and> n < rp_max_attempts p \<and> d = delay_for p n"
  by (auto simp: decide_def split: error_disposition.splits)

text \<open>C33: automatic retries are bounded and only for transport failures.  Under an accepted policy a
  failure is retried only when it is a transport failure and fewer failures than the maximum are on
  record, so failures never lead to more than one retry less than the maximum; the wait lies
  between the initial and the maximal delay and never shrinks from one retry to a later one.\<close>

theorem retries_bounded:
  assumes "retry_policy_new m i x = Inr p" and "x \<le> duration_max"
  shows "(\<forall>n e d. 1 \<le> n \<and> decide p n e = Retry d \<longrightarrow>
        classify_publication_error e = Retryable \<and> n < m \<and> i \<le> d \<and> d \<le> x)
    \<and> (\<forall>n n' e e' d d'. 1 \<le> n \<and> n \<le> n' \<and> decide p n e = Retry d \<and> decide p n' e' = Retry d' \<longrightarrow> d \<le> d')
    \<and> card {n. 1 \<le> n \<and> (\<exists>e d. decide p n e = Retry d)} = m - 1"
proof -
  have p: "rp_max_attempts p = m" "rp_initial_delay p = i" "rp_max_delay p = x" "i \<le> x"
    using assms(1) by (auto simp: retry_policy_new_def split: if_splits)
  have b: "backoff (delay_for p) retry_factor i x"
    using retry_backoff [of p] assms(2) p by simp
  have "classify_publication_error (PublishGit (GitTimedOut 0)) = Retryable"
    by (simp add: classify_publication_error_def classify_git_failure_def)
  then have "{n. 1 \<le> n \<and> (\<exists>e d. decide p n e = Retry d)} = {1 ..< m}"
    unfolding decide_Retry p by auto
  moreover have "i \<le> delay_for p n \<and> delay_for p n \<le> x" if "1 \<le> n" for n
    using backoff.delay_ge_first [OF b that] backoff.delay_le_ceiling [OF b that] p(4) by simp
  ultimately show ?thesis
    unfolding decide_Retry p using backoff.delay_mono [OF b] by auto
qed

theorem retries_bounded_witness:
  "retry_policy_new 3 (from_secs 5) (from_secs 300) = Inr retry_default
   \<and> card {n. 1 \<le> n \<and> (\<exists>e d. decide retry_default n e = Retry d)} = 2"
proof -
  have r: "retry_policy_new 3 (from_secs 5) (from_secs 300) = Inr retry_default"
    by (simp add: retry_policy_new_def retry_default_def from_secs_def)
  have "from_secs 300 \<le> duration_max" by (simp add: from_secs_def duration_max_def)
  then have "card {n. 1 \<le> n \<and> (\<exists>e d. decide retry_default n e = Retry d)} = 3 - 1"
    using retries_bounded [OF r] by blast
  moreover have "3 - 1 = (2 :: nat)" by simp
  ultimately show ?thesis using r by (simp only: simp_thms)
qed

end
