(* ===== verification/Tables.thy ===== *)
theory Tables
  imports States
begin

text \<open>
  What the stored tables share.  A table is the list of its rows in insertion order.  The locale
  \<open>table\<close> is the contract of a table inside a larger database: its rows can be read and replaced,
  and its constraints survive the removal of the newest rows.  For such a table a loop of inserts
  succeeds exactly when the final table is within its constraints.
\<close>

section \<open>Finding rows\<close>

lemma find_filter: "find P xs = (case filter P xs of [] \<Rightarrow> None | x # _ \<Rightarrow> Some x)"
  by (induction xs) auto

lemma find_append: "find P (xs @ ys) = (case find P xs of None \<Rightarrow> find P ys | Some x \<Rightarrow> Some x)"
  by (induction xs) auto

lemma filter_unique: "distinct (map f xs) \<Longrightarrow> x \<in> set xs \<Longrightarrow> filter (\<lambda>y. f y = f x) xs = [x]"
proof (induction xs)
  case Nil
  then show ?case by simp
next
  case (Cons y ys)
  show ?case
  proof (cases "x = y")
    case True
    then have "filter (\<lambda>z. f z = f x) ys = []"
      using Cons.prems by (auto simp: filter_empty_conv) (metis image_eqI)
    with True show ?thesis by simp
  next
    case False
    then show ?thesis using Cons by (auto simp: image_iff)
  qed
qed

lemma collect_res_all: "(\<And>x. x \<in> set xs \<Longrightarrow> f x = Inr (h x)) \<Longrightarrow> collect_res f xs = Inr (map h xs)"
  by (induction xs) auto

lemma find_Some_in: "find P xs = Some x \<Longrightarrow> x \<in> set xs \<and> P x"
  by (auto simp: find_Some_iff)

lemma find_map_update:
  assumes "\<And>x. key (change x) = key x"
  shows "find (\<lambda>x. key x = k) (map (\<lambda>x. if cond x then change x else x) xs)
    = map_option (\<lambda>x. if cond x then change x else x) (find (\<lambda>x. key x = k) xs)"
  using assms by (induction xs) auto

section \<open>Tables that keep their rows\<close>

text \<open>The rows of the first table are the first rows of the second, each changed as the relation allows.\<close>

definition grows :: "('a \<Rightarrow> 'a \<Rightarrow> bool) \<Rightarrow> 'a list \<Rightarrow> 'a list \<Rightarrow> bool" where
  "grows R xs ys \<longleftrightarrow> length xs \<le> length ys \<and> list_all2 R xs (take (length xs) ys)"

lemma key_unique: "distinct (map f xs) \<Longrightarrow> x \<in> set xs \<Longrightarrow> y \<in> set xs \<Longrightarrow> f x = f y \<Longrightarrow> x = y"
  unfolding distinct_map by (blast dest: inj_onD)

lemma grows_refl: "(\<And>x. R x x) \<Longrightarrow> grows R xs xs"
  by (simp add: grows_def list_all2_same)

lemma grows_append: "grows R xs ys \<Longrightarrow> grows R xs (ys @ zs)"
  by (simp add: grows_def)

lemma grows_map: "(\<And>x. x \<in> set xs \<Longrightarrow> R x (h x)) \<Longrightarrow> grows R xs (map h xs)"
  by (simp add: grows_def list_all2_map2 list.rel_refl_strong)

lemma grows_trans:
  assumes "\<And>x y z. R x y \<Longrightarrow> R y z \<Longrightarrow> R x z" and "grows R xs ys" and "grows R ys zs"
  shows "grows R xs zs"
proof -
  have a: "list_all2 R xs (take (length xs) ys)" and len: "length xs \<le> length ys" "length ys \<le> length zs"
    using assms(2,3) by (simp_all add: grows_def)
  have b: "list_all2 R (take (length xs) ys) (take (length xs) zs)"
    using list_all2_takeI [of R ys "take (length ys) zs" "length xs"] assms(3) len by (simp add: grows_def min_def)
  have "list_all2 R xs (take (length xs) zs)"
    by (rule list_all2_trans [of R R R, OF assms(1) a b])
  then show ?thesis using len by (simp add: grows_def)
qed

lemma grows_nth:
  assumes "grows R xs ys" and "x \<in> set xs"
  shows "\<exists>y \<in> set ys. R x y"
proof -
  obtain n where "n < length xs" "x = xs ! n" using assms(2) by (auto simp: in_set_conv_nth)
  then show ?thesis using assms(1) by (auto simp: grows_def list_all2_conv_all_nth intro!: bexI [of _ "ys ! n"])
qed

lemma grows_keys:
  assumes "grows R xs ys" and "\<And>x y. R x y \<Longrightarrow> key y = key x"
  shows "key ` set xs \<subseteq> key ` set ys"
proof
  fix k assume "k \<in> key ` set xs"
  then obtain x where "x \<in> set xs" "k = key x" by blast
  then obtain y where "y \<in> set ys" "R x y" using grows_nth [OF assms(1)] by blast
  then show "k \<in> key ` set ys" using assms(2) \<open>k = key x\<close> by (metis image_eqI)
qed

section \<open>Inserting rows\<close>

locale table =
  fixes rows :: "'d \<Rightarrow> 'r list" and set_rows :: "'r list \<Rightarrow> 'd \<Rightarrow> 'd" and rows_ok :: "'d \<Rightarrow> 'r list \<Rightarrow> bool"
  assumes rows_set: "rows (set_rows rs d) = rs"
    and set_set: "set_rows rs (set_rows rs' d) = set_rows rs d"
    and set_same: "set_rows (rows d) d = d"
    and ok_set: "rows_ok (set_rows rs d) rs' = rows_ok d rs'"
    and ok_prefix: "rows_ok d (xs @ ys) \<Longrightarrow> rows_ok d xs"
begin

lemma insert_all:
  assumes "\<And>d x. ins d x = (if rows_ok d (rows d @ [mk x]) then Inr (set_rows (rows d @ [mk x]) d) else Inl (violation d))"
    and "rows_ok d (rows d)"
  shows "fold_res ins d xs = Inr d' \<longleftrightarrow> rows_ok d (rows d @ map mk xs) \<and> d' = set_rows (rows d @ map mk xs) d"
  using assms(2)
proof (induction xs arbitrary: d)
  case Nil
  then show ?case by (auto simp: set_same)
next
  case (Cons x xs)
  show ?case
  proof (cases "rows_ok d (rows d @ [mk x])")
    case True
    then show ?thesis
      using Cons.IH [of "set_rows (rows d @ [mk x]) d"] by (simp add: assms(1) rows_set set_set ok_set)
  next
    case False
    then have "\<not> rows_ok d (rows d @ map mk (x # xs))"
      using ok_prefix [of d "rows d @ [mk x]" "map mk xs"] by auto
    then show ?thesis using False by (simp add: assms(1))
  qed
qed

end

end
