(* ===== verification/Registry.thy ===== *)
theory Registry
  imports Tables Remote Schedule "HOL-Library.List_Lexorder" "HOL-Library.Char_ord"
begin

text \<open>
  Enrolled repositories and the revisions of their policies (\<open>crates/store/src/repository.rs\<close>, and
  the tables \<open>repositories\<close>, \<open>repository_policies\<close>, \<open>repository_schedule_policies\<close> and
  \<open>repository_schedule_overrides\<close> of \<open>crates/store/src/migrations.rs\<close> as the latest migration
  leaves them).

  A table is the list of its rows in insertion order; a statement that would break a constraint
  fails with the text SQLite reports, which is a field of the registry, and a transaction that fails
  leaves the registry as it was.  Schedule policies and overrides are stored as JSON by serde; the
  model keeps the value in the column.
\<close>

section \<open>Registrations and rows\<close>

record repository_registration =
  rg_id :: repository_id
  rg_checkout_path :: string
  rg_canonical_remote :: string
  rg_managed_path :: string
  rg_created_at :: int

definition registration_field :: "string \<times> string \<Rightarrow> (store_error, unit) result" where
  "registration_field = (\<lambda>(field, value).
     ensure (\<not> blank value) (InvalidData (''repository '' @ field @ '' must not be empty'')))"

definition registration_validate :: "repository_registration \<Rightarrow> (store_error, unit) result" where
  "registration_validate r =
     and_then (for_each registration_field
       [(''checkout_path'', rg_checkout_path r), (''canonical_remote'', rg_canonical_remote r),
        (''managed_path'', rg_managed_path r)]) (\<lambda>_.
     ensure (0 \<le> rg_created_at r)
       (InvalidData ''repository creation timestamp must not be negative''))"

definition registration_new ::
  "repository_id \<Rightarrow> string \<Rightarrow> string \<Rightarrow> string \<Rightarrow> int \<Rightarrow> (store_error, repository_registration) result" where
  "registration_new i checkout remote managed created =
     (let value = \<lparr>rg_id = i, rg_checkout_path = checkout, rg_canonical_remote = remote,
                   rg_managed_path = managed, rg_created_at = created\<rparr>
      in and_then (registration_validate value) (\<lambda>_. Inr value))"

record stored_repository =
  sr_registration :: repository_registration
  sr_active_policy :: repository_policy

record stored_schedule_policy =
  ssp_repository_id :: repository_id
  ssp_revision :: revision
  ssp_policy :: schedule_policy
  ssp_created_at :: int

record repository_row =
  rr_id :: repository_id
  rr_checkout_path :: string
  rr_canonical_remote :: string
  rr_managed_path :: string
  rr_created_at :: int
  rr_active_policy_revision :: "revision option"
  rr_remote_identity :: string

record policy_row =
  pw_repository_id :: repository_id
  pw_revision :: revision
  pw_publication_mode :: string
  pw_target_ref :: string
  pw_development_target_ref :: "string option"
  pw_target_integration :: string
  pw_created_at :: int

text \<open>The two tables of revisions with one active row differ in the value they hold.\<close>

record 'v revision_row =
  vr_repository_id :: repository_id
  vr_revision :: revision
  vr_value :: 'v
  vr_created_at :: int
  vr_active :: bool

record registry =
  rg_repositories :: "repository_row list"
  rg_policies :: "policy_row list"
  rg_schedules :: "schedule_policy revision_row list"
  rg_overrides :: "schedule_policy_override revision_row list"
  rg_violation :: string
  rg_uuid_text :: "uuid \<Rightarrow> string"

section \<open>The schema\<close>

definition like_heads :: "string \<Rightarrow> bool" where
  "like_heads s \<longleftrightarrow> to_ascii_lowercase (take (length heads) s) = heads"

definition repository_row_ok :: "repository_row \<Rightarrow> bool" where
  "repository_row_ok r \<longleftrightarrow>
     rr_checkout_path r \<noteq> [] \<and> rr_canonical_remote r \<noteq> [] \<and> rr_managed_path r \<noteq> []
     \<and> 0 \<le> rr_created_at r"

definition repositories_ok :: "repository_row list \<Rightarrow> bool" where
  "repositories_ok rows \<longleftrightarrow>
     list_all repository_row_ok rows
     \<and> distinct (map rr_id rows) \<and> distinct (map rr_managed_path rows)
     \<and> distinct (map (\<lambda>r. (rr_canonical_remote r, rr_checkout_path r)) rows)"

definition policy_row_ok :: "policy_row \<Rightarrow> bool" where
  "policy_row_ok p \<longleftrightarrow>
     like_heads (pw_target_ref p) \<and> 0 \<le> pw_created_at p
     \<and> (pw_publication_mode p = ''scheduled_creation'' \<and> pw_development_target_ref p = None
        \<or> pw_publication_mode p = ''immediate_availability'' \<and> pw_development_target_ref p \<noteq> None
          \<and> pw_development_target_ref p \<noteq> Some (pw_target_ref p))
     \<and> pw_target_integration p \<in> {''direct_push'', ''pull_request''}"

definition policies_ok :: "repository_row list \<Rightarrow> policy_row list \<Rightarrow> bool" where
  "policies_ok repos rows \<longleftrightarrow>
     list_all policy_row_ok rows
     \<and> distinct (map (\<lambda>p. (pw_repository_id p, pw_revision p)) rows)
     \<and> list_all (\<lambda>p. pw_repository_id p \<in> rr_id ` set repos) rows"

definition revisions_ok :: "repository_row list \<Rightarrow> 'v revision_row list \<Rightarrow> bool" where
  "revisions_ok repos rows \<longleftrightarrow>
     list_all (\<lambda>v. 0 \<le> vr_created_at v \<and> vr_repository_id v \<in> rr_id ` set repos) rows
     \<and> distinct (map (\<lambda>v. (vr_repository_id v, vr_revision v)) rows)
     \<and> distinct (map vr_repository_id (filter vr_active rows))"

text \<open>The one foreign key that is checked when the transaction commits.\<close>

definition active_policies_exist :: "registry \<Rightarrow> bool" where
  "active_policies_exist g \<longleftrightarrow>
     list_all (\<lambda>r. case rr_active_policy_revision r of
         None \<Rightarrow> True
       | Some v \<Rightarrow> (rr_id r, v) \<in> (\<lambda>p. (pw_repository_id p, pw_revision p)) ` set (rg_policies g))
       (rg_repositories g)"

definition commit_registry :: "registry \<Rightarrow> (store_error, registry) result" where
  "commit_registry g = (if active_policies_exist g then Inr g else Inl (Sqlite (rg_violation g)))"

text \<open>\<open>map_write_error\<close> turns a violated constraint into a conflict.\<close>

definition write_repositories :: "registry \<Rightarrow> repository_row list \<Rightarrow> (store_error, registry) result" where
  "write_repositories g rows =
     (if repositories_ok rows then Inr (g\<lparr>rg_repositories := rows\<rparr>) else Inl (Conflict (rg_violation g)))"

fun publication_mode_name :: "publication_mode \<Rightarrow> string" where
  "publication_mode_name ScheduledCreation = ''scheduled_creation''"
| "publication_mode_name ImmediateAvailability = ''immediate_availability''"

definition parse_publication_mode :: "string \<Rightarrow> (store_error, publication_mode) result" where
  "parse_publication_mode v =
     (if v = ''scheduled_creation'' then Inr ScheduledCreation
      else if v = ''immediate_availability'' then Inr ImmediateAvailability
      else Inl (InvalidData (''unknown publication mode '' @ v)))"

fun target_integration_name :: "target_integration \<Rightarrow> string" where
  "target_integration_name DirectPush = ''direct_push''"
| "target_integration_name PullRequest = ''pull_request''"

definition target_integration_from_name :: "string \<Rightarrow> (store_error, target_integration) result" where
  "target_integration_from_name v =
     (if v = ''direct_push'' then Inr DirectPush
      else if v = ''pull_request'' then Inr PullRequest
      else Inl (InvalidData (''unknown target integration: '' @ v)))"

definition policy_row_of :: "repository_policy \<Rightarrow> int \<Rightarrow> policy_row" where
  "policy_row_of p created =
     \<lparr>pw_repository_id = rp_repository_id p, pw_revision = rp_revision p,
      pw_publication_mode = publication_mode_name (rp_publication_mode p),
      pw_target_ref = target_ref_str (rp_target p),
      pw_development_target_ref = map_option target_ref_str (rp_development_target p),
      pw_target_integration = target_integration_name (rp_target_integration p),
      pw_created_at = created\<rparr>"

definition insert_policy :: "registry \<Rightarrow> repository_policy \<Rightarrow> int \<Rightarrow> (store_error, registry) result" where
  "insert_policy g p created =
     (let rows = rg_policies g @ [policy_row_of p created]
      in if policies_ok (rg_repositories g) rows then Inr (g\<lparr>rg_policies := rows\<rparr>)
         else Inl (Conflict (rg_violation g)))"

definition set_active_revision :: "repository_id \<Rightarrow> revision \<Rightarrow> repository_row list \<Rightarrow> repository_row list" where
  "set_active_revision i v =
     map (\<lambda>r. if rr_id r = i then r\<lparr>rr_active_policy_revision := Some v\<rparr> else r)"

section \<open>Operations\<close>

definition ensure_policy_owner :: "repository_id \<Rightarrow> repository_policy \<Rightarrow> (store_error, unit) result" where
  "ensure_policy_owner i p =
     ensure (i = rp_repository_id p) (PolicyRepositoryMismatch i (rp_repository_id p))"

text \<open>The join of a repository with its active policy.\<close>

definition active_policy_row :: "registry \<Rightarrow> repository_row \<Rightarrow> policy_row option" where
  "active_policy_row g r =
     find (\<lambda>p. pw_repository_id p = rr_id r \<and> Some (pw_revision p) = rr_active_policy_revision r) (rg_policies g)"

definition publishes :: "registry \<Rightarrow> string \<Rightarrow> string \<Rightarrow> repository_row \<Rightarrow> bool" where
  "publishes g identity target r \<longleftrightarrow>
     rr_remote_identity r = identity
     \<and> (case active_policy_row g r of None \<Rightarrow> False | Some p \<Rightarrow> pw_target_ref p = target)"

definition insert_first_schedule ::
  "registry \<Rightarrow> stored_schedule_policy option \<Rightarrow> (store_error, registry) result" where
  "insert_first_schedule g schedule =
     (case schedule of
        None \<Rightarrow> Inr g
      | Some s \<Rightarrow>
          let rows = rg_schedules g @
                [\<lparr>vr_repository_id = ssp_repository_id s, vr_revision = ssp_revision s,
                  vr_value = ssp_policy s, vr_created_at = ssp_created_at s, vr_active = True\<rparr>]
          in if revisions_ok (rg_repositories g) rows then Inr (g\<lparr>rg_schedules := rows\<rparr>)
             else Inl (Sqlite (rg_violation g)))"

definition enroll_repository_inner ::
  "registry \<Rightarrow> repository_registration \<Rightarrow> repository_policy \<Rightarrow> stored_schedule_policy option
    \<Rightarrow> (store_error, registry) result" where
  "enroll_repository_inner g reg p schedule =
     and_then (registration_validate reg) (\<lambda>_.
     and_then (ensure_policy_owner (rg_id reg) p) (\<lambda>_.
     let identity = identity_str (remote_identity_of (rg_canonical_remote reg))
     in case find (publishes g identity (target_ref_str (rp_target p))) (rg_repositories g) of
          Some existing \<Rightarrow>
            Inl (Conflict (rr_checkout_path existing @ '' is already enrolled to publish ''
              @ target_ref_str (rp_target p)
              @ '' on this remote; two checkouts must not publish to one branch''))
        | None \<Rightarrow>
            and_then (write_repositories g (rg_repositories g @
              [\<lparr>rr_id = rg_id reg, rr_checkout_path = rg_checkout_path reg,
                rr_canonical_remote = rg_canonical_remote reg, rr_managed_path = rg_managed_path reg,
                rr_created_at = rg_created_at reg, rr_active_policy_revision = None,
                rr_remote_identity = identity\<rparr>])) (\<lambda>g1.
            and_then (insert_policy g1 p (rg_created_at reg)) (\<lambda>g2.
            let g3 = g2\<lparr>rg_repositories := set_active_revision (rg_id reg) (rp_revision p) (rg_repositories g2)\<rparr>
            in and_then (insert_first_schedule g3 schedule) commit_registry))))"

definition enroll_repository ::
  "registry \<Rightarrow> repository_registration \<Rightarrow> repository_policy \<Rightarrow> (store_error, registry) result" where
  "enroll_repository g reg p = enroll_repository_inner g reg p None"

definition enroll_repository_with_initial_schedule ::
  "registry \<Rightarrow> repository_registration \<Rightarrow> repository_policy \<Rightarrow> stored_schedule_policy
    \<Rightarrow> (store_error, registry) result" where
  "enroll_repository_with_initial_schedule g reg p s =
     and_then (ensure (ssp_repository_id s = rg_id reg)
       (InvalidData ''initial schedule policy belongs to another repository'')) (\<lambda>_.
     and_then (ensure (ssp_revision s = revision_first)
       (InvalidData ''initial schedule policy must be revision 1'')) (\<lambda>_.
     and_then (ensure (0 \<le> ssp_created_at s)
       (InvalidData ''schedule policy timestamp must not be negative'')) (\<lambda>_.
       enroll_repository_inner g reg p (Some s))))"

definition activate_policy_revision ::
  "registry \<Rightarrow> repository_policy \<Rightarrow> int \<Rightarrow> (store_error, registry) result" where
  "activate_policy_revision g p created =
     and_then (ensure (0 \<le> created)
       (InvalidData ''policy creation timestamp must not be negative'')) (\<lambda>_.
     and_then (insert_policy g p created) (\<lambda>g1.
     and_then (write_repositories g1 (set_active_revision (rp_repository_id p) (rp_revision p) (rg_repositories g1)))
       (\<lambda>g2.
     and_then (ensure (length (filter (\<lambda>r. rr_id r = rp_repository_id p) (rg_repositories g1)) = 1)
       (InvalidData (''repository '' @ id_display (rg_uuid_text g) RepositoryKind (rp_repository_id p)
          @ '' does not exist''))) (\<lambda>_.
       commit_registry g2))))"

text \<open>The revision that must follow the active one.\<close>

definition active_row :: "repository_id \<Rightarrow> 'v revision_row list \<Rightarrow> 'v revision_row option" where
  "active_row i rows = find (\<lambda>v. vr_repository_id v = i \<and> vr_active v) rows"

definition revision_error_text :: "revision_error \<Rightarrow> string" where
  "revision_error_text e = (case e of RevisionZero \<Rightarrow> ''revision must be greater than zero''
     | RevisionOverflow \<Rightarrow> ''revision cannot advance beyond '' @ show_nat u32_max)"

definition next_revision :: "repository_id \<Rightarrow> 'v revision_row list \<Rightarrow> (store_error, revision) result" where
  "next_revision i rows =
     (case active_row i rows of
        None \<Rightarrow> Inr revision_first
      | Some v \<Rightarrow> map_err (\<lambda>e. InvalidData (revision_error_text e)) (revision_next (vr_revision v)))"

definition append_active ::
  "repository_id \<Rightarrow> revision \<Rightarrow> 'v \<Rightarrow> int \<Rightarrow> 'v revision_row list \<Rightarrow> 'v revision_row list" where
  "append_active i n x created rows =
     map (\<lambda>v. if vr_repository_id v = i \<and> vr_active v then v\<lparr>vr_active := False\<rparr> else v) rows
       @ [\<lparr>vr_repository_id = i, vr_revision = n, vr_value = x, vr_created_at = created, vr_active = True\<rparr>]"

definition repository_exists :: "registry \<Rightarrow> repository_id \<Rightarrow> (store_error, unit) result" where
  "repository_exists g i =
     ensure (i \<in> rr_id ` set (rg_repositories g))
       (InvalidData (''repository '' @ id_display (rg_uuid_text g) RepositoryKind i @ '' does not exist''))"

definition activate_schedule_policy ::
  "registry \<Rightarrow> stored_schedule_policy \<Rightarrow> (store_error, registry) result" where
  "activate_schedule_policy g s =
     and_then (ensure (0 \<le> ssp_created_at s)
       (InvalidData ''schedule policy timestamp must not be negative'')) (\<lambda>_.
     and_then (repository_exists g (ssp_repository_id s)) (\<lambda>_.
     and_then (next_revision (ssp_repository_id s) (rg_schedules g)) (\<lambda>expected.
     and_then (ensure (ssp_revision s = expected)
       (Conflict (''schedule policy revision must be '' @ show_nat (unat (revision_get expected))
          @ '', got '' @ show_nat (unat (revision_get (ssp_revision s)))))) (\<lambda>_.
     let rows = append_active (ssp_repository_id s) (ssp_revision s) (ssp_policy s) (ssp_created_at s)
                  (rg_schedules g)
     in and_then (ensure (revisions_ok (rg_repositories g) rows) (Conflict (rg_violation g))) (\<lambda>_.
          commit_registry (g\<lparr>rg_schedules := rows\<rparr>))))))"

definition activate_schedule_override ::
  "registry \<Rightarrow> repository_id \<Rightarrow> schedule_policy_override \<Rightarrow> int \<Rightarrow> (store_error, registry \<times> revision) result" where
  "activate_schedule_override g i ov created =
     and_then (ensure (0 \<le> created)
       (InvalidData ''schedule override timestamp must not be negative'')) (\<lambda>_.
     and_then (repository_exists g i) (\<lambda>_.
     and_then (next_revision i (rg_overrides g)) (\<lambda>n.
     let rows = append_active i n ov created (rg_overrides g)
     in and_then (ensure (revisions_ok (rg_repositories g) rows) (Conflict (rg_violation g))) (\<lambda>_.
        and_then (commit_registry (g\<lparr>rg_overrides := rows\<rparr>)) (\<lambda>g'. Inr (g', n))))))"

definition schedule_override_of :: "registry \<Rightarrow> repository_id \<Rightarrow> schedule_policy_override option" where
  "schedule_override_of g i = map_option vr_value (active_row i (rg_overrides g))"

definition schedule_policy_of :: "registry \<Rightarrow> repository_id \<Rightarrow> stored_schedule_policy option" where
  "schedule_policy_of g i =
     map_option (\<lambda>v. \<lparr>ssp_repository_id = i, ssp_revision = vr_revision v, ssp_policy = vr_value v,
                      ssp_created_at = vr_created_at v\<rparr>) (active_row i (rg_schedules g))"

section \<open>Reading a repository back\<close>

text \<open>A text as Rust's \<open>Debug\<close> shows it: quoted, with the control characters, quotes and backslashes
  escaped.  Bytes outside ASCII are kept, as the characters that print are.\<close>

definition hex_char :: "nat \<Rightarrow> char" where
  "hex_char n = (if n < 10 then digit_char n else char_of (n + 87))"

definition debug_char :: "char \<Rightarrow> string" where
  "debug_char c =
     (if c = CHR 0x00 then [CHR 0x5C, CHR ''0''] else if c = CHR 0x09 then [CHR 0x5C, CHR ''t'']
      else if c = CHR 0x0A then [CHR 0x5C, CHR ''n''] else if c = CHR 0x0D then [CHR 0x5C, CHR ''r'']
      else if c = CHR 0x22 \<or> c = CHR 0x5C then [CHR 0x5C, c]
      else if of_char c < (32::nat) \<or> c = CHR 0x7F then
        [CHR 0x5C] @ ''u{'' @ (if of_char c < (16::nat) then [] else [hex_char (of_char c div 16)])
          @ [hex_char (of_char c mod 16)] @ ''}''
      else [c])"

definition debug_str :: "string \<Rightarrow> string" where
  "debug_str s = [CHR 0x22] @ concat (map debug_char s) @ [CHR 0x22]"

definition policy_error_text :: "policy_error \<Rightarrow> string" where
  "policy_error_text e = (case e of
       InvalidTargetRef value detail \<Rightarrow> ''invalid target ref '' @ debug_str value @ '': '' @ detail
     | UnexpectedDevelopmentTarget \<Rightarrow> ''scheduled-creation policy must not define a development target''
     | MissingDevelopmentTarget \<Rightarrow> ''immediate-availability policy requires a development target''
     | TargetsMustDiffer \<Rightarrow> ''development and final targets must be different branches''
     | PullRequestNeedsDevelopmentBranch \<Rightarrow>
         ''the pull-request strategy needs a development branch to open the request from; ''
         @ ''enrol with --mode immediate --development-target <branch>'')"

definition policy_data_error :: "(policy_error, 'a) result \<Rightarrow> (store_error, 'a) result" where
  "policy_data_error = map_err (\<lambda>e. InvalidData (policy_error_text e))"

definition stored_repository_of ::
  "repository_row \<Rightarrow> policy_row \<Rightarrow> (store_error, stored_repository) result" where
  "stored_repository_of r p =
     and_then (registration_new (rr_id r) (rr_checkout_path r) (rr_canonical_remote r)
       (rr_managed_path r) (rr_created_at r)) (\<lambda>registration.
     and_then (policy_data_error (target_ref_new (pw_target_ref p))) (\<lambda>target.
     and_then (case pw_development_target_ref p of
                 None \<Rightarrow> Inr None
               | Some v \<Rightarrow> and_then (policy_data_error (target_ref_new v)) (\<lambda>t. Inr (Some t))) (\<lambda>development.
     and_then (parse_publication_mode (pw_publication_mode p)) (\<lambda>mode.
     and_then (policy_data_error (repository_policy_new (rr_id r) (pw_revision p) mode target development)) (\<lambda>policy.
     and_then (target_integration_from_name (pw_target_integration p)) (\<lambda>integration.
     and_then (policy_data_error (with_target_integration policy integration)) (\<lambda>active.
       Inr \<lparr>sr_registration = registration, sr_active_policy = active\<rparr>)))))))"

definition joined_rows :: "registry \<Rightarrow> (repository_row \<times> policy_row) list" where
  "joined_rows g =
     [(r, p). r \<leftarrow> rg_repositories g, p \<leftarrow> rg_policies g,
        pw_repository_id p = rr_id r \<and> Some (pw_revision p) = rr_active_policy_revision r]"

definition repository_of ::
  "registry \<Rightarrow> repository_id \<Rightarrow> (store_error, stored_repository option) result" where
  "repository_of g i =
     (case find (\<lambda>(r, p). rr_id r = i) (joined_rows g) of
        None \<Rightarrow> Inr None
      | Some (r, p) \<Rightarrow> and_then (stored_repository_of r p) (\<lambda>s. Inr (Some s)))"

definition repositories_of :: "registry \<Rightarrow> (store_error, stored_repository list) result" where
  "repositories_of g =
     collect_res (\<lambda>(r, p). stored_repository_of r p)
       (sort_key (\<lambda>(r, p). id_display (rg_uuid_text g) RepositoryKind (rr_id r)) (joined_rows g))"

section \<open>The registry's invariant\<close>

text \<open>Every value of the type \<open>TargetRef\<close> was accepted by its constructor.\<close>

definition target_valid :: "target_ref \<Rightarrow> bool" where
  "target_valid t \<longleftrightarrow> target_ref_new (target_ref_str t) = Inr t"

definition policy_valid :: "repository_policy \<Rightarrow> bool" where
  "policy_valid p \<longleftrightarrow> policy_ok p \<and> target_valid (rp_target p)
     \<and> (case rp_development_target p of None \<Rightarrow> True | Some t \<Rightarrow> target_valid t)"

definition registration_of :: "repository_row \<Rightarrow> repository_registration" where
  "registration_of r =
     \<lparr>rg_id = rr_id r, rg_checkout_path = rr_checkout_path r, rg_canonical_remote = rr_canonical_remote r,
      rg_managed_path = rr_managed_path r, rg_created_at = rr_created_at r\<rparr>"

definition repository_row_valid :: "repository_row \<Rightarrow> bool" where
  "repository_row_valid r \<longleftrightarrow>
     registration_validate (registration_of r) = Inr () \<and> rr_active_policy_revision r \<noteq> None
     \<and> rr_remote_identity r = identity_str (remote_identity_of (rr_canonical_remote r))"

text \<open>One repository's revisions are numbered from 1 without a gap, and the newest is the active one.\<close>

definition history_of :: "repository_id \<Rightarrow> 'v revision_row list \<Rightarrow> 'v revision_row list" where
  "history_of i = filter (\<lambda>v. vr_repository_id v = i)"

definition history_ok :: "'v revision_row list \<Rightarrow> bool" where
  "history_ok rows \<longleftrightarrow>
     map (\<lambda>v. (unat (revision_get (vr_revision v)), vr_active v)) rows
       = map (\<lambda>k. (k, k = length rows)) [1..<Suc (length rows)]"

definition registry_ok :: "registry \<Rightarrow> bool" where
  "registry_ok g \<longleftrightarrow>
     repositories_ok (rg_repositories g) \<and> policies_ok (rg_repositories g) (rg_policies g)
     \<and> revisions_ok (rg_repositories g) (rg_schedules g) \<and> revisions_ok (rg_repositories g) (rg_overrides g)
     \<and> active_policies_exist g
     \<and> list_all repository_row_valid (rg_repositories g)
     \<and> list_all (\<lambda>w. \<exists>p created. w = policy_row_of p created \<and> policy_valid p) (rg_policies g)
     \<and> (\<forall>i. history_ok (history_of i (rg_schedules g)) \<and> history_ok (history_of i (rg_overrides g)))"

lemma policy_row_of_sel [simp]:
  "pw_repository_id (policy_row_of p c) = rp_repository_id p" "pw_revision (policy_row_of p c) = rp_revision p"
  "pw_target_ref (policy_row_of p c) = target_ref_str (rp_target p)"
  by (simp_all add: policy_row_of_def)

lemma registration_of_sel [simp]: "rg_id (registration_of r) = rr_id r"
  by (simp add: registration_of_def)

lemma parse_publication_mode_name [simp]: "parse_publication_mode (publication_mode_name m) = Inr m"
  by (cases m) (simp_all add: parse_publication_mode_def)

lemma target_integration_from_name_name [simp]:
  "target_integration_from_name (target_integration_name t) = Inr t"
  by (cases t) (simp_all add: target_integration_from_name_def)

lemma repository_policy_rebuild:
  assumes "policy_ok p"
  shows "and_then (repository_policy_new (rp_repository_id p) (rp_revision p) (rp_publication_mode p)
      (rp_target p) (rp_development_target p)) (\<lambda>q. with_target_integration q (rp_target_integration p)) = Inr p"
  using assms
  by (cases "rp_publication_mode p"; cases "rp_target_integration p")
     (auto simp: policy_ok_def repository_policy_new_def with_target_integration_def)

text \<open>A stored repository and a stored policy load as they were given.\<close>

lemma stored_repository_loads:
  assumes "repository_row_valid r" and "policy_valid p" and "rp_repository_id p = rr_id r"
  shows "stored_repository_of r (policy_row_of p c)
    = Inr \<lparr>sr_registration = registration_of r, sr_active_policy = p\<rparr>"
proof -
  obtain q where q: "repository_policy_new (rp_repository_id p) (rp_revision p) (rp_publication_mode p)
      (rp_target p) (rp_development_target p) = Inr q"
    and p: "with_target_integration q (rp_target_integration p) = Inr p"
    using repository_policy_rebuild [of p] assms(2) by (auto simp: policy_valid_def res)
  have "registration_new (rr_id r) (rr_checkout_path r) (rr_canonical_remote r) (rr_managed_path r)
      (rr_created_at r) = Inr (registration_of r)"
    using assms(1) by (simp add: registration_new_def repository_row_valid_def registration_of_def)
  then show ?thesis
    using assms(2,3) p q
    by (auto simp: stored_repository_of_def policy_data_error_def policy_valid_def target_valid_def
        policy_row_of_def split: option.splits)
qed

lemma repositories_okD:
  assumes "repositories_ok rows" and "r \<in> set rows" and "r' \<in> set rows" and "rr_id r = rr_id r'"
  shows "r = r'"
  using assms by (auto simp: repositories_ok_def distinct_map dest: inj_onD)

text \<open>Every repository joins exactly its active policy.\<close>

lemma active_policy_exists:
  assumes "registry_ok g" and "r \<in> set (rg_repositories g)"
  obtains p c where "active_policy_row g r = Some (policy_row_of p c)" and "policy_valid p"
    and "rp_repository_id p = rr_id r" and "rr_active_policy_revision r = Some (rp_revision p)"
    and "policy_row_of p c \<in> set (rg_policies g)"
    and "filter (\<lambda>w. pw_repository_id w = rr_id r \<and> Some (pw_revision w) = rr_active_policy_revision r)
      (rg_policies g) = [policy_row_of p c]"
proof -
  obtain v where v: "rr_active_policy_revision r = Some v"
    using assms by (auto simp: registry_ok_def list_all_iff repository_row_valid_def)
  obtain w where w: "w \<in> set (rg_policies g)" "pw_repository_id w = rr_id r" "pw_revision w = v"
    using assms v by (fastforce simp: registry_ok_def active_policies_exist_def list_all_iff)
  obtain p c where p: "w = policy_row_of p c" "policy_valid p"
    using assms(1) w(1) by (auto simp: registry_ok_def list_all_iff)
  have "distinct (map (\<lambda>w. (pw_repository_id w, pw_revision w)) (rg_policies g))"
    using assms(1) by (simp add: registry_ok_def policies_ok_def)
  from filter_unique [OF this w(1)]
  have f: "filter (\<lambda>u. pw_repository_id u = rr_id r \<and> Some (pw_revision u) = rr_active_policy_revision r)
      (rg_policies g) = [w]"
    using w(2,3) v by simp
  then have "active_policy_row g r = Some w"
    by (simp add: active_policy_row_def find_filter)
  then show thesis using that [of p c] p w f v by simp
qed

definition policy_of_row :: "registry \<Rightarrow> repository_row \<Rightarrow> policy_row" where
  "policy_of_row g r = the (active_policy_row g r)"

lemma map_Pair_filter: "[(r, p). p \<leftarrow> ps, Q p] = map (Pair r) (filter Q ps)"
  by (induction ps) auto

lemma joined_rows_eq:
  assumes "registry_ok g"
  shows "joined_rows g = map (\<lambda>r. (r, policy_of_row g r)) (rg_repositories g)"
proof -
  have f: "filter (\<lambda>w. pw_repository_id w = rr_id r \<and> Some (pw_revision w) = rr_active_policy_revision r)
        (rg_policies g) = [policy_of_row g r]" if r: "r \<in> set (rg_repositories g)" for r
    by (rule active_policy_exists [OF assms r]) (simp add: policy_of_row_def)
  have "concat (map (\<lambda>r. map (Pair r) (filter (\<lambda>p. pw_repository_id p = rr_id r
      \<and> Some (pw_revision p) = rr_active_policy_revision r) (rg_policies g))) rs)
    = map (\<lambda>r. (r, policy_of_row g r)) rs" if "set rs \<subseteq> set (rg_repositories g)" for rs
    using that by (induction rs) (simp_all add: f)
  then show ?thesis by (simp only: joined_rows_def map_Pair_filter subset_refl)
qed

lemma joined_row_loads:
  assumes "registry_ok g" and "r \<in> set (rg_repositories g)"
  obtains p where "stored_repository_of r (policy_of_row g r)
      = Inr \<lparr>sr_registration = registration_of r, sr_active_policy = p\<rparr>" and "policy_valid p"
    and "rp_repository_id p = rr_id r" and "rr_active_policy_revision r = Some (rp_revision p)"
    and "\<exists>c. policy_row_of p c \<in> set (rg_policies g)"
proof -
  obtain p c where p: "active_policy_row g r = Some (policy_row_of p c)" "policy_valid p"
    "rp_repository_id p = rr_id r" "rr_active_policy_revision r = Some (rp_revision p)"
    "policy_row_of p c \<in> set (rg_policies g)"
    using active_policy_exists [OF assms] by metis
  have "repository_row_valid r" using assms by (simp add: registry_ok_def list_all_iff)
  with p show thesis
    using that [of p] stored_repository_loads [of r p c] by (auto simp: policy_of_row_def)
qed

lemma repository_of_row:
  assumes "registry_ok g"
  shows "repository_of g i = (case find (\<lambda>r. rr_id r = i) (rg_repositories g) of None \<Rightarrow> Inr None
    | Some r \<Rightarrow> and_then (stored_repository_of r (policy_of_row g r)) (\<lambda>s. Inr (Some s)))"
proof -
  have "find (\<lambda>(r, p). rr_id r = i) (map (\<lambda>r. (r, f r)) rs)
      = map_option (\<lambda>r. (r, f r)) (find (\<lambda>r. rr_id r = i) rs)" for f :: "repository_row \<Rightarrow> policy_row" and rs
    by (induction rs) auto
  then show ?thesis
    by (simp add: repository_of_def joined_rows_eq [OF assms] split: option.splits)
qed

lemma find_id:
  assumes "repositories_ok rows" and "r \<in> set rows"
  shows "find (\<lambda>x. rr_id x = rr_id r) rows = Some r"
  using filter_unique [of rr_id rows r] assms by (simp add: find_filter repositories_ok_def)

lemma find_none: "i \<notin> rr_id ` set rows \<Longrightarrow> find (\<lambda>x. rr_id x = i) rows = None"
  by (auto simp: find_None_iff)

section \<open>Every operation keeps it\<close>

lemma active_row_None_history: "active_row i rows = active_row i (history_of i rows)"
  by (induction rows) (auto simp: active_row_def history_of_def)

lemma history_ok_last:
  assumes "history_ok rows" and "rows = xs @ [v]"
  shows "vr_active v" and "unat (revision_get (vr_revision v)) = length rows"
    and "\<forall>x \<in> set xs. \<not> vr_active x"
proof -
  have e: "map (\<lambda>v. (unat (revision_get (vr_revision v)), vr_active v)) (xs @ [v])
      = map (\<lambda>k. (k, k = Suc (length xs))) [1..<Suc (length xs)] @ [(Suc (length xs), True)]"
    using assms by (simp add: history_ok_def)
  then show "vr_active v" "unat (revision_get (vr_revision v)) = length rows"
    using assms(2) by auto
  from e have "map (\<lambda>v. (unat (revision_get (vr_revision v)), vr_active v)) xs
      = map (\<lambda>k. (k, k = Suc (length xs))) [1..<Suc (length xs)]"
    by simp
  then have "map vr_active xs = map (\<lambda>k. k = Suc (length xs)) [1..<Suc (length xs)]"
    by (metis (no_types, lifting) comp_apply list.map_comp map_eq_conv snd_conv)
  then have "set (map vr_active xs) \<subseteq> {False}" by auto
  then show "\<forall>x \<in> set xs. \<not> vr_active x" by auto
qed

lemma active_row_last:
  assumes "history_ok (history_of i rows)"
  shows "active_row i rows = (if history_of i rows = [] then None else Some (last (history_of i rows)))"
proof (cases "history_of i rows" rule: rev_cases)
  case Nil
  then show ?thesis by (subst active_row_None_history) (simp add: active_row_def)
next
  case (snoc xs v)
  note last = history_ok_last [OF assms snoc]
  have "v \<in> set (history_of i rows)" using snoc by simp
  then have "vr_repository_id v = i" by (simp add: history_of_def)
  then have "filter (\<lambda>x. vr_repository_id x = i \<and> vr_active x) (xs @ [v]) = [v]"
    using last by (simp add: filter_empty_conv)
  then show ?thesis
    by (subst active_row_None_history) (simp add: snoc active_row_def find_filter del: filter_append)
qed

text \<open>The next revision is the number of revisions there are, plus one.\<close>

lemma next_revision_number:
  assumes "history_ok (history_of i rows)" and "next_revision i rows = Inr n"
  shows "unat (revision_get n) = Suc (length (history_of i rows))"
proof (cases "history_of i rows" rule: rev_cases)
  case Nil
  then show ?thesis
    using assms(2) by (auto simp: next_revision_def active_row_last [OF assms(1)] revision_first_def)
next
  case (snoc xs v)
  then have "revision_next (vr_revision v) = Inr n"
    using assms(2) by (simp add: next_revision_def active_row_last [OF assms(1)] res)
  then show ?thesis
    using revision_next_Inr [of "vr_revision v" n] history_ok_last(2) [OF assms(1) snoc] by simp
qed

lemma history_of_append_active:
  "history_of j (append_active i n x c rows) =
    (if j = i then map (\<lambda>v. v\<lparr>vr_active := False\<rparr>) (history_of i rows)
       @ [\<lparr>vr_repository_id = i, vr_revision = n, vr_value = x, vr_created_at = c, vr_active = True\<rparr>]
     else history_of j rows)"
  by (induction rows) (auto simp: append_active_def history_of_def)

lemma append_active_history:
  assumes "history_ok (history_of i rows)" and "next_revision i rows = Inr n"
  shows "history_ok (history_of i (append_active i n x c rows))"
proof -
  let ?h = "history_of i rows"
  have "map (\<lambda>v. unat (revision_get (vr_revision v))) ?h = [1..<Suc (length ?h)]"
    using arg_cong [OF assms(1) [unfolded history_ok_def], of "map fst"] by (simp add: comp_def)
  then have "map (\<lambda>v. (unat (revision_get (vr_revision v)), False)) ?h = map (\<lambda>k. (k, False)) [1..<Suc (length ?h)]"
    by (metis (no_types, lifting) comp_apply list.map_comp map_eq_conv)
  moreover have "map (\<lambda>k. (k, k = Suc (length ?h))) [1..<Suc (length ?h)] = map (\<lambda>k. (k, False)) [1..<Suc (length ?h)]"
    by auto
  ultimately show ?thesis
    using next_revision_number [OF assms]
    by (simp add: history_of_append_active history_ok_def comp_def)
qed

lemma history_ok_Nil [simp]: "history_ok []"
  by (simp add: history_ok_def)

definition enrolled_row :: "repository_registration \<Rightarrow> revision option \<Rightarrow> repository_row" where
  "enrolled_row reg v =
     \<lparr>rr_id = rg_id reg, rr_checkout_path = rg_checkout_path reg,
      rr_canonical_remote = rg_canonical_remote reg, rr_managed_path = rg_managed_path reg,
      rr_created_at = rg_created_at reg, rr_active_policy_revision = v,
      rr_remote_identity = identity_str (remote_identity_of (rg_canonical_remote reg))\<rparr>"

lemma enrolled_row_sel [simp]:
  "rr_id (enrolled_row reg v) = rg_id reg" "registration_of (enrolled_row reg v) = reg"
  "rr_active_policy_revision (enrolled_row reg v) = v"
  "rr_remote_identity (enrolled_row reg v) = identity_str (remote_identity_of (rg_canonical_remote reg))"
  by (simp_all add: enrolled_row_def registration_of_def)

lemma set_active_revision_append:
  "i \<notin> rr_id ` set rows \<Longrightarrow>
     set_active_revision i v (rows @ [enrolled_row reg None])
     = (if rg_id reg = i then rows @ [enrolled_row reg (Some v)] else rows @ [enrolled_row reg None])"
  by (auto simp: set_active_revision_def enrolled_row_def intro!: map_idI)

lemma set_active_revision_id:
  "(\<And>r. f (r\<lparr>rr_active_policy_revision := Some v\<rparr>) = f r) \<Longrightarrow> map f (set_active_revision i v rows) = map f rows"
  by (simp add: set_active_revision_def comp_def if_distrib cong: map_cong)

definition first_schedule_rows :: "stored_schedule_policy option \<Rightarrow> schedule_policy revision_row list" where
  "first_schedule_rows schedule = (case schedule of None \<Rightarrow> [] | Some s \<Rightarrow>
     [\<lparr>vr_repository_id = ssp_repository_id s, vr_revision = ssp_revision s,
       vr_value = ssp_policy s, vr_created_at = ssp_created_at s, vr_active = True\<rparr>])"

lemma enroll_Inr:
  assumes "enroll_repository_inner g reg p schedule = Inr g'"
  shows "registration_validate reg = Inr ()" and "rg_id reg = rp_repository_id p"
    and "find (publishes g (identity_str (remote_identity_of (rg_canonical_remote reg)))
      (target_ref_str (rp_target p))) (rg_repositories g) = None"
    and "repositories_ok (rg_repositories g @ [enrolled_row reg None])"
    and "policies_ok (rg_repositories g @ [enrolled_row reg None]) (rg_policies g @ [policy_row_of p (rg_created_at reg)])"
    and "schedule = None \<or> revisions_ok (rg_repositories g @ [enrolled_row reg (Some (rp_revision p))])
      (rg_schedules g @ first_schedule_rows schedule)"
    and "g' = g\<lparr>rg_policies := rg_policies g @ [policy_row_of p (rg_created_at reg)],
      rg_repositories := rg_repositories g @ [enrolled_row reg (Some (rp_revision p))],
      rg_schedules := rg_schedules g @ first_schedule_rows schedule\<rparr>"
    and "active_policies_exist g'"
proof -
  have fresh: "rg_id reg \<notin> rr_id ` set (rg_repositories g)"
    if "repositories_ok (rg_repositories g @ [enrolled_row reg None])"
    using that by (auto simp: repositories_ok_def)
  show 1: "registration_validate reg = Inr ()" "rg_id reg = rp_repository_id p"
    "find (publishes g (identity_str (remote_identity_of (rg_canonical_remote reg)))
      (target_ref_str (rp_target p))) (rg_repositories g) = None"
    using assms by (auto simp: enroll_repository_inner_def ensure_policy_owner_def Let_def res split: option.splits)
  have step: "and_then (write_repositories g (rg_repositories g @ [enrolled_row reg None])) (\<lambda>g1.
      and_then (insert_policy g1 p (rg_created_at reg)) (\<lambda>g2.
        and_then (insert_first_schedule (g2\<lparr>rg_repositories :=
          set_active_revision (rg_id reg) (rp_revision p) (rg_repositories g2)\<rparr>) schedule) commit_registry)) = Inr g'"
    using assms 1(1,3) unfolding enroll_repository_inner_def
    by (simp add: ensure_policy_owner_def 1(2) ensure_def Let_def enrolled_row_def)
  show 2: "repositories_ok (rg_repositories g @ [enrolled_row reg None])"
    using step by (auto simp: write_repositories_def split: if_splits)
  show 3: "policies_ok (rg_repositories g @ [enrolled_row reg None]) (rg_policies g @ [policy_row_of p (rg_created_at reg)])"
    using step by (auto simp: write_repositories_def insert_policy_def Let_def split: if_splits)
  have rest: "and_then (insert_first_schedule (g\<lparr>rg_policies := rg_policies g @ [policy_row_of p (rg_created_at reg)],
      rg_repositories := rg_repositories g @ [enrolled_row reg (Some (rp_revision p))]\<rparr>) schedule) commit_registry = Inr g'"
    using step 2 3 set_active_revision_append [OF fresh [OF 2], of "rp_revision p" reg]
    by (simp add: write_repositories_def insert_policy_def Let_def)
  show "schedule = None \<or> revisions_ok (rg_repositories g @ [enrolled_row reg (Some (rp_revision p))])
      (rg_schedules g @ first_schedule_rows schedule)"
    using rest by (auto simp: insert_first_schedule_def first_schedule_rows_def Let_def res
        split: option.splits if_splits)
  show "g' = g\<lparr>rg_policies := rg_policies g @ [policy_row_of p (rg_created_at reg)],
      rg_repositories := rg_repositories g @ [enrolled_row reg (Some (rp_revision p))],
      rg_schedules := rg_schedules g @ first_schedule_rows schedule\<rparr>"
    and "active_policies_exist g'"
    using rest by (auto simp: insert_first_schedule_def first_schedule_rows_def Let_def res commit_registry_def
        split: option.splits if_splits)
qed

lemma repositories_ok_active:
  "repositories_ok (rows @ [enrolled_row reg v]) \<longleftrightarrow> repositories_ok (rows @ [enrolled_row reg None])"
  by (simp add: repositories_ok_def repository_row_ok_def enrolled_row_def)

lemma repositories_ok_set_active [simp]: "repositories_ok (set_active_revision i v rows) \<longleftrightarrow> repositories_ok rows"
proof -
  have "list_all repository_row_ok (set_active_revision i v rows) = list_all repository_row_ok rows"
    by (induction rows) (auto simp: set_active_revision_def repository_row_ok_def)
  then show ?thesis
    by (simp add: repositories_ok_def set_active_revision_id)
qed

lemma ids_set_active [simp]: "rr_id ` set (set_active_revision i v rows) = rr_id ` set rows"
  using set_active_revision_id [of rr_id v i rows] by (metis list.set_map repository_row.update_convs(6) repository_row.select_convs(1) repository_row.surjective)

lemma policies_ok_ids: "rr_id ` set rows = rr_id ` set rows' \<Longrightarrow> policies_ok rows ps \<longleftrightarrow> policies_ok rows' ps"
  by (simp add: policies_ok_def)

lemma revisions_ok_ids: "rr_id ` set rows = rr_id ` set rows' \<Longrightarrow> revisions_ok rows vs \<longleftrightarrow> revisions_ok rows' vs"
  by (simp add: revisions_ok_def)

lemma revisions_ok_mono: "revisions_ok rows vs \<Longrightarrow> rr_id ` set rows \<subseteq> rr_id ` set rows' \<Longrightarrow> revisions_ok rows' vs"
  by (auto simp: revisions_ok_def list_all_iff)

lemma history_of_new:
  assumes "revisions_ok rows vs" and "i \<notin> rr_id ` set rows"
  shows "history_of i vs = []"
  using assms by (auto simp: history_of_def revisions_ok_def list_all_iff filter_empty_conv)

lemma enroll_ok:
  assumes "registry_ok g" and "policy_valid p" and "enroll_repository_inner g reg p schedule = Inr g'"
    and "case schedule of None \<Rightarrow> True | Some s \<Rightarrow> ssp_repository_id s = rg_id reg \<and> ssp_revision s = revision_first"
  shows "registry_ok g'"
proof -
  note e = enroll_Inr [OF assms(3)]
  let ?rows = "rg_repositories g @ [enrolled_row reg (Some (rp_revision p))]"
  have ids: "rr_id ` set ?rows = rr_id ` set (rg_repositories g @ [enrolled_row reg None])" by simp
  have old: "revisions_ok ?rows (rg_schedules g)" "revisions_ok ?rows (rg_overrides g)"
    using assms(1) revisions_ok_mono [of "rg_repositories g" _ ?rows] by (auto simp: registry_ok_def)
  have new: "rg_id reg \<notin> rr_id ` set (rg_repositories g)" using e(4) by (auto simp: repositories_ok_def)
  have sched: "history_ok (history_of i (rg_schedules g @ first_schedule_rows schedule))" for i
  proof (cases "schedule = None \<or> i \<noteq> rg_id reg")
    case True
    then have "history_of i (first_schedule_rows schedule) = []"
      using assms(4) by (auto simp: first_schedule_rows_def history_of_def split: option.splits)
    then show ?thesis using assms(1) by (simp add: registry_ok_def history_of_def)
  next
    case False
    then have "history_of i (first_schedule_rows schedule) = first_schedule_rows schedule"
      using assms(4) by (auto simp: first_schedule_rows_def history_of_def)
    moreover have "history_of i (rg_schedules g) = []"
      using False assms(1) history_of_new [OF _ new] by (auto simp: registry_ok_def)
    ultimately have "history_of i (rg_schedules g @ first_schedule_rows schedule) = first_schedule_rows schedule"
      by (simp add: history_of_def)
    then show ?thesis
      using False assms(4) by (auto simp: first_schedule_rows_def history_ok_def revision_first_def)
  qed
  have row: "repository_row_valid (enrolled_row reg (Some (rp_revision p)))"
    using e(1) by (simp add: repository_row_valid_def) (simp add: enrolled_row_def)
  have first: "revisions_ok ?rows (rg_schedules g @ first_schedule_rows schedule)"
    using e(6) old(1) by (cases schedule) (simp_all add: first_schedule_rows_def)
  have pol: "policies_ok ?rows (rg_policies g @ [policy_row_of p (rg_created_at reg)])"
    using e(5) policies_ok_ids [OF ids] by blast
  have repos: "repositories_ok ?rows" using e(4) by (rule repositories_ok_active [THEN iffD2])
  have vals: "list_all repository_row_valid ?rows"
    "list_all (\<lambda>w. \<exists>p created. w = policy_row_of p created \<and> policy_valid p)
      (rg_policies g @ [policy_row_of p (rg_created_at reg)])"
    using assms(1,2) row by (auto simp: registry_ok_def)
  have "\<forall>i. history_ok (history_of i (rg_overrides g))" using assms(1) by (simp add: registry_ok_def)
  with sched row first pol repos vals old(2) e(8) show ?thesis unfolding e(7) registry_ok_def by simp
qed

lemma active_policies_exist_mono:
  assumes "active_policies_exist g" and "set (rg_policies g) \<subseteq> set (rg_policies g')"
    and "rg_repositories g' = rg_repositories g"
  shows "active_policies_exist g'"
  using assms by (fastforce simp: active_policies_exist_def list_all_iff split: option.splits)

lemma activate_policy_Inr:
  assumes "activate_policy_revision g p c = Inr g'"
  shows "g' = g\<lparr>rg_policies := rg_policies g @ [policy_row_of p c],
      rg_repositories := set_active_revision (rp_repository_id p) (rp_revision p) (rg_repositories g)\<rparr>"
    and "policies_ok (rg_repositories g) (rg_policies g @ [policy_row_of p c])"
    and "active_policies_exist g'" and "rp_repository_id p \<in> rr_id ` set (rg_repositories g)"
proof -
  show 1: "policies_ok (rg_repositories g) (rg_policies g @ [policy_row_of p c])"
    using assms by (auto simp: activate_policy_revision_def insert_policy_def Let_def res split: if_splits)
  have "length (filter (\<lambda>r. rr_id r = rp_repository_id p) (rg_repositories g)) = 1"
    and g': "commit_registry (g\<lparr>rg_policies := rg_policies g @ [policy_row_of p c],
      rg_repositories := set_active_revision (rp_repository_id p) (rp_revision p) (rg_repositories g)\<rparr>) = Inr g'"
    using assms 1 by (auto simp: activate_policy_revision_def insert_policy_def write_repositories_def Let_def res
        split: if_splits)
  then show "rp_repository_id p \<in> rr_id ` set (rg_repositories g)"
    by (metis (mono_tags, lifting) One_nat_def filter_False image_eqI length_0_conv n_not_Suc_n)
  show "g' = g\<lparr>rg_policies := rg_policies g @ [policy_row_of p c],
      rg_repositories := set_active_revision (rp_repository_id p) (rp_revision p) (rg_repositories g)\<rparr>"
    and "active_policies_exist g'"
    using g' by (auto simp: commit_registry_def split: if_splits)
qed

lemma repository_row_valid_set_active:
  "list_all repository_row_valid rows \<Longrightarrow> list_all repository_row_valid (set_active_revision i v rows)"
  by (induction rows) (auto simp: set_active_revision_def repository_row_valid_def registration_of_def)

lemma activate_policy_ok:
  assumes "registry_ok g" and "policy_valid p" and "activate_policy_revision g p c = Inr g'"
  shows "registry_ok g'"
proof -
  note a = activate_policy_Inr [OF assms(3)]
  let ?rows = "set_active_revision (rp_repository_id p) (rp_revision p) (rg_repositories g)"
  have r: "revisions_ok ?rows (rg_schedules g)" "revisions_ok ?rows (rg_overrides g)"
    using assms(1) by (auto simp: registry_ok_def intro: revisions_ok_mono [of "rg_repositories g"])
  have pol: "policies_ok ?rows (rg_policies g @ [policy_row_of p c])"
    using a(2) policies_ok_ids [OF ids_set_active] by blast
  have vals: "list_all repository_row_valid ?rows"
    "list_all (\<lambda>w. \<exists>p created. w = policy_row_of p created \<and> policy_valid p)
      (rg_policies g @ [policy_row_of p c])"
    using assms(1,2) repository_row_valid_set_active by (auto simp: registry_ok_def)
  show ?thesis
    using r pol vals a(3) assms(1) unfolding a(1) registry_ok_def by simp
qed

lemma active_policies_exist_other [simp]:
  "active_policies_exist (g\<lparr>rg_schedules := s\<rparr>) = active_policies_exist g"
  "active_policies_exist (g\<lparr>rg_overrides := v\<rparr>) = active_policies_exist g"
  by (simp_all add: active_policies_exist_def cong: option.case_cong)

lemma append_active_other_histories:
  assumes "\<forall>j. history_ok (history_of j rows)" and "next_revision i rows = Inr n"
  shows "\<forall>j. history_ok (history_of j (append_active i n x c rows))"
proof
  fix j
  show "history_ok (history_of j (append_active i n x c rows))"
    using append_active_history [of i rows n x c] assms by (cases "j = i") (simp_all add: history_of_append_active)
qed

lemma activate_schedule_ok:
  assumes "registry_ok g" and "activate_schedule_policy g s = Inr g'"
  shows "registry_ok g'"
proof -
  let ?rows = "append_active (ssp_repository_id s) (ssp_revision s) (ssp_policy s) (ssp_created_at s) (rg_schedules g)"
  have n: "next_revision (ssp_repository_id s) (rg_schedules g) = Inr (ssp_revision s)"
    and ok: "revisions_ok (rg_repositories g) ?rows" and g': "g' = g\<lparr>rg_schedules := ?rows\<rparr>"
    using assms(2) by (auto simp: activate_schedule_policy_def Let_def res commit_registry_def split: if_splits)
  have h: "\<forall>j. history_ok (history_of j ?rows)"
    using append_active_other_histories [OF _ n] assms(1) by (simp add: registry_ok_def)
  show ?thesis
    using assms(1) ok h unfolding g' registry_ok_def by simp
qed

lemma activate_override_ok:
  assumes "registry_ok g" and "activate_schedule_override g i ov c = Inr (g', n)"
  shows "registry_ok g'"
proof -
  let ?rows = "append_active i n ov c (rg_overrides g)"
  have n: "next_revision i (rg_overrides g) = Inr n"
    and ok: "revisions_ok (rg_repositories g) ?rows" and g': "g' = g\<lparr>rg_overrides := ?rows\<rparr>"
    using assms(2) by (auto simp: activate_schedule_override_def Let_def res commit_registry_def split: if_splits)
  have h: "\<forall>j. history_ok (history_of j ?rows)"
    using append_active_other_histories [OF _ n] assms(1) by (simp add: registry_ok_def)
  show ?thesis
    using assms(1) ok h unfolding g' registry_ok_def by simp
qed

section \<open>Reachable registries\<close>

inductive registry_step :: "registry \<Rightarrow> registry \<Rightarrow> bool" where
  enroll: "policy_valid p \<Longrightarrow> enroll_repository g reg p = Inr g' \<Longrightarrow> registry_step g g'"
| enroll_scheduled: "policy_valid p \<Longrightarrow> enroll_repository_with_initial_schedule g reg p s = Inr g' \<Longrightarrow> registry_step g g'"
| policy: "policy_valid p \<Longrightarrow> activate_policy_revision g p c = Inr g' \<Longrightarrow> registry_step g g'"
| schedule: "activate_schedule_policy g s = Inr g' \<Longrightarrow> registry_step g g'"
| schedule_override: "activate_schedule_override g i ov c = Inr (g', n) \<Longrightarrow> registry_step g g'"

inductive registry_reachable :: "registry \<Rightarrow> bool" where
  empty: "rg_repositories g = [] \<Longrightarrow> rg_policies g = [] \<Longrightarrow> rg_schedules g = [] \<Longrightarrow> rg_overrides g = []
    \<Longrightarrow> registry_reachable g"
| step: "registry_reachable g \<Longrightarrow> registry_step g g' \<Longrightarrow> registry_reachable g'"

lemma enroll_scheduled_inner:
  assumes "enroll_repository_with_initial_schedule g reg p s = Inr g'"
  shows "enroll_repository_inner g reg p (Some s) = Inr g'"
    and "ssp_repository_id s = rg_id reg" and "ssp_revision s = revision_first"
  using assms by (auto simp: enroll_repository_with_initial_schedule_def res)

lemma registry_step_ok:
  assumes "registry_step g g'" and "registry_ok g"
  shows "registry_ok g'"
  using assms
proof (cases rule: registry_step.cases)
  case (enroll p reg)
  then show ?thesis using enroll_ok [of g p reg None g'] assms(2) by (simp add: enroll_repository_def)
next
  case (enroll_scheduled p reg s)
  then show ?thesis
    using enroll_ok [of g p reg "Some s" g'] enroll_scheduled_inner [of g reg p s g'] assms(2) by simp
qed (blast intro: activate_policy_ok activate_schedule_ok activate_override_ok)+

lemma registry_reachable_ok: "registry_reachable g \<Longrightarrow> registry_ok g"
proof (induction rule: registry_reachable.induct)
  case (empty g)
  then show ?case
    by (simp add: registry_ok_def repositories_ok_def policies_ok_def revisions_ok_def active_policies_exist_def
        history_of_def)
next
  case (step g g')
  then show ?case using registry_step_ok by blast
qed

lemma repositories_of_loads:
  assumes "registry_ok g"
  obtains ss where "repositories_of g = Inr ss" and "length ss = length (rg_repositories g)"
    and "distinct (map (\<lambda>s. rg_id (sr_registration s)) ss)"
    and "list_all (\<lambda>s. policy_ok (sr_active_policy s)
      \<and> rp_repository_id (sr_active_policy s) = rg_id (sr_registration s)) ss"
proof -
  let ?load = "\<lambda>(r, p). stored_repository_of r p"
  define xs where "xs = sort_key (\<lambda>(r, p). id_display (rg_uuid_text g) RepositoryKind (rr_id r)) (joined_rows g)"
  have xs: "mset xs = mset (map (\<lambda>r. (r, policy_of_row g r)) (rg_repositories g))"
    by (simp add: xs_def joined_rows_eq [OF assms])
  have loads: "\<exists>s. ?load x = Inr s \<and> rg_id (sr_registration s) = rr_id (fst x) \<and> policy_ok (sr_active_policy s)
      \<and> rp_repository_id (sr_active_policy s) = rg_id (sr_registration s)" if x: "x \<in> set xs" for x
  proof -
    obtain r where r: "r \<in> set (rg_repositories g)" "x = (r, policy_of_row g r)"
      using x mset_eq_setD [OF xs] by auto
    show ?thesis
      by (rule joined_row_loads [OF assms r(1)]) (simp add: r(2) policy_valid_def)
  qed
  then obtain h where h: "\<And>x. x \<in> set xs \<Longrightarrow> ?load x = Inr (h x) \<and> rg_id (sr_registration (h x)) = rr_id (fst x)
      \<and> policy_ok (sr_active_policy (h x)) \<and> rp_repository_id (sr_active_policy (h x)) = rg_id (sr_registration (h x))"
    by metis
  have "mset (map (\<lambda>x. rr_id (fst x)) xs) = mset (map rr_id (rg_repositories g))"
    using arg_cong [OF xs, of "image_mset (\<lambda>x. rr_id (fst x))"]
    by (simp add: image_mset.compositionality comp_def)
  then have "distinct (map (\<lambda>x. rr_id (fst x)) xs)"
    using assms by (metis mset_eq_imp_distinct_iff registry_ok_def repositories_ok_def)
  moreover have "map (\<lambda>s. rg_id (sr_registration s)) (map h xs) = map (\<lambda>x. rr_id (fst x)) xs"
    using h by simp
  ultimately have d: "distinct (map (\<lambda>s. rg_id (sr_registration s)) (map h xs))" by (simp only:)
  show thesis
  proof (rule that [OF _ _ d])
    show "repositories_of g = Inr (map h xs)"
      using h collect_res_all [of xs ?load h] by (simp add: repositories_of_def xs_def [symmetric])
    show "length (map h xs) = length (rg_repositories g)" using mset_eq_length [OF xs] by simp
  qed (use h in \<open>simp add: list_all_iff\<close>)
qed

section \<open>Properties\<close>


lemma active_policy_row_append:
  assumes "registry_ok g" and "r \<in> set (rg_repositories g)"
  shows "active_policy_row (g\<lparr>rg_policies := rg_policies g @ ps, rg_repositories := rs, rg_schedules := ss\<rparr>) r
    = active_policy_row g r"
proof -
  obtain p c where "active_policy_row g r = Some (policy_row_of p c)"
    using active_policy_exists [OF assms] by metis
  then show ?thesis by (simp add: active_policy_row_def find_append)
qed

lemma enrolled_policy_row:
  assumes "registry_ok g" and "policies_ok rows (rg_policies g @ [policy_row_of p c])"
    and "rg_id reg = rp_repository_id p"
  shows "find (\<lambda>w. pw_repository_id w = rg_id reg \<and> Some (pw_revision w) = Some (rp_revision p))
    (rg_policies g @ [policy_row_of p c]) = Some (policy_row_of p c)"
  using filter_unique [of "\<lambda>w. (pw_repository_id w, pw_revision w)" "rg_policies g @ [policy_row_of p c]"
      "policy_row_of p c"] assms(2,3)
  by (simp add: find_filter policies_ok_def)

lemma enroll_reads_back:
  assumes "registry_ok g" and "policy_valid p" and "enroll_repository g reg p = Inr g'"
  shows "repository_of g' (rg_id reg) = Inr (Some \<lparr>sr_registration = reg, sr_active_policy = p\<rparr>)"
    and "repository_of g (rg_id reg) = Inr None"
    and "j \<noteq> rg_id reg \<Longrightarrow> repository_of g' j = repository_of g j"
proof -
  have inner: "enroll_repository_inner g reg p None = Inr g'" using assms(3) by (simp add: enroll_repository_def)
  note e = enroll_Inr [OF inner]
  have ok': "registry_ok g'" by (rule enroll_ok [OF assms(1,2) inner]) simp
  have rows: "rg_repositories g' = rg_repositories g @ [enrolled_row reg (Some (rp_revision p))]"
    by (simp add: e(7))
  have new: "rg_id reg \<notin> rr_id ` set (rg_repositories g)" using e(4) by (auto simp: repositories_ok_def)
  show "repository_of g (rg_id reg) = Inr None"
    by (simp add: repository_of_row [OF assms(1)] find_none [OF new])
  have pol: "policy_of_row g' (enrolled_row reg (Some (rp_revision p))) = policy_row_of p (rg_created_at reg)"
    using enrolled_policy_row [OF assms(1) e(5,2)] by (simp add: policy_of_row_def active_policy_row_def e(7))
  have "repository_row_valid (enrolled_row reg (Some (rp_revision p)))"
    using ok' rows by (simp add: registry_ok_def)
  then show "repository_of g' (rg_id reg) = Inr (Some \<lparr>sr_registration = reg, sr_active_policy = p\<rparr>)"
    using stored_repository_loads [of "enrolled_row reg (Some (rp_revision p))" p] assms(2) e(2) pol
      find_none [OF new]
    by (simp add: repository_of_row [OF ok'] rows find_append)
  show "repository_of g' j = repository_of g j" if "j \<noteq> rg_id reg"
  proof (cases "find (\<lambda>r. rr_id r = j) (rg_repositories g)")
    case None
    then show ?thesis using that by (simp add: repository_of_row [OF ok'] repository_of_row [OF assms(1)] rows find_append)
  next
    case (Some r)
    then have "r \<in> set (rg_repositories g)" by (auto simp: find_Some_iff)
    then have "policy_of_row g' r = policy_of_row g r"
      using active_policy_row_append [OF assms(1)] by (simp add: policy_of_row_def e(7))
    then show ?thesis
      using Some by (simp add: repository_of_row [OF ok'] repository_of_row [OF assms(1)] rows find_append)
  qed
qed

lemma activate_reads_back:
  assumes "registry_ok g" and "policy_valid p" and "activate_policy_revision g p c = Inr g'"
  shows "\<exists>s. repository_of g (rp_repository_id p) = Inr (Some s)
      \<and> repository_of g' (rp_repository_id p) = Inr (Some (s\<lparr>sr_active_policy := p\<rparr>))"
    and "j \<noteq> rp_repository_id p \<Longrightarrow> repository_of g' j = repository_of g j"
proof -
  note a = activate_policy_Inr [OF assms(3)]
  have ok': "registry_ok g'" by (rule activate_policy_ok [OF assms])
  let ?i = "rp_repository_id p"
  let ?set = "\<lambda>r. if rr_id r = ?i then r\<lparr>rr_active_policy_revision := Some (rp_revision p)\<rparr> else r"
  have rows: "rg_repositories g' = map ?set (rg_repositories g)"
    by (simp add: a(1) set_active_revision_def)
  have find: "find (\<lambda>r. rr_id r = j) (map ?set rs) = map_option ?set (find (\<lambda>r. rr_id r = j) rs)" for j rs
    by (induction rs) auto
  obtain r where r: "r \<in> set (rg_repositories g)" "rr_id r = ?i" using a(4) by auto
  have fr: "find (\<lambda>x. rr_id x = ?i) (rg_repositories g) = Some r"
    using find_id [of "rg_repositories g" r] r assms(1) by (simp add: registry_ok_def)
  obtain q where q: "stored_repository_of r (policy_of_row g r)
      = Inr \<lparr>sr_registration = registration_of r, sr_active_policy = q\<rparr>"
    by (rule joined_row_loads [OF assms(1) r(1)])
  have "repository_row_valid (?set r)"
    using ok' r(1) rows by (auto simp: registry_ok_def list_all_iff)
  moreover have "policy_of_row g' (?set r) = policy_row_of p c"
    using filter_unique [of "\<lambda>w. (pw_repository_id w, pw_revision w)" "rg_policies g @ [policy_row_of p c]"
        "policy_row_of p c"] a(2) r(2)
    by (simp add: policy_of_row_def active_policy_row_def a(1) find_filter policies_ok_def)
  ultimately have "stored_repository_of (?set r) (policy_of_row g' (?set r))
      = Inr \<lparr>sr_registration = registration_of r, sr_active_policy = p\<rparr>"
    using stored_repository_loads [of "?set r" p c] assms(2) r(2) by (simp add: registration_of_def)
  then show "\<exists>s. repository_of g ?i = Inr (Some s)
      \<and> repository_of g' ?i = Inr (Some (s\<lparr>sr_active_policy := p\<rparr>))"
    using q fr by (simp add: repository_of_row [OF ok'] repository_of_row [OF assms(1)] rows find)
  show "repository_of g' j = repository_of g j" if "j \<noteq> ?i"
  proof (cases "find (\<lambda>r. rr_id r = j) (rg_repositories g)")
    case None
    then show ?thesis by (simp add: repository_of_row [OF ok'] repository_of_row [OF assms(1)] rows find)
  next
    case (Some x)
    then have x: "x \<in> set (rg_repositories g)" "rr_id x = j" by (auto simp: find_Some_iff)
    then have "policy_of_row g' x = policy_of_row g x"
      using active_policy_row_append [OF assms(1) x(1)]
      by (simp add: policy_of_row_def a(1) active_policy_row_def)
    then show ?thesis
      using Some x(2) that by (simp add: repository_of_row [OF ok'] repository_of_row [OF assms(1)] rows find)
  qed
qed


text \<open>The branches that are published to, each with the identity of its remote.\<close>

definition publisher_keys :: "registry \<Rightarrow> (string \<times> string) list" where
  "publisher_keys g = map (\<lambda>(r, p). (rr_remote_identity r, pw_target_ref p)) (joined_rows g)"

lemma enroll_publisher_keys:
  assumes "registry_ok g" and "policy_valid p" and "enroll_repository g reg p = Inr g'"
    and "distinct (publisher_keys g)"
  shows "distinct (publisher_keys g')"
proof -
  have inner: "enroll_repository_inner g reg p None = Inr g'" using assms(3) by (simp add: enroll_repository_def)
  note e = enroll_Inr [OF inner]
  have ok': "registry_ok g'" by (rule enroll_ok [OF assms(1,2) inner]) simp
  let ?new = "enrolled_row reg (Some (rp_revision p))"
  have same: "policy_of_row g' r = policy_of_row g r" if "r \<in> set (rg_repositories g)" for r
    using active_policy_row_append [OF assms(1) that] by (simp add: policy_of_row_def e(7))
  have pol: "policy_of_row g' ?new = policy_row_of p (rg_created_at reg)"
    using enrolled_policy_row [OF assms(1) e(5,2)] by (simp add: policy_of_row_def active_policy_row_def e(7))
  have rows: "rg_repositories g' = rg_repositories g @ [?new]" by (simp add: e(7))
  have "publisher_keys g' = publisher_keys g
      @ [(identity_str (remote_identity_of (rg_canonical_remote reg)), target_ref_str (rp_target p))]"
    using same pol rows
    by (simp add: publisher_keys_def joined_rows_eq [OF ok'] joined_rows_eq [OF assms(1)] comp_def)
  moreover have "(identity_str (remote_identity_of (rg_canonical_remote reg)), target_ref_str (rp_target p))
      \<notin> set (publisher_keys g)"
  proof
    assume "(identity_str (remote_identity_of (rg_canonical_remote reg)), target_ref_str (rp_target p))
      \<in> set (publisher_keys g)"
    then obtain r where r: "r \<in> set (rg_repositories g)"
      "rr_remote_identity r = identity_str (remote_identity_of (rg_canonical_remote reg))"
      "pw_target_ref (policy_of_row g r) = target_ref_str (rp_target p)"
      by (auto simp: publisher_keys_def joined_rows_eq [OF assms(1)])
    obtain q c where "active_policy_row g r = Some (policy_row_of q c)"
      by (rule active_policy_exists [OF assms(1) r(1)])
    then have "publishes g (identity_str (remote_identity_of (rg_canonical_remote reg))) (target_ref_str (rp_target p)) r"
      using r by (simp add: publishes_def policy_of_row_def)
    then show False using e(3) r(1) by (auto simp: find_None_iff)
  qed
  ultimately show ?thesis using assms(4) by simp
qed

definition sample_registration :: "nat \<Rightarrow> repository_registration" where
  "sample_registration n =
     \<lparr>rg_id = Id (word_of_nat n), rg_checkout_path = ''/src/'' @ show_nat n,
      rg_canonical_remote = ''git@host:a/b'', rg_managed_path = ''/managed/'' @ show_nat n, rg_created_at = 1\<rparr>"

definition sample_policy :: "nat \<Rightarrow> nat \<Rightarrow> string \<Rightarrow> repository_policy" where
  "sample_policy n v branch =
     \<lparr>rp_repository_id = Id (word_of_nat n), rp_revision = Revision (word_of_nat v),
      rp_publication_mode = ScheduledCreation, rp_target = TargetRef (heads @ branch),
      rp_development_target = None, rp_target_integration = DirectPush\<rparr>"

definition empty_registry :: registry where
  "empty_registry = \<lparr>rg_repositories = [], rg_policies = [], rg_schedules = [], rg_overrides = [],
     rg_violation = [], rg_uuid_text = (\<lambda>_. [])\<rparr>"

definition registry_after :: "(store_error, registry) result \<Rightarrow> registry" where
  "registry_after r = (case r of Inr g \<Rightarrow> g | Inl _ \<Rightarrow> empty_registry)"

definition two_profiles :: registry where
  "two_profiles =
     registry_after (and_then (enroll_repository empty_registry (sample_registration 1) (sample_policy 1 1 ''main''))
       (\<lambda>g. enroll_repository g (sample_registration 2) (sample_policy 2 1 ''dev'')))"

definition clashing_profiles :: registry where
  "clashing_profiles = registry_after (activate_policy_revision two_profiles (sample_policy 2 2 ''main'') 2)"

lemma sample_policies_valid: "policy_valid (sample_policy n v ''main'')" "policy_valid (sample_policy n v ''dev'')"
  by (simp_all add: policy_valid_def sample_policy_def policy_ok_def target_valid_def target_ref_new_def heads_def
      strip_prefix_def)

lemma sample_runs:
  "\<exists>g. enroll_repository empty_registry (sample_registration 1) (sample_policy 1 1 ''main'') = Inr g
     \<and> enroll_repository g (sample_registration 2) (sample_policy 2 1 ''dev'') = Inr two_profiles"
  "activate_policy_revision two_profiles (sample_policy 2 2 ''main'') 2 = Inr clashing_profiles"
proof -
  have "is_ok (and_then (enroll_repository empty_registry (sample_registration 1) (sample_policy 1 1 ''main''))
       (\<lambda>g. enroll_repository g (sample_registration 2) (sample_policy 2 1 ''dev'')))"
    by code_simp
  then show "\<exists>g. enroll_repository empty_registry (sample_registration 1) (sample_policy 1 1 ''main'') = Inr g
     \<and> enroll_repository g (sample_registration 2) (sample_policy 2 1 ''dev'') = Inr two_profiles"
    by (auto simp: res two_profiles_def registry_after_def)
  have "is_ok (activate_policy_revision two_profiles (sample_policy 2 2 ''main'') 2)"
    by code_simp
  then show "activate_policy_revision two_profiles (sample_policy 2 2 ''main'') 2 = Inr clashing_profiles"
    by (auto simp: res clashing_profiles_def registry_after_def)
qed

lemma sample_reachable: "registry_reachable two_profiles" "registry_reachable clashing_profiles"
proof -
  have "registry_reachable empty_registry"
    by (rule registry_reachable.empty) (simp_all add: empty_registry_def)
  then show *: "registry_reachable two_profiles"
    using sample_runs(1) sample_policies_valid by (blast intro: registry_reachable.step registry_step.enroll)
  then show "registry_reachable clashing_profiles"
    using sample_runs(2) sample_policies_valid by (blast intro: registry_reachable.step registry_step.policy)
qed


section \<open>Witnesses\<close>




end
