(* ===== verification/Packages.thy ===== *)
theory Packages
  imports Tables Ids "HOL-Library.List_Lexorder" "HOL-Library.Char_ord"
begin

text \<open>
  Build workspaces, captured packages and recovery issues (\<open>crates/store/src/workspaces.rs\<close>,
  \<open>crates/store/src/snapshots.rs\<close>, the tables \<open>build_workspaces\<close>, \<open>snapshot_packages\<close> and
  \<open>snapshot_recovery_issues\<close> of \<open>crates/store/src/migrations.rs\<close>).

  The manifest and the prerequisites are JSON documents of serde, kept as decoded values.  A plan
  revision is referred to by its key: which of them are stored is an argument of the operations that
  check the foreign key.  A path is its text; on Unix it is absolute when it starts with a slash.
\<close>

datatype json = JNull | JBool bool | JNumber string | JString string | JArray "json list"
  | JObject "(string \<times> json) list"

section \<open>Rows\<close>

record workspace_record =
  wk_feature_id :: feature_id
  wk_revision :: revision
  wk_path :: string
  wk_base_commit :: string
  wk_prerequisites :: json
  wk_created_at :: int

record snapshot_record =
  sn_package_id :: package_id
  sn_revision :: revision
  sn_feature_id :: feature_id
  sn_plan_revision :: revision
  sn_path :: string
  sn_base_tree :: string
  sn_result_tree :: string
  sn_content_hash :: string
  sn_parent :: "package_id option"
  sn_manifest :: json
  sn_created_at :: int

record recovery_issue =
  ri_path :: string
  ri_kind :: string
  ri_message :: string
  ri_first_seen :: int
  ri_last_seen :: int

record package_db =
  kd_workspaces :: "workspace_record list"
  kd_snapshots :: "snapshot_record list"
  kd_issues :: "recovery_issue list"
  kd_violation :: string
  kd_uuid_text :: "uuid \<Rightarrow> string"

definition is_absolute :: "string \<Rightarrow> bool" where
  "is_absolute path \<longleftrightarrow> prefix ''/'' path"

definition hex_text :: "nat \<Rightarrow> string \<Rightarrow> bool" where
  "hex_text n s \<longleftrightarrow> length s = n \<and> list_all is_ascii_hexdigit s"

definition is_object :: "json \<Rightarrow> bool" where
  "is_object j \<longleftrightarrow> (case j of JObject _ \<Rightarrow> True | _ \<Rightarrow> False)"

definition is_array :: "json \<Rightarrow> bool" where
  "is_array j \<longleftrightarrow> (case j of JArray _ \<Rightarrow> True | _ \<Rightarrow> False)"

definition workspace_validate :: "workspace_record \<Rightarrow> (store_error, unit) result" where
  "workspace_validate w =
     and_then (ensure (is_absolute (wk_path w)) (InvalidData ''owned workspace path must be absolute'')) (\<lambda>_.
     and_then (ensure (hex_text 40 (wk_base_commit w))
       (InvalidData ''workspace base commit must be a full hexadecimal object ID'')) (\<lambda>_.
     and_then (ensure (is_array (wk_prerequisites w))
       (InvalidData ''workspace prerequisites must be a JSON array'')) (\<lambda>_.
     ensure (0 \<le> wk_created_at w)
       (InvalidData ''workspace creation timestamp must not be negative''))))"

definition snapshot_validate :: "snapshot_record \<Rightarrow> (store_error, unit) result" where
  "snapshot_validate s =
     and_then (ensure (is_absolute (sn_path s)) (InvalidData ''snapshot path must be absolute'')) (\<lambda>_.
     and_then (for_each (\<lambda>(name, value, n).
         ensure (hex_text n value) (InvalidData (''snapshot '' @ name @ '' is invalid'')))
       [(''base tree'', sn_base_tree s, 40), (''result tree'', sn_result_tree s, 40),
        (''content hash'', sn_content_hash s, 64)]) (\<lambda>_.
     ensure (is_object (sn_manifest s) \<and> 0 \<le> sn_created_at s)
       (InvalidData ''snapshot metadata is invalid'')))"

definition issue_validate :: "recovery_issue \<Rightarrow> (store_error, unit) result" where
  "issue_validate i =
     ensure (is_absolute (ri_path i) \<and> \<not> blank (ri_kind i) \<and> \<not> blank (ri_message i)
         \<and> 0 \<le> ri_first_seen i \<and> ri_first_seen i \<le> ri_last_seen i)
       (InvalidData ''snapshot recovery issue is invalid'')"

section \<open>The schema\<close>

definition workspace_key :: "workspace_record \<Rightarrow> feature_id \<times> revision" where
  "workspace_key w = (wk_feature_id w, wk_revision w)"

definition snapshot_key :: "snapshot_record \<Rightarrow> package_id \<times> revision" where
  "snapshot_key s = (sn_package_id s, sn_revision s)"

definition workspaces_ok :: "(feature_id \<times> revision) set \<Rightarrow> workspace_record list \<Rightarrow> bool" where
  "workspaces_ok plans rows \<longleftrightarrow>
     list_all (\<lambda>w. wk_path w \<noteq> [] \<and> length (wk_base_commit w) = 40 \<and> 0 \<le> wk_created_at w
        \<and> workspace_key w \<in> plans) rows
     \<and> distinct (map workspace_key rows) \<and> distinct (map wk_path rows)"

definition snapshots_ok :: "(feature_id \<times> revision) set \<Rightarrow> snapshot_record list \<Rightarrow> bool" where
  "snapshots_ok workspaces rows \<longleftrightarrow>
     list_all (\<lambda>s. sn_path s \<noteq> [] \<and> length (sn_base_tree s) = 40 \<and> length (sn_result_tree s) = 40
        \<and> length (sn_content_hash s) = 64 \<and> 0 \<le> sn_created_at s
        \<and> (sn_feature_id s, sn_plan_revision s) \<in> workspaces) rows
     \<and> distinct (map snapshot_key rows) \<and> distinct (map sn_path rows)"

definition issues_ok :: "recovery_issue list \<Rightarrow> bool" where
  "issues_ok rows \<longleftrightarrow>
     list_all (\<lambda>i. ri_path i \<noteq> [] \<and> \<not> sql_blank (ri_kind i) \<and> \<not> sql_blank (ri_message i)
        \<and> 0 \<le> ri_first_seen i \<and> 0 \<le> ri_last_seen i) rows
     \<and> distinct (map ri_path rows)"

section \<open>Workspaces\<close>

definition record_workspace ::
  "(feature_id \<times> revision) set \<Rightarrow> package_db \<Rightarrow> workspace_record \<Rightarrow> (store_error, package_db) result" where
  "record_workspace plans k w =
     and_then (workspace_validate w) (\<lambda>_.
     let rows = kd_workspaces k @ [w]
     in if workspaces_ok plans rows then Inr (k\<lparr>kd_workspaces := rows\<rparr>) else Inl (Conflict (kd_violation k)))"

definition advance_workspace_base ::
  "package_db \<Rightarrow> feature_id \<Rightarrow> revision \<Rightarrow> string \<Rightarrow> (store_error, package_db) result" where
  "advance_workspace_base k f v base =
     and_then (ensure (hex_text 40 base)
       (InvalidData ''advanced workspace base must be a full hexadecimal object ID'')) (\<lambda>_.
     and_then (ensure (length (filter (\<lambda>w. workspace_key w = (f, v)) (kd_workspaces k)) = 1)
       (InvalidData ''owned workspace is not stored'')) (\<lambda>_.
     Inr (k\<lparr>kd_workspaces :=
       map (\<lambda>w. if workspace_key w = (f, v) then w\<lparr>wk_base_commit := base\<rparr> else w) (kd_workspaces k)\<rparr>)))"

definition workspace_of ::
  "package_db \<Rightarrow> feature_id \<Rightarrow> revision \<Rightarrow> (store_error, workspace_record option) result" where
  "workspace_of k f v =
     (case find (\<lambda>w. workspace_key w = (f, v)) (kd_workspaces k) of
        None \<Rightarrow> Inr None
      | Some w \<Rightarrow> and_then (workspace_validate w) (\<lambda>_. Inr (Some w)))"

section \<open>Packages\<close>

definition record_snapshot :: "package_db \<Rightarrow> snapshot_record \<Rightarrow> (store_error, package_db) result" where
  "record_snapshot k s =
     and_then (snapshot_validate s) (\<lambda>_.
     and_then (ensure (sn_parent s \<noteq> Some (sn_package_id s))
       (InvalidData ''a package cannot be its own parent'')) (\<lambda>_.
     let rows = kd_snapshots k @ [s]
     in if snapshots_ok (workspace_key ` set (kd_workspaces k)) rows then Inr (k\<lparr>kd_snapshots := rows\<rparr>)
        else Inl (Conflict (kd_violation k))))"

text \<open>Every read decodes and validates the row it returns.\<close>

definition load_snapshot :: "snapshot_record \<Rightarrow> (store_error, snapshot_record) result" where
  "load_snapshot s = and_then (snapshot_validate s) (\<lambda>_. Inr s)"

definition load_optional :: "snapshot_record option \<Rightarrow> (store_error, snapshot_record option) result" where
  "load_optional found =
     (case found of None \<Rightarrow> Inr None | Some s \<Rightarrow> and_then (load_snapshot s) (\<lambda>s. Inr (Some s)))"

definition snapshot_of ::
  "package_db \<Rightarrow> package_id \<Rightarrow> revision \<Rightarrow> (store_error, snapshot_record option) result" where
  "snapshot_of k p v = load_optional (find (\<lambda>s. snapshot_key s = (p, v)) (kd_snapshots k))"

text \<open>\<open>ORDER BY created_at DESC, .. DESC LIMIT 1\<close>: the last row of the ascending order.\<close>

definition last_row :: "'a list \<Rightarrow> 'a option" where
  "last_row xs = (if xs = [] then None else Some (last xs))"

definition is_head :: "snapshot_record list \<Rightarrow> snapshot_record \<Rightarrow> bool" where
  "is_head rows h \<longleftrightarrow>
     \<not> list_ex (\<lambda>c. sn_feature_id c = sn_feature_id h \<and> sn_plan_revision c = sn_plan_revision h
        \<and> sn_parent c = Some (sn_package_id h)) rows"

definition latest_workspace_snapshot ::
  "package_db \<Rightarrow> feature_id \<Rightarrow> revision \<Rightarrow> (store_error, snapshot_record option) result" where
  "latest_workspace_snapshot k f v =
     load_optional (last_row (sort_key sn_created_at
       (sort_key (\<lambda>s. id_display (kd_uuid_text k) PackageKind (sn_package_id s))
         (filter (\<lambda>s. sn_feature_id s = f \<and> sn_plan_revision s = v \<and> is_head (kd_snapshots k) s)
           (kd_snapshots k)))))"

definition snapshots_of :: "package_db \<Rightarrow> (store_error, snapshot_record list) result" where
  "snapshots_of k =
     collect_res load_snapshot (sort_key sn_created_at
       (sort_key (\<lambda>s. id_display (kd_uuid_text k) PackageKind (sn_package_id s))
         (sort_key (\<lambda>s. unat (revision_get (sn_revision s))) (kd_snapshots k))))"

definition dangling_package_parents :: "package_db \<Rightarrow> (package_id \<times> package_id) list" where
  "dangling_package_parents k =
     concat (map (\<lambda>c. case sn_parent c of
         None \<Rightarrow> []
       | Some p \<Rightarrow> if p \<in> sn_package_id ` set (kd_snapshots k) then [] else [(sn_package_id c, p)])
       (sort_key (\<lambda>s. id_display (kd_uuid_text k) PackageKind (sn_package_id s)) (kd_snapshots k)))"

section \<open>Recovery issues\<close>

definition record_snapshot_recovery_issue :: "package_db \<Rightarrow> recovery_issue \<Rightarrow> (store_error, package_db) result" where
  "record_snapshot_recovery_issue k i =
     and_then (issue_validate i) (\<lambda>_.
     let rows =
       (if ri_path i \<in> ri_path ` set (kd_issues k)
        then map (\<lambda>r. if ri_path r = ri_path i
          then r\<lparr>ri_kind := ri_kind i, ri_message := ri_message i, ri_last_seen := ri_last_seen i\<rparr> else r) (kd_issues k)
        else kd_issues k @ [i])
     in if issues_ok rows then Inr (k\<lparr>kd_issues := rows\<rparr>) else Inl (Sqlite (kd_violation k)))"

definition clear_snapshot_recovery_issue :: "package_db \<Rightarrow> string \<Rightarrow> package_db" where
  "clear_snapshot_recovery_issue k path = k\<lparr>kd_issues := filter (\<lambda>r. ri_path r \<noteq> path) (kd_issues k)\<rparr>"

definition snapshot_recovery_issues :: "package_db \<Rightarrow> (store_error, recovery_issue list) result" where
  "snapshot_recovery_issues k =
     collect_res (\<lambda>i. and_then (issue_validate i) (\<lambda>_. Inr i))
       (sort_key (\<lambda>i. - ri_last_seen i) (sort_key ri_path (kd_issues k)))"

section \<open>Steps of the package store\<close>

inductive package_step :: "(feature_id \<times> revision) set \<Rightarrow> package_db \<Rightarrow> package_db \<Rightarrow> bool" for plans where
  workspace: "record_workspace plans k w = Inr k' \<Longrightarrow> package_step plans k k'"
| base: "advance_workspace_base k f v b = Inr k' \<Longrightarrow> package_step plans k k'"
| snapshot: "record_snapshot k s = Inr k' \<Longrightarrow> package_step plans k k'"
| issue: "record_snapshot_recovery_issue k i = Inr k' \<Longrightarrow> package_step plans k k'"
| clear: "package_step plans k (clear_snapshot_recovery_issue k path)"

definition packages_ok :: "(feature_id \<times> revision) set \<Rightarrow> package_db \<Rightarrow> bool" where
  "packages_ok plans k \<longleftrightarrow>
     workspaces_ok plans (kd_workspaces k) \<and> list_all (\<lambda>w. workspace_validate w = Inr ()) (kd_workspaces k)
     \<and> snapshots_ok (workspace_key ` set (kd_workspaces k)) (kd_snapshots k)
     \<and> list_all (\<lambda>s. snapshot_validate s = Inr () \<and> sn_parent s \<noteq> Some (sn_package_id s)) (kd_snapshots k)
     \<and> issues_ok (kd_issues k)"

lemma packages_ok_mono: "packages_ok plans k \<Longrightarrow> plans \<subseteq> plans' \<Longrightarrow> packages_ok plans' k"
  by (auto simp: packages_ok_def workspaces_ok_def list_all_iff)

lemma no_packages_ok:
  "kd_workspaces k = [] \<Longrightarrow> kd_snapshots k = [] \<Longrightarrow> kd_issues k = [] \<Longrightarrow> packages_ok plans k"
  by (simp add: packages_ok_def workspaces_ok_def snapshots_ok_def issues_ok_def)

lemma workspace_key_base [simp]: "workspace_key (w\<lparr>wk_base_commit := b\<rparr>) = workspace_key w"
  by (simp add: workspace_key_def)

lemma rebased_keys [simp]:
  "map workspace_key (map (\<lambda>w. if c w then w\<lparr>wk_base_commit := b\<rparr> else w) ws) = map workspace_key ws"
  "map wk_path (map (\<lambda>w. if c w then w\<lparr>wk_base_commit := b\<rparr> else w) ws) = map wk_path ws"
  by simp_all

lemma rebased_valid:
  assumes "workspace_validate w = Inr ()" and "hex_text 40 b"
  shows "workspace_validate (w\<lparr>wk_base_commit := b\<rparr>) = Inr ()"
  using assms by (simp add: workspace_validate_def res)

lemma snapshots_ok_mono: "snapshots_ok ws rows \<Longrightarrow> ws \<subseteq> ws' \<Longrightarrow> snapshots_ok ws' rows"
  by (auto simp: snapshots_ok_def list_all_iff)

lemma package_step_ok:
  assumes "package_step plans k k'" and "packages_ok plans k"
  shows "packages_ok plans k'"
  using assms
proof (cases rule: package_step.cases)
  case (workspace w)
  then have "workspaces_ok plans (kd_workspaces k @ [w])" "k' = k\<lparr>kd_workspaces := kd_workspaces k @ [w]\<rparr>"
    "workspace_validate w = Inr ()"
    unfolding record_workspace_def Let_def and_then_Inr_iff by (simp_all split: if_splits)
  moreover from this(1) have "snapshots_ok (workspace_key ` set (kd_workspaces k @ [w])) (kd_snapshots k)"
    using assms(2) by (auto simp: packages_ok_def intro: snapshots_ok_mono)
  ultimately show ?thesis using assms(2) by (simp add: packages_ok_def)
next
  case (base f v b)
  let ?ws = "map (\<lambda>w. if workspace_key w = (f, v) then w\<lparr>wk_base_commit := b\<rparr> else w) (kd_workspaces k)"
  have k': "k' = k\<lparr>kd_workspaces := ?ws\<rparr>" and b: "hex_text 40 b"
    using base by (auto simp: advance_workspace_base_def res)
  have "workspaces_ok plans ?ws"
    using assms(2) b unfolding workspaces_ok_def packages_ok_def rebased_keys
    by (auto simp: list_all_iff hex_text_def)
  moreover have "list_all (\<lambda>w. workspace_validate w = Inr ()) ?ws"
  proof -
    have "\<forall>w \<in> set (kd_workspaces k). workspace_validate w = Inr ()"
      using assms(2) by (simp add: packages_ok_def list_all_iff)
    then show ?thesis by (simp add: list_all_iff) (blast intro: rebased_valid b)
  qed
  moreover have "workspace_key ` set ?ws = workspace_key ` set (kd_workspaces k)"
    using arg_cong [OF rebased_keys(1) [of "\<lambda>w. workspace_key w = (f, v)" b "kd_workspaces k"], of set]
    unfolding list.set_map .
  ultimately show ?thesis using assms(2) k' by (simp add: packages_ok_def)
next
  case (snapshot s)
  then have "snapshots_ok (workspace_key ` set (kd_workspaces k)) (kd_snapshots k @ [s])"
    "k' = k\<lparr>kd_snapshots := kd_snapshots k @ [s]\<rparr>" "snapshot_validate s = Inr ()"
    "sn_parent s \<noteq> Some (sn_package_id s)"
    by (auto simp: record_snapshot_def Let_def res split: if_splits)
  then show ?thesis using assms(2) by (simp add: packages_ok_def)
next
  case (issue i)
  then have "issues_ok (kd_issues k') \<and> (\<exists>rows. k' = k\<lparr>kd_issues := rows\<rparr>)"
    by (auto simp: record_snapshot_recovery_issue_def Let_def res split: if_splits)
  then show ?thesis using assms(2) by (auto simp: packages_ok_def)
next
  case (clear path)
  have "issues_ok (filter (\<lambda>r. ri_path r \<noteq> path) (kd_issues k))"
    using assms(2) by (simp add: packages_ok_def issues_ok_def list_all_iff distinct_map_filter)
  then show ?thesis using assms(2) clear by (simp add: packages_ok_def clear_snapshot_recovery_issue_def)
qed

text \<open>Nothing rewrites or drops a captured package, and a workspace is never forgotten.\<close>

lemma package_step_history:
  assumes "package_step plans k k'"
  shows "(\<exists>new. kd_snapshots k' = kd_snapshots k @ new) \<and> workspace_key ` set (kd_workspaces k) \<subseteq> workspace_key ` set (kd_workspaces k')"
  using assms
proof (cases rule: package_step.cases)
  case (base f v b)
  then have "map workspace_key (kd_workspaces k') = map workspace_key (kd_workspaces k)" "kd_snapshots k' = kd_snapshots k"
    using rebased_keys(1) [of "\<lambda>w. workspace_key w = (f, v)" b "kd_workspaces k"]
    by (auto simp: advance_workspace_base_def res)
  from arg_cong [OF this(1), of set]
  have "workspace_key ` set (kd_workspaces k') = workspace_key ` set (kd_workspaces k)"
    unfolding list.set_map .
  then show ?thesis using \<open>kd_snapshots k' = kd_snapshots k\<close> by simp
qed (auto simp: record_workspace_def record_snapshot_def record_snapshot_recovery_issue_def
    clear_snapshot_recovery_issue_def Let_def res split: if_splits)

lemma snapshot_at:
  assumes "packages_ok plans k" and "s \<in> set (kd_snapshots k)"
  shows "snapshot_of k (sn_package_id s) (sn_revision s) = Inr (Some s)"
proof -
  have "find (\<lambda>x. snapshot_key x = snapshot_key s) (kd_snapshots k) = Some s"
    using filter_unique [OF _ assms(2), of snapshot_key] assms(1)
    by (simp add: find_filter packages_ok_def snapshots_ok_def)
  then show ?thesis
    using assms by (auto simp: snapshot_of_def load_optional_def load_snapshot_def snapshot_key_def packages_ok_def list_all_iff)
qed

lemma snapshot_of_Some:
  assumes "snapshot_of k p v = Inr (Some s)"
  shows "s \<in> set (kd_snapshots k)" and "snapshot_key s = (p, v)"
  using assms by (auto simp: snapshot_of_def load_optional_def load_snapshot_def res dest: find_Some_in split: option.splits)

text \<open>A package stays what it was when it was captured.\<close>

lemma snapshots_immutable:
  assumes "packages_ok plans k" and "package_step plans k k'" and "snapshot_of k p v = Inr (Some s)"
  shows "snapshot_of k' p v = Inr (Some s)"
proof -
  have "s \<in> set (kd_snapshots k')"
    using snapshot_of_Some(1) [OF assms(3)] package_step_history [OF assms(2)] by auto
  then show ?thesis
    using snapshot_at [OF package_step_ok [OF assms(2,1)]] snapshot_of_Some(2) [OF assms(3)]
    by (auto simp: snapshot_key_def)
qed

section \<open>The chain of a workspace\<close>

definition heads_of :: "package_db \<Rightarrow> feature_id \<Rightarrow> revision \<Rightarrow> snapshot_record list" where
  "heads_of k f v =
     filter (\<lambda>s. sn_feature_id s = f \<and> sn_plan_revision s = v \<and> is_head (kd_snapshots k) s) (kd_snapshots k)"

lemma latest_of_single_head:
  assumes "heads_of k f v = [h]"
  shows "latest_workspace_snapshot k f v = load_optional (Some h)"
  using assms by (simp add: latest_workspace_snapshot_def heads_of_def last_row_def)

lemma latest_of_no_head: "heads_of k f v = [] \<Longrightarrow> latest_workspace_snapshot k f v = Inr None"
  by (simp add: latest_workspace_snapshot_def heads_of_def last_row_def load_optional_def)

text \<open>A package recorded on top of the only head is the only head afterwards, so the chain of a workspace
  never forks as long as every capture names the current head as its parent.\<close>

lemma capture_extends_chain:
  assumes "packages_ok plans k" and "record_snapshot k s = Inr k'"
    and "heads_of k (sn_feature_id s) (sn_plan_revision s) = (case sn_parent s of None \<Rightarrow> [] | Some p \<Rightarrow> [h])"
    and "sn_parent s = None \<or> sn_parent s = Some (sn_package_id h)"
    and "\<forall>c \<in> set (kd_snapshots k). sn_parent c \<noteq> Some (sn_package_id s)"
  shows "heads_of k' (sn_feature_id s) (sn_plan_revision s) = [s]
    \<and> latest_workspace_snapshot k' (sn_feature_id s) (sn_plan_revision s) = Inr (Some s)"
proof -
  let ?f = "sn_feature_id s" and ?v = "sn_plan_revision s"
  have k': "k' = k\<lparr>kd_snapshots := kd_snapshots k @ [s]\<rparr>" and valid: "snapshot_validate s = Inr ()"
    and self: "sn_parent s \<noteq> Some (sn_package_id s)"
    using assms(2) by (auto simp: record_snapshot_def Let_def res split: if_splits)
  have "is_head (kd_snapshots k @ [s]) s"
    using assms(5) self by (auto simp: is_head_def list_ex_iff)
  moreover have "\<not> is_head (kd_snapshots k @ [s]) x"
    if "x \<in> set (kd_snapshots k)" "sn_feature_id x = ?f" "sn_plan_revision x = ?v" for x
  proof
    assume "is_head (kd_snapshots k @ [s]) x"
    then have head: "is_head (kd_snapshots k) x" and np: "sn_parent s \<noteq> Some (sn_package_id x)"
      using that(2,3) by (auto simp: is_head_def)
    have "x \<in> set (heads_of k ?f ?v)" using that head by (simp add: heads_of_def)
    then have "sn_parent s \<noteq> None \<and> x = h" using assms(3) by (cases "sn_parent s") auto
    then show False using np assms(4) by auto
  qed
  then have "filter (\<lambda>x. sn_feature_id x = ?f \<and> sn_plan_revision x = ?v \<and> is_head (kd_snapshots k @ [s]) x) (kd_snapshots k) = []"
    by (auto simp: filter_empty_conv)
  ultimately have "heads_of k' ?f ?v = [s]" by (simp add: heads_of_def k')
  then show ?thesis
    using latest_of_single_head valid by (simp add: load_optional_def load_snapshot_def)
qed

section \<open>A clock that steps back\<close>

text \<open>The upsert keeps when an issue was first seen and takes when it was last seen from the new report.
  After a report whose clock is behind the stored one no issue can be listed any more.\<close>

definition sample_issue :: "int \<Rightarrow> recovery_issue" where
  "sample_issue now =
     \<lparr>ri_path = ''/p'', ri_kind = ''corrupt'', ri_message = ''m'', ri_first_seen = now, ri_last_seen = now\<rparr>"

definition empty_packages :: package_db where
  "empty_packages =
     \<lparr>kd_workspaces = [], kd_snapshots = [], kd_issues = [], kd_violation = ''constraint'', kd_uuid_text = (\<lambda>_. [])\<rparr>"

lemma recovery_issue_clock_step_back:
  "\<exists>k1 k2. record_snapshot_recovery_issue empty_packages (sample_issue 5) = Inr k1
     \<and> snapshot_recovery_issues k1 = Inr [sample_issue 5]
     \<and> record_snapshot_recovery_issue k1 (sample_issue 3) = Inr k2
     \<and> snapshot_recovery_issues k2 = Inl (InvalidData ''snapshot recovery issue is invalid'')"
proof -
  let ?k1 = "empty_packages\<lparr>kd_issues := [sample_issue 5]\<rparr>"
  let ?k2 = "empty_packages\<lparr>kd_issues := [(sample_issue 5)\<lparr>ri_last_seen := 3\<rparr>]\<rparr>"
  have v: "issue_validate (sample_issue n) = Inr ()" if "0 \<le> n" for n
  proof -
    have "\<not> blank ''corrupt''" "\<not> blank ''m''" "is_absolute ''/p''" by code_simp+
    then show ?thesis using that by (simp add: issue_validate_def sample_issue_def res)
  qed
  have "record_snapshot_recovery_issue empty_packages (sample_issue 5) = Inr ?k1"
    using v [of 5] by (simp add: record_snapshot_recovery_issue_def empty_packages_def issues_ok_def sample_issue_def sql_blank_def)
  moreover have "snapshot_recovery_issues ?k1 = Inr [sample_issue 5]"
    using v [of 5] by (simp add: snapshot_recovery_issues_def)
  moreover have "record_snapshot_recovery_issue ?k1 (sample_issue 3) = Inr ?k2"
    using v [of 3] by (simp add: record_snapshot_recovery_issue_def empty_packages_def issues_ok_def sample_issue_def sql_blank_def)
  moreover have "snapshot_recovery_issues ?k2 = Inl (InvalidData ''snapshot recovery issue is invalid'')"
    by (simp add: snapshot_recovery_issues_def issue_validate_def sample_issue_def ensure_def)
  ultimately show ?thesis by blast
qed

end
