(* ===== verification/PlanStore.thy ===== *)
theory PlanStore
  imports Registry Plan Packages "HOL-Library.List_Lexorder" "HOL-Library.Char_ord"
begin

text \<open>
  Stored plans and the durable state of their tasks (\<open>crates/store/src/plans.rs\<close>,
  \<open>crates/store/src/tasks.rs\<close>, and the tables \<open>feature_plans\<close>, \<open>plan_tasks\<close>,
  \<open>plan_task_dependencies\<close> and \<open>snapshot_package_tasks\<close> of \<open>crates/store/src/migrations.rs\<close>).

  A plan is stored as its JSON document, by serde; the model keeps the document in the column.  An
  import appends one revision and projects its tasks and edges into rows, in one transaction.
  Afterwards a task moves by transitions of the lifecycle machine of \<open>TaskState\<close>, each a guarded
  update of its row.  The rendering of a plan error is a field of the database.
\<close>

section \<open>Rows\<close>

record task_row =
  tk_feature_id :: feature_id
  tk_plan_revision :: revision
  tk_task_id :: task_id
  tk_name :: string
  tk_status :: string
  tk_reason :: "state_reason option"
  tk_blocked_from :: "string option"
  tk_updated_at :: int

record edge_row =
  eg_feature_id :: feature_id
  eg_plan_revision :: revision
  eg_task_id :: task_id
  eg_depends_on :: task_id
  eg_milestone :: string

record plan_row =
  pl_feature_id :: feature_id
  pl_revision :: revision
  pl_repository_id :: repository_id
  pl_target_ref :: string
  pl_sealed :: bool
  pl_document :: feature_plan
  pl_created_at :: int

record plan_db =
  pdb_registry :: registry
  pdb_plans :: "plan_row list"
  pdb_tasks :: "task_row list"
  pdb_edges :: "edge_row list"
  pdb_packages :: package_db
  pdb_package_tasks :: "(package_id \<times> revision \<times> task_id) list"
  pdb_plan_error_text :: "plan_error \<Rightarrow> string"

record task_record =
  tr_feature_id :: feature_id
  tr_plan_revision :: revision
  tr_task_id :: task_id
  tr_name :: string
  tr_state :: task_state
  tr_updated_at :: int

record task_dependency =
  dp_task_id :: task_id
  dp_depends_on :: task_id
  dp_required_milestone :: target_milestone

record stored_plan =
  stp_plan :: feature_plan
  stp_created_at :: int

abbreviation pdb_violation :: "plan_db \<Rightarrow> string" where
  "pdb_violation db \<equiv> rg_violation (pdb_registry db)"

abbreviation pdb_uuid_text :: "plan_db \<Rightarrow> uuid \<Rightarrow> string" where
  "pdb_uuid_text db \<equiv> rg_uuid_text (pdb_registry db)"

section \<open>The schema\<close>

definition plan_key :: "plan_row \<Rightarrow> feature_id \<times> revision" where
  "plan_key r = (pl_feature_id r, pl_revision r)"

definition task_key :: "task_row \<Rightarrow> feature_id \<times> revision \<times> task_id" where
  "task_key r = (tk_feature_id r, tk_plan_revision r, tk_task_id r)"

definition edge_key :: "edge_row \<Rightarrow> feature_id \<times> revision \<times> task_id \<times> task_id" where
  "edge_key e = (eg_feature_id e, eg_plan_revision e, eg_task_id e, eg_depends_on e)"

definition plans_ok :: "plan_db \<Rightarrow> plan_row list \<Rightarrow> bool" where
  "plans_ok db rows \<longleftrightarrow>
     list_all (\<lambda>r. like_heads (pl_target_ref r) \<and> 0 \<le> pl_created_at r
        \<and> pl_repository_id r \<in> rr_id ` set (rg_repositories (pdb_registry db))) rows
     \<and> distinct (map plan_key rows)"

definition task_row_ok :: "task_row \<Rightarrow> bool" where
  "task_row_ok r \<longleftrightarrow>
     \<not> sql_blank (tk_name r)
     \<and> tk_status r \<in> {''planned'', ''building'', ''captured'', ''validated'', ''queued'', ''scheduled'',
          ''reconciling'', ''verifying'', ''commit_prepared'', ''push_pending'', ''remote_confirmed'',
          ''published'', ''blocked'', ''cancelled'', ''superseded''}
     \<and> 0 \<le> tk_updated_at r \<and> (tk_status r = ''blocked'' \<longleftrightarrow> tk_blocked_from r \<noteq> None)"

definition tasks_ok :: "plan_db \<Rightarrow> task_row list \<Rightarrow> bool" where
  "tasks_ok db rows \<longleftrightarrow>
     list_all task_row_ok rows \<and> distinct (map task_key rows)
     \<and> list_all (\<lambda>r. (tk_feature_id r, tk_plan_revision r) \<in> plan_key ` set (pdb_plans db)) rows"

definition edges_ok :: "plan_db \<Rightarrow> edge_row list \<Rightarrow> bool" where
  "edges_ok db rows \<longleftrightarrow>
     list_all (\<lambda>e. eg_milestone e \<in> {''captured'', ''development_available'', ''target_published''}
        \<and> eg_task_id e \<noteq> eg_depends_on e
        \<and> (eg_feature_id e, eg_plan_revision e, eg_task_id e) \<in> task_key ` set (pdb_tasks db)
        \<and> (eg_feature_id e, eg_plan_revision e, eg_depends_on e) \<in> task_key ` set (pdb_tasks db)) rows
     \<and> distinct (map edge_key rows)"

definition package_tasks_ok :: "plan_db \<Rightarrow> (package_id \<times> revision \<times> task_id) list \<Rightarrow> bool" where
  "package_tasks_ok db rows \<longleftrightarrow>
     distinct rows \<and> list_all (\<lambda>(p, v, t). (p, v) \<in> snapshot_key ` set (kd_snapshots (pdb_packages db))) rows"

section \<open>Importing a plan\<close>

definition insert_task :: "feature_plan \<Rightarrow> int \<Rightarrow> plan_db \<Rightarrow> plan_task \<Rightarrow> (store_error, plan_db) result" where
  "insert_task p created db t =
     (let rows = pdb_tasks db @
        [\<lparr>tk_feature_id = fp_feature_id p, tk_plan_revision = fp_revision p, tk_task_id = pt_id t,
          tk_name = pt_name t, tk_status = ''planned'', tk_reason = None, tk_blocked_from = None,
          tk_updated_at = created\<rparr>]
      in if tasks_ok db rows then Inr (db\<lparr>pdb_tasks := rows\<rparr>) else Inl (Sqlite (pdb_violation db)))"

definition insert_edge ::
  "feature_plan \<Rightarrow> plan_task \<Rightarrow> plan_db \<Rightarrow> task_id \<times> target_milestone \<Rightarrow> (store_error, plan_db) result" where
  "insert_edge p t db = (\<lambda>(prerequisite, milestone).
     let rows = pdb_edges db @
        [\<lparr>eg_feature_id = fp_feature_id p, eg_plan_revision = fp_revision p, eg_task_id = pt_id t,
          eg_depends_on = prerequisite, eg_milestone = milestone_column milestone\<rparr>]
     in if edges_ok db rows then Inr (db\<lparr>pdb_edges := rows\<rparr>) else Inl (Sqlite (pdb_violation db)))"

definition insert_plan_tasks :: "plan_db \<Rightarrow> feature_plan \<Rightarrow> int \<Rightarrow> (store_error, plan_db) result" where
  "insert_plan_tasks db p created =
     and_then (fold_res (insert_task p created) db (plan_tasks_of p)) (\<lambda>db.
       fold_res (\<lambda>db t. fold_res (insert_edge p t) db (pt_dependencies t)) db (plan_tasks_of p))"

definition configured_target :: "registry \<Rightarrow> repository_id \<Rightarrow> string option" where
  "configured_target g i =
     map_option (\<lambda>(r, p). pw_target_ref p) (find (\<lambda>(r, p). rr_id r = i) (joined_rows g))"

text \<open>\<open>ORDER BY revision DESC LIMIT 1\<close>.\<close>

definition newest_plan :: "plan_row list \<Rightarrow> plan_row option" where
  "newest_plan rows =
     (case rev (sort_key (\<lambda>r. unat (revision_get (pl_revision r))) rows) of [] \<Rightarrow> None | r # _ \<Rightarrow> Some r)"

definition plans_of_feature :: "plan_db \<Rightarrow> feature_id \<Rightarrow> plan_row list" where
  "plans_of_feature db f = filter (\<lambda>r. pl_feature_id r = f) (pdb_plans db)"

definition expected_revision :: "plan_db \<Rightarrow> feature_plan \<Rightarrow> (store_error, revision) result" where
  "expected_revision db p =
     (case newest_plan (plans_of_feature db (fp_feature_id p)) of
        None \<Rightarrow> Inr revision_first
      | Some r \<Rightarrow>
          if pl_repository_id r \<noteq> fp_repository_id p
          then Inl (Conflict ''a feature cannot move between repositories'')
          else map_err (\<lambda>e. InvalidData (revision_error_text e)) (revision_next (pl_revision r)))"

definition insert_plan :: "plan_db \<Rightarrow> feature_plan \<Rightarrow> int \<Rightarrow> (store_error, plan_db) result" where
  "insert_plan db p created =
     (let rows = pdb_plans db @
        [\<lparr>pl_feature_id = fp_feature_id p, pl_revision = fp_revision p, pl_repository_id = fp_repository_id p,
          pl_target_ref = target_ref_str (fp_target p), pl_sealed = fp_sealed p, pl_document = p,
          pl_created_at = created\<rparr>]
      in if plans_ok db rows then Inr (db\<lparr>pdb_plans := rows\<rparr>) else Inl (Conflict (pdb_violation db)))"

text \<open>\<open>None\<close> would be a panic of the validation.\<close>

definition import_plan :: "plan_db \<Rightarrow> feature_plan \<Rightarrow> int \<Rightarrow> (store_error, plan_db) result option" where
  "import_plan db p created =
     map_option (\<lambda>valid.
       and_then (map_err (\<lambda>e. InvalidData (pdb_plan_error_text db e)) valid) (\<lambda>_.
       and_then (ensure (0 \<le> created) (InvalidData ''plan import timestamp must not be negative'')) (\<lambda>_.
       and_then (ok_or (configured_target (pdb_registry db) (fp_repository_id p))
         (InvalidData (''repository '' @ id_display (pdb_uuid_text db) RepositoryKind (fp_repository_id p)
            @ '' does not exist''))) (\<lambda>configured.
       and_then (ensure (configured = target_ref_str (fp_target p))
         (Conflict (''plan target '' @ target_ref_str (fp_target p) @ '' differs from repository target ''
            @ configured))) (\<lambda>_.
       and_then (expected_revision db p) (\<lambda>expected.
       and_then (ensure (fp_revision p = expected)
         (Conflict (''feature '' @ id_display (pdb_uuid_text db) FeatureKind (fp_feature_id p)
            @ '' expects revision '' @ show_nat (unat (revision_get expected))
            @ '', received '' @ show_nat (unat (revision_get (fp_revision p)))))) (\<lambda>_.
       and_then (insert_plan db p created) (\<lambda>db.
         insert_plan_tasks db p created))))))))
     (plan_validate p)"

definition load_plan :: "plan_db \<Rightarrow> plan_row \<Rightarrow> (store_error, stored_plan) result option" where
  "load_plan db r =
     map_option (\<lambda>valid.
       and_then (map_err (\<lambda>e. InvalidData (pdb_plan_error_text db e)) valid) (\<lambda>_.
         Inr \<lparr>stp_plan = pl_document r, stp_created_at = pl_created_at r\<rparr>))
     (plan_validate (pl_document r))"

definition plan_of :: "plan_db \<Rightarrow> feature_id \<Rightarrow> revision option \<Rightarrow> (store_error, stored_plan option) result option" where
  "plan_of db f v =
     (case newest_plan (filter (\<lambda>r. v = None \<or> v = Some (pl_revision r)) (plans_of_feature db f)) of
        None \<Rightarrow> Some (Inr None)
      | Some r \<Rightarrow> map_option (\<lambda>l. and_then l (\<lambda>s. Inr (Some s))) (load_plan db r))"

section \<open>Reading tasks\<close>

definition task_from_row :: "task_row \<Rightarrow> (store_error, task_record) result" where
  "task_from_row r =
     and_then (map_err (\<lambda>_. Sqlite ''conversion of column 4'')
       (restore_state (tk_status r) (tk_reason r) (tk_blocked_from r))) (\<lambda>state.
     Inr \<lparr>tr_feature_id = tk_feature_id r, tr_plan_revision = tk_plan_revision r, tr_task_id = tk_task_id r,
          tr_name = tk_name r, tr_state = state, tr_updated_at = tk_updated_at r\<rparr>)"

definition task_of ::
  "plan_db \<Rightarrow> feature_id \<Rightarrow> revision \<Rightarrow> task_id \<Rightarrow> (store_error, task_record option) result" where
  "task_of db f v t =
     (case find (\<lambda>r. task_key r = (f, v, t)) (pdb_tasks db) of
        None \<Rightarrow> Inr None
      | Some r \<Rightarrow> and_then (task_from_row r) (\<lambda>x. Inr (Some x)))"

definition order_by_task :: "plan_db \<Rightarrow> ('a \<Rightarrow> task_id) \<Rightarrow> 'a list \<Rightarrow> 'a list" where
  "order_by_task db f = sort_key (\<lambda>x. id_display (pdb_uuid_text db) TaskKind (f x))"

definition plan_tasks :: "plan_db \<Rightarrow> feature_id \<Rightarrow> revision \<Rightarrow> (store_error, task_record list) result" where
  "plan_tasks db f v =
     collect_res task_from_row (order_by_task db tk_task_id
       (filter (\<lambda>r. tk_feature_id r = f \<and> tk_plan_revision r = v) (pdb_tasks db)))"

definition tasks_in_status ::
  "plan_db \<Rightarrow> feature_id \<Rightarrow> revision \<Rightarrow> task_status \<Rightarrow> (store_error, task_record list) result" where
  "tasks_in_status db f v s =
     collect_res task_from_row (order_by_task db tk_task_id
       (filter (\<lambda>r. tk_feature_id r = f \<and> tk_plan_revision r = v \<and> tk_status r = status_column s) (pdb_tasks db)))"

definition task_prerequisites ::
  "plan_db \<Rightarrow> feature_id \<Rightarrow> revision \<Rightarrow> task_id \<Rightarrow> (store_error, (task_id \<times> target_milestone) list) result" where
  "task_prerequisites db f v t =
     and_then (collect_res (\<lambda>e. and_then (milestone_from_column (eg_milestone e)) (\<lambda>m. Inr (eg_depends_on e, m)))
       (order_by_task db eg_depends_on
         (filter (\<lambda>e. eg_feature_id e = f \<and> eg_plan_revision e = v \<and> eg_task_id e = t) (pdb_edges db)))) (\<lambda>pairs.
     Inr (fold (\<lambda>(d, m) acc. btm_insert d m acc) pairs []))"

definition task_dependents ::
  "plan_db \<Rightarrow> feature_id \<Rightarrow> revision \<Rightarrow> task_id \<Rightarrow> (store_error, task_dependency list) result" where
  "task_dependents db f v prerequisite =
     collect_res (\<lambda>e. and_then (milestone_from_column (eg_milestone e)) (\<lambda>m.
         Inr \<lparr>dp_task_id = eg_task_id e, dp_depends_on = prerequisite, dp_required_milestone = m\<rparr>))
       (order_by_task db eg_task_id
         (filter (\<lambda>e. eg_feature_id e = f \<and> eg_plan_revision e = v \<and> eg_depends_on e = prerequisite) (pdb_edges db)))"

definition expect_task ::
  "plan_db \<Rightarrow> feature_id \<Rightarrow> revision \<Rightarrow> task_id \<Rightarrow> (store_error, task_record) result" where
  "expect_task db f v t =
     and_then (task_of db f v t) (\<lambda>found.
       ok_or found (InvalidData (''task '' @ id_display (pdb_uuid_text db) TaskKind t
         @ '' is not stored for plan revision '' @ show_nat (unat (revision_get v)))))"

section \<open>Moving tasks\<close>

text \<open>\<open>UPDATE .. WHERE\<close> with the observed state as its condition.\<close>

definition update_task ::
  "plan_db \<Rightarrow> (task_row \<Rightarrow> bool) \<Rightarrow> (task_row \<Rightarrow> task_row) \<Rightarrow> (store_error, plan_db) result" where
  "update_task db cond change =
     (let rows = map (\<lambda>r. if cond r then change r else r) (pdb_tasks db)
      in if \<not> tasks_ok db rows then Inl (Sqlite (pdb_violation db))
         else if length (filter cond (pdb_tasks db)) \<noteq> 1 then
           Inl (Conflict ''task changed concurrently; re-read it before retrying'')
         else Inr (db\<lparr>pdb_tasks := rows\<rparr>))"

definition advance_task ::
  "plan_db \<Rightarrow> feature_id \<Rightarrow> revision \<Rightarrow> task_id \<Rightarrow> task_status \<Rightarrow> state_reason option \<Rightarrow> int
    \<Rightarrow> (store_error, plan_db \<times> task_record) result" where
  "advance_task db f v t target reason now =
     and_then (expect_task db f v t) (\<lambda>rec.
     let observed_status = status_column (ts_status (tr_state rec));
         observed_blocked_from = map_option status_column (ts_blocked_from (tr_state rec))
     in and_then (map_err (\<lambda>e. Conflict (transition_error_text e))
          (ts_transition (tr_state rec) target reason)) (\<lambda>state.
        and_then (update_task db
          (\<lambda>r. task_key r = (f, v, t) \<and> tk_status r = observed_status \<and> tk_blocked_from r = observed_blocked_from)
          (\<lambda>r. r\<lparr>tk_status := status_column (ts_status state), tk_reason := ts_reason state,
                 tk_blocked_from := map_option status_column (ts_blocked_from state), tk_updated_at := now\<rparr>))
          (\<lambda>db'. and_then (expect_task db' f v t) (\<lambda>rec'. Inr (db', rec')))))"

section \<open>Rows and the states they hold\<close>

definition row_holds :: "task_row \<Rightarrow> task_state \<Rightarrow> bool" where
  "row_holds r st \<longleftrightarrow> ts_reachable st \<and> tk_status r = status_column (ts_status st)
     \<and> tk_reason r = ts_reason st \<and> tk_blocked_from r = map_option status_column (ts_blocked_from st)"

definition record_of :: "task_row \<Rightarrow> task_state \<Rightarrow> task_record" where
  "record_of r st =
     \<lparr>tr_feature_id = tk_feature_id r, tr_plan_revision = tk_plan_revision r, tr_task_id = tk_task_id r,
      tr_name = tk_name r, tr_state = st, tr_updated_at = tk_updated_at r\<rparr>"

lemma record_of_sel [simp]:
  "tr_state (record_of r st) = st" "tr_name (record_of r st) = tk_name r"
  "tr_task_id (record_of r st) = tk_task_id r" "tr_updated_at (record_of r st) = tk_updated_at r"
  by (simp_all add: record_of_def)

lemma task_from_row_Inr: "task_from_row r = Inr rec \<longleftrightarrow> (\<exists>st. row_holds r st \<and> rec = record_of r st)"
  by (auto simp: task_from_row_def res restore_state_Inr_iff row_holds_def record_of_def)

lemma row_holds_unique: "row_holds r st \<Longrightarrow> row_holds r st' \<Longrightarrow> st = st'"
  using task_from_row_Inr [of r "record_of r st"] task_from_row_Inr [of r "record_of r st'"]
  by (metis record_of_sel(1) sum.inject(2))

lemma expect_task_Inr:
  "expect_task db f v t = Inr rec \<longleftrightarrow>
     (\<exists>r st. find (\<lambda>r. task_key r = (f, v, t)) (pdb_tasks db) = Some r \<and> row_holds r st \<and> rec = record_of r st)"
  by (auto simp: expect_task_def task_of_def res task_from_row_Inr split: option.splits)

text \<open>What a successful transition of a stored task does: the row read is the one row changed.\<close>

definition moved_row :: "task_state \<Rightarrow> int \<Rightarrow> task_row \<Rightarrow> task_row" where
  "moved_row state now r =
     r\<lparr>tk_status := status_column (ts_status state), tk_reason := ts_reason state,
       tk_blocked_from := map_option status_column (ts_blocked_from state), tk_updated_at := now\<rparr>"

lemma moved_row_sel [simp]:
  "task_key (moved_row st n r) = task_key r" "tk_name (moved_row st n r) = tk_name r"
  "tk_task_id (moved_row st n r) = tk_task_id r" "tk_feature_id (moved_row st n r) = tk_feature_id r"
  "tk_plan_revision (moved_row st n r) = tk_plan_revision r"
  by (simp_all add: moved_row_def task_key_def)

lemma moved_row_holds: "ts_reachable st \<Longrightarrow> row_holds (moved_row st n r) st"
  by (simp add: row_holds_def moved_row_def)

lemma update_task_Inr:
  assumes "update_task db cond change = Inr db'"
  shows "tasks_ok db (map (\<lambda>x. if cond x then change x else x) (pdb_tasks db))"
    and "length (filter cond (pdb_tasks db)) = 1"
    and "db' = db\<lparr>pdb_tasks := map (\<lambda>x. if cond x then change x else x) (pdb_tasks db)\<rparr>"
  using assms by (simp_all add: update_task_def Let_def split: if_splits)

lemma advance_task_Inr:
  assumes "advance_task db f v t target reason now = Inr (db', rec')"
  obtains r st state where "find (\<lambda>r. task_key r = (f, v, t)) (pdb_tasks db) = Some r" and "row_holds r st"
    and "ts_transition st target reason = Inr state"
    and "length (filter (\<lambda>x. task_key x = (f, v, t) \<and> tk_status x = tk_status r \<and> tk_blocked_from x = tk_blocked_from r)
      (pdb_tasks db)) = 1"
    and "db' = db\<lparr>pdb_tasks := map (\<lambda>x. if task_key x = (f, v, t) \<and> tk_status x = tk_status r
      \<and> tk_blocked_from x = tk_blocked_from r then moved_row state now x else x) (pdb_tasks db)\<rparr>"
    and "tasks_ok db (pdb_tasks db')"
    and "rec' = record_of (moved_row state now r) state"
proof -
  obtain rec where "expect_task db f v t = Inr rec"
    using assms by (auto simp: advance_task_def res)
  then obtain r st where r: "find (\<lambda>r. task_key r = (f, v, t)) (pdb_tasks db) = Some r" "row_holds r st"
    and rec: "expect_task db f v t = Inr (record_of r st)"
    by (auto simp: expect_task_Inr)
  have cols: "tk_status r = status_column (ts_status st)" "tk_blocked_from r = map_option status_column (ts_blocked_from st)"
    using r(2) by (simp_all add: row_holds_def)
  have "and_then (map_err (\<lambda>e. Conflict (transition_error_text e)) (ts_transition st target reason)) (\<lambda>state.
        and_then (update_task db
          (\<lambda>x. task_key x = (f, v, t) \<and> tk_status x = tk_status r \<and> tk_blocked_from x = tk_blocked_from r)
          (moved_row state now))
          (\<lambda>db'. and_then (expect_task db' f v t) (\<lambda>rec'. Inr (db', rec')))) = Inr (db', rec')"
    using assms by (simp add: advance_task_def rec Let_def moved_row_def [abs_def] cols)
  then obtain state where state: "ts_transition st target reason = Inr state"
    and upd: "update_task db
          (\<lambda>x. task_key x = (f, v, t) \<and> tk_status x = tk_status r \<and> tk_blocked_from x = tk_blocked_from r)
          (moved_row state now) = Inr db'"
    and readback: "expect_task db' f v t = Inr rec'"
    by (auto simp: res)
  have reach: "ts_reachable state"
    using r(2) state by (auto simp: row_holds_def intro: ts_reachable.step ts_step.transition)
  let ?cond = "\<lambda>x. task_key x = (f, v, t) \<and> tk_status x = tk_status r \<and> tk_blocked_from x = tk_blocked_from r"
  let ?rows = "map (\<lambda>x. if ?cond x then moved_row state now x else x) (pdb_tasks db)"
  have u: "tasks_ok db ?rows" "length (filter ?cond (pdb_tasks db)) = 1" "db' = db\<lparr>pdb_tasks := ?rows\<rparr>"
    using update_task_Inr [OF upd] by simp_all
  have "find (\<lambda>r. task_key r = (f, v, t)) (pdb_tasks db') = Some (moved_row state now r)"
    using find_map_update [of task_key "moved_row state now"] r(1) find_Some_in [OF r(1)]
    by (simp add: u(3))
  then obtain st' where "row_holds (moved_row state now r) st'" "rec' = record_of (moved_row state now r) st'"
    using readback by (auto simp: expect_task_Inr)
  then have "rec' = record_of (moved_row state now r) state"
    using row_holds_unique [OF moved_row_holds [OF reach]] by metis
  then show thesis
    using that [OF r state u(2,3)] u(1) by (simp add: u(3))
qed

lemma advance_task_status: "advance_task db f v t target reason now = Inr (db', rec') \<Longrightarrow> ts_status (tr_state rec') = target"
  by (erule advance_task_Inr) (auto elim: ts_transition_cases)

section \<open>Walking a task forward\<close>

text \<open>The loop of \<open>advance_task_to\<close>.  A step that fails leaves the steps before it in the database.\<close>

function advance_loop ::
  "feature_id \<Rightarrow> revision \<Rightarrow> task_id \<Rightarrow> task_status \<Rightarrow> int \<Rightarrow> plan_db \<Rightarrow> task_record
    \<Rightarrow> (store_error, task_record) result \<times> plan_db" where
  "advance_loop f v t target now db rec =
     (if ts_status (tr_state rec) = target then (Inr rec, db)
      else case next_ordinary (ts_status (tr_state rec)) of
        None \<Rightarrow> (Inl (Conflict (''task '' @ id_display (pdb_uuid_text db) TaskKind t @ '' is ''
            @ debug_status (ts_status (tr_state rec)) @ '' and cannot advance to '' @ debug_status target)), db)
      | Some nxt \<Rightarrow>
          (case advance_task db f v t nxt None now of
             Inl e \<Rightarrow> (Inl e, db)
           | Inr (db', rec') \<Rightarrow> advance_loop f v t target now db' rec'))"
  by pat_completeness auto
termination
proof (relation "measure (\<lambda>(f, v, t, target, now, db, rec).
    12 - unwrap_or (ordinary_position (ts_status (tr_state rec))) 12)")
  fix f :: feature_id and v :: revision and t :: task_id and target now db and rec rec' :: task_record
    and nxt b db'
  assume "next_ordinary (ts_status (tr_state rec)) = Some nxt" and "advance_task db f v t nxt None now = Inr b"
    and "(db', rec') = b"
  then show "((f, v, t, target, now, db', rec'), f, v, t, target, now, db, rec) \<in> measure (\<lambda>(f, v, t, target, now, db, rec).
      12 - unwrap_or (ordinary_position (ts_status (tr_state rec))) 12)"
    using next_ordinary_position advance_task_status [of db f v t nxt None now db' rec']
    by (cases "ts_status (tr_state rec)") (auto simp: unwrap_or_def next_ordinary_def)
qed simp

declare advance_loop.simps [simp del]

definition advance_task_to ::
  "plan_db \<Rightarrow> feature_id \<Rightarrow> revision \<Rightarrow> task_id \<Rightarrow> task_status \<Rightarrow> int
    \<Rightarrow> (store_error, task_record) result \<times> plan_db" where
  "advance_task_to db f v t target now =
     (case expect_task db f v t of
        Inl e \<Rightarrow> (Inl e, db)
      | Inr rec \<Rightarrow>
          (case is_at_or_past (ts_status (tr_state rec)) target of
             Some True \<Rightarrow> (Inr rec, db)
           | Some False \<Rightarrow> advance_loop f v t target now db rec
           | None \<Rightarrow> (Inl (Conflict (''task '' @ id_display (pdb_uuid_text db) TaskKind t @ '' is ''
                 @ debug_status (ts_status (tr_state rec))
                 @ '', which is not a point on the ordinary path, so it cannot be advanced to ''
                 @ debug_status target)), db)))"

section \<open>What a package delivers\<close>

definition insert_package_task ::
  "package_id \<Rightarrow> revision \<Rightarrow> plan_db \<Rightarrow> task_id \<Rightarrow> (store_error, plan_db) result" where
  "insert_package_task p v db t =
     (let rows = pdb_package_tasks db @ [(p, v, t)]
      in if package_tasks_ok db rows then Inr (db\<lparr>pdb_package_tasks := rows\<rparr>) else Inl (Sqlite (pdb_violation db)))"

definition record_package_tasks ::
  "plan_db \<Rightarrow> package_id \<Rightarrow> revision \<Rightarrow> task_id list \<Rightarrow> (store_error, plan_db) result" where
  "record_package_tasks db p v ts = fold_res (insert_package_task p v) db ts"

definition package_task_ids :: "plan_db \<Rightarrow> package_id \<Rightarrow> revision \<Rightarrow> task_id list" where
  "package_task_ids db p v =
     order_by_task db id (map (\<lambda>(_, _, t). t)
       (filter (\<lambda>(q, w, _). q = p \<and> w = v) (pdb_package_tasks db)))"

text \<open>\<open>ORDER BY created_at DESC, revision DESC LIMIT 1\<close> over the packages that carry the task.\<close>

definition snapshot_package_for_task ::
  "plan_db \<Rightarrow> feature_id \<Rightarrow> revision \<Rightarrow> task_id \<Rightarrow> (store_error, snapshot_record option) result" where
  "snapshot_package_for_task db f v t =
     load_optional (last_row (sort_key sn_created_at (sort_key (\<lambda>s. unat (revision_get (sn_revision s)))
       (filter (\<lambda>s. sn_feature_id s = f \<and> sn_plan_revision s = v
            \<and> (sn_package_id s, sn_revision s, t) \<in> set (pdb_package_tasks db)) (kd_snapshots (pdb_packages db))))))"

section \<open>The tables behind the inserts\<close>

interpretation task_table: table pdb_tasks "\<lambda>rs db. db\<lparr>pdb_tasks := rs\<rparr>" tasks_ok
  by unfold_locales (auto simp: tasks_ok_def)

interpretation edge_table: table pdb_edges "\<lambda>rs db. db\<lparr>pdb_edges := rs\<rparr>" edges_ok
  by unfold_locales (auto simp: edges_ok_def)

interpretation package_task_table: table pdb_package_tasks "\<lambda>rs db. db\<lparr>pdb_package_tasks := rs\<rparr>" package_tasks_ok
  by unfold_locales (auto simp: package_tasks_ok_def)

definition new_task_row :: "feature_plan \<Rightarrow> int \<Rightarrow> plan_task \<Rightarrow> task_row" where
  "new_task_row p created t =
     \<lparr>tk_feature_id = fp_feature_id p, tk_plan_revision = fp_revision p, tk_task_id = pt_id t,
      tk_name = pt_name t, tk_status = ''planned'', tk_reason = None, tk_blocked_from = None,
      tk_updated_at = created\<rparr>"

definition new_edge_row :: "feature_plan \<Rightarrow> task_id \<times> task_id \<times> target_milestone \<Rightarrow> edge_row" where
  "new_edge_row p = (\<lambda>(t, d, m).
     \<lparr>eg_feature_id = fp_feature_id p, eg_plan_revision = fp_revision p, eg_task_id = t,
      eg_depends_on = d, eg_milestone = milestone_column m\<rparr>)"

definition plan_edges :: "plan_task list \<Rightarrow> (task_id \<times> task_id \<times> target_milestone) list" where
  "plan_edges ts = concat (map (\<lambda>t. map (Pair (pt_id t)) (pt_dependencies t)) ts)"

lemma insert_tasks:
  assumes "tasks_ok db (pdb_tasks db)"
  shows "fold_res (insert_task p created) db ts = Inr db' \<longleftrightarrow>
    tasks_ok db (pdb_tasks db @ map (new_task_row p created) ts)
    \<and> db' = db\<lparr>pdb_tasks := pdb_tasks db @ map (new_task_row p created) ts\<rparr>"
  by (rule task_table.insert_all [OF _ assms, where violation = "\<lambda>db. Sqlite (pdb_violation db)"])
     (simp add: insert_task_def new_task_row_def Let_def)

lemma insert_edges_flat:
  "fold_res (\<lambda>db t. fold_res (insert_edge p t) db (pt_dependencies t)) db ts
    = fold_res (\<lambda>db (t, e). insert_edge p \<lparr>pt_id = t, pt_name = [], pt_dependencies = [], pt_acceptance_checks = []\<rparr> db e)
        db (plan_edges ts)"
proof (induction ts arbitrary: db)
  case Nil
  then show ?case by (simp add: plan_edges_def)
next
  case (Cons t ts)
  have "fold_res (insert_edge p t) db es
    = fold_res (\<lambda>db (t, e). insert_edge p \<lparr>pt_id = t, pt_name = [], pt_dependencies = [], pt_acceptance_checks = []\<rparr> db e)
        db (map (Pair (pt_id t)) es)" for db es
  proof (induction es arbitrary: db)
    case (Cons e es)
    then show ?case
      by (cases "insert_edge p t db e") (auto simp: insert_edge_def Let_def split: prod.splits if_splits)
  qed simp
  then show ?case
    using Cons.IH by (simp add: plan_edges_def fold_res_append)
qed

lemma insert_edges:
  assumes "edges_ok db (pdb_edges db)"
  shows "fold_res (\<lambda>db t. fold_res (insert_edge p t) db (pt_dependencies t)) db ts = Inr db' \<longleftrightarrow>
    edges_ok db (pdb_edges db @ map (new_edge_row p) (plan_edges ts))
    \<and> db' = db\<lparr>pdb_edges := pdb_edges db @ map (new_edge_row p) (plan_edges ts)\<rparr>"
  unfolding insert_edges_flat
  by (rule edge_table.insert_all [OF _ assms, where violation = "\<lambda>db. Sqlite (pdb_violation db)"])
     (auto simp: insert_edge_def new_edge_row_def Let_def split: prod.splits)

section \<open>The invariant\<close>

definition tasks_at :: "plan_db \<Rightarrow> feature_id \<times> revision \<Rightarrow> task_row list" where
  "tasks_at db k = filter (\<lambda>r. (tk_feature_id r, tk_plan_revision r) = k) (pdb_tasks db)"

definition edges_at :: "plan_db \<Rightarrow> feature_id \<times> revision \<Rightarrow> edge_row list" where
  "edges_at db k = filter (\<lambda>e. (eg_feature_id e, eg_plan_revision e) = k) (pdb_edges db)"

definition edge_of :: "edge_row \<Rightarrow> task_id \<times> task_id \<times> string" where
  "edge_of e = (eg_task_id e, eg_depends_on e, eg_milestone e)"

definition plan_row_valid :: "plan_row \<Rightarrow> bool" where
  "plan_row_valid r \<longleftrightarrow>
     plan_maps (pl_document r) \<and> plan_ok (pl_document r) \<and> plan_graph_ok (pl_document r)
     \<and> fp_feature_id (pl_document r) = pl_feature_id r \<and> fp_revision (pl_document r) = pl_revision r
     \<and> fp_repository_id (pl_document r) = pl_repository_id r"

text \<open>The rows of a stored plan say what its document says.\<close>

definition projected :: "plan_db \<Rightarrow> plan_row \<Rightarrow> bool" where
  "projected db r \<longleftrightarrow>
     map (\<lambda>k. (tk_task_id k, tk_name k)) (tasks_at db (plan_key r))
       = map (\<lambda>t. (pt_id t, pt_name t)) (plan_tasks_of (pl_document r))
     \<and> map edge_of (edges_at db (plan_key r))
       = map (\<lambda>(t, d, m). (t, d, milestone_column m)) (plan_edges (plan_tasks_of (pl_document r)))"

definition feature_history_ok :: "plan_row list \<Rightarrow> bool" where
  "feature_history_ok rows \<longleftrightarrow>
     map (\<lambda>r. unat (revision_get (pl_revision r))) rows = [1..<Suc (length rows)]
     \<and> (\<forall>r \<in> set rows. \<forall>r' \<in> set rows. pl_repository_id r = pl_repository_id r')"

definition pdb_ok :: "plan_db \<Rightarrow> bool" where
  "pdb_ok db \<longleftrightarrow>
     registry_ok (pdb_registry db) \<and> plans_ok db (pdb_plans db) \<and> tasks_ok db (pdb_tasks db)
     \<and> edges_ok db (pdb_edges db) \<and> package_tasks_ok db (pdb_package_tasks db)
     \<and> packages_ok (plan_key ` set (pdb_plans db)) (pdb_packages db)
     \<and> list_all (\<lambda>r. \<exists>st. row_holds r st) (pdb_tasks db)
     \<and> list_all plan_row_valid (pdb_plans db) \<and> list_all (projected db) (pdb_plans db)
     \<and> (\<forall>f. feature_history_ok (plans_of_feature db f))"

lemma one_task: "pdb_ok db \<Longrightarrow> x \<in> set (pdb_tasks db) \<Longrightarrow> y \<in> set (pdb_tasks db) \<Longrightarrow> task_key x = task_key y \<Longrightarrow> x = y"
  by (rule key_unique [of task_key "pdb_tasks db"]) (simp_all add: pdb_ok_def tasks_ok_def)

lemma one_plan: "pdb_ok db \<Longrightarrow> x \<in> set (pdb_plans db) \<Longrightarrow> y \<in> set (pdb_plans db) \<Longrightarrow> plan_key x = plan_key y \<Longrightarrow> x = y"
  by (rule key_unique [of plan_key "pdb_plans db"]) (simp_all add: pdb_ok_def plans_ok_def)

text \<open>A valid plan never breaks a constraint: its rows fit beside any rows of other plans.\<close>

definition plan_accepted :: "plan_db \<Rightarrow> feature_plan \<Rightarrow> int \<Rightarrow> bool" where
  "plan_accepted db p created \<longleftrightarrow>
     plan_ok p \<and> plan_graph_ok p \<and> 0 \<le> created
     \<and> configured_target (pdb_registry db) (fp_repository_id p) = Some (target_ref_str (fp_target p))
     \<and> (\<forall>r \<in> set (plans_of_feature db (fp_feature_id p)). pl_repository_id r = fp_repository_id p)
     \<and> unat (revision_get (fp_revision p)) = Suc (length (plans_of_feature db (fp_feature_id p)))"

definition new_plan_row :: "feature_plan \<Rightarrow> int \<Rightarrow> plan_row" where
  "new_plan_row p created =
     \<lparr>pl_feature_id = fp_feature_id p, pl_revision = fp_revision p, pl_repository_id = fp_repository_id p,
      pl_target_ref = target_ref_str (fp_target p), pl_sealed = fp_sealed p, pl_document = p,
      pl_created_at = created\<rparr>"

definition after_import :: "plan_db \<Rightarrow> feature_plan \<Rightarrow> int \<Rightarrow> plan_db" where
  "after_import db p created =
     db\<lparr>pdb_plans := pdb_plans db @ [new_plan_row p created],
        pdb_tasks := pdb_tasks db @ map (new_task_row p created) (plan_tasks_of p),
        pdb_edges := pdb_edges db @ map (new_edge_row p) (plan_edges (plan_tasks_of p))\<rparr>"

lemma revision_history_last:
  assumes "feature_history_ok rows"
  shows "newest_plan rows = (if rows = [] then None else Some (last rows))"
proof -
  have "map (\<lambda>r. unat (revision_get (pl_revision r))) rows = [1..<Suc (length rows)]"
    using assms by (simp add: feature_history_ok_def)
  then have "sorted (map (\<lambda>r. unat (revision_get (pl_revision r))) rows)" by (simp del: upt_Suc)
  then have "sort_key (\<lambda>r. unat (revision_get (pl_revision r))) rows = rows"
    by (rule sort_key_id_if_sorted)
  then show ?thesis
    by (cases rows rule: rev_cases) (simp_all add: newest_plan_def)
qed

lemma revision_next_exact:
  "revision_next r = Inr v \<longleftrightarrow> unat (revision_get v) = unat (revision_get r) + 1"
proof
  assume v: "unat (revision_get v) = unat (revision_get r) + 1"
  have "unat (revision_get r) + 1 < 2 ^ 32"
    using unsigned_less [of "revision_get v", where 'a = nat] by (simp add: v)
  moreover from this have "revision_get v = revision_get r + 1"
    using v by (simp add: word_unat_eq_iff unat_word_ariths)
  moreover from this v have "revision_get r + 1 \<noteq> 0" by auto
  ultimately show "revision_next r = Inr v"
    by (cases v) (simp add: revision_next_def u32_checked_add_def non_zero_new_def)
qed (rule revision_next_Inr)

lemma expected_revision_Inr:
  assumes "feature_history_ok (plans_of_feature db (fp_feature_id p))"
  shows "(expected_revision db p = Inr v \<and> fp_revision p = v) \<longleftrightarrow>
    v = fp_revision p
    \<and> (\<forall>r \<in> set (plans_of_feature db (fp_feature_id p)). pl_repository_id r = fp_repository_id p)
    \<and> unat (revision_get (fp_revision p)) = Suc (length (plans_of_feature db (fp_feature_id p)))"
proof (cases "plans_of_feature db (fp_feature_id p)" rule: rev_cases)
  case Nil
  have "v = revision_first \<longleftrightarrow> unat (revision_get v) = Suc 0"
    by (cases v) (auto simp: revision_first_def, metis One_nat_def unat_1 word_unat_eq_iff)
  then show ?thesis
    using Nil by (auto simp: expected_revision_def newest_plan_def)
next
  case (snoc rs r)
  have repo: "(\<forall>x \<in> set (rs @ [r]). pl_repository_id x = fp_repository_id p) \<longleftrightarrow> pl_repository_id r = fp_repository_id p"
    using assms unfolding feature_history_ok_def snoc by (metis in_set_conv_decomp)
  have "map (\<lambda>r. unat (revision_get (pl_revision r))) (rs @ [r]) = [1..<Suc (Suc (length rs))]"
    using assms snoc by (simp add: feature_history_ok_def)
  then have n: "unat (revision_get (pl_revision r)) = Suc (length rs)" by simp
  have next_iff: "revision_next (pl_revision r) = Inr v \<longleftrightarrow> unat (revision_get v) = Suc (Suc (length rs))" for v
    using revision_next_exact [of "pl_revision r" v] n by simp
  have "newest_plan (rs @ [r]) = Some r" using revision_history_last [OF assms] snoc by simp
  then have e: "expected_revision db p = Inr v
      \<longleftrightarrow> pl_repository_id r = fp_repository_id p \<and> unat (revision_get v) = Suc (Suc (length rs))"
    by (simp add: expected_revision_def snoc res next_iff)
  show ?thesis unfolding snoc e repo by auto
qed

lemma plans_of_feature_key:
  assumes "feature_history_ok (plans_of_feature db f)" and "unat (revision_get v) = Suc (length (plans_of_feature db f))"
  shows "(f, v) \<notin> plan_key ` set (pdb_plans db)"
proof
  assume "(f, v) \<in> plan_key ` set (pdb_plans db)"
  then obtain r where "r \<in> set (plans_of_feature db f)" "pl_revision r = v"
    by (auto simp: plan_key_def plans_of_feature_def)
  then have "unat (revision_get v) \<in> set (map (\<lambda>r. unat (revision_get (pl_revision r))) (plans_of_feature db f))"
    by auto
  then have "unat (revision_get v) \<in> set [1..<Suc (length (plans_of_feature db f))]"
    using assms(1) unfolding feature_history_ok_def by metis
  then show False using assms(2) by simp
qed

lemma configured_target_Some:
  assumes "registry_ok g" and "configured_target g i = Some s"
  shows "i \<in> rr_id ` set (rg_repositories g)" and "like_heads s"
proof -
  obtain r w where "(r, w) \<in> set (joined_rows g)" "rr_id r = i" "pw_target_ref w = s"
    using assms(2) by (auto simp: configured_target_def dest!: find_Some_in)
  then show "i \<in> rr_id ` set (rg_repositories g)" "like_heads s"
    using assms(1) by (auto simp: joined_rows_def registry_ok_def policies_ok_def list_all_iff policy_row_ok_def)
qed

lemma plan_accepted_plan:
  assumes "pdb_ok db" and "plan_accepted db p c"
  shows "plans_ok db (pdb_plans db @ [new_plan_row p c])"
    and "(fp_feature_id p, fp_revision p) \<notin> plan_key ` set (pdb_plans db)"
proof -
  show new: "(fp_feature_id p, fp_revision p) \<notin> plan_key ` set (pdb_plans db)"
    using assms plans_of_feature_key by (simp add: pdb_ok_def plan_accepted_def)
  have "registry_ok (pdb_registry db)"
    and "configured_target (pdb_registry db) (fp_repository_id p) = Some (target_ref_str (fp_target p))"
    using assms by (simp_all add: pdb_ok_def plan_accepted_def)
  note t = configured_target_Some [OF this]
  have "plan_key (new_plan_row p c) = (fp_feature_id p, fp_revision p)"
    by (simp add: plan_key_def new_plan_row_def)
  then show "plans_ok db (pdb_plans db @ [new_plan_row p c])"
    using assms new t by (simp add: plans_ok_def pdb_ok_def plan_accepted_def new_plan_row_def)
qed

lemma new_task_row_sel [simp]:
  "tk_feature_id (new_task_row p c t) = fp_feature_id p" "tk_plan_revision (new_task_row p c t) = fp_revision p"
  "tk_task_id (new_task_row p c t) = pt_id t" "tk_name (new_task_row p c t) = pt_name t"
  "task_key (new_task_row p c t) = (fp_feature_id p, fp_revision p, pt_id t)"
  by (simp_all add: new_task_row_def task_key_def)

lemma new_edge_row_sel [simp]:
  "eg_feature_id (new_edge_row p x) = fp_feature_id p" "eg_plan_revision (new_edge_row p x) = fp_revision p"
  "edge_of (new_edge_row p (t, d, m)) = (t, d, milestone_column m)"
  "edge_key (new_edge_row p (t, d, m)) = (fp_feature_id p, fp_revision p, t, d)"
  "eg_task_id (new_edge_row p (t, d, m)) = t" "eg_depends_on (new_edge_row p (t, d, m)) = d"
  "eg_milestone (new_edge_row p (t, d, m)) = milestone_column m"
  by (simp_all add: new_edge_row_def edge_of_def edge_key_def split: prod.splits)

lemma milestone_column_cases: "milestone_column m \<in> {''captured'', ''development_available'', ''target_published''}"
  by (cases m) simp_all

lemma plan_edges_set: "(t, d, m) \<in> set (plan_edges ts) \<longleftrightarrow> (\<exists>x \<in> set ts. pt_id x = t \<and> (d, m) \<in> set (pt_dependencies x))"
  by (auto simp: plan_edges_def)

lemma plan_edges_distinct:
  assumes "distinct (map pt_id ts)" and "\<forall>t \<in> set ts. btm_sorted (pt_dependencies t)"
  shows "distinct (map (\<lambda>(t, d, m). (t, d)) (plan_edges ts))"
  using assms
proof (induction ts)
  case Nil
  then show ?case by (simp add: plan_edges_def)
next
  case (Cons t ts)
  let ?A = "map (Pair (pt_id t)) (map fst (pt_dependencies t))" and ?B = "map (\<lambda>(t, d, m). (t, d)) (plan_edges ts)"
  have AB: "map (\<lambda>(t, d, m). (t, d)) (plan_edges (t # ts)) = ?A @ ?B"
    by (simp add: plan_edges_def comp_def case_prod_unfold)
  have "distinct (map fst (pt_dependencies t))"
    using Cons.prems(2) btm_sorted_distinct by auto
  then have "distinct ?A" by (simp only: distinct_map) (simp add: inj_on_def)
  moreover have "pt_id t \<notin> fst ` set ?B"
    using Cons.prems(1) by (auto simp: plan_edges_set image_iff) metis
  then have "set ?A \<inter> set ?B = {}" by force
  moreover have "distinct ?B" using Cons by simp
  ultimately show ?case unfolding AB by (simp only: distinct_append)
qed

lemma plan_graph_facts:
  assumes "plan_graph_ok p"
  shows "distinct (map pt_id (plan_tasks_of p))"
    and "t \<in> set (plan_tasks_of p) \<Longrightarrow> (d, m) \<in> set (pt_dependencies t) \<Longrightarrow>
      d \<noteq> pt_id t \<and> d \<in> pt_id ` set (plan_tasks_of p)"
proof -
  have v: "tasks_valid (map definition_of (plan_tasks_of p))" using assms by (simp add: plan_graph_ok_def)
  then show "distinct (map pt_id (plan_tasks_of p))"
    by (simp add: tasks_valid_def definition_of_def comp_def)
  assume "t \<in> set (plan_tasks_of p)" and d: "(d, m) \<in> set (pt_dependencies t)"
  then have "definition_of t \<in> set (map definition_of (plan_tasks_of p))" by simp
  moreover have "d \<in> set (dep_keys (definition_of t))"
    using d by (force simp: dep_keys_def definition_of_def)
  ultimately have "d \<noteq> td_id (definition_of t) \<and> d \<in> td_id ` set (map definition_of (plan_tasks_of p))"
    using v unfolding tasks_valid_def by blast
  then show "d \<noteq> pt_id t \<and> d \<in> pt_id ` set (plan_tasks_of p)"
    by (auto simp: definition_of_def)
qed

lemma plan_task_names: "plan_ok p \<Longrightarrow> t \<in> set (plan_tasks_of p) \<Longrightarrow> \<not> sql_blank (pt_name t)"
  using sql_blank_blank by (auto simp: plan_ok_def phase_ok_def plan_tasks_of_def plan_task_ok_def text_ok_def)

lemma distinct_map_append:
  "distinct (map f xs) \<Longrightarrow> distinct (map f ys) \<Longrightarrow> (\<And>x. x \<in> set xs \<Longrightarrow> f x \<notin> f ` set ys)
    \<Longrightarrow> distinct (map f (xs @ ys))"
  by auto

lemma plan_accepted_tasks:
  assumes "pdb_ok db" and "plan_accepted db p c"
  shows "tasks_ok (db\<lparr>pdb_plans := pdb_plans db @ [new_plan_row p c]\<rparr>)
    (pdb_tasks db @ map (new_task_row p c) (plan_tasks_of p))"
proof -
  have acc: "plan_ok p" "plan_graph_ok p" "0 \<le> c" using assms(2) by (simp_all add: plan_accepted_def)
  have old: "tasks_ok db (pdb_tasks db)" using assms(1) by (simp add: pdb_ok_def)
  have rows: "task_row_ok (new_task_row p c t)" if "t \<in> set (plan_tasks_of p)" for t
    using plan_task_names [OF acc(1) that] acc(3) by (simp add: task_row_ok_def new_task_row_def)
  have "task_key r \<notin> task_key ` set (map (new_task_row p c) (plan_tasks_of p))" if "r \<in> set (pdb_tasks db)" for r
    using that old plan_accepted_plan(2) [OF assms]
    by (auto simp: tasks_ok_def list_all_iff task_key_def)
  moreover have "distinct (map task_key (map (new_task_row p c) (plan_tasks_of p)))"
    using plan_graph_facts(1) [OF acc(2)] by (simp add: distinct_map inj_on_def)
  ultimately have "distinct (map task_key (pdb_tasks db @ map (new_task_row p c) (plan_tasks_of p)))"
    using old by (intro distinct_map_append) (auto simp: tasks_ok_def)
  moreover have "(fp_feature_id p, fp_revision p) = plan_key (new_plan_row p c)"
    by (simp add: plan_key_def new_plan_row_def)
  ultimately show ?thesis
    using old rows by (auto simp: tasks_ok_def list_all_iff)
qed

lemma plan_accepted_edges:
  assumes "pdb_ok db" and "plan_accepted db p c" and "plan_maps p"
    and "db' = db\<lparr>pdb_plans := pdb_plans db @ [new_plan_row p c],
      pdb_tasks := pdb_tasks db @ map (new_task_row p c) (plan_tasks_of p)\<rparr>"
  shows "edges_ok db' (pdb_edges db @ map (new_edge_row p) (plan_edges (plan_tasks_of p)))"
proof -
  let ?ts = "plan_tasks_of p"
  have acc: "plan_graph_ok p" using assms(2) by (simp add: plan_accepted_def)
  have old: "edges_ok db (pdb_edges db)" "tasks_ok db (pdb_tasks db)" using assms(1) by (simp_all add: pdb_ok_def)
  have keys: "task_key ` set (pdb_tasks db') = task_key ` set (pdb_tasks db)
      \<union> (\<lambda>t. (fp_feature_id p, fp_revision p, pt_id t)) ` set ?ts"
    by (auto simp: assms(4) image_Un image_image)
  have new: "eg_milestone e \<in> {''captured'', ''development_available'', ''target_published''}
      \<and> eg_task_id e \<noteq> eg_depends_on e
      \<and> (eg_feature_id e, eg_plan_revision e, eg_task_id e) \<in> task_key ` set (pdb_tasks db')
      \<and> (eg_feature_id e, eg_plan_revision e, eg_depends_on e) \<in> task_key ` set (pdb_tasks db')"
    if e: "e \<in> set (map (new_edge_row p) (plan_edges ?ts))" for e
  proof -
    obtain t d m where e: "e = new_edge_row p (t, d, m)" and tdm: "(t, d, m) \<in> set (plan_edges ?ts)"
      using e by auto
    obtain x where x: "x \<in> set ?ts" "pt_id x = t" "(d, m) \<in> set (pt_dependencies x)"
      using tdm plan_edges_set by metis
    note f = plan_graph_facts(2) [OF acc x(1,3)]
    have "(fp_feature_id p, fp_revision p, t) \<in> task_key ` set (pdb_tasks db')"
      "(fp_feature_id p, fp_revision p, d) \<in> task_key ` set (pdb_tasks db')"
      unfolding keys using x f by auto
    then show ?thesis using f x(2) milestone_column_cases [of m] by (auto simp: e)
  qed
  have "edge_key e \<notin> edge_key ` set (map (new_edge_row p) (plan_edges ?ts))" if e: "e \<in> set (pdb_edges db)" for e
  proof -
    have "(eg_feature_id e, eg_plan_revision e, eg_task_id e) \<in> task_key ` set (pdb_tasks db)"
      using old(1) e by (simp add: edges_ok_def list_all_iff)
    then have "(eg_feature_id e, eg_plan_revision e) \<in> plan_key ` set (pdb_plans db)"
      using old(2) by (auto simp: tasks_ok_def list_all_iff task_key_def)
    then show ?thesis using plan_accepted_plan(2) [OF assms(1,2)] by (auto simp: edge_key_def)
  qed
  moreover have eq: "map edge_key (map (new_edge_row p) (plan_edges ?ts))
      = map (\<lambda>(t, d). (fp_feature_id p, fp_revision p, t, d)) (map (\<lambda>(t, d, m). (t, d)) (plan_edges ?ts))"
    by (simp add: comp_def case_prod_unfold) (metis new_edge_row_sel(4) prod.collapse)
  have "distinct (map (\<lambda>(t, d, m). (t, d)) (plan_edges ?ts))"
    using plan_edges_distinct plan_graph_facts(1) [OF acc] assms(3) by (simp add: plan_maps_def)
  then have "distinct (map edge_key (map (new_edge_row p) (plan_edges ?ts)))"
    unfolding eq by (subst distinct_map) (auto simp: inj_on_def)
  ultimately have dist: "distinct (map edge_key (pdb_edges db @ map (new_edge_row p) (plan_edges ?ts)))"
    using old(1) by (intro distinct_map_append) (simp_all add: edges_ok_def)
  have "list_all (\<lambda>e. eg_milestone e \<in> {''captured'', ''development_available'', ''target_published''}
        \<and> eg_task_id e \<noteq> eg_depends_on e
        \<and> (eg_feature_id e, eg_plan_revision e, eg_task_id e) \<in> task_key ` set (pdb_tasks db')
        \<and> (eg_feature_id e, eg_plan_revision e, eg_depends_on e) \<in> task_key ` set (pdb_tasks db')) (pdb_edges db)"
    using old(1) unfolding keys by (auto simp: edges_ok_def list_all_iff)
  then show ?thesis
    using new dist unfolding edges_ok_def list_all_append by (simp only: list_all_iff) blast
qed

lemma tasks_ok_plans: "tasks_ok db rows \<Longrightarrow> tasks_ok (db\<lparr>pdb_plans := pdb_plans db @ rs\<rparr>) rows"
  by (auto simp: tasks_ok_def list_all_iff)

lemma edges_ok_tasks:
  "edges_ok db rows \<Longrightarrow> task_key ` set (pdb_tasks db) \<subseteq> task_key ` set (pdb_tasks db') \<Longrightarrow> edges_ok db' rows"
  unfolding edges_ok_def by (auto simp: list_all_iff)

text \<open>An import of a well-formed plan is decided by the checks before the first insert.\<close>

lemma import_plan_iff:
  assumes "pdb_ok db" and "plan_maps p"
  shows "\<exists>r. import_plan db p c = Some r"
    and "import_plan db p c = Some (Inr db') \<longleftrightarrow> plan_accepted db p c \<and> db' = after_import db p c"
proof -
  obtain valid where valid: "plan_validate p = Some valid" "is_ok valid \<longleftrightarrow> plan_ok p \<and> plan_graph_ok p"
    using plan_validate_total [OF assms(2)] by blast
  then show "\<exists>r. import_plan db p c = Some r" by (simp add: import_plan_def)
  have hist: "feature_history_ok (plans_of_feature db (fp_feature_id p))" using assms(1) by (simp add: pdb_ok_def)
  have rows: "insert_plan_tasks db1 p c = Inr db' \<longleftrightarrow> db' = after_import db p c"
    if acc: "plan_accepted db p c" and db1: "db1 = db\<lparr>pdb_plans := pdb_plans db @ [new_plan_row p c]\<rparr>" for db1
  proof -
    have t: "tasks_ok db1 (pdb_tasks db1)" using assms(1) tasks_ok_plans by (simp add: db1 pdb_ok_def)
    let ?db2 = "db1\<lparr>pdb_tasks := pdb_tasks db1 @ map (new_task_row p c) (plan_tasks_of p)\<rparr>"
    have "tasks_ok db1 (pdb_tasks db1 @ map (new_task_row p c) (plan_tasks_of p))"
      using plan_accepted_tasks [OF assms(1) acc] by (simp add: db1)
    then have 2: "fold_res (insert_task p c) db1 (plan_tasks_of p) = Inr ?db2"
      using insert_tasks [OF t, of p c "plan_tasks_of p" ?db2] by simp
    have e: "edges_ok ?db2 (pdb_edges ?db2)"
      by (rule edges_ok_tasks [of db]) (use assms(1) in \<open>auto simp: db1 pdb_ok_def\<close>)
    have "edges_ok ?db2 (pdb_edges ?db2 @ map (new_edge_row p) (plan_edges (plan_tasks_of p)))"
      using plan_accepted_edges [OF assms(1) acc assms(2), of ?db2] by (simp add: db1)
    then show ?thesis
      using 2 insert_edges [OF e, of p "plan_tasks_of p" db']
      by (simp add: insert_plan_tasks_def after_import_def db1)
  qed
  have plan: "insert_plan db p c = Inr (db\<lparr>pdb_plans := pdb_plans db @ [new_plan_row p c]\<rparr>)" if "plan_accepted db p c"
    using plan_accepted_plan(1) [OF assms(1) that] by (simp add: insert_plan_def new_plan_row_def)
  show "import_plan db p c = Some (Inr db') \<longleftrightarrow> plan_accepted db p c \<and> db' = after_import db p c"
  proof (cases "plan_accepted db p c")
    case True
    then have "expected_revision db p = Inr (fp_revision p)"
      using expected_revision_Inr [OF hist, of "fp_revision p"] by (simp add: plan_accepted_def)
    moreover have "valid = Inr ()" using True valid by (cases valid) (auto simp: plan_accepted_def)
    ultimately show ?thesis
      using True valid(1) plan [OF True] rows [OF True refl] by (simp add: import_plan_def plan_accepted_def ensure_def)
  next
    case False
    have "plan_accepted db p c" if "import_plan db p c = Some (Inr db')"
      using that valid expected_revision_Inr [OF hist, of "fp_revision p"]
      by (auto simp: import_plan_def res plan_accepted_def)
    then show ?thesis using False by blast
  qed
qed

section \<open>Every operation keeps the invariant\<close>

lemma tasks_at_after [simp]:
  "tasks_at (after_import db p c) k
    = tasks_at db k @ (if k = (fp_feature_id p, fp_revision p) then map (new_task_row p c) (plan_tasks_of p) else [])"
  by (simp add: tasks_at_def after_import_def)

lemma edges_at_after [simp]:
  "edges_at (after_import db p c) k
    = edges_at db k @ (if k = (fp_feature_id p, fp_revision p) then map (new_edge_row p) (plan_edges (plan_tasks_of p)) else [])"
  by (simp add: edges_at_def after_import_def)

lemma nothing_at_new_plan:
  assumes "pdb_ok db" and "k \<notin> plan_key ` set (pdb_plans db)"
  shows "tasks_at db k = []" and "edges_at db k = []"
proof -
  show t: "tasks_at db k = []"
    using assms by (auto simp: tasks_at_def pdb_ok_def tasks_ok_def list_all_iff filter_empty_conv)
  have "(eg_feature_id e, eg_plan_revision e) \<noteq> k" if "e \<in> set (pdb_edges db)" for e
  proof -
    have "(eg_feature_id e, eg_plan_revision e, eg_task_id e) \<in> task_key ` set (pdb_tasks db)"
      using assms(1) that by (simp add: pdb_ok_def edges_ok_def list_all_iff)
    then show ?thesis using t by (auto simp: tasks_at_def filter_empty_conv task_key_def)
  qed
  then show "edges_at db k = []" by (simp add: edges_at_def filter_empty_conv)
qed

lemma plan_key_new [simp]: "plan_key (new_plan_row p c) = (fp_feature_id p, fp_revision p)"
  by (simp add: plan_key_def new_plan_row_def)

lemma feature_history_append:
  assumes "feature_history_ok rows" and "unat (revision_get (pl_revision r)) = Suc (length rows)"
    and "\<forall>x \<in> set rows. pl_repository_id x = pl_repository_id r"
  shows "feature_history_ok (rows @ [r])"
  using assms unfolding feature_history_ok_def by (auto simp: ball_Un)

lemma after_import_ok:
  assumes "pdb_ok db" and "plan_maps p" and "plan_accepted db p c"
  shows "pdb_ok (after_import db p c)"
proof -
  let ?db = "after_import db p c"
  note new = plan_accepted_plan [OF assms(1,3)]
  have acc: "plan_ok p" "plan_graph_ok p" using assms(3) by (simp_all add: plan_accepted_def)
  have sel: "pdb_registry ?db = pdb_registry db" "pdb_plans ?db = pdb_plans db @ [new_plan_row p c]"
    "pdb_tasks ?db = pdb_tasks db @ map (new_task_row p c) (plan_tasks_of p)"
    "pdb_edges ?db = pdb_edges db @ map (new_edge_row p) (plan_edges (plan_tasks_of p))"
    "pdb_package_tasks ?db = pdb_package_tasks db" "pdb_packages ?db = pdb_packages db"
    by (simp_all add: after_import_def)
  have 1: "plans_ok ?db (pdb_plans ?db)" using new(1) by (simp add: plans_ok_def sel)
  have 2: "tasks_ok ?db (pdb_tasks ?db)"
    using plan_accepted_tasks [OF assms(1,3)] by (simp add: tasks_ok_def sel)
  have 3: "edges_ok ?db (pdb_edges ?db)"
    using plan_accepted_edges [OF assms(1,3,2) refl] by (simp add: edges_ok_def sel)
  have "row_holds (new_task_row p c t) (plain Planned)" for t
    using ts_reachable_plain [of Planned] by (simp add: row_holds_def new_task_row_def)
  then have 4: "list_all (\<lambda>r. \<exists>st. row_holds r st) (pdb_tasks ?db)"
    using assms(1) by (auto simp: sel pdb_ok_def list_all_iff)
  have 5: "list_all plan_row_valid (pdb_plans ?db)"
    using assms(1,2) acc by (simp add: sel pdb_ok_def plan_row_valid_def new_plan_row_def)
  have "projected ?db (new_plan_row p c)"
    using nothing_at_new_plan [OF assms(1) new(2)]
    by (auto simp: projected_def new_plan_row_def plan_key_def comp_def split: prod.splits)
  moreover have "projected ?db r" if "r \<in> set (pdb_plans db)" for r
  proof -
    have "plan_key r \<noteq> (fp_feature_id p, fp_revision p)" using that new(2) by (metis image_eqI)
    then show ?thesis using assms(1) that by (simp add: pdb_ok_def list_all_iff projected_def)
  qed
  ultimately have 6: "list_all (projected ?db) (pdb_plans ?db)" by (simp add: sel list_all_iff)
  have 7: "packages_ok (plan_key ` set (pdb_plans ?db)) (pdb_packages db)"
    using assms(1) by (auto simp: sel pdb_ok_def intro: packages_ok_mono)
  have "feature_history_ok (plans_of_feature ?db f)" for f
  proof (cases "f = fp_feature_id p")
    case True
    then have "plans_of_feature ?db f = plans_of_feature db f @ [new_plan_row p c]"
      by (simp add: plans_of_feature_def sel new_plan_row_def)
    then show ?thesis
      using feature_history_append [of "plans_of_feature db f" "new_plan_row p c"] assms(1,3) True
      by (simp add: pdb_ok_def plan_accepted_def new_plan_row_def)
  next
    case False
    then have "plans_of_feature ?db f = plans_of_feature db f"
      by (simp add: plans_of_feature_def sel new_plan_row_def)
    then show ?thesis using assms(1) by (simp add: pdb_ok_def)
  qed
  then show ?thesis
    using assms(1) 1 2 3 4 5 6 7 unfolding pdb_ok_def package_tasks_ok_def sel by simp
qed

definition task_follows :: "task_row \<Rightarrow> task_row \<Rightarrow> bool" where
  "task_follows r r' \<longleftrightarrow> task_key r' = task_key r \<and> tk_name r' = tk_name r
     \<and> (\<forall>st. row_holds r st \<longrightarrow> (\<exists>st'. row_holds r' st' \<and> rtranclp ts_step st st'))"

lemma task_follows_refl [simp]: "task_follows r r"
  by (auto simp: task_follows_def)

lemma task_follows_trans: "task_follows r r' \<Longrightarrow> task_follows r' r'' \<Longrightarrow> task_follows r r''"
  unfolding task_follows_def by (metis rtranclp_trans)

definition tasks_follow :: "plan_db \<Rightarrow> plan_db \<Rightarrow> bool" where
  "tasks_follow db db' \<longleftrightarrow> list_all2 task_follows (pdb_tasks db) (take (length (pdb_tasks db)) (pdb_tasks db'))"

lemma tasks_follow_refl [simp]: "tasks_follow db db"
  by (simp add: tasks_follow_def list_all2_refl)

lemma advance_task_rows:
  assumes "pdb_ok db" and "advance_task db f v t target reason now = Inr (db', rec')"
  shows "pdb_ok db'" and "list_all2 task_follows (pdb_tasks db) (pdb_tasks db')"
    and "\<exists>st state r. ts_transition st target reason = Inr state
      \<and> find (\<lambda>r. task_key r = (f, v, t)) (pdb_tasks db) = Some r \<and> row_holds r st
      \<and> rec' = record_of (moved_row state now r) state
      \<and> db' = db\<lparr>pdb_tasks := map (\<lambda>x. if task_key x = (f, v, t) then moved_row state now x else x) (pdb_tasks db)\<rparr>"
proof -
  obtain r st state where r: "find (\<lambda>r. task_key r = (f, v, t)) (pdb_tasks db) = Some r" "row_holds r st"
    and state: "ts_transition st target reason = Inr state"
    and db0: "db' = db\<lparr>pdb_tasks := map (\<lambda>x. if task_key x = (f, v, t) \<and> tk_status x = tk_status r
      \<and> tk_blocked_from x = tk_blocked_from r then moved_row state now x else x) (pdb_tasks db)\<rparr>"
    and ok': "tasks_ok db (pdb_tasks db')" and rec': "rec' = record_of (moved_row state now r) state"
    by (rule advance_task_Inr [OF assms(2)])
  have uniq: "x = r" if "x \<in> set (pdb_tasks db)" "task_key x = (f, v, t)" for x
    using that find_Some_in [OF r(1)] by (intro one_task [OF assms(1)]) simp_all
  let ?upd = "\<lambda>x. if task_key x = (f, v, t) then moved_row state now x else x"
  have db': "db' = db\<lparr>pdb_tasks := map ?upd (pdb_tasks db)\<rparr>"
    unfolding db0 using uniq by (auto intro!: arg_cong [of _ _ "\<lambda>rs. db\<lparr>pdb_tasks := rs\<rparr>"])
  have step: "ts_step st state" using state by (rule ts_step.transition)
  then have reach: "ts_reachable state" using r(2) by (auto simp: row_holds_def intro: ts_reachable.step)
  have follows: "task_follows x (?upd x)" if "x \<in> set (pdb_tasks db)" for x
  proof (cases "task_key x = (f, v, t)")
    case True
    then have "x = r" using uniq that by blast
    then show ?thesis
      using True step row_holds_unique [OF r(2)] moved_row_holds [OF reach]
      unfolding task_follows_def by (auto intro: r_into_rtranclp)
  qed simp
  then show "list_all2 task_follows (pdb_tasks db) (pdb_tasks db')"
    by (simp add: db' list_all2_map2 list_all2_same)
  have "map task_key (pdb_tasks db') = map task_key (pdb_tasks db)" by (simp add: db')
  then have keys: "task_key ` set (pdb_tasks db') = task_key ` set (pdb_tasks db)" by (metis list.set_map)
  have "projected db' x = projected db x" for x
  proof -
    have "map (\<lambda>k. (tk_task_id k, tk_name k)) (filter P (map ?upd rs))
      = map (\<lambda>k. (tk_task_id k, tk_name k)) (filter P rs)"
      if "\<And>k. P (moved_row state now k) = P k" for P and rs
      using that by (induction rs) auto
    then show ?thesis by (simp add: projected_def tasks_at_def edges_at_def db')
  qed
  moreover have "list_all (\<lambda>r. \<exists>st. row_holds r st) (pdb_tasks db')"
    using assms(1) follows by (fastforce simp: db' pdb_ok_def list_all_iff task_follows_def)
  moreover have "edges_ok db' (pdb_edges db')"
    by (rule edges_ok_tasks [of db]) (use assms(1) keys in \<open>auto simp: pdb_ok_def db'\<close>)
  moreover have "tasks_ok db' (pdb_tasks db')" using ok' by (simp add: tasks_ok_def db')
  ultimately show "pdb_ok db'"
    using assms(1) by (simp add: pdb_ok_def db' plans_ok_def package_tasks_ok_def plans_of_feature_def list_all_iff)
  show "\<exists>st state r. ts_transition st target reason = Inr state
      \<and> find (\<lambda>r. task_key r = (f, v, t)) (pdb_tasks db) = Some r \<and> row_holds r st
      \<and> rec' = record_of (moved_row state now r) state
      \<and> db' = db\<lparr>pdb_tasks := map (\<lambda>x. if task_key x = (f, v, t) then moved_row state now x else x) (pdb_tasks db)\<rparr>"
    using state r rec' db' by blast
qed

lemma advance_loop_ok:
  assumes "pdb_ok db" and "advance_loop f v t target now db rec = (r, db')"
  shows "pdb_ok db' \<and> list_all2 task_follows (pdb_tasks db) (pdb_tasks db')"
  using assms
proof (induction f v t target now db rec rule: advance_loop.induct)
  case (1 f v t target now db rec)
  show ?case
  proof (cases "ts_status (tr_state rec) = target")
    case True
    then show ?thesis using 1(2,3) by (simp add: advance_loop.simps list_all2_same)
  next
    case False
    show ?thesis
    proof (cases "next_ordinary (ts_status (tr_state rec))")
      case None
      then show ?thesis using 1(2,3) False by (auto simp: advance_loop.simps list_all2_same)
    next
      case (Some nxt)
      show ?thesis
      proof (cases "advance_task db f v t nxt None now")
        case (Inl e)
        then show ?thesis using 1(2,3) False Some by (auto simp: advance_loop.simps list_all2_same)
      next
        case (Inr x)
        obtain db1 rec1 where x: "x = (db1, rec1)" by (cases x)
        note a = advance_task_rows [OF 1(2) Inr [unfolded x]]
        have "advance_loop f v t target now db1 rec1 = (r, db')"
          using 1(3) False Some Inr x by (simp add: advance_loop.simps [of f v t target now db])
        then have "pdb_ok db' \<and> list_all2 task_follows (pdb_tasks db1) (pdb_tasks db')"
          using 1(1) [OF False Some Inr x [symmetric] a(1)] by simp
        then show ?thesis using a(2) list_all2_trans [of task_follows task_follows task_follows] task_follows_trans by blast
      qed
    qed
  qed
qed

lemma advance_task_to_ok:
  assumes "pdb_ok db" and "advance_task_to db f v t target now = (r, db')"
  shows "pdb_ok db' \<and> list_all2 task_follows (pdb_tasks db) (pdb_tasks db')"
  using assms advance_loop_ok [of db f v t target now _ r db']
  by (auto simp: advance_task_to_def list_all2_same split: sum.splits option.splits bool.splits)

lemma record_package_tasks_ok:
  assumes "pdb_ok db" and "record_package_tasks db p v ts = Inr db'"
  shows "pdb_ok db'" and "pdb_tasks db' = pdb_tasks db"
proof -
  have "db' = db\<lparr>pdb_package_tasks := pdb_package_tasks db @ map (\<lambda>t. (p, v, t)) ts\<rparr>
      \<and> package_tasks_ok db (pdb_package_tasks db @ map (\<lambda>t. (p, v, t)) ts)"
    using package_task_table.insert_all [of "insert_package_task p v" "\<lambda>t. (p, v, t)" "\<lambda>db. Sqlite (pdb_violation db)" db ts db']
      assms by (simp add: record_package_tasks_def insert_package_task_def Let_def pdb_ok_def)
  then show "pdb_ok db'" "pdb_tasks db' = pdb_tasks db"
    using assms(1) by (simp_all add: pdb_ok_def plans_ok_def tasks_ok_def edges_ok_def package_tasks_ok_def
        projected_def [abs_def] tasks_at_def edges_at_def plans_of_feature_def)
qed

lemma registry_step_ids:
  assumes "registry_step g g'"
  shows "rr_id ` set (rg_repositories g) \<subseteq> rr_id ` set (rg_repositories g')"
  using assms
proof (cases rule: registry_step.cases)
  case (enroll p reg)
  then show ?thesis using enroll_Inr(7) [of g reg p None g'] by (auto simp: enroll_repository_def)
next
  case (enroll_scheduled p reg s)
  show ?thesis using enroll_Inr(7) [OF enroll_scheduled_inner(1) [OF enroll_scheduled(2)]] by auto
next
  case (policy p c)
  then show ?thesis using activate_policy_Inr(1) [of g p c g'] by simp
qed (auto simp: activate_schedule_policy_def activate_schedule_override_def Let_def res commit_registry_def
    split: if_splits)

lemma plan_registry_ok:
  assumes "pdb_ok db" and "registry_step (pdb_registry db) g'"
  shows "pdb_ok (db\<lparr>pdb_registry := g'\<rparr>)"
proof -
  have "registry_ok g'" using assms registry_step_ok by (auto simp: pdb_ok_def)
  moreover have "plans_ok (db\<lparr>pdb_registry := g'\<rparr>) (pdb_plans db)"
    using assms(1) registry_step_ids [OF assms(2)] by (auto simp: pdb_ok_def plans_ok_def list_all_iff)
  ultimately show ?thesis
    using assms(1) by (simp add: pdb_ok_def tasks_ok_def edges_ok_def package_tasks_ok_def
        projected_def [abs_def] tasks_at_def edges_at_def plans_of_feature_def)
qed

lemma plan_packages_ok:
  assumes "pdb_ok db" and "package_step (plan_key ` set (pdb_plans db)) (pdb_packages db) k'"
  shows "pdb_ok (db\<lparr>pdb_packages := k'\<rparr>)"
proof -
  have "packages_ok (plan_key ` set (pdb_plans db)) k'"
    using package_step_ok [OF assms(2)] assms(1) by (simp add: pdb_ok_def)
  moreover have "package_tasks_ok (db\<lparr>pdb_packages := k'\<rparr>) (pdb_package_tasks db)"
    using assms(1) package_step_history [OF assms(2)] by (auto simp: pdb_ok_def package_tasks_ok_def list_all_iff)
  ultimately show ?thesis
    using assms(1) by (simp add: pdb_ok_def plans_ok_def tasks_ok_def edges_ok_def
        projected_def [abs_def] tasks_at_def edges_at_def plans_of_feature_def)
qed

section \<open>Reachable databases\<close>

inductive plan_db_step :: "plan_db \<Rightarrow> plan_db \<Rightarrow> bool" where
  import_: "plan_maps p \<Longrightarrow> import_plan db p c = Some (Inr db') \<Longrightarrow> plan_db_step db db'"
| advance: "advance_task db f v t target reason now = Inr (db', rec) \<Longrightarrow> plan_db_step db db'"
| advance_to: "advance_task_to db f v t target now = (r, db') \<Longrightarrow> plan_db_step db db'"
| package: "record_package_tasks db p v ts = Inr db' \<Longrightarrow> plan_db_step db db'"
| registry: "registry_step (pdb_registry db) g' \<Longrightarrow> plan_db_step db (db\<lparr>pdb_registry := g'\<rparr>)"
| packages: "package_step (plan_key ` set (pdb_plans db)) (pdb_packages db) k' \<Longrightarrow> plan_db_step db (db\<lparr>pdb_packages := k'\<rparr>)"

inductive plan_db_reachable :: "plan_db \<Rightarrow> bool" where
  empty: "registry_reachable (pdb_registry db) \<Longrightarrow> pdb_plans db = [] \<Longrightarrow> pdb_tasks db = [] \<Longrightarrow> pdb_edges db = []
    \<Longrightarrow> pdb_package_tasks db = [] \<Longrightarrow> kd_workspaces (pdb_packages db) = [] \<Longrightarrow> kd_snapshots (pdb_packages db) = []
    \<Longrightarrow> kd_issues (pdb_packages db) = [] \<Longrightarrow> plan_db_reachable db"
| step: "plan_db_reachable db \<Longrightarrow> plan_db_step db db' \<Longrightarrow> plan_db_reachable db'"

lemma plan_db_step_ok:
  assumes "plan_db_step db db'" and "pdb_ok db"
  shows "pdb_ok db' \<and> tasks_follow db db'"
  using assms
proof (cases rule: plan_db_step.cases)
  case (import_ p c)
  then have "plan_accepted db p c" "db' = after_import db p c"
    using import_plan_iff(2) [OF assms(2)] by blast+
  then show ?thesis
    using after_import_ok [OF assms(2) import_(1)] by (simp add: tasks_follow_def after_import_def list_all2_same)
next
  case (advance f v t target reason now rec)
  note a = advance_task_rows(1,2) [OF assms(2) advance]
  then show ?thesis using list_all2_lengthD [OF a(2)] by (simp add: tasks_follow_def)
next
  case (advance_to f v t target now r)
  have a: "pdb_ok db'" "list_all2 task_follows (pdb_tasks db) (pdb_tasks db')"
    using advance_task_to_ok [OF assms(2) advance_to] by simp_all
  then show ?thesis using list_all2_lengthD [OF a(2)] by (simp add: tasks_follow_def)
next
  case (package p v ts)
  then show ?thesis
    using record_package_tasks_ok [OF assms(2) package] by (simp add: tasks_follow_def list_all2_same)
next
  case (registry g')
  then show ?thesis using plan_registry_ok [OF assms(2)] by (simp add: tasks_follow_def list_all2_same)
next
  case (packages k')
  then show ?thesis using plan_packages_ok [OF assms(2)] by (simp add: tasks_follow_def list_all2_same)
qed

lemma plan_db_reachable_ok: "plan_db_reachable db \<Longrightarrow> pdb_ok db"
proof (induction rule: plan_db_reachable.induct)
  case (empty db)
  then show ?case
    using registry_reachable_ok
    by (simp add: pdb_ok_def plans_ok_def tasks_ok_def edges_ok_def package_tasks_ok_def plans_of_feature_def
        feature_history_ok_def no_packages_ok)
next
  case (step db db')
  then show ?case using plan_db_step_ok by blast
qed

section \<open>What a step does to one task\<close>

lemma find_follows:
  assumes "list_all2 R xs (take (length xs) ys)" and "\<And>x y. R x y \<Longrightarrow> key y = key x"
    and "find (\<lambda>x. key x = k) xs = Some x"
  shows "\<exists>y. find (\<lambda>x. key x = k) ys = Some y \<and> R x y"
  using assms
proof (induction xs arbitrary: ys)
  case (Cons a xs)
  then obtain b bs where "ys = b # bs" "R a b" "list_all2 R xs (take (length xs) bs)"
    by (cases ys) auto
  then show ?case using Cons by (auto split: if_splits)
qed simp

lemma expect_task_follows:
  assumes "tasks_follow db db'" and "expect_task db f v t = Inr rec"
  shows "\<exists>rec'. expect_task db' f v t = Inr rec' \<and> tr_name rec' = tr_name rec
    \<and> rtranclp ts_step (tr_state rec) (tr_state rec')"
proof -
  obtain r st where r: "find (\<lambda>r. task_key r = (f, v, t)) (pdb_tasks db) = Some r" "row_holds r st"
    and rec: "rec = record_of r st"
    using assms(2) by (auto simp: expect_task_Inr)
  obtain r' where r': "find (\<lambda>r. task_key r = (f, v, t)) (pdb_tasks db') = Some r'" "task_follows r r'"
    using find_follows [OF assms(1) [unfolded tasks_follow_def] _ r(1)] by (auto simp: task_follows_def)
  then obtain st' where "row_holds r' st'" "rtranclp ts_step st st'" "tk_name r' = tk_name r"
    using r(2) by (auto simp: task_follows_def)
  then have "expect_task db' f v t = Inr (record_of r' st')"
    using r'(1) by (auto simp: expect_task_Inr)
  then show ?thesis using rec \<open>rtranclp ts_step st st'\<close> \<open>tk_name r' = tk_name r\<close> by simp
qed

lemma terminal_stays: "rtranclp ts_step st st' \<Longrightarrow> is_terminal (ts_status st) \<Longrightarrow> st' = st"
  by (induction rule: converse_rtranclp_induct) (use terminal_no_step in blast)+

text \<open>An ordinary step of a stored task always succeeds.\<close>

lemma ordinary_state:
  assumes "ts_reachable st" and "normal_successor (ts_status st) = Some s"
  shows "st = plain (ts_status st)"
  using ts_reachable_coherent [OF assms(1)] assms(2)
  by (cases "ts_status st") (auto simp: ts_coherent_def plain_def)

lemma ordinary_transition:
  "normal_successor s = Some s' \<Longrightarrow> ts_transition (plain s) s' None = Inr (plain s')"
  by (cases s) (auto simp: ts_transition_def plain_def)

lemma tasks_ok_moved:
  assumes "tasks_ok db rows" and "0 \<le> now" and "s \<noteq> Blocked"
  shows "tasks_ok db (map (\<lambda>x. if P x then moved_row (plain s) now x else x) rows)"
proof -
  have "task_row_ok (moved_row (plain s) now x)" if "task_row_ok x" for x
    using that assms(2,3) by (cases s) (auto simp: task_row_ok_def moved_row_def)
  then have "list_all task_row_ok (map (\<lambda>x. if P x then moved_row (plain s) now x else x) rows)"
    using assms(1) by (auto simp: tasks_ok_def list_all_iff)
  moreover have "map task_key (map (\<lambda>x. if P x then moved_row (plain s) now x else x) rows) = map task_key rows"
    by simp
  then have "distinct (map task_key (map (\<lambda>x. if P x then moved_row (plain s) now x else x) rows))"
    using assms(1) by (simp only: tasks_ok_def)
  ultimately show ?thesis
    using assms(1) unfolding tasks_ok_def by (auto simp: list_all_iff)
qed

lemma advance_ordinary:
  assumes "pdb_ok db" and "expect_task db f v t = Inr rec" and "0 \<le> now"
    and "next_ordinary (ts_status (tr_state rec)) = Some nxt"
  obtains db' rec' where "advance_task db f v t nxt None now = Inr (db', rec')"
    and "tr_state rec' = plain nxt" and "tr_updated_at rec' = now" and "expect_task db' f v t = Inr rec'"
    and "\<And>k. (k \<noteq> (f, v, t)) \<Longrightarrow> find (\<lambda>r. task_key r = k) (pdb_tasks db') = find (\<lambda>r. task_key r = k) (pdb_tasks db)"
proof -
  obtain r st where r: "find (\<lambda>r. task_key r = (f, v, t)) (pdb_tasks db) = Some r" "row_holds r st"
    and rec: "rec = record_of r st"
    using assms(2) by (auto simp: expect_task_Inr)
  have succ: "normal_successor (ts_status st) = Some nxt" using assms(4) by (simp add: next_ordinary_def rec)
  have st: "st = plain (ts_status st)" using ordinary_state r(2) succ by (simp add: row_holds_def)
  have tr: "ts_transition st nxt None = Inr (plain nxt)" using ordinary_transition [OF succ] st by simp
  have nb: "nxt \<noteq> Blocked" using succ by (cases "ts_status st") auto
  let ?cond = "\<lambda>x. task_key x = (f, v, t) \<and> tk_status x = status_column (ts_status st)
    \<and> tk_blocked_from x = map_option status_column (ts_blocked_from st)"
  have cr: "r \<in> set (pdb_tasks db)" "?cond r" using find_Some_in [OF r(1)] r(2) by (auto simp: row_holds_def)
  have "filter (\<lambda>x. task_key x = task_key r) (pdb_tasks db) = [r]"
    using filter_unique [of task_key, OF _ cr(1)] assms(1) by (simp add: pdb_ok_def tasks_ok_def)
  moreover have "filter ?cond (pdb_tasks db) = filter (\<lambda>x. task_key x = task_key r \<and> ?cond x) (pdb_tasks db)"
    by (rule filter_cong) (use cr(2) in auto)
  then have "filter ?cond (pdb_tasks db) = filter ?cond (filter (\<lambda>x. task_key x = task_key r) (pdb_tasks db))"
    by (simp only: filter_filter)
  ultimately have one: "length (filter ?cond (pdb_tasks db)) = 1" using cr(2) by simp
  define db' where "db' = db\<lparr>pdb_tasks := map (\<lambda>x. if ?cond x then moved_row (plain nxt) now x else x) (pdb_tasks db)\<rparr>"
  have upd: "update_task db ?cond (moved_row (plain nxt) now) = Inr db'"
    using tasks_ok_moved [OF _ assms(3) nb, of db "pdb_tasks db" ?cond] assms(1) one
    by (simp add: update_task_def db'_def pdb_ok_def)
  have f': "find (\<lambda>x. task_key x = k) (pdb_tasks db')
      = map_option (\<lambda>x. if ?cond x then moved_row (plain nxt) now x else x) (find (\<lambda>x. task_key x = k) (pdb_tasks db))" for k
    using find_map_update [of task_key "moved_row (plain nxt) now" k ?cond] by (simp add: db'_def)
  have reach: "ts_reachable (plain nxt)"
    using r(2) tr by (auto simp: row_holds_def intro: ts_reachable.step ts_step.transition)
  have exp: "expect_task db' f v t = Inr (record_of (moved_row (plain nxt) now r) (plain nxt))"
    using f' [of "(f, v, t)"] r(1) cr(2) moved_row_holds [OF reach] by (auto simp: expect_task_Inr)
  have "advance_task db f v t nxt None now = Inr (db', record_of (moved_row (plain nxt) now r) (plain nxt))"
    using assms(2) tr upd exp by (simp add: advance_task_def rec Let_def moved_row_def [abs_def])
  then show thesis
  proof (rule that)
    show "find (\<lambda>r. task_key r = k) (pdb_tasks db') = find (\<lambda>r. task_key r = k) (pdb_tasks db)"
      if "k \<noteq> (f, v, t)" for k
      using that f' [of k] by (cases "find (\<lambda>x. task_key x = k) (pdb_tasks db)") (auto dest: find_Some_in)
  qed (use exp in \<open>simp_all add: moved_row_def\<close>)
qed

lemma advance_loop_reaches:
  assumes "pdb_ok db" and "expect_task db f v t = Inr rec" and "0 \<le> now"
    and "ordinary_position (ts_status (tr_state rec)) = Some n" and "ordinary_position target = Some m" and "n < m"
  shows "\<exists>rec' db'. advance_loop f v t target now db rec = (Inr rec', db') \<and> tr_state rec' = plain target
    \<and> tr_updated_at rec' = now \<and> expect_task db' f v t = Inr rec'
    \<and> (\<forall>k. k \<noteq> (f, v, t) \<longrightarrow> find (\<lambda>r. task_key r = k) (pdb_tasks db') = find (\<lambda>r. task_key r = k) (pdb_tasks db))"
  using assms
proof (induction "m - n" arbitrary: n db rec)
  case 0
  then show ?case by simp
next
  case (Suc d)
  obtain nxt where nxt: "next_ordinary (ts_status (tr_state rec)) = Some nxt"
    using next_ordinary_total [OF Suc.prems(4-6)] by blast
  then have pos: "ordinary_position nxt = Some (Suc n)"
    using next_ordinary_position [OF nxt] Suc.prems(4) by simp
  obtain db1 rec1 where a: "advance_task db f v t nxt None now = Inr (db1, rec1)" "tr_state rec1 = plain nxt"
      "tr_updated_at rec1 = now" "expect_task db1 f v t = Inr rec1"
    and others: "\<And>k. (k \<noteq> (f, v, t)) \<Longrightarrow> find (\<lambda>r. task_key r = k) (pdb_tasks db1) = find (\<lambda>r. task_key r = k) (pdb_tasks db)"
    using advance_ordinary [OF Suc.prems(1-3) nxt] by blast
  have ok1: "pdb_ok db1" by (rule advance_task_rows(1) [OF Suc.prems(1) a(1)])
  have "ts_status (tr_state rec) \<noteq> target" using Suc.prems(4-6) by auto
  then have loop: "advance_loop f v t target now db rec = advance_loop f v t target now db1 rec1"
    using nxt a(1) by (simp add: advance_loop.simps [of f v t target now db])
  show ?case
  proof (cases "Suc n = m")
    case True
    then have "nxt = target" using pos Suc.prems(5) ordinary_position_inj by blast
    then show ?thesis
      using a others loop by (simp add: advance_loop.simps [of f v t target now db1])
  next
    case False
    then have "\<exists>rec' db'. advance_loop f v t target now db1 rec1 = (Inr rec', db') \<and> tr_state rec' = plain target
        \<and> tr_updated_at rec' = now \<and> expect_task db' f v t = Inr rec'
        \<and> (\<forall>k. k \<noteq> (f, v, t) \<longrightarrow> find (\<lambda>r. task_key r = k) (pdb_tasks db') = find (\<lambda>r. task_key r = k) (pdb_tasks db1))"
      using Suc.hyps(1) [of "Suc n" db1 rec1] Suc.hyps(2) ok1 a(2,4) Suc.prems(3,5,6) pos by simp
    then show ?thesis using loop others by auto
  qed
qed

section \<open>Reading the projection\<close>

lemma plan_row_at:
  assumes "pdb_ok db" and "r \<in> set (pdb_plans db)"
  shows "filter (\<lambda>x. pl_revision x = pl_revision r) (plans_of_feature db (pl_feature_id r)) = [r]"
proof -
  have "filter (\<lambda>x. plan_key x = plan_key r) (pdb_plans db) = [r]"
    using filter_unique [of plan_key, OF _ assms(2)] assms(1) by (simp add: pdb_ok_def plans_ok_def)
  then show ?thesis by (simp add: plans_of_feature_def plan_key_def conj_commute)
qed

lemma load_stored_plan:
  assumes "pdb_ok db" and "r \<in> set (pdb_plans db)"
  shows "load_plan db r = Some (Inr \<lparr>stp_plan = pl_document r, stp_created_at = pl_created_at r\<rparr>)"
proof -
  have v: "plan_row_valid r" using assms by (simp add: pdb_ok_def list_all_iff)
  then obtain u where "plan_validate (pl_document r) = Some (Inr u)"
    using plan_validate_total [of "pl_document r"] by (auto simp: plan_row_valid_def res)
  then show ?thesis by (simp add: load_plan_def)
qed

lemma plan_edges_filter:
  assumes "distinct (map pt_id ts)" and "t \<in> set ts"
  shows "filter (\<lambda>x. fst x = pt_id t) (plan_edges ts) = map (Pair (pt_id t)) (pt_dependencies t)"
  using assms
proof (induction ts)
  case (Cons a ts)
  have e: "plan_edges (a # ts) = map (Pair (pt_id a)) (pt_dependencies a) @ plan_edges ts"
    by (simp add: plan_edges_def)
  show ?case
  proof (cases "t = a")
    case True
    have "filter (\<lambda>x. fst x = pt_id a) (plan_edges ts) = []"
      using Cons.prems(1) by (auto simp: filter_empty_conv plan_edges_set) (metis image_eqI)
    then show ?thesis using True by (simp add: e filter_map comp_def)
  next
    case False
    then have "pt_id t \<noteq> pt_id a" using Cons.prems by (auto simp: image_iff)
    then show ?thesis using Cons False by (simp add: e filter_map comp_def)
  qed
qed simp

definition edge_milestone :: "edge_row \<Rightarrow> target_milestone" where
  "edge_milestone e = projr (milestone_from_column (eg_milestone e))"

lemma edge_milestone_column [simp]: "projr (milestone_from_column (milestone_column m)) = m"
  using milestone_roundtrip [of "milestone_column m" m] by simp

lemma edge_milestone_read:
  assumes "pdb_ok db" and "e \<in> set (pdb_edges db)"
  shows "milestone_from_column (eg_milestone e) = Inr (edge_milestone e)"
proof -
  have "\<exists>m. eg_milestone e = milestone_column m"
  proof -
    have "eg_milestone e \<in> {''captured'', ''development_available'', ''target_published''}"
      using assms by (simp add: pdb_ok_def edges_ok_def list_all_iff)
    then show ?thesis by (metis empty_iff insert_iff milestone_column.simps)
  qed
  then show ?thesis using milestone_roundtrip by (auto simp: edge_milestone_def)
qed

lemma stored_edges:
  assumes "pdb_ok db" and "r \<in> set (pdb_plans db)"
  shows "map (\<lambda>e. (eg_task_id e, eg_depends_on e, edge_milestone e)) (edges_at db (plan_key r))
    = plan_edges (plan_tasks_of (pl_document r))"
proof -
  have "map edge_of (edges_at db (plan_key r))
      = map (\<lambda>(t, d, m). (t, d, milestone_column m)) (plan_edges (plan_tasks_of (pl_document r)))"
    using assms by (simp add: pdb_ok_def list_all_iff projected_def)
  then have "map (\<lambda>(t, d, s). (t, d, projr (milestone_from_column s))) (map edge_of (edges_at db (plan_key r)))
      = map (\<lambda>(t, d, s). (t, d, projr (milestone_from_column s)))
          (map (\<lambda>(t, d, m). (t, d, milestone_column m)) (plan_edges (plan_tasks_of (pl_document r))))"
    by (rule arg_cong)
  then show ?thesis by (simp add: comp_def edge_of_def edge_milestone_def case_prod_unfold)
qed

lemma map_of_perm:
  assumes "mset ps = mset qs" and "distinct (map fst qs)"
  shows "map_of (rev ps) = map_of qs"
proof -
  have "distinct (map fst ps)" using assms by (metis mset_eq_imp_distinct_iff mset_map)
  then show ?thesis
    using assms(2) mset_eq_setD [OF assms(1)] by (metis distinct_rev map_of_inject_set rev_map set_rev)
qed

lemma fold_btm_insert:
  "btm_sorted acc \<Longrightarrow> btm_sorted (fold (\<lambda>(d, m) acc. btm_insert d m acc) ps acc)
    \<and> map_of (fold (\<lambda>(d, m) acc. btm_insert d m acc) ps acc) = map_of acc ++ map_of (rev ps)"
  by (induction ps arbitrary: acc) (auto simp: btm_insert_sorted map_of_btm_insert map_add_def fun_eq_iff
      split: option.splits)

lemma collect_edges:
  assumes "mset pairs = mset ds" and "btm_sorted ds"
  shows "fold (\<lambda>(d, m) acc. btm_insert d m acc) pairs [] = ds"
proof (rule btm_ext)
  have s: "btm_sorted []" by (simp add: btm_sorted_def bts_sorted_def)
  show "btm_sorted (fold (\<lambda>(d, m) acc. btm_insert d m acc) pairs [])" using fold_btm_insert [OF s] by blast
  show "map_of (fold (\<lambda>(d, m) acc. btm_insert d m acc) pairs []) = map_of ds"
    using fold_btm_insert [OF s, of pairs] map_of_perm [OF assms(1) btm_sorted_distinct [OF assms(2)]] by simp
qed (fact assms(2))

lemma stored_prerequisites:
  assumes "pdb_ok db" and "r \<in> set (pdb_plans db)" and "t \<in> set (plan_tasks_of (pl_document r))"
  shows "task_prerequisites db (pl_feature_id r) (pl_revision r) (pt_id t) = Inr (pt_dependencies t)"
proof -
  have v: "plan_row_valid r" using assms by (simp add: pdb_ok_def list_all_iff)
  let ?ts = "plan_tasks_of (pl_document r)"
  let ?es = "filter (\<lambda>e. eg_feature_id e = pl_feature_id r \<and> eg_plan_revision e = pl_revision r \<and> eg_task_id e = pt_id t)
    (pdb_edges db)"
  let ?pair = "\<lambda>e. (eg_depends_on e, edge_milestone e)"
  have "?es = filter (\<lambda>e. eg_task_id e = pt_id t) (edges_at db (plan_key r))"
    by (simp add: edges_at_def plan_key_def conj_ac)
  then have "map ?pair ?es = map snd (filter (\<lambda>x. fst x = pt_id t)
      (map (\<lambda>e. (eg_task_id e, eg_depends_on e, edge_milestone e)) (edges_at db (plan_key r))))"
    by (simp add: filter_map comp_def)
  also have "\<dots> = pt_dependencies t"
    using plan_edges_filter [OF _ assms(3)] plan_graph_facts(1) v
    by (simp add: stored_edges [OF assms(1,2)] plan_row_valid_def comp_def)
  finally have pairs: "map ?pair ?es = pt_dependencies t" .
  let ?sorted = "order_by_task db eg_depends_on ?es"
  have "collect_res (\<lambda>e. and_then (milestone_from_column (eg_milestone e)) (\<lambda>m. Inr (eg_depends_on e, m))) ?sorted
      = Inr (map ?pair ?sorted)"
    by (rule collect_res_all) (auto simp: order_by_task_def edge_milestone_read [OF assms(1)])
  moreover have "mset (map ?pair ?sorted) = mset (map ?pair ?es)" by (simp add: order_by_task_def)
  then have "mset (map ?pair ?sorted) = mset (pt_dependencies t)" by (simp only: pairs)
  moreover have "btm_sorted (pt_dependencies t)"
    using v assms(3) by (simp add: plan_row_valid_def plan_maps_def)
  ultimately show ?thesis
    using collect_edges [of "map ?pair ?sorted" "pt_dependencies t"] by (simp add: task_prerequisites_def)
qed

lemma stored_dependents:
  assumes "pdb_ok db" and "r \<in> set (pdb_plans db)"
  shows "\<exists>ds. task_dependents db (pl_feature_id r) (pl_revision r) d = Inr ds
    \<and> (\<lambda>x. (dp_task_id x, dp_required_milestone x)) ` set ds
      = {(pt_id t, m) | t m. t \<in> set (plan_tasks_of (pl_document r)) \<and> (d, m) \<in> set (pt_dependencies t)}"
proof -
  let ?es = "filter (\<lambda>e. eg_feature_id e = pl_feature_id r \<and> eg_plan_revision e = pl_revision r \<and> eg_depends_on e = d)
    (pdb_edges db)"
  let ?dep = "\<lambda>e. \<lparr>dp_task_id = eg_task_id e, dp_depends_on = d, dp_required_milestone = edge_milestone e\<rparr>"
  have "task_dependents db (pl_feature_id r) (pl_revision r) d = Inr (map ?dep (order_by_task db eg_task_id ?es))"
    unfolding task_dependents_def
    by (rule collect_res_all) (auto simp: order_by_task_def edge_milestone_read [OF assms(1)])
  moreover have "set (edges_at db (plan_key r)) = {e \<in> set (pdb_edges db). eg_feature_id e = pl_feature_id r
      \<and> eg_plan_revision e = pl_revision r}"
    by (auto simp: edges_at_def plan_key_def)
  then have "(\<lambda>e. (eg_task_id e, edge_milestone e)) ` set ?es
      = {(t, m). (t, d, m) \<in> set (map (\<lambda>e. (eg_task_id e, eg_depends_on e, edge_milestone e)) (edges_at db (plan_key r)))}"
    by auto
  then have "(\<lambda>e. (eg_task_id e, edge_milestone e)) ` set ?es
      = {(pt_id t, m) | t m. t \<in> set (plan_tasks_of (pl_document r)) \<and> (d, m) \<in> set (pt_dependencies t)}"
    unfolding stored_edges [OF assms] by (auto simp: plan_edges_set)
  ultimately show ?thesis by (simp add: order_by_task_def image_image)
qed

lemma stored_tasks_of_plan:
  assumes "pdb_ok db" and "r \<in> set (pdb_plans db)"
  shows "\<exists>recs. plan_tasks db (pl_feature_id r) (pl_revision r) = Inr recs
    \<and> mset (map (\<lambda>x. (tr_task_id x, tr_name x)) recs)
      = mset (map (\<lambda>t. (pt_id t, pt_name t)) (plan_tasks_of (pl_document r)))"
proof -
  let ?rows = "filter (\<lambda>k. tk_feature_id k = pl_feature_id r \<and> tk_plan_revision k = pl_revision r) (pdb_tasks db)"
  have at: "?rows = tasks_at db (plan_key r)" by (simp add: tasks_at_def plan_key_def)
  define rec where "rec k = record_of k (SOME st. row_holds k st)" for k
  have rec: "task_from_row k = Inr (rec k)" if "k \<in> set (pdb_tasks db)" for k
  proof -
    have "\<exists>st. row_holds k st" using assms(1) that by (simp add: pdb_ok_def list_all_iff)
    then show ?thesis using someI_ex [of "row_holds k"] by (auto simp: task_from_row_Inr rec_def)
  qed
  show ?thesis
  proof (intro exI conjI)
    show "plan_tasks db (pl_feature_id r) (pl_revision r) = Inr (map rec (order_by_task db tk_task_id ?rows))"
      unfolding plan_tasks_def by (rule collect_res_all) (auto simp: order_by_task_def rec)
    have "mset (map (\<lambda>x. (tr_task_id x, tr_name x)) (map rec (order_by_task db tk_task_id ?rows)))
        = mset (map (\<lambda>k. (tk_task_id k, tk_name k)) ?rows)"
      by (simp add: order_by_task_def rec_def comp_def image_mset.compositionality)
    also have "map (\<lambda>k. (tk_task_id k, tk_name k)) ?rows
        = map (\<lambda>t. (pt_id t, pt_name t)) (plan_tasks_of (pl_document r))"
      using assms unfolding at by (simp add: pdb_ok_def list_all_iff projected_def)
    finally show "mset (map (\<lambda>x. (tr_task_id x, tr_name x)) (map rec (order_by_task db tk_task_id ?rows)))
        = mset (map (\<lambda>t. (pt_id t, pt_name t)) (plan_tasks_of (pl_document r)))" .
  qed
qed

lemma after_import_follows: "tasks_follow db (after_import db p c)"
  by (simp add: tasks_follow_def after_import_def list_all2_same)

lemma plan_after_import:
  assumes "pdb_ok db'" and "db' = after_import db p c"
  shows "plan_of db' (fp_feature_id p) None = Some (Inr (Some \<lparr>stp_plan = p, stp_created_at = c\<rparr>))"
proof -
  have rows: "plans_of_feature db' (fp_feature_id p) = plans_of_feature db (fp_feature_id p) @ [new_plan_row p c]"
    by (simp add: assms(2) plans_of_feature_def after_import_def new_plan_row_def)
  have "newest_plan (plans_of_feature db' (fp_feature_id p)) = Some (new_plan_row p c)"
  proof -
    have "feature_history_ok (plans_of_feature db' (fp_feature_id p))" using assms(1) by (simp add: pdb_ok_def)
    from revision_history_last [OF this] show ?thesis by (simp add: rows)
  qed
  moreover have "new_plan_row p c \<in> set (pdb_plans db')" by (simp add: assms(2) after_import_def)
  note load_stored_plan [OF assms(1) this]
  ultimately show ?thesis by (simp add: plan_of_def new_plan_row_def)
qed

lemma tasks_after_import:
  assumes "pdb_ok db'" and "db' = after_import db p c" and "t \<in> set (plan_tasks_of p)"
  shows "\<exists>rec. expect_task db' (fp_feature_id p) (fp_revision p) (pt_id t) = Inr rec
    \<and> tr_state rec = ts_planned \<and> tr_name rec = pt_name t"
proof -
  let ?r = "new_task_row p c t"
  have "?r \<in> set (pdb_tasks db')" using assms(3) by (simp add: assms(2) after_import_def)
  moreover have "distinct (map task_key (pdb_tasks db'))" using assms(1) by (simp add: pdb_ok_def tasks_ok_def)
  ultimately have "filter (\<lambda>r. task_key r = task_key ?r) (pdb_tasks db') = [?r]"
    using filter_unique [of task_key "pdb_tasks db'" ?r] by blast
  then have "find (\<lambda>r. task_key r = (fp_feature_id p, fp_revision p, pt_id t)) (pdb_tasks db') = Some ?r"
    by (simp add: find_filter)
  moreover have "row_holds ?r ts_planned"
    using ts_reachable.start by (simp add: row_holds_def new_task_row_def ts_planned_def)
  ultimately have "expect_task db' (fp_feature_id p) (fp_revision p) (pt_id t) = Inr (record_of ?r ts_planned)"
    by (auto simp: expect_task_Inr)
  then show ?thesis by simp
qed

section \<open>Properties\<close>

text \<open>C20: importing a plan is decided by the document and its history alone.  The validation never
  panics, and the import succeeds exactly for a valid document whose target is the one configured
  for its repository, whose feature stays in its repository, and whose revision is the next one; no
  constraint of the database can fail after these checks.  The new database holds every task of
  the plan at \<open>planned\<close>, and nothing that was there before is lost.\<close>

theorem import_plan_decides:
  assumes "plan_db_reachable db" and "plan_maps p"
  shows "\<exists>r. import_plan db p created = Some r \<and> (is_ok r \<longleftrightarrow> plan_accepted db p created)
    \<and> (\<forall>db'. r = Inr db' \<longrightarrow> tasks_follow db db'
         \<and> plan_of db' (fp_feature_id p) None = Some (Inr (Some \<lparr>stp_plan = p, stp_created_at = created\<rparr>))
         \<and> (\<forall>t \<in> set (plan_tasks_of p). \<exists>rec. expect_task db' (fp_feature_id p) (fp_revision p) (pt_id t) = Inr rec
              \<and> tr_state rec = ts_planned \<and> tr_name rec = pt_name t))"
proof -
  have ok: "pdb_ok db" using assms(1) by (rule plan_db_reachable_ok)
  obtain r where r: "import_plan db p created = Some r" using import_plan_iff(1) [OF ok assms(2)] by blast
  have "tasks_follow db db'
      \<and> plan_of db' (fp_feature_id p) None = Some (Inr (Some \<lparr>stp_plan = p, stp_created_at = created\<rparr>))
      \<and> (\<forall>t \<in> set (plan_tasks_of p). \<exists>rec. expect_task db' (fp_feature_id p) (fp_revision p) (pt_id t) = Inr rec
           \<and> tr_state rec = ts_planned \<and> tr_name rec = pt_name t)"
    if "r = Inr db'" for db'
  proof -
    have acc: "plan_accepted db p created" and db': "db' = after_import db p created"
      using import_plan_iff(2) [OF ok assms(2)] r that by auto
    have ok': "pdb_ok db'" unfolding db' by (rule after_import_ok [OF ok assms(2) acc])
    show ?thesis
      using after_import_follows plan_after_import [OF ok' db'] tasks_after_import [OF ok' db'] db' by blast
  qed
  moreover have "is_ok r \<longleftrightarrow> plan_accepted db p created"
    using import_plan_iff(2) [OF ok assms(2), of created] r by (cases r) auto
  ultimately show ?thesis using r by blast
qed

text \<open>C37: a walk to a later stage arrives.  For a stored task on the ordinary path, asking for a stage it
  has reached or passed changes nothing; asking for any later stage terminates with the task there,
  without a reason, and every other task as it was; a task off the path, or a target off the path,
  is a conflict and nothing changes.\<close>

theorem advance_task_to_arrives:
  assumes "plan_db_reachable db" and "expect_task db f v t = Inr rec" and "0 \<le> now"
  shows "case is_at_or_past (ts_status (tr_state rec)) target of
      Some True \<Rightarrow> advance_task_to db f v t target now = (Inr rec, db)
    | Some False \<Rightarrow> (\<exists>rec' db'. advance_task_to db f v t target now = (Inr rec', db')
        \<and> tr_state rec' = plain target \<and> tr_updated_at rec' = now \<and> expect_task db' f v t = Inr rec'
        \<and> (\<forall>f' v' t'. (f', v', t') \<noteq> (f, v, t) \<longrightarrow> task_of db' f' v' t' = task_of db f' v' t'))
    | None \<Rightarrow> (\<exists>e. advance_task_to db f v t target now = (Inl (Conflict e), db))"
proof -
  have ok: "pdb_ok db" using assms(1) by (rule plan_db_reachable_ok)
  have "\<exists>n m. ordinary_position (ts_status (tr_state rec)) = Some n \<and> ordinary_position target = Some m \<and> n < m"
    if "is_at_or_past (ts_status (tr_state rec)) target = Some False"
    using that by (auto simp: is_at_or_past_def split: option.splits)
  then show ?thesis
    using assms(2) advance_loop_reaches [OF ok assms(2,3)]
    by (fastforce simp: advance_task_to_def task_of_def split: option.splits bool.splits)
qed


text \<open>C38: the rows of a stored plan answer exactly what its document says, at any time after its
  import.  The plan loads as it was imported; its tasks are those of the document with their
  names, whatever their state by then; the prerequisites of a task are its dependencies with
  their milestones, and the dependents of a task are the tasks that name it.\<close>

theorem plan_rows_match_document:
  assumes "plan_db_reachable db" and "r \<in> set (pdb_plans db)"
  shows "plan_of db (pl_feature_id r) (Some (pl_revision r))
      = Some (Inr (Some \<lparr>stp_plan = pl_document r, stp_created_at = pl_created_at r\<rparr>))
    \<and> (\<exists>recs. plan_tasks db (pl_feature_id r) (pl_revision r) = Inr recs
        \<and> mset (map (\<lambda>x. (tr_task_id x, tr_name x)) recs)
          = mset (map (\<lambda>t. (pt_id t, pt_name t)) (plan_tasks_of (pl_document r))))
    \<and> (\<forall>t \<in> set (plan_tasks_of (pl_document r)).
        task_prerequisites db (pl_feature_id r) (pl_revision r) (pt_id t) = Inr (pt_dependencies t))
    \<and> (\<forall>d. \<exists>ds. task_dependents db (pl_feature_id r) (pl_revision r) d = Inr ds
        \<and> (\<lambda>x. (dp_task_id x, dp_required_milestone x)) ` set ds
          = {(pt_id t, m) | t m. t \<in> set (plan_tasks_of (pl_document r)) \<and> (d, m) \<in> set (pt_dependencies t)})"
proof -
  have ok: "pdb_ok db" using assms(1) by (rule plan_db_reachable_ok)
  have "plan_of db (pl_feature_id r) (Some (pl_revision r))
      = Some (Inr (Some \<lparr>stp_plan = pl_document r, stp_created_at = pl_created_at r\<rparr>))"
    using plan_row_at [OF ok assms(2)] load_stored_plan [OF ok assms(2)]
    by (simp add: plan_of_def newest_plan_def eq_commute [of "pl_revision r"])
  then show ?thesis
    using stored_tasks_of_plan [OF ok assms(2)] stored_prerequisites [OF ok assms(2)] stored_dependents [OF ok assms(2)]
    by blast
qed

section \<open>Witnesses\<close>

definition sample_registry :: registry where
  "sample_registry =
     registry_after (enroll_repository empty_registry (sample_registration 1) (sample_policy 1 1 ''main''))"

definition empty_plan_db :: plan_db where
  "empty_plan_db =
     \<lparr>pdb_registry = sample_registry, pdb_plans = [], pdb_tasks = [], pdb_edges = [], pdb_packages = empty_packages,
      pdb_package_tasks = [], pdb_plan_error_text = (\<lambda>_. [])\<rparr>"

definition sample_plan_db :: plan_db where
  "sample_plan_db = after_import empty_plan_db sample_plan 5"

lemma sample_registry_reachable: "registry_reachable sample_registry"
proof -
  have "is_ok (enroll_repository empty_registry (sample_registration 1) (sample_policy 1 1 ''main''))" by code_simp
  then have "enroll_repository empty_registry (sample_registration 1) (sample_policy 1 1 ''main'') = Inr sample_registry"
    by (auto simp: res sample_registry_def registry_after_def)
  moreover have "registry_reachable empty_registry"
    by (rule registry_reachable.empty) (simp_all add: empty_registry_def)
  ultimately show ?thesis
    using sample_policies_valid(1) by (blast intro: registry_reachable.step registry_step.enroll)
qed

lemma empty_plan_db_reachable: "plan_db_reachable empty_plan_db"
  by (rule plan_db_reachable.empty) (simp_all add: empty_plan_db_def empty_packages_def sample_registry_reachable)

lemma stored_sample_accepted: "plan_accepted empty_plan_db sample_plan 5"
proof -
  have "plan_ok sample_plan" "plan_graph_ok sample_plan"
    using plan_validate_total [OF sample_plan_maps] sample_plan_valid by (auto simp: res)
  moreover have "configured_target sample_registry (Id 1) = Some ''refs/heads/main''" by code_simp
  moreover have "unat (revision_get (fp_revision sample_plan)) = 1"
    by (simp add: sample_plan_def revision_first_def)
  ultimately show ?thesis
    by (simp add: plan_accepted_def empty_plan_db_def plans_of_feature_def) (simp add: sample_plan_def)
qed

lemma sample_plan_db_reachable: "plan_db_reachable sample_plan_db"
proof -
  have "import_plan empty_plan_db sample_plan 5 = Some (Inr sample_plan_db)"
    using import_plan_iff(2) [OF plan_db_reachable_ok [OF empty_plan_db_reachable] sample_plan_maps]
      stored_sample_accepted by (simp add: sample_plan_db_def)
  then show ?thesis
    using empty_plan_db_reachable sample_plan_maps
    by (blast intro: plan_db_reachable.step plan_db_step.import_)
qed

theorem import_plan_decides_witness:
  "\<exists>db'. import_plan empty_plan_db sample_plan 5 = Some (Inr db')
     \<and> plan_of db' (fp_feature_id sample_plan) None = Some (Inr (Some \<lparr>stp_plan = sample_plan, stp_created_at = 5\<rparr>))"
proof -
  obtain r where r: "import_plan empty_plan_db sample_plan 5 = Some r" "is_ok r \<longleftrightarrow> plan_accepted empty_plan_db sample_plan 5"
    "\<And>db'. r = Inr db' \<Longrightarrow> plan_of db' (fp_feature_id sample_plan) None
      = Some (Inr (Some \<lparr>stp_plan = sample_plan, stp_created_at = 5\<rparr>))"
    using import_plan_decides [OF empty_plan_db_reachable sample_plan_maps, of 5] by blast
  then obtain db' where "r = Inr db'" using stored_sample_accepted by (auto simp: res)
  then show ?thesis using r by blast
qed

lemma sample_task:
  "\<exists>rec. expect_task sample_plan_db (fp_feature_id sample_plan) (fp_revision sample_plan) (Id 2) = Inr rec
     \<and> tr_state rec = ts_planned"
proof -
  have "Id 2 \<in> pt_id ` set (plan_tasks_of sample_plan)"
    by (simp add: sample_plan_def plan_tasks_of_def)
  then obtain t where t: "t \<in> set (plan_tasks_of sample_plan)" "pt_id t = Id 2" by force
  then show ?thesis
    using tasks_after_import [OF plan_db_reachable_ok [OF sample_plan_db_reachable] sample_plan_db_def t(1)] by auto
qed

theorem advance_task_to_arrives_witness:
  "\<exists>rec' db'. advance_task_to sample_plan_db (fp_feature_id sample_plan) (fp_revision sample_plan) (Id 2) Queued 9
     = (Inr rec', db') \<and> tr_state rec' = plain Queued"
proof -
  obtain rec where rec: "expect_task sample_plan_db (fp_feature_id sample_plan) (fp_revision sample_plan) (Id 2) = Inr rec"
    "tr_state rec = ts_planned"
    using sample_task by blast
  show ?thesis
    using advance_task_to_arrives [OF sample_plan_db_reachable rec(1), of 9 Queued] rec(2)
    by (auto simp: is_at_or_past_def ts_planned_def)
qed


theorem plan_rows_match_document_witness:
  "\<exists>ds. task_dependents sample_plan_db (fp_feature_id sample_plan) (fp_revision sample_plan) (Id 1) = Inr ds
     \<and> dp_task_id ` set ds = {Id 2}"
proof -
  have "new_plan_row sample_plan 5 \<in> set (pdb_plans sample_plan_db)" by (simp add: sample_plan_db_def after_import_def)
  from plan_rows_match_document [OF sample_plan_db_reachable this]
  obtain ds where ds: "task_dependents sample_plan_db (fp_feature_id sample_plan) (fp_revision sample_plan) (Id 1) = Inr ds"
    "(\<lambda>x. (dp_task_id x, dp_required_milestone x)) ` set ds
      = {(pt_id t, m) | t m. t \<in> set (plan_tasks_of sample_plan) \<and> (Id 1, m) \<in> set (pt_dependencies t)}"
    unfolding new_plan_row_def plan_row.simps by blast
  have "fst ` (\<lambda>x. (dp_task_id x, dp_required_milestone x)) ` set ds
      = (\<Union>t \<in> set (plan_tasks_of sample_plan). (\<lambda>m. pt_id t) ` {m. (Id 1, m) \<in> set (pt_dependencies t)})"
    unfolding ds(2) by force
  also have "\<dots> = {Id 2}"
    by (simp add: sample_plan_def plan_tasks_of_def)
  finally show ?thesis using ds(1) by (simp add: image_image)
qed

end
