(* ===== verification/Commands.thy ===== *)
theory Commands
  imports Tables
begin

text \<open>
  Sequences of store calls.  A call of the store runs in its own transaction, so when a later call of
  a sequence fails the earlier ones stay: a command returns its result together with the state it
  left behind, whether it failed or not.  \<open>None\<close> is a panic.

  The locale \<open>behaviour\<close> is the contract between an operation of the store and the programs built
  from it: a relation between states that is reflexive and transitive and that every single call
  stays in is the relation every sequence, loop and recovery of calls stays in.
\<close>

type_synonym ('s, 'e, 'a) cmd = "'s \<Rightarrow> (('e, 'a) result \<times> 's) option"

section \<open>Commands\<close>

definition reading :: "('s \<Rightarrow> ('e, 'a) result) \<Rightarrow> ('s, 'e, 'a) cmd" where
  "reading f s = Some (f s, s)"

definition reading_or_panic :: "('s \<Rightarrow> ('e, 'a) result option) \<Rightarrow> ('s, 'e, 'a) cmd" where
  "reading_or_panic f s = map_option (\<lambda>r. (r, s)) (f s)"

text \<open>A call that is its own transaction: nothing has changed when it fails.\<close>

definition writing :: "('s \<Rightarrow> ('e, 's \<times> 'a) result) \<Rightarrow> ('s, 'e, 'a) cmd" where
  "writing f s = (case f s of Inl e \<Rightarrow> Some (Inl e, s) | Inr (s', x) \<Rightarrow> Some (Inr x, s'))"

definition c_return :: "'a \<Rightarrow> ('s, 'e, 'a) cmd" where
  "c_return x = reading (\<lambda>_. Inr x)"

definition c_fail :: "'e \<Rightarrow> ('s, 'e, 'a) cmd" where
  "c_fail e = reading (\<lambda>_. Inl e)"

text \<open>\<open>match call() { .. }\<close>, and the question-mark operator as its common case.\<close>

definition c_match :: "('s, 'e, 'a) cmd \<Rightarrow> (('e, 'a) result \<Rightarrow> ('s, 'f, 'b) cmd) \<Rightarrow> ('s, 'f, 'b) cmd" where
  "c_match m f s = (case m s of None \<Rightarrow> None | Some (r, s') \<Rightarrow> f r s')"

definition c_then :: "('s, 'e, 'a) cmd \<Rightarrow> ('a \<Rightarrow> ('s, 'e, 'b) cmd) \<Rightarrow> ('s, 'e, 'b) cmd" where
  "c_then m f = c_match m (\<lambda>r. case r of Inl e \<Rightarrow> c_fail e | Inr x \<Rightarrow> f x)"

definition c_map_err :: "('e \<Rightarrow> 'f) \<Rightarrow> ('s, 'e, 'a) cmd \<Rightarrow> ('s, 'f, 'a) cmd" where
  "c_map_err g m = c_match m (\<lambda>r. reading (\<lambda>_. map_err g r))"

text \<open>Loops whose body may return early with an error.\<close>

fun c_fold :: "('b \<Rightarrow> 'a \<Rightarrow> ('s, 'e, 'b) cmd) \<Rightarrow> 'b \<Rightarrow> 'a list \<Rightarrow> ('s, 'e, 'b) cmd" where
  "c_fold f b [] = c_return b"
| "c_fold f b (x # xs) = c_then (f b x) (\<lambda>b'. c_fold f b' xs)"

definition c_each :: "('a \<Rightarrow> ('s, 'e, unit) cmd) \<Rightarrow> 'a list \<Rightarrow> ('s, 'e, unit) cmd" where
  "c_each f = c_fold (\<lambda>_. f) ()"

text \<open>A transaction around a sequence: a failure takes everything back.\<close>

definition atomically :: "('s, 'e, 'a) cmd \<Rightarrow> ('s, 'e, 'a) cmd" where
  "atomically m s = (case m s of None \<Rightarrow> None
     | Some (Inl e, _) \<Rightarrow> Some (Inl e, s) | Some (Inr x, s') \<Rightarrow> Some (Inr x, s'))"

section \<open>Running them\<close>

named_theorems run "simplification rules for running commands"

lemma run_reading [run]: "reading f s = Some (f s, s)"
  by (simp add: reading_def)

lemma run_return [run]: "c_return x s = Some (Inr x, s)"
  by (simp add: c_return_def reading_def)

lemma run_fail [run]: "c_fail e s = Some (Inl e, s)"
  by (simp add: c_fail_def reading_def)

lemma run_then:
  "c_then m f s = (case m s of None \<Rightarrow> None | Some (Inl e, s') \<Rightarrow> Some (Inl e, s') | Some (Inr x, s') \<Rightarrow> f x s')"
  by (auto simp: c_then_def c_match_def run_fail split: option.splits sum.splits)

lemma then_Ok [run]: "m s = Some (Inr x, s') \<Longrightarrow> c_then m f s = f x s'"
  by (simp add: run_then)

lemma then_Err [run]: "m s = Some (Inl e, s') \<Longrightarrow> c_then m f s = Some (Inl e, s')"
  by (simp add: run_then)

lemma then_Some_iff:
  "c_then m f s = Some (r, s'') \<longleftrightarrow>
     (\<exists>e s'. m s = Some (Inl e, s') \<and> r = Inl e \<and> s'' = s') \<or> (\<exists>x s'. m s = Some (Inr x, s') \<and> f x s' = Some (r, s''))"
  by (auto simp: run_then split: option.splits sum.splits)

lemma then_Inr_iff:
  "c_then m f s = Some (Inr y, s'') \<longleftrightarrow> (\<exists>x s'. m s = Some (Inr x, s') \<and> f x s' = Some (Inr y, s''))"
  by (auto simp: then_Some_iff)

lemma match_Some_iff: "c_match m f s = Some (r, s'') \<longleftrightarrow> (\<exists>q s'. m s = Some (q, s') \<and> f q s' = Some (r, s''))"
  by (auto simp: c_match_def split: option.splits)

lemma reading_Some_iff: "reading f s = Some (r, s') \<longleftrightarrow> r = f s \<and> s' = s"
  by (auto simp: reading_def)

lemma writing_Inr_iff: "writing f s = Some (Inr x, s') \<longleftrightarrow> f s = Inr (s', x)"
  by (auto simp: writing_def split: sum.splits)

lemma writing_Inl_iff: "writing f s = Some (Inl e, s') \<longleftrightarrow> f s = Inl e \<and> s' = s"
  by (auto simp: writing_def split: sum.splits)

lemma then_reading: "c_then (reading g) f s = (case g s of Inl e \<Rightarrow> Some (Inl e, s) | Inr x \<Rightarrow> f x s)"
  by (simp add: run_then reading_def split: sum.splits)

lemma then_writing:
  "c_then (writing g) f s = (case g s of Inl e \<Rightarrow> Some (Inl e, s) | Inr y \<Rightarrow> f (snd y) (fst y))"
  by (auto simp: run_then writing_def split: sum.splits prod.splits)

lemma then_reading_or_panic:
  "c_then (reading_or_panic g) f s = (case g s of None \<Rightarrow> None | Some (Inl e) \<Rightarrow> Some (Inl e, s) | Some (Inr x) \<Rightarrow> f x s)"
  by (auto simp: run_then reading_or_panic_def split: option.splits sum.splits)

lemma fold_append: "c_fold f b (xs @ ys) s = c_then (c_fold f b xs) (\<lambda>b'. c_fold f b' ys) s"
proof (induction xs arbitrary: b s)
  case Nil
  then show ?case by (simp add: run_then run_return)
next
  case (Cons x xs)
  then show ?case by (simp add: run_then split: option.splits sum.splits)
qed

section \<open>What every sequence keeps\<close>

definition stays :: "('s \<Rightarrow> 's \<Rightarrow> bool) \<Rightarrow> ('s, 'e, 'a) cmd \<Rightarrow> bool" where
  "stays R m \<longleftrightarrow> (\<forall>s r s'. m s = Some (r, s') \<longrightarrow> R s s')"

locale behaviour =
  fixes R :: "'s \<Rightarrow> 's \<Rightarrow> bool"
  assumes refl: "R s s" and trans: "R s t \<Longrightarrow> R t u \<Longrightarrow> R s u"
begin

lemma reading: "stays R (reading f)"
  by (auto simp: stays_def reading_def refl)

lemma reading_or_panic: "stays R (reading_or_panic f)"
  by (auto simp: stays_def reading_or_panic_def refl)

lemma return: "stays R (c_return x)"
  by (simp add: c_return_def reading)

lemma fail: "stays R (c_fail e)"
  by (simp add: c_fail_def reading)

lemma writing: "(\<And>s s' x. f s = Inr (s', x) \<Longrightarrow> R s s') \<Longrightarrow> stays R (writing f)"
  by (auto simp: stays_def writing_def refl split: sum.splits)

lemma matching: "stays R m \<Longrightarrow> (\<And>r. stays R (f r)) \<Longrightarrow> stays R (c_match m f)"
  unfolding stays_def c_match_def by (metis (no_types, lifting) case_prod_conv option.case_eq_if option.collapse prod.collapse option.distinct(1) trans)

lemma sequence: "stays R m \<Longrightarrow> (\<And>x. stays R (f x)) \<Longrightarrow> stays R (c_then m f)"
  unfolding c_then_def by (rule matching) (auto split: sum.splits intro: fail)

lemma mapping_error: "stays R m \<Longrightarrow> stays R (c_map_err g m)"
  unfolding c_map_err_def by (rule matching) (auto intro: reading)

lemma fold_loop: "(\<And>b x. x \<in> set xs \<Longrightarrow> stays R (f b x)) \<Longrightarrow> stays R (c_fold f b xs)"
  by (induction xs arbitrary: b) (auto intro: return sequence)

lemma each_loop: "(\<And>x. x \<in> set xs \<Longrightarrow> stays R (f x)) \<Longrightarrow> stays R (c_each f xs)"
  unfolding c_each_def by (rule fold_loop)

lemma transaction: "stays R m \<Longrightarrow> stays R (atomically m)"
  unfolding stays_def atomically_def by (auto simp: refl split: option.splits sum.splits)

lemmas steps = reading reading_or_panic return fail matching sequence mapping_error fold_loop each_loop transaction

end

end
