(* ===== verification/Checks.thy ===== *)
theory Checks
  imports Packages Commands
begin

text \<open>
  Trusted checks and the evidence their runs leave (\<open>crates/store/src/checks.rs\<close>, the tables
  \<open>trusted_checks\<close>, \<open>validation_evidence\<close> and \<open>candidate_validation_evidence\<close> of
  \<open>crates/store/src/migrations.rs\<close>, and \<open>valid_evidence_count\<close> and \<open>invalidate_task_evidence\<close> of
  \<open>crates/store/src/units.rs\<close>).

  A command is stored as a JSON array of strings; the model keeps the list.  The keys a row refers to
  in other tables are arguments.
\<close>

section \<open>Rows\<close>

record trusted_check =
  tc_repository_id :: repository_id
  tc_id :: string
  tc_command :: "string list"
  tc_timeout_seconds :: nat
  tc_enabled :: bool

text \<open>The two columns of the invalidation come after those of the record the code inserts.\<close>

record validation_evidence =
  ve_package_id :: package_id
  ve_revision :: revision
  ve_check_id :: string
  ve_command :: "string list"
  ve_exit_code :: "int option"
  ve_timed_out :: bool
  ve_output_summary :: string
  ve_executed_at :: int

record evidence_row =
  ev_evidence :: validation_evidence
  ev_invalidated_at :: "int option"
  ev_invalidated_reason :: "string option"

record candidate_evidence =
  ce_attempt_id :: attempt_id
  ce_package_id :: package_id
  ce_revision :: revision
  ce_check_id :: string
  ce_base_commit :: string
  ce_package_content_hash :: string
  ce_command :: "string list"
  ce_environment_fingerprint :: string
  ce_exit_code :: "int option"
  ce_timed_out :: bool
  ce_output_summary :: string
  ce_executed_at :: int
  ce_invalidated_at :: "int option"
  ce_invalidated_reason :: "string option"

record check_db =
  cd_trusted :: "trusted_check list"
  cd_evidence :: "evidence_row list"
  cd_candidates :: "candidate_evidence list"
  cd_violation :: string

section \<open>The schema\<close>

definition trusted_ok :: "repository_id set \<Rightarrow> trusted_check list \<Rightarrow> bool" where
  "trusted_ok repos rows \<longleftrightarrow>
     list_all (\<lambda>c. 1 \<le> tc_timeout_seconds c \<and> tc_timeout_seconds c \<le> 3600 \<and> tc_repository_id c \<in> repos) rows
     \<and> distinct (map (\<lambda>c. (tc_repository_id c, tc_id c)) rows)"

definition invalidation_ok :: "int option \<Rightarrow> string option \<Rightarrow> bool" where
  "invalidation_ok at reason \<longleftrightarrow> null_or (\<lambda>t. 0 \<le> t) at \<and> null_or (\<lambda>r. \<not> sql_blank r) reason"

definition evidence_key :: "evidence_row \<Rightarrow> package_id \<times> revision \<times> string" where
  "evidence_key r = (ve_package_id (ev_evidence r), ve_revision (ev_evidence r), ve_check_id (ev_evidence r))"

definition evidence_ok :: "(package_id \<times> revision) set \<Rightarrow> evidence_row list \<Rightarrow> bool" where
  "evidence_ok packages rows \<longleftrightarrow>
     list_all (\<lambda>r. 0 \<le> ve_executed_at (ev_evidence r)
        \<and> (ve_package_id (ev_evidence r), ve_revision (ev_evidence r)) \<in> packages
        \<and> invalidation_ok (ev_invalidated_at r) (ev_invalidated_reason r)) rows
     \<and> distinct (map evidence_key rows)"

definition candidates_ok ::
  "attempt_id set \<Rightarrow> (package_id \<times> revision) set \<Rightarrow> candidate_evidence list \<Rightarrow> bool" where
  "candidates_ok attempts packages rows \<longleftrightarrow>
     list_all (\<lambda>c. \<not> sql_blank (ce_check_id c) \<and> length (ce_base_commit c) = 40
        \<and> length (ce_package_content_hash c) = 64 \<and> length (ce_environment_fingerprint c) = 64
        \<and> 0 \<le> ce_executed_at c \<and> invalidation_ok (ce_invalidated_at c) (ce_invalidated_reason c)
        \<and> ce_attempt_id c \<in> attempts \<and> (ce_package_id c, ce_revision c) \<in> packages) rows
     \<and> distinct (map (\<lambda>c. (ce_attempt_id c, ce_check_id c)) rows)"

section \<open>Operations\<close>

definition add_trusted_check ::
  "repository_id set \<Rightarrow> check_db \<Rightarrow> trusted_check \<Rightarrow> (store_error, check_db) result" where
  "add_trusted_check repos k c =
     and_then (ensure (\<not> blank (tc_id c) \<and> tc_command c \<noteq> [] \<and> 1 \<le> tc_timeout_seconds c \<and> tc_timeout_seconds c \<le> 3600)
       (InvalidData ''trusted check configuration is invalid'')) (\<lambda>_.
     let rows = cd_trusted k @ [c]
     in if trusted_ok repos rows then Inr (k\<lparr>cd_trusted := rows\<rparr>) else Inl (Sqlite (cd_violation k)))"

definition trusted_checks :: "check_db \<Rightarrow> repository_id \<Rightarrow> trusted_check list" where
  "trusted_checks k i = sort_key tc_id (filter (\<lambda>c. tc_repository_id c = i) (cd_trusted k))"

definition record_validation_evidence ::
  "(package_id \<times> revision) set \<Rightarrow> check_db \<Rightarrow> validation_evidence \<Rightarrow> (store_error, check_db) result" where
  "record_validation_evidence packages k e =
     and_then (ensure (\<not> (blank (ve_check_id e) \<or> ve_command e = [] \<or> 16384 < length (ve_output_summary e)
         \<or> ve_executed_at e < 0)) (InvalidData ''validation evidence is invalid'')) (\<lambda>_.
     let rows = cd_evidence k @ [\<lparr>ev_evidence = e, ev_invalidated_at = None, ev_invalidated_reason = None\<rparr>]
     in if evidence_ok packages rows then Inr (k\<lparr>cd_evidence := rows\<rparr>) else Inl (Sqlite (cd_violation k)))"

definition candidate_evidence_valid :: "candidate_evidence \<Rightarrow> bool" where
  "candidate_evidence_valid e \<longleftrightarrow>
     \<not> (blank (ce_check_id e) \<or> ce_command e = [] \<or> \<not> hex_text 40 (ce_base_commit e)
        \<or> \<not> hex_text 64 (ce_package_content_hash e) \<or> \<not> hex_text 64 (ce_environment_fingerprint e)
        \<or> 16384 < length (ce_output_summary e) \<or> ce_executed_at e < 0
        \<or> (case ce_invalidated_at e of None \<Rightarrow> False | Some t \<Rightarrow> t < 0)
        \<or> (case ce_invalidated_reason e of None \<Rightarrow> False | Some r \<Rightarrow> blank r))"

text \<open>The inputs that make a result reusable, and the rows a result with other inputs replaces.\<close>

definition same_inputs :: "candidate_evidence \<Rightarrow> candidate_evidence \<Rightarrow> bool" where
  "same_inputs c e \<longleftrightarrow>
     ce_base_commit c = ce_base_commit e \<and> ce_package_content_hash c = ce_package_content_hash e
     \<and> ce_command c = ce_command e \<and> ce_environment_fingerprint c = ce_environment_fingerprint e"

definition stale :: "candidate_evidence \<Rightarrow> candidate_evidence \<Rightarrow> bool" where
  "stale e c \<longleftrightarrow>
     ce_package_id c = ce_package_id e \<and> ce_revision c = ce_revision e \<and> ce_check_id c = ce_check_id e
     \<and> ce_invalidated_at c = None \<and> \<not> same_inputs c e"

text \<open>The two statements of a recording are not one transaction.\<close>

definition update_candidates ::
  "attempt_id set \<Rightarrow> (package_id \<times> revision) set \<Rightarrow> (candidate_evidence list \<Rightarrow> candidate_evidence list)
    \<Rightarrow> (check_db, store_error, unit) cmd" where
  "update_candidates attempts packages change =
     writing (\<lambda>k. let rows = change (cd_candidates k)
       in if candidates_ok attempts packages rows then Inr (k\<lparr>cd_candidates := rows\<rparr>, ())
          else Inl (Sqlite (cd_violation k)))"

definition record_candidate_validation_evidence ::
  "attempt_id set \<Rightarrow> (package_id \<times> revision) set \<Rightarrow> candidate_evidence \<Rightarrow> (check_db, store_error, unit) cmd" where
  "record_candidate_validation_evidence attempts packages e =
     c_then (reading (\<lambda>_. ensure (candidate_evidence_valid e) (InvalidData ''candidate validation evidence is invalid''))) (\<lambda>_.
     c_then (update_candidates attempts packages (map (\<lambda>c. if stale e c
         then c\<lparr>ce_invalidated_at := Some (ce_executed_at e),
                ce_invalidated_reason := Some ''candidate validation inputs changed''\<rparr> else c))) (\<lambda>_.
     update_candidates attempts packages (\<lambda>rows. rows @ [e])))"

definition validation_evidence_of :: "check_db \<Rightarrow> package_id \<Rightarrow> revision \<Rightarrow> validation_evidence list" where
  "validation_evidence_of k p v =
     sort_key ve_check_id (filter (\<lambda>e. ve_package_id e = p \<and> ve_revision e = v) (map ev_evidence (cd_evidence k)))"

definition candidate_validation_evidence :: "check_db \<Rightarrow> attempt_id \<Rightarrow> candidate_evidence list" where
  "candidate_validation_evidence k i = sort_key ce_check_id (filter (\<lambda>c. ce_attempt_id c = i) (cd_candidates k))"

definition valid_evidence_count :: "check_db \<Rightarrow> package_id \<Rightarrow> revision \<Rightarrow> nat" where
  "valid_evidence_count k p v =
     length (filter (\<lambda>r. ve_package_id (ev_evidence r) = p \<and> ve_revision (ev_evidence r) = v \<and> ev_invalidated_at r = None)
       (cd_evidence k))"

text \<open>Two statements again.  The packages are those that carry the task.\<close>

definition invalidate_capture_evidence ::
  "(package_id \<times> revision) set \<Rightarrow> (package_id \<times> revision) set \<Rightarrow> string \<Rightarrow> int \<Rightarrow> (check_db, store_error, nat) cmd" where
  "invalidate_capture_evidence packages carrying reason now =
     writing (\<lambda>k.
       let hit = (\<lambda>r. ev_invalidated_at r = None
             \<and> (ve_package_id (ev_evidence r), ve_revision (ev_evidence r)) \<in> carrying);
           rows = map (\<lambda>r. if hit r then r\<lparr>ev_invalidated_at := Some now, ev_invalidated_reason := Some reason\<rparr> else r)
             (cd_evidence k)
       in if evidence_ok packages rows
          then Inr (k\<lparr>cd_evidence := rows\<rparr>, length (filter hit (cd_evidence k)))
          else Inl (Sqlite (cd_violation k)))"

definition invalidate_candidate_evidence ::
  "attempt_id set \<Rightarrow> (package_id \<times> revision) set \<Rightarrow> (package_id \<times> revision) set \<Rightarrow> string \<Rightarrow> int
    \<Rightarrow> (check_db, store_error, nat) cmd" where
  "invalidate_candidate_evidence attempts packages carrying reason now =
     writing (\<lambda>k.
       let hit = (\<lambda>c. ce_invalidated_at c = None \<and> (ce_package_id c, ce_revision c) \<in> carrying);
           rows = map (\<lambda>c. if hit c then c\<lparr>ce_invalidated_at := Some now, ce_invalidated_reason := Some reason\<rparr> else c)
             (cd_candidates k)
       in if candidates_ok attempts packages rows
          then Inr (k\<lparr>cd_candidates := rows\<rparr>, length (filter hit (cd_candidates k)))
          else Inl (Sqlite (cd_violation k)))"

definition invalidate_task_evidence ::
  "attempt_id set \<Rightarrow> (package_id \<times> revision) set \<Rightarrow> (package_id \<times> revision) set \<Rightarrow> string \<Rightarrow> int
    \<Rightarrow> (check_db, store_error, nat) cmd" where
  "invalidate_task_evidence attempts packages carrying reason now =
     c_then (invalidate_capture_evidence packages carrying reason now) (\<lambda>n.
     c_then (invalidate_candidate_evidence attempts packages carrying reason now) (\<lambda>m.
     c_return (n + m)))"

section \<open>The history of the evidence\<close>

text \<open>A result is never edited or removed: it may only be marked, once.  Standing results of one check for
  one package all observed the same inputs.\<close>

definition evidence_follows :: "evidence_row \<Rightarrow> evidence_row \<Rightarrow> bool" where
  "evidence_follows r r' \<longleftrightarrow> ev_evidence r' = ev_evidence r \<and> (ev_invalidated_at r \<noteq> None \<longrightarrow> r' = r)"

definition candidate_follows :: "candidate_evidence \<Rightarrow> candidate_evidence \<Rightarrow> bool" where
  "candidate_follows c c' \<longleftrightarrow>
     c'\<lparr>ce_invalidated_at := None, ce_invalidated_reason := None\<rparr>
       = c\<lparr>ce_invalidated_at := None, ce_invalidated_reason := None\<rparr>
     \<and> (ce_invalidated_at c \<noteq> None \<longrightarrow> c' = c)"

definition standing_agree :: "candidate_evidence list \<Rightarrow> bool" where
  "standing_agree rows \<longleftrightarrow>
     (\<forall>c \<in> set rows. \<forall>d \<in> set rows. ce_invalidated_at c = None \<longrightarrow> ce_invalidated_at d = None
        \<longrightarrow> ce_package_id c = ce_package_id d \<longrightarrow> ce_revision c = ce_revision d \<longrightarrow> ce_check_id c = ce_check_id d
        \<longrightarrow> same_inputs c d)"

definition checks_ok ::
  "repository_id set \<Rightarrow> (package_id \<times> revision) set \<Rightarrow> attempt_id set \<Rightarrow> check_db \<Rightarrow> bool" where
  "checks_ok repos packages attempts k \<longleftrightarrow>
     trusted_ok repos (cd_trusted k) \<and> evidence_ok packages (cd_evidence k)
     \<and> candidates_ok attempts packages (cd_candidates k) \<and> standing_agree (cd_candidates k)"

definition checks_follow :: "check_db \<Rightarrow> check_db \<Rightarrow> bool" where
  "checks_follow k k' \<longleftrightarrow>
     prefix (cd_trusted k) (cd_trusted k') \<and> grows evidence_follows (cd_evidence k) (cd_evidence k')
     \<and> grows candidate_follows (cd_candidates k) (cd_candidates k')"

definition checks_move ::
  "repository_id set \<Rightarrow> (package_id \<times> revision) set \<Rightarrow> attempt_id set \<Rightarrow> check_db \<Rightarrow> check_db \<Rightarrow> bool" where
  "checks_move repos packages attempts k k' \<longleftrightarrow>
     (checks_ok repos packages attempts k \<longrightarrow> checks_ok repos packages attempts k') \<and> checks_follow k k'"

lemma checks_ok_mono:
  "checks_ok repos packages attempts k \<Longrightarrow> repos \<subseteq> repos' \<Longrightarrow> packages \<subseteq> packages' \<Longrightarrow> attempts \<subseteq> attempts'
     \<Longrightarrow> checks_ok repos' packages' attempts' k"
  by (auto simp: checks_ok_def trusted_ok_def evidence_ok_def candidates_ok_def list_all_iff)

lemma checks_follow_refl: "checks_follow k k"
  by (simp add: checks_follow_def evidence_follows_def candidate_follows_def grows_refl)

lemma candidate_follows_trans: "candidate_follows c d \<Longrightarrow> candidate_follows d e \<Longrightarrow> candidate_follows c e"
  by (auto simp: candidate_follows_def)

lemma checks_follow_trans: "checks_follow k l \<Longrightarrow> checks_follow l m \<Longrightarrow> checks_follow k m"
  unfolding checks_follow_def
  by (auto intro: prefix_order.trans grows_trans [where R = evidence_follows] grows_trans [where R = candidate_follows]
      candidate_follows_trans simp: evidence_follows_def)

interpretation checks: behaviour "checks_move repos packages attempts" for repos packages attempts
  by unfold_locales (auto simp: checks_move_def intro: checks_follow_refl checks_follow_trans)

lemma same_inputs_refl [simp]: "same_inputs c c"
  by (simp add: same_inputs_def)

lemma same_inputs_sym: "same_inputs c d \<Longrightarrow> same_inputs d c"
  by (simp add: same_inputs_def)

lemma marked_follows: "ce_invalidated_at c = None \<Longrightarrow>
    candidate_follows c (c\<lparr>ce_invalidated_at := Some t, ce_invalidated_reason := Some r\<rparr>)"
  by (simp add: candidate_follows_def)

lemma candidate_follows_refl: "candidate_follows c c"
  by (simp add: candidate_follows_def)

lemma standing_agree_marked:
  assumes "standing_agree rows"
  shows "standing_agree (map (\<lambda>c. if P c then c\<lparr>ce_invalidated_at := Some t, ce_invalidated_reason := Some r\<rparr> else c) rows)"
  using assms by (auto simp: standing_agree_def)

lemma marking_stays:
  assumes "\<And>c. P c \<Longrightarrow> ce_invalidated_at c = None"
    and "cd_candidates k' = map (\<lambda>c. if P c then c\<lparr>ce_invalidated_at := Some t, ce_invalidated_reason := Some r\<rparr> else c)
      (cd_candidates k)"
    and "k' = k\<lparr>cd_candidates := cd_candidates k'\<rparr>" and "candidates_ok attempts packages (cd_candidates k')"
  shows "checks_move repos packages attempts k k'"
proof -
  have "grows candidate_follows (cd_candidates k) (cd_candidates k')"
    unfolding assms(2) by (rule grows_map) (simp add: marked_follows assms(1) candidate_follows_refl)
  moreover have "standing_agree (cd_candidates k')" if "standing_agree (cd_candidates k)"
    unfolding assms(2) using that by (rule standing_agree_marked)
  moreover have "cd_trusted k' = cd_trusted k" "cd_evidence k' = cd_evidence k"
    using assms(3) by (metis check_db.select_convs(1,2) check_db.surjective check_db.update_convs(3))+
  ultimately show ?thesis
    using assms(4) by (simp add: checks_move_def checks_ok_def checks_follow_def evidence_follows_def grows_refl)
qed

lemma invalidate_task_evidence_stays:
  "stays (checks_move repos packages attempts) (invalidate_task_evidence attempts packages carrying reason now)"
proof -
  have "stays (checks_move repos packages attempts) (invalidate_capture_evidence packages carrying reason now)"
    unfolding invalidate_capture_evidence_def
    by (rule checks.writing)
       (auto simp: Let_def checks_move_def checks_ok_def checks_follow_def evidence_follows_def candidate_follows_def
          split: if_splits intro!: grows_map grows_refl)
  moreover have "stays (checks_move repos packages attempts) (invalidate_candidate_evidence attempts packages carrying reason now)"
    unfolding invalidate_candidate_evidence_def
    by (rule checks.writing)
       (rule marking_stays [where P = "\<lambda>c. ce_invalidated_at c = None \<and> (ce_package_id c, ce_revision c) \<in> carrying"],
        auto simp: Let_def split: if_splits)
  ultimately show ?thesis
    unfolding invalidate_task_evidence_def by (intro checks.sequence checks.return)
qed

text \<open>A recording first marks what its inputs made stale, so what stands afterwards agrees with it.\<close>

lemma record_candidate_stays:
  "stays (checks_move repos packages attempts) (record_candidate_validation_evidence attempts packages e)"
proof -
  let ?mark = "\<lambda>c. if stale e c then c\<lparr>ce_invalidated_at := Some (ce_executed_at e),
                ce_invalidated_reason := Some ''candidate validation inputs changed''\<rparr> else c"
  have marked: "checks_move repos packages attempts k k1 \<and> cd_candidates k1 = map ?mark (cd_candidates k)"
    if "update_candidates attempts packages (map ?mark) k = Some (Inr (), k1)" for k k1
  proof -
    have "k1 = k\<lparr>cd_candidates := map ?mark (cd_candidates k)\<rparr>" "candidates_ok attempts packages (cd_candidates k1)"
      using that by (auto simp: update_candidates_def writing_Inr_iff Let_def split: if_splits)
    then show ?thesis
      using marking_stays [where P = "stale e" and k = k and k' = k1 and t = "ce_executed_at e"
          and r = "''candidate validation inputs changed''" and attempts = attempts and packages = packages]
      by (simp add: stale_def)
  qed
  have appended: "checks_move repos packages attempts k1 k2"
    if "cd_candidates k1 = map ?mark (cd_candidates k)"
      and "update_candidates attempts packages (\<lambda>rows. rows @ [e]) k1 = Some (Inr (), k2)" for k k1 k2
  proof -
    have k2: "k2 = k1\<lparr>cd_candidates := cd_candidates k1 @ [e]\<rparr>" "candidates_ok attempts packages (cd_candidates k2)"
      using that(2) by (auto simp: update_candidates_def writing_Inr_iff Let_def split: if_splits)
    have fresh: "same_inputs c e" if "c \<in> set (cd_candidates k1)" "ce_invalidated_at c = None"
      "ce_package_id c = ce_package_id e" "ce_revision c = ce_revision e" "ce_check_id c = ce_check_id e" for c
      using that \<open>cd_candidates k1 = _\<close> by (auto simp: stale_def split: if_splits)
    have "standing_agree (cd_candidates k2)" if "standing_agree (cd_candidates k1)"
      using that fresh fresh [THEN same_inputs_sym] by (auto simp: standing_agree_def k2(1))
    then show ?thesis
      using k2 by (simp add: checks_move_def checks_ok_def checks_follow_def evidence_follows_def candidate_follows_def
          grows_refl grows_append)
  qed
  have unchanged: "k' = k" if "update_candidates attempts packages change k = Some (Inl d, k')" for change k d k'
    using that by (simp add: update_candidates_def writing_Inl_iff)
  show ?thesis unfolding stays_def
  proof (intro allI impI)
    fix k r k2 assume run: "record_candidate_validation_evidence attempts packages e k = Some (r, k2)"
    show "checks_move repos packages attempts k k2"
    proof (cases "candidate_evidence_valid e")
      case False
      then have "k2 = k" using run by (simp add: record_candidate_validation_evidence_def then_reading ensure_def)
      then show ?thesis by (simp add: checks.refl)
    next
      case True
      then have "c_then (update_candidates attempts packages (map ?mark))
          (\<lambda>_. update_candidates attempts packages (\<lambda>rows. rows @ [e])) k = Some (r, k2)"
        using run by (simp add: record_candidate_validation_evidence_def then_reading ensure_def)
      then consider (early) d where "update_candidates attempts packages (map ?mark) k = Some (Inl d, k2)"
        | (late) k1 where "update_candidates attempts packages (map ?mark) k = Some (Inr (), k1)"
            "update_candidates attempts packages (\<lambda>rows. rows @ [e]) k1 = Some (r, k2)"
        unfolding then_Some_iff by auto
      then show ?thesis
      proof cases
        case early
        then have "k2 = k" by (rule unchanged)
        then show ?thesis by (simp add: checks.refl)
      next
        case (late k1)
        have "checks_move repos packages attempts k1 k2"
        proof (cases r)
          case (Inl d)
          then have "k2 = k1" using late(2) by (auto intro: unchanged)
          then show ?thesis by (simp add: checks.refl)
        next
          case (Inr u)
          then show ?thesis using appended [of k1 k k2] marked [OF late(1)] late(2) by simp
        qed
        then show ?thesis using marked [OF late(1)] checks.trans by blast
      qed
    qed
  qed
qed

end
