(* ===== verification/PullRequests.thy ===== *)
theory PullRequests
  imports Registry
begin

text \<open>
  The pull requests the service opened (\<open>crates/store/src/pull_requests.rs\<close>, the table
  \<open>github_pull_requests\<close> of \<open>crates/store/src/migrations.rs\<close>).  The units and repositories a row
  refers to are arguments.
\<close>

record pull_request_record =
  pq_unit :: release_unit_id
  pq_repository_id :: repository_id
  pq_package_id :: package_id
  pq_package_revision :: revision
  pq_number :: nat
  pq_url :: string
  pq_head :: target_ref
  pq_base :: target_ref
  pq_state :: string
  pq_merged_at :: "int option"
  pq_observed_at :: int
  pq_created_at :: int

definition pull_requests_ok ::
  "release_unit_id set \<Rightarrow> repository_id set \<Rightarrow> pull_request_record list \<Rightarrow> bool" where
  "pull_requests_ok units repos rows \<longleftrightarrow>
     list_all (\<lambda>p. 0 < pq_number p \<and> \<not> sql_blank (pq_url p)
        \<and> like_heads (target_ref_str (pq_head p)) \<and> like_heads (target_ref_str (pq_base p))
        \<and> pq_state p \<in> {''open'', ''closed''} \<and> null_or (\<lambda>t. 0 \<le> t) (pq_merged_at p)
        \<and> 0 \<le> pq_observed_at p \<and> 0 \<le> pq_created_at p
        \<and> (pq_merged_at p = None \<or> pq_state p = ''closed'')
        \<and> pq_unit p \<in> units \<and> pq_repository_id p \<in> repos) rows
     \<and> distinct (map pq_unit rows) \<and> distinct (map (\<lambda>p. (pq_repository_id p, pq_number p)) rows)"

definition known_state :: "string \<Rightarrow> (store_error, unit) result" where
  "known_state state =
     ensure (state = ''open'' \<or> state = ''closed'') (InvalidData (''unknown pull request state: '' @ state))"

definition record_pull_request ::
  "release_unit_id set \<Rightarrow> repository_id set \<Rightarrow> (uuid \<Rightarrow> string) \<Rightarrow> pull_request_record list
    \<Rightarrow> pull_request_record \<Rightarrow> (store_error, pull_request_record list) result" where
  "record_pull_request units repos uuid_text rows p =
     and_then (ensure (\<not> blank (pq_url p))
       (InvalidData ''a pull request must carry the address a person can open it at'')) (\<lambda>_.
     and_then (known_state (pq_state p)) (\<lambda>_.
     if pull_requests_ok units repos (rows @ [p]) then Inr (rows @ [p])
     else Inl (Conflict (''a pull request is already recorded for '' @ id_display uuid_text ReleaseUnitKind (pq_unit p)))))"

definition pull_request_of :: "pull_request_record list \<Rightarrow> release_unit_id \<Rightarrow> pull_request_record option" where
  "pull_request_of rows i = find (\<lambda>p. pq_unit p = i) rows"

definition open_pull_requests :: "(uuid \<Rightarrow> string) \<Rightarrow> pull_request_record list \<Rightarrow> pull_request_record list" where
  "open_pull_requests uuid_text rows =
     sort_key pq_created_at (sort_key (\<lambda>p. id_display uuid_text ReleaseUnitKind (pq_unit p))
       (filter (\<lambda>p. pq_state p = ''open'') rows))"

definition observed_row :: "string \<Rightarrow> bool \<Rightarrow> int \<Rightarrow> pull_request_record \<Rightarrow> pull_request_record" where
  "observed_row state merged now p =
     p\<lparr>pq_state := (if merged then ''closed'' else state),
       pq_merged_at := (if merged \<and> pq_merged_at p = None then Some now else pq_merged_at p),
       pq_observed_at := now\<rparr>"

definition observe_pull_request ::
  "release_unit_id set \<Rightarrow> repository_id set \<Rightarrow> (uuid \<Rightarrow> string) \<Rightarrow> string \<Rightarrow> pull_request_record list
    \<Rightarrow> release_unit_id \<Rightarrow> string \<Rightarrow> bool \<Rightarrow> int \<Rightarrow> (store_error, pull_request_record list) result" where
  "observe_pull_request units repos uuid_text violation rows i state merged now =
     and_then (known_state state) (\<lambda>_.
     let new = map (\<lambda>p. if pq_unit p = i then observed_row state merged now p else p) rows
     in if \<not> pull_requests_ok units repos new then Inl (Sqlite violation)
        else if length (filter (\<lambda>p. pq_unit p = i) rows) \<noteq> 1 then
          Inl (InvalidData (''no pull request is recorded for '' @ id_display uuid_text ReleaseUnitKind i))
        else Inr new)"

text \<open>A merge is recorded once and never taken back, and a recorded request keeps its number.\<close>

definition pull_request_follows :: "pull_request_record \<Rightarrow> pull_request_record \<Rightarrow> bool" where
  "pull_request_follows p p' \<longleftrightarrow>
     pq_unit p' = pq_unit p \<and> pq_number p' = pq_number p \<and> pq_package_id p' = pq_package_id p
     \<and> pq_package_revision p' = pq_package_revision p
     \<and> (pq_merged_at p \<noteq> None \<longrightarrow> pq_merged_at p' = pq_merged_at p \<and> pq_state p' = ''closed'')"

lemma record_pull_request_Inr:
  assumes "record_pull_request units repos uuid_text rows p = Inr rows'"
  shows "rows' = rows @ [p]" and "pull_requests_ok units repos rows'"
  using assms by (auto simp: record_pull_request_def res split: if_splits)

lemma observe_pull_request_Inr:
  assumes "observe_pull_request units repos uuid_text violation rows i state merged now = Inr rows'"
  shows "pull_requests_ok units repos rows'"
    and "rows' = map (\<lambda>p. if pq_unit p = i then observed_row state merged now p else p) rows"
    and "list_all2 pull_request_follows rows rows'"
proof -
  let ?new = "map (\<lambda>p. if pq_unit p = i then observed_row state merged now p else p) rows"
  show ok: "pull_requests_ok units repos rows'" and new: "rows' = ?new"
    using assms by (auto simp: observe_pull_request_def Let_def res split: if_splits)
  have "pq_state x = ''closed''" if "x \<in> set rows'" "pq_merged_at x \<noteq> None" for x
    using ok that by (auto simp: pull_requests_ok_def list_all_iff)
  then have "pull_request_follows p (observed_row state merged now p)" if "p \<in> set rows" "pq_unit p = i" for p
    using that new by (auto simp: pull_request_follows_def observed_row_def)
  moreover have "pull_request_follows p p" if "p \<in> set rows" "pq_unit p \<noteq> i" for p
    using that new \<open>\<And>x. x \<in> set rows' \<Longrightarrow> pq_merged_at x \<noteq> None \<Longrightarrow> _\<close> by (auto simp: pull_request_follows_def)
  ultimately show "list_all2 pull_request_follows rows rows'"
    unfolding new by (auto simp: list_all2_map2 intro: list.rel_refl_strong)
qed

end
