(* ===== verification/Queue.thy ===== *)
theory Queue
  imports PlanStore Checks PullRequests Attempts Integration
begin

text \<open>
  The whole store as one state, and what its tables promise together
  (\<open>crates/store/src/lib.rs\<close>, the tables of \<open>crates/store/src/migrations.rs\<close>).

  The plans, the checks, the pull requests and the release attempts have theories of their own; this
  one adds the rows of release units, of selected release times and of pauses, and lifts the
  operations of the parts to commands on the whole.
\<close>

section \<open>Rows\<close>

record unit_row =
  un_unit_id :: release_unit_id
  un_feature_id :: feature_id
  un_plan_revision :: revision
  un_created_at :: int

record unit_task_row =
  ut_unit_id :: release_unit_id
  ut_feature_id :: feature_id
  ut_plan_revision :: revision
  ut_task_id :: task_id

text \<open>A selected time.  The row is kept when the time is withdrawn.\<close>

record slot_row =
  sl_unit_id :: release_unit_id
  sl_repository_id :: repository_id
  sl_package_id :: package_id
  sl_package_revision :: revision
  sl_policy_revision :: revision
  sl_timezone :: string
  sl_eligible_at :: int
  sl_selected_at :: int
  sl_created_at :: int
  sl_invalidated_at :: "int option"
  sl_invalidated_reason :: "string option"
  sl_on_request :: bool

record pause_row =
  pz_repository_id :: repository_id
  pz_reason :: string
  pz_paused_at :: int

record queue =
  q_plans :: plan_db
  q_checks :: check_db
  q_units :: "unit_row list"
  q_unit_tasks :: "unit_task_row list"
  q_slots :: "slot_row list"
  q_pauses :: "pause_row list"
  q_pull_requests :: "pull_request_record list"
  q_attempts :: "attempt_row list"
  q_backoff :: backoff_table

abbreviation q_registry :: "queue \<Rightarrow> registry" where
  "q_registry q \<equiv> pdb_registry (q_plans q)"

abbreviation q_packages :: "queue \<Rightarrow> package_db" where
  "q_packages q \<equiv> pdb_packages (q_plans q)"

abbreviation q_violation :: "queue \<Rightarrow> string" where
  "q_violation q \<equiv> pdb_violation (q_plans q)"

abbreviation q_text :: "queue \<Rightarrow> uuid \<Rightarrow> string" where
  "q_text q \<equiv> pdb_uuid_text (q_plans q)"

abbreviation repository_ids :: "queue \<Rightarrow> repository_id set" where
  "repository_ids q \<equiv> rr_id ` set (rg_repositories (q_registry q))"

abbreviation package_keys :: "queue \<Rightarrow> (package_id \<times> revision) set" where
  "package_keys q \<equiv> snapshot_key ` set (kd_snapshots (q_packages q))"

abbreviation attempt_ids :: "queue \<Rightarrow> attempt_id set" where
  "attempt_ids q \<equiv> c_attempt_id ` set (q_attempts q)"

abbreviation unit_ids :: "queue \<Rightarrow> release_unit_id set" where
  "unit_ids q \<equiv> un_unit_id ` set (q_units q)"

definition sl_live :: "slot_row \<Rightarrow> bool" where
  "sl_live s \<longleftrightarrow> sl_invalidated_at s = None"

section \<open>The schema\<close>

definition units_ok :: "queue \<Rightarrow> unit_row list \<Rightarrow> bool" where
  "units_ok q rows \<longleftrightarrow>
     list_all (\<lambda>u. 0 \<le> un_created_at u
        \<and> (un_feature_id u, un_plan_revision u) \<in> plan_key ` set (pdb_plans (q_plans q))) rows
     \<and> distinct (map un_unit_id rows)"

definition unit_tasks_ok :: "queue \<Rightarrow> unit_task_row list \<Rightarrow> bool" where
  "unit_tasks_ok q rows \<longleftrightarrow>
     list_all (\<lambda>r. ut_unit_id r \<in> unit_ids q
        \<and> (ut_feature_id r, ut_plan_revision r, ut_task_id r) \<in> task_key ` set (pdb_tasks (q_plans q))) rows
     \<and> distinct (map (\<lambda>r. (ut_unit_id r, ut_task_id r)) rows)
     \<and> distinct (map (\<lambda>r. (ut_feature_id r, ut_plan_revision r, ut_task_id r)) rows)"

definition slot_row_ok :: "queue \<Rightarrow> slot_row \<Rightarrow> bool" where
  "slot_row_ok q s \<longleftrightarrow>
     \<not> sql_blank (sl_timezone s) \<and> 0 \<le> sl_eligible_at s \<and> sl_eligible_at s \<le> sl_selected_at s
     \<and> 0 \<le> sl_created_at s
     \<and> null_or (\<lambda>t. 0 \<le> t) (sl_invalidated_at s) \<and> null_or (\<lambda>r. \<not> sql_blank r) (sl_invalidated_reason s)
     \<and> (sl_invalidated_at s = None \<longleftrightarrow> sl_invalidated_reason s = None)
     \<and> sl_unit_id s \<in> unit_ids q \<and> sl_repository_id s \<in> repository_ids q
     \<and> (sl_package_id s, sl_package_revision s) \<in> package_keys q"

definition slots_ok :: "queue \<Rightarrow> slot_row list \<Rightarrow> bool" where
  "slots_ok q rows \<longleftrightarrow>
     list_all (slot_row_ok q) rows
     \<and> distinct (map sl_unit_id (filter sl_live rows))
     \<and> distinct (map (\<lambda>s. (sl_package_id s, sl_package_revision s)) (filter sl_live rows))"

definition pauses_ok :: "queue \<Rightarrow> pause_row list \<Rightarrow> bool" where
  "pauses_ok q rows \<longleftrightarrow>
     list_all (\<lambda>p. \<not> sql_blank (pz_reason p) \<and> 0 \<le> pz_paused_at p \<and> pz_repository_id p \<in> repository_ids q) rows
     \<and> distinct (map pz_repository_id rows)"

section \<open>The parts as seen from the whole\<close>

definition attempt_view :: "queue \<Rightarrow> attempt_db" where
  "attempt_view q =
     \<lparr>db_repositories = map rr_id (rg_repositories (q_registry q)),
      db_packages = map snapshot_key (kd_snapshots (q_packages q)),
      db_violation = q_violation q, db_uuid_text = q_text q, db_attempts = q_attempts q\<rparr>"

definition on_plans :: "(plan_db \<Rightarrow> (store_error, plan_db \<times> 'a) result) \<Rightarrow> (queue, store_error, 'a) cmd" where
  "on_plans f = writing (\<lambda>q. and_then (f (q_plans q)) (\<lambda>(db, x). Inr (q\<lparr>q_plans := db\<rparr>, x)))"

definition on_plans_run :: "(plan_db \<Rightarrow> (store_error, 'a) result \<times> plan_db) \<Rightarrow> (queue, store_error, 'a) cmd" where
  "on_plans_run f q = (case f (q_plans q) of (r, db) \<Rightarrow> Some (r, q\<lparr>q_plans := db\<rparr>))"

definition on_attempts ::
  "(attempt_db \<Rightarrow> (store_error, attempt_db \<times> 'a) result) \<Rightarrow> (queue, store_error, 'a) cmd" where
  "on_attempts f =
     writing (\<lambda>q. and_then (f (attempt_view q)) (\<lambda>(db, x). Inr (q\<lparr>q_attempts := db_attempts db\<rparr>, x)))"

definition on_checks :: "(queue \<Rightarrow> (check_db, 'e, 'a) cmd) \<Rightarrow> (queue, 'e, 'a) cmd" where
  "on_checks f q = map_option (\<lambda>(r, k). (r, q\<lparr>q_checks := k\<rparr>)) (f q (q_checks q))"

definition on_backoff ::
  "(backoff_table \<Rightarrow> (store_error, backoff_table \<times> 'a) result) \<Rightarrow> (queue, store_error, 'a) cmd" where
  "on_backoff f = writing (\<lambda>q. and_then (f (q_backoff q)) (\<lambda>(t, x). Inr (q\<lparr>q_backoff := t\<rparr>, x)))"

definition on_pull_requests ::
  "(queue \<Rightarrow> pull_request_record list \<Rightarrow> (store_error, pull_request_record list) result)
    \<Rightarrow> (queue, store_error, unit) cmd" where
  "on_pull_requests f =
     writing (\<lambda>q. and_then (f q (q_pull_requests q)) (\<lambda>rows. Inr (q\<lparr>q_pull_requests := rows\<rparr>, ())))"

section \<open>What the tables promise together\<close>

text \<open>A unit is never empty, its tasks are tasks of the plan revision it names, and with a task it holds
  every task that one needs captured.\<close>

definition members :: "queue \<Rightarrow> release_unit_id \<Rightarrow> task_id list" where
  "members q i = map ut_task_id (filter (\<lambda>r. ut_unit_id r = i) (q_unit_tasks q))"

definition coupled_closed :: "plan_row \<Rightarrow> task_id set \<Rightarrow> bool" where
  "coupled_closed p ts \<longleftrightarrow>
     (\<forall>t \<in> set (plan_tasks_of (pl_document p)). pt_id t \<in> ts \<longrightarrow>
        (\<forall>d. (d, MCaptured) \<in> set (pt_dependencies t) \<longrightarrow> d \<in> ts))"

definition unit_formed :: "queue \<Rightarrow> unit_row \<Rightarrow> bool" where
  "unit_formed q u \<longleftrightarrow>
     members q (un_unit_id u) \<noteq> []
     \<and> (\<forall>r \<in> set (q_unit_tasks q). ut_unit_id r = un_unit_id u
          \<longrightarrow> ut_feature_id r = un_feature_id u \<and> ut_plan_revision r = un_plan_revision u)
     \<and> (\<exists>p \<in> set (pdb_plans (q_plans q)). plan_key p = (un_feature_id u, un_plan_revision u)
          \<and> coupled_closed p (set (members q (un_unit_id u))))"

definition units_formed :: "queue \<Rightarrow> bool" where
  "units_formed q \<longleftrightarrow> list_all (unit_formed q) (q_units q)"

text \<open>A time belongs to the repository of its unit's plan.\<close>

definition slots_placed :: "queue \<Rightarrow> bool" where
  "slots_placed q \<longleftrightarrow>
     (\<forall>s \<in> set (q_slots q). \<forall>u \<in> set (q_units q). un_unit_id u = sl_unit_id s \<longrightarrow>
        (\<forall>p \<in> set (pdb_plans (q_plans q)). plan_key p = (un_feature_id u, un_plan_revision u)
           \<longrightarrow> pl_repository_id p = sl_repository_id s))"

definition queue_ok :: "queue \<Rightarrow> bool" where
  "queue_ok q \<longleftrightarrow>
     pdb_ok (q_plans q) \<and> checks_ok (repository_ids q) (package_keys q) (attempt_ids q) (q_checks q)
     \<and> db_ok (attempt_view q) \<and> units_ok q (q_units q) \<and> unit_tasks_ok q (q_unit_tasks q)
     \<and> slots_ok q (q_slots q) \<and> pauses_ok q (q_pauses q)
     \<and> pull_requests_ok (unit_ids q) (repository_ids q) (q_pull_requests q)
     \<and> units_formed q \<and> slots_placed q"

lemma one_unit: "units_ok q rows \<Longrightarrow> x \<in> set rows \<Longrightarrow> y \<in> set rows \<Longrightarrow> un_unit_id x = un_unit_id y \<Longrightarrow> x = y"
  by (rule key_unique [of un_unit_id rows]) (simp_all add: units_ok_def)

section \<open>What no operation undoes\<close>

text \<open>A selected time is never rewritten or deleted: it may only be withdrawn, once.\<close>

definition slot_follows :: "slot_row \<Rightarrow> slot_row \<Rightarrow> bool" where
  "slot_follows s s' \<longleftrightarrow>
     s'\<lparr>sl_invalidated_at := None, sl_invalidated_reason := None\<rparr>
       = s\<lparr>sl_invalidated_at := None, sl_invalidated_reason := None\<rparr>
     \<and> (\<not> sl_live s \<longrightarrow> s' = s)"

definition plan_grows :: "plan_db \<Rightarrow> plan_db \<Rightarrow> bool" where
  "plan_grows db db' \<longleftrightarrow>
     tasks_follow db db' \<and> set (pdb_plans db) \<subseteq> set (pdb_plans db')
     \<and> rr_id ` set (rg_repositories (pdb_registry db)) \<subseteq> rr_id ` set (rg_repositories (pdb_registry db'))
     \<and> set (kd_snapshots (pdb_packages db)) \<subseteq> set (kd_snapshots (pdb_packages db'))"

definition queue_follows :: "queue \<Rightarrow> queue \<Rightarrow> bool" where
  "queue_follows q q' \<longleftrightarrow>
     plan_grows (q_plans q) (q_plans q') \<and> checks_follow (q_checks q) (q_checks q')
     \<and> grows slot_follows (q_slots q) (q_slots q') \<and> grows row_evolves (q_attempts q) (q_attempts q')
     \<and> grows pull_request_follows (q_pull_requests q) (q_pull_requests q')
     \<and> (\<forall>u \<in> set (q_units q). un_unit_id u \<in> sl_unit_id ` set (q_slots q) \<longrightarrow> u \<in> set (q_units q'))"

definition queue_moves :: "queue \<Rightarrow> queue \<Rightarrow> bool" where
  "queue_moves q q' \<longleftrightarrow> (queue_ok q \<longrightarrow> queue_ok q' \<and> queue_follows q q')"

lemma slot_follows_refl [simp]: "slot_follows s s"
  by (simp add: slot_follows_def)

lemma slot_follows_trans: "slot_follows r s \<Longrightarrow> slot_follows s t \<Longrightarrow> slot_follows r t"
  by (auto simp: slot_follows_def)

lemma slot_follows_unit: "slot_follows s s' \<Longrightarrow> sl_unit_id s' = sl_unit_id s"
  unfolding slot_follows_def
  by (metis slot_row.select_convs(1) slot_row.surjective slot_row.update_convs(10,11))

lemma row_evolves_trans: "row_evolves r s \<Longrightarrow> row_evolves s t \<Longrightarrow> row_evolves r t"
  by (auto simp: row_evolves_def)

lemma pull_request_follows_refl: "pq_merged_at p = None \<or> pq_state p = ''closed'' \<Longrightarrow> pull_request_follows p p"
  by (auto simp: pull_request_follows_def)

lemma pull_request_follows_trans:
  "pull_request_follows p r \<Longrightarrow> pull_request_follows r s \<Longrightarrow> pull_request_follows p s"
  by (auto simp: pull_request_follows_def)

lemma pull_requests_follow_refl: "pull_requests_ok units repos rows \<Longrightarrow> grows pull_request_follows rows rows"
  by (auto simp: grows_def pull_requests_ok_def list_all_iff list_all2_same intro!: pull_request_follows_refl)

lemma tasks_follow_grows_iff: "tasks_follow db db' \<longleftrightarrow> grows task_follows (pdb_tasks db) (pdb_tasks db')"
proof -
  have "length xs \<le> length ys" if "list_all2 task_follows xs (take (length xs) ys)" for xs ys
    using list_all2_lengthD [OF that] by simp
  then show ?thesis by (auto simp: tasks_follow_def grows_def)
qed

lemmas tasks_follow_grows = tasks_follow_grows_iff [THEN iffD1]

lemma tasks_follow_keys: "tasks_follow db db' \<Longrightarrow> task_key ` set (pdb_tasks db) \<subseteq> task_key ` set (pdb_tasks db')"
  by (rule grows_keys [where R = task_follows, OF tasks_follow_grows]) (simp_all add: task_follows_def)

lemma plan_grows_refl [simp]: "plan_grows db db"
  by (simp add: plan_grows_def)

lemma tasks_follow_trans: "tasks_follow a b \<Longrightarrow> tasks_follow b c \<Longrightarrow> tasks_follow a c"
  unfolding tasks_follow_grows_iff by (rule grows_trans) (rule task_follows_trans)

lemma plan_grows_trans: "plan_grows a b \<Longrightarrow> plan_grows b c \<Longrightarrow> plan_grows a c"
  unfolding plan_grows_def by (meson subset_trans tasks_follow_trans)

lemma queue_follows_refl: "queue_ok q \<Longrightarrow> queue_follows q q"
proof -
  assume "queue_ok q"
  then have "pull_requests_ok (unit_ids q) (repository_ids q) (q_pull_requests q)" by (simp add: queue_ok_def)
  then have "grows pull_request_follows (q_pull_requests q) (q_pull_requests q)" by (rule pull_requests_follow_refl)
  then show ?thesis by (simp add: queue_follows_def checks_follow_refl grows_refl)
qed

lemma slots_keep_units:
  assumes "grows slot_follows (q_slots q) (q_slots q')"
  shows "sl_unit_id ` set (q_slots q) \<subseteq> sl_unit_id ` set (q_slots q')"
  using assms slot_follows_unit by (rule grows_keys)

lemma queue_follows_trans:
  assumes "queue_follows p q" and "queue_follows q r"
  shows "queue_follows p r"
proof -
  have "grows slot_follows (q_slots p) (q_slots r)"
    by (rule grows_trans [where ys = "q_slots q"]) (use assms slot_follows_trans in \<open>auto simp: queue_follows_def\<close>)
  moreover have "grows row_evolves (q_attempts p) (q_attempts r)"
    by (rule grows_trans [where ys = "q_attempts q"]) (use assms row_evolves_trans in \<open>auto simp: queue_follows_def\<close>)
  moreover have "grows pull_request_follows (q_pull_requests p) (q_pull_requests r)"
    by (rule grows_trans [where ys = "q_pull_requests q"])
       (use assms pull_request_follows_trans in \<open>auto simp: queue_follows_def\<close>)
  moreover have "plan_grows (q_plans p) (q_plans r)" "checks_follow (q_checks p) (q_checks r)"
    using assms plan_grows_trans checks_follow_trans unfolding queue_follows_def by blast+
  moreover have "u \<in> set (q_units r)" if "u \<in> set (q_units p)" "un_unit_id u \<in> sl_unit_id ` set (q_slots p)" for u
    using that assms slots_keep_units [of p q] unfolding queue_follows_def by blast
  ultimately show ?thesis by (simp add: queue_follows_def)
qed

interpretation queue: behaviour queue_moves
proof unfold_locales
  show "queue_moves q q" for q by (simp add: queue_moves_def queue_follows_refl)
  show "queue_moves p q \<Longrightarrow> queue_moves q r \<Longrightarrow> queue_moves p r" for p q r
    unfolding queue_moves_def using queue_follows_trans by blast
qed

section \<open>Changing one part\<close>

lemma units_formed_mono:
  assumes "units_formed q" and "q_units q' = q_units q" and "q_unit_tasks q' = q_unit_tasks q"
    and "set (pdb_plans (q_plans q)) \<subseteq> set (pdb_plans (q_plans q'))"
  shows "units_formed q'"
proof -
  have "unit_formed q u \<Longrightarrow> unit_formed q' u" for u
    using subsetD [OF assms(4)] unfolding unit_formed_def members_def assms(2,3) by blast
  then show ?thesis using assms(1,2) by (simp add: units_formed_def list_all_iff)
qed

lemma db_ok_keys:
  assumes "db_ok db" and "db_attempts db' = db_attempts db" and "set (db_repositories db) \<subseteq> set (db_repositories db')"
    and "set (db_packages db) \<subseteq> set (db_packages db')"
  shows "db_ok db'"
  using assms by (auto simp: db_ok_def constraints_hold_def list_all_iff)

lemma units_ok_mono:
  assumes "units_ok q rows" and "plan_key ` set (pdb_plans (q_plans q)) \<subseteq> plan_key ` set (pdb_plans (q_plans q'))"
  shows "units_ok q' rows"
  using assms(1) subsetD [OF assms(2)] by (simp add: units_ok_def list_all_iff)

lemma unit_tasks_ok_mono:
  assumes "unit_tasks_ok q rows" and "unit_ids q \<subseteq> unit_ids q'"
    and "task_key ` set (pdb_tasks (q_plans q)) \<subseteq> task_key ` set (pdb_tasks (q_plans q'))"
  shows "unit_tasks_ok q' rows"
  using assms(1) subsetD [OF assms(2)] subsetD [OF assms(3)] by (simp add: unit_tasks_ok_def list_all_iff)

lemma slots_ok_mono:
  assumes "slots_ok q rows" and "unit_ids q \<subseteq> unit_ids q'" and "repository_ids q \<subseteq> repository_ids q'"
    and "package_keys q \<subseteq> package_keys q'"
  shows "slots_ok q' rows"
  using assms(1) subsetD [OF assms(2)] subsetD [OF assms(3)] subsetD [OF assms(4)]
  by (simp add: slots_ok_def slot_row_ok_def list_all_iff)

lemma pauses_ok_mono:
  assumes "pauses_ok q rows" and "repository_ids q \<subseteq> repository_ids q'"
  shows "pauses_ok q' rows"
  using assms(1) subsetD [OF assms(2)] by (simp add: pauses_ok_def list_all_iff)

lemma pull_requests_ok_mono:
  assumes "pull_requests_ok units repos rows" and "units \<subseteq> units'" and "repos \<subseteq> repos'"
  shows "pull_requests_ok units' repos' rows"
  using assms(1) subsetD [OF assms(2)] subsetD [OF assms(3)] by (simp add: pull_requests_ok_def list_all_iff)

lemma change_plans:
  assumes "queue_ok q" and "pdb_ok db" and "plan_grows (q_plans q) db"
  shows "queue_ok (q\<lparr>q_plans := db\<rparr>) \<and> queue_follows q (q\<lparr>q_plans := db\<rparr>)"
proof -
  let ?q = "q\<lparr>q_plans := db\<rparr>"
  have g: "tasks_follow (q_plans q) db" "set (pdb_plans (q_plans q)) \<subseteq> set (pdb_plans db)"
    "repository_ids q \<subseteq> rr_id ` set (rg_repositories (pdb_registry db))"
    "set (kd_snapshots (q_packages q)) \<subseteq> set (kd_snapshots (pdb_packages db))"
    using assms(3) unfolding plan_grows_def by blast+
  have keys: "task_key ` set (pdb_tasks (q_plans q)) \<subseteq> task_key ` set (pdb_tasks db)"
    using g(1) by (rule tasks_follow_keys)
  have sel: "q_plans ?q = db" by simp
  have ids: "repository_ids q \<subseteq> repository_ids ?q" unfolding sel by (rule g(3))
  have packages: "package_keys q \<subseteq> package_keys ?q" unfolding sel using g(4) by (rule image_mono)
  have plans: "plan_key ` set (pdb_plans (q_plans q)) \<subseteq> plan_key ` set (pdb_plans db)" using g(2) by (rule image_mono)
  have "checks_ok (repository_ids ?q) (package_keys ?q) (attempt_ids ?q) (q_checks ?q)"
    using checks_ok_mono [OF _ ids packages subset_refl, of "attempt_ids q" "q_checks q"] assms(1) by (simp add: queue_ok_def)
  moreover have "db_ok (attempt_view ?q)"
    by (rule db_ok_keys [of "attempt_view q"]) (use assms(1) ids packages in \<open>simp_all add: queue_ok_def attempt_view_def\<close>)
  moreover have "units_ok ?q (q_units q)"
    by (rule units_ok_mono [of q]) (use assms(1) plans in \<open>simp_all add: queue_ok_def\<close>)
  moreover have "unit_tasks_ok ?q (q_unit_tasks q)"
    by (rule unit_tasks_ok_mono [of q]) (use assms(1) keys in \<open>simp_all add: queue_ok_def\<close>)
  moreover have "slots_ok ?q (q_slots q)"
    by (rule slots_ok_mono [of q]) (use assms(1) ids packages in \<open>simp_all add: queue_ok_def\<close>)
  moreover have "pauses_ok ?q (q_pauses q)"
    by (rule pauses_ok_mono [of q]) (use assms(1) ids in \<open>simp_all add: queue_ok_def\<close>)
  moreover have "pull_requests_ok (unit_ids ?q) (repository_ids ?q) (q_pull_requests q)"
    by (rule pull_requests_ok_mono [of "unit_ids q" "repository_ids q"]) (use assms(1) ids in \<open>simp_all add: queue_ok_def\<close>)
  moreover have "slots_placed ?q"
    unfolding slots_placed_def
  proof (intro ballI impI)
    fix s u p assume s: "s \<in> set (q_slots ?q)" and u: "u \<in> set (q_units ?q)" "un_unit_id u = sl_unit_id s"
      and p: "p \<in> set (pdb_plans (q_plans ?q))" "plan_key p = (un_feature_id u, un_plan_revision u)"
    obtain p0 where p0: "p0 \<in> set (pdb_plans (q_plans q))" "plan_key p0 = (un_feature_id u, un_plan_revision u)"
      using assms(1) u by (auto simp: queue_ok_def units_ok_def list_all_iff)
    then have "p0 \<in> set (pdb_plans db)" using g by blast
    then have "p = p0"
      using p p0(2) assms(2) by (simp add: pdb_ok_def plans_ok_def distinct_map inj_on_def)
    then show "pl_repository_id p = sl_repository_id s"
      using assms(1) s u p0 by (simp add: queue_ok_def slots_placed_def)
  qed
  moreover have "units_formed ?q"
    by (rule units_formed_mono [of q]) (use assms(1) g(2) in \<open>simp_all add: queue_ok_def\<close>)
  ultimately have "queue_ok ?q" using assms(2) by (simp add: queue_ok_def)
  moreover have "queue_follows q ?q"
    using queue_follows_refl [OF assms(1)] assms(3) by (simp add: queue_follows_def)
  ultimately show ?thesis by blast
qed

lemma write_back_frame:
  assumes "write_back i (sql_update db cond change) = Inr (db', a)"
  shows "\<exists>rows. db' = db\<lparr>db_attempts := rows\<rparr>"
  using assms by (auto simp: write_back_def sql_update_def commit_rows_Inr res)

lemma attempt_step_frame:
  assumes "attempt_step db db'"
  shows "\<exists>rows. db' = db\<lparr>db_attempts := rows\<rparr>"
  using assms
proof cases
  case (open_attempt req a)
  then show ?thesis by (auto simp: open_release_attempt_def sql_insert_def commit_rows_Inr res)
next
  case (push_intent i candidate parent now a)
  then show ?thesis by (auto simp: record_push_intent_def res split: if_splits dest: write_back_frame)
next
  case (advance i target reason now a)
  then show ?thesis by (auto simp: advance_release_attempt_def Let_def res split: if_splits dest: write_back_frame)
next
  case (observe i observed now a)
  then show ?thesis by (auto simp: record_remote_observation_def res dest: write_back_frame)
next
  case (failure i classification now a)
  then show ?thesis by (auto simp: record_publication_failure_def res split: if_splits dest: write_back_frame)
next
  case (defer_retry i classification retry now a)
  then show ?thesis by (auto simp: defer_publication_retry_def res split: if_splits dest: write_back_frame)
next
  case (claim i lease now a)
  then show ?thesis by (auto simp: claim_expired_release_attempt_def res split: if_splits dest: write_back_frame)
qed

lemma change_attempts:
  assumes "queue_ok q" and "attempt_step (attempt_view q) db"
  shows "queue_ok (q\<lparr>q_attempts := db_attempts db\<rparr>) \<and> queue_follows q (q\<lparr>q_attempts := db_attempts db\<rparr>)"
proof -
  let ?q = "q\<lparr>q_attempts := db_attempts db\<rparr>"
  have ok: "db_ok (attempt_view q)" using assms(1) by (simp add: queue_ok_def)
  obtain rows where rows: "db = (attempt_view q)\<lparr>db_attempts := rows\<rparr>" using attempt_step_frame [OF assms(2)] by blast
  then have view: "attempt_view ?q = db" by (simp add: attempt_view_def)
  have step: "db_ok db" "list_all2 row_evolves (q_attempts q) (take (length (q_attempts q)) rows)"
    using attempt_step_ok [OF ok assms(2)] by (simp_all add: rows attempt_view_def)
  have g: "grows row_evolves (q_attempts q) rows"
    using step(2) list_all2_lengthD [OF step(2)] by (simp add: grows_def)
  then have "attempt_ids q \<subseteq> attempt_ids ?q"
    using grows_keys [of row_evolves "q_attempts q" rows c_attempt_id] by (simp add: rows row_evolves_def)
  then have "checks_ok (repository_ids ?q) (package_keys ?q) (attempt_ids ?q) (q_checks ?q)"
    using checks_ok_mono [of "repository_ids q" "package_keys q" "attempt_ids q" "q_checks q"] assms(1)
    by (simp add: queue_ok_def)
  then have "queue_ok ?q"
    using assms(1) step(1) view
    by (simp add: queue_ok_def units_ok_def unit_tasks_ok_def slots_ok_def slot_row_ok_def [abs_def] pauses_ok_def units_formed_def
        unit_formed_def [abs_def] members_def slots_placed_def)
  moreover have "queue_follows q ?q"
    using queue_follows_refl [OF assms(1)] g by (simp add: queue_follows_def rows)
  ultimately show ?thesis by blast
qed

lemma change_checks:
  assumes "queue_ok q" and "checks_move (repository_ids q) (package_keys q) (attempt_ids q) (q_checks q) k"
  shows "queue_ok (q\<lparr>q_checks := k\<rparr>) \<and> queue_follows q (q\<lparr>q_checks := k\<rparr>)"
proof -
  have "queue_ok (q\<lparr>q_checks := k\<rparr>)"
    using assms by (simp add: queue_ok_def checks_move_def units_ok_def unit_tasks_ok_def slots_ok_def slot_row_ok_def [abs_def] pauses_ok_def
        units_formed_def unit_formed_def [abs_def] members_def slots_placed_def attempt_view_def)
  moreover have "queue_follows q (q\<lparr>q_checks := k\<rparr>)"
    using queue_follows_refl [OF assms(1)] assms(2) by (simp add: queue_follows_def checks_move_def)
  ultimately show ?thesis by blast
qed

lemma change_backoff: "queue_moves q (q\<lparr>q_backoff := t\<rparr>)"
proof -
  have "queue_ok (q\<lparr>q_backoff := t\<rparr>) = queue_ok q"
    by (simp add: queue_ok_def units_ok_def unit_tasks_ok_def slots_ok_def slot_row_ok_def [abs_def] pauses_ok_def
        units_formed_def unit_formed_def [abs_def] members_def slots_placed_def attempt_view_def)
  moreover have "queue_follows q (q\<lparr>q_backoff := t\<rparr>) = queue_follows q q" by (simp add: queue_follows_def)
  ultimately show ?thesis by (simp add: queue_moves_def queue_follows_refl)
qed

lemma change_pauses:
  assumes "queue_ok q" and "pauses_ok q rows"
  shows "queue_ok (q\<lparr>q_pauses := rows\<rparr>) \<and> queue_follows q (q\<lparr>q_pauses := rows\<rparr>)"
proof -
  have "queue_ok (q\<lparr>q_pauses := rows\<rparr>)"
    using assms by (simp add: queue_ok_def units_ok_def unit_tasks_ok_def slots_ok_def slot_row_ok_def [abs_def] pauses_ok_def
        units_formed_def unit_formed_def [abs_def] members_def slots_placed_def attempt_view_def)
  moreover have "queue_follows q (q\<lparr>q_pauses := rows\<rparr>)"
    using queue_follows_refl [OF assms(1)] by (simp add: queue_follows_def)
  ultimately show ?thesis by blast
qed

lemma change_pull_requests:
  assumes "queue_ok q" and "pull_requests_ok (unit_ids q) (repository_ids q) rows"
    and "grows pull_request_follows (q_pull_requests q) rows"
  shows "queue_ok (q\<lparr>q_pull_requests := rows\<rparr>) \<and> queue_follows q (q\<lparr>q_pull_requests := rows\<rparr>)"
proof -
  have "queue_ok (q\<lparr>q_pull_requests := rows\<rparr>)"
    using assms by (simp add: queue_ok_def units_ok_def unit_tasks_ok_def slots_ok_def slot_row_ok_def [abs_def] pauses_ok_def
        units_formed_def unit_formed_def [abs_def] members_def slots_placed_def attempt_view_def)
  moreover have "queue_follows q (q\<lparr>q_pull_requests := rows\<rparr>)"
    using queue_follows_refl [OF assms(1)] assms(3) by (simp add: queue_follows_def)
  ultimately show ?thesis by blast
qed

lemma change_slots:
  assumes "queue_ok q" and "slots_ok q rows" and "slots_placed (q\<lparr>q_slots := rows\<rparr>)"
    and "grows slot_follows (q_slots q) rows"
  shows "queue_ok (q\<lparr>q_slots := rows\<rparr>) \<and> queue_follows q (q\<lparr>q_slots := rows\<rparr>)"
proof -
  have "queue_ok (q\<lparr>q_slots := rows\<rparr>)"
    using assms by (simp add: queue_ok_def units_ok_def unit_tasks_ok_def slots_ok_def slot_row_ok_def [abs_def] pauses_ok_def
        units_formed_def unit_formed_def [abs_def] members_def attempt_view_def)
  moreover have "queue_follows q (q\<lparr>q_slots := rows\<rparr>)"
    using queue_follows_refl [OF assms(1)] assms(4) by (simp add: queue_follows_def)
  ultimately show ?thesis by blast
qed

text \<open>The calls of the parts stay in the relation of the whole.\<close>

lemma on_plans_stays:
  assumes "\<And>p db x. pdb_ok p \<Longrightarrow> f p = Inr (db, x) \<Longrightarrow> pdb_ok db \<and> plan_grows p db"
  shows "stays queue_moves (on_plans f)"
  unfolding on_plans_def
proof (rule queue.writing)
  fix q q' :: queue and x assume "and_then (f (q_plans q)) (\<lambda>(db, x). Inr (q\<lparr>q_plans := db\<rparr>, x)) = Inr (q', x)"
  then obtain db where "f (q_plans q) = Inr (db, x)" "q' = q\<lparr>q_plans := db\<rparr>" by (auto simp: and_then_Inr_iff)
  then show "queue_moves q q'"
    using assms [of "q_plans q" db x] change_plans [of q db] by (simp add: queue_moves_def queue_ok_def)
qed

lemma on_plans_run_stays:
  assumes "\<And>db r db'. pdb_ok db \<Longrightarrow> f db = (r, db') \<Longrightarrow> pdb_ok db' \<and> plan_grows db db'"
  shows "stays queue_moves (on_plans_run f)"
  unfolding stays_def on_plans_run_def
proof (intro allI impI)
  fix q q' :: queue and r assume "(case f (q_plans q) of (r, db) \<Rightarrow> Some (r, q\<lparr>q_plans := db\<rparr>)) = Some (r, q')"
  then obtain db where "f (q_plans q) = (r, db)" "q' = q\<lparr>q_plans := db\<rparr>" by (auto split: prod.splits)
  then show "queue_moves q q'"
    using assms [of "q_plans q" r db] change_plans [of q db] by (auto simp: queue_moves_def queue_ok_def)
qed

lemma on_attempts_stays:
  assumes "\<And>q db x. f (attempt_view q) = Inr (db, x) \<Longrightarrow> attempt_step (attempt_view q) db"
  shows "stays queue_moves (on_attempts f)"
  unfolding on_attempts_def
proof (rule queue.writing)
  fix q q' :: queue and x assume "and_then (f (attempt_view q)) (\<lambda>(db, x). Inr (q\<lparr>q_attempts := db_attempts db\<rparr>, x)) = Inr (q', x)"
  then obtain db where "f (attempt_view q) = Inr (db, x)" "q' = q\<lparr>q_attempts := db_attempts db\<rparr>"
    by (auto simp: and_then_Inr_iff)
  then show "queue_moves q q'" using assms change_attempts [of q db] by (simp add: queue_moves_def)
qed

lemma on_checks_stays:
  assumes "\<And>q :: queue. stays (checks_move (repository_ids q) (package_keys q) (attempt_ids q)) (f q)"
  shows "stays queue_moves (on_checks f)"
  unfolding stays_def on_checks_def
proof (intro allI impI)
  fix q q' :: queue and r assume "map_option (\<lambda>(r, k). (r, q\<lparr>q_checks := k\<rparr>)) (f q (q_checks q)) = Some (r, q')"
  then obtain k where "f q (q_checks q) = Some (r, k)" "q' = q\<lparr>q_checks := k\<rparr>" by auto
  then show "queue_moves q q'"
    using assms [of q] change_checks [of q k] by (auto simp: queue_moves_def stays_def)
qed

lemma on_backoff_stays: "stays queue_moves (on_backoff f)"
  unfolding on_backoff_def by (rule queue.writing) (auto simp: and_then_Inr_iff intro: change_backoff)

section \<open>Plans and tasks inside the whole\<close>

lemma advance_task_frame: "advance_task db f v t target reason now = Inr (db', rec) \<Longrightarrow> \<exists>rows. db' = db\<lparr>pdb_tasks := rows\<rparr>"
  by (erule advance_task_Inr) blast

lemma advance_loop_frame:
  "advance_loop f v t target now db rec = (r, db') \<Longrightarrow> \<exists>rows. db' = db\<lparr>pdb_tasks := rows\<rparr>"
proof (induction f v t target now db rec rule: advance_loop.induct)
  case (1 f v t target now db rec)
  have same: "\<exists>rows. db = db\<lparr>pdb_tasks := rows\<rparr>" by (rule exI [of _ "pdb_tasks db"]) simp
  show ?case
  proof (cases "ts_status (tr_state rec) = target \<or> next_ordinary (ts_status (tr_state rec)) = None")
    case True
    then show ?thesis using 1(2) same by (auto simp: advance_loop.simps [of f v t target now db] split: if_splits)
  next
    case False
    then obtain nxt where nxt: "next_ordinary (ts_status (tr_state rec)) = Some nxt" by blast
    show ?thesis
    proof (cases "advance_task db f v t nxt None now")
      case (Inl e)
      then show ?thesis using 1(2) False nxt same by (simp add: advance_loop.simps [of f v t target now db])
    next
      case (Inr x)
      obtain db1 rec1 where x: "x = (db1, rec1)" by (cases x)
      then have "advance_loop f v t target now db1 rec1 = (r, db')"
        using 1(2) False nxt Inr by (simp add: advance_loop.simps [of f v t target now db])
      then obtain rows where "db' = db1\<lparr>pdb_tasks := rows\<rparr>" using 1(1) [OF _ nxt Inr x [symmetric]] False by blast
      moreover obtain rows1 where "db1 = db\<lparr>pdb_tasks := rows1\<rparr>" using advance_task_frame Inr x by blast
      ultimately have "db' = db\<lparr>pdb_tasks := rows\<rparr>" by simp
      then show ?thesis ..
    qed
  qed
qed

lemma advance_task_to_frame:
  "advance_task_to db f v t target now = (r, db') \<Longrightarrow> \<exists>rows. db' = db\<lparr>pdb_tasks := rows\<rparr>"
  using advance_loop_frame [of f v t target now db _ r db'] exI [of "\<lambda>rows. db = db\<lparr>pdb_tasks := rows\<rparr>" "pdb_tasks db"]
  by (auto simp: advance_task_to_def split: sum.splits option.splits bool.splits)

lemma plan_db_step_grows:
  assumes "plan_db_step db db'" and "pdb_ok db"
  shows "pdb_ok db' \<and> plan_grows db db'"
proof -
  have ok: "pdb_ok db'" "tasks_follow db db'" using plan_db_step_ok [OF assms] by auto
  from assms(1) have "set (pdb_plans db) \<subseteq> set (pdb_plans db')
     \<and> rr_id ` set (rg_repositories (pdb_registry db)) \<subseteq> rr_id ` set (rg_repositories (pdb_registry db'))
     \<and> set (kd_snapshots (pdb_packages db)) \<subseteq> set (kd_snapshots (pdb_packages db'))"
  proof cases
    case (import_ p c)
    then show ?thesis using import_plan_iff(2) [OF assms(2)] by (auto simp: after_import_def)
  next
    case (advance f v t target reason now rec)
    then show ?thesis using advance_task_frame by fastforce
  next
    case (advance_to f v t target now r)
    then show ?thesis using advance_task_to_frame by fastforce
  next
    case (package p v ts)
    have "\<exists>rows. db' = db\<lparr>pdb_package_tasks := rows\<rparr>"
      using package_task_table.insert_all [of "insert_package_task p v" "\<lambda>t. (p, v, t)" "\<lambda>db. Sqlite (pdb_violation db)" db ts db']
        assms(2) package by (auto simp: record_package_tasks_def insert_package_task_def Let_def pdb_ok_def)
    then show ?thesis by auto
  next
    case (registry g')
    then show ?thesis using registry_step_ids by simp
  next
    case (packages k')
    then show ?thesis using package_step_history [OF packages(2)] by auto
  qed
  then show ?thesis using ok by (simp add: plan_grows_def)
qed

text \<open>The commands on plans that the release machinery uses.\<close>

definition advancing ::
  "feature_id \<Rightarrow> revision \<Rightarrow> task_id \<Rightarrow> task_status \<Rightarrow> state_reason option \<Rightarrow> int
    \<Rightarrow> (queue, store_error, task_record) cmd" where
  "advancing f v t target reason now = on_plans (\<lambda>db. advance_task db f v t target reason now)"

definition advancing_to ::
  "feature_id \<Rightarrow> revision \<Rightarrow> task_id \<Rightarrow> task_status \<Rightarrow> int \<Rightarrow> (queue, store_error, task_record) cmd" where
  "advancing_to f v t target now = on_plans_run (\<lambda>db. advance_task_to db f v t target now)"

lemma advancing_stays: "stays queue_moves (advancing f v t target reason now)"
  unfolding advancing_def by (rule on_plans_stays) (blast dest: plan_db_step_grows [OF plan_db_step.advance])

lemma advancing_to_stays: "stays queue_moves (advancing_to f v t target now)"
  unfolding advancing_to_def by (rule on_plans_run_stays) (blast dest: plan_db_step_grows [OF plan_db_step.advance_to])

end
