(* ===== verification/Units.thy ===== *)
theory Units
  imports Queue
begin

text \<open>
  Release units (\<open>crates/store/src/units.rs\<close>).

  A unit groups tasks that ship together.  Grouping is closed under the dependencies that capture
  alone satisfies, no task is in two units, and grouping the same work again gives the unit it is
  already in.
\<close>

section \<open>Reading units\<close>

record release_unit_record =
  ur_unit_id :: release_unit_id
  ur_feature_id :: feature_id
  ur_plan_revision :: revision
  ur_task_ids :: "task_id list"
  ur_created_at :: int

definition release_unit_of :: "queue \<Rightarrow> release_unit_id \<Rightarrow> release_unit_record option" where
  "release_unit_of q i =
     map_option (\<lambda>u. \<lparr>ur_unit_id = i, ur_feature_id = un_feature_id u, ur_plan_revision = un_plan_revision u,
         ur_task_ids = bts_collect (order_by_task (q_plans q) id (members q i)), ur_created_at = un_created_at u\<rparr>)
       (find (\<lambda>u. un_unit_id u = i) (q_units q))"

definition release_unit_for_task :: "queue \<Rightarrow> feature_id \<Rightarrow> revision \<Rightarrow> task_id \<Rightarrow> release_unit_record option" where
  "release_unit_for_task q f v t =
     (case find (\<lambda>r. (ut_feature_id r, ut_plan_revision r, ut_task_id r) = (f, v, t)) (q_unit_tasks q) of
        None \<Rightarrow> None
      | Some r \<Rightarrow> release_unit_of q (ut_unit_id r))"

text \<open>\<open>ORDER BY created_at DESC, unit_id\<close>.\<close>

definition release_units_for_repository :: "queue \<Rightarrow> repository_id \<Rightarrow> release_unit_record list" where
  "release_units_for_repository q i =
     List.map_filter (\<lambda>u. release_unit_of q (un_unit_id u))
       (sort_key (\<lambda>u. - un_created_at u) (sort_key (\<lambda>u. id_display (q_text q) ReleaseUnitKind (un_unit_id u))
         [u. u \<leftarrow> q_units q, p \<leftarrow> pdb_plans (q_plans q),
            plan_key p = (un_feature_id u, un_plan_revision u) \<and> pl_repository_id p = i]))"

section \<open>Forming a unit\<close>

text \<open>\<open>entry(task).or_default().insert(prerequisite)\<close> for the prerequisites that need only be captured.\<close>

definition couple :: "task_id \<Rightarrow> task_id \<times> target_milestone \<Rightarrow> (task_id \<times> task_id list) list \<Rightarrow> (task_id \<times> task_id list) list" where
  "couple t = (\<lambda>(prerequisite, milestone) m.
     if milestone = MCaptured
     then btm_insert t (bts_insert prerequisite (unwrap_or (map_of m t) [])) m else m)"

definition coupling_dependencies ::
  "plan_db \<Rightarrow> feature_id \<Rightarrow> revision \<Rightarrow> (store_error, (task_id \<times> task_id list) list) result" where
  "coupling_dependencies db f v =
     and_then (plan_tasks db f v) (fold_res (\<lambda>m task.
       and_then (task_prerequisites db f v (tr_task_id task)) (\<lambda>deps.
         Inr (fold (couple (tr_task_id task)) deps m))) [])"

definition coupling_for_plan ::
  "plan_db \<Rightarrow> feature_id \<Rightarrow> revision \<Rightarrow> (store_error, (task_id \<times> task_id list) list) result" where
  "coupling_for_plan db f v = coupling_dependencies db f v"

fun existing_unit ::
  "queue \<Rightarrow> feature_id \<Rightarrow> revision \<Rightarrow> task_id list \<Rightarrow> task_id list
    \<Rightarrow> (store_error, release_unit_record option) result" where
  "existing_unit q f v proposed [] = Inr None"
| "existing_unit q f v proposed (t # ts) =
     (case release_unit_for_task q f v t of
        None \<Rightarrow> existing_unit q f v proposed ts
      | Some existing \<Rightarrow>
          if ur_task_ids existing = proposed then Inr (Some existing)
          else Inl (Conflict (''task '' @ id_display (q_text q) TaskKind t @ '' already publishes with release unit ''
            @ id_display (q_text q) ReleaseUnitKind (ur_unit_id existing) @ '', which groups different ''
            @ ''work; withdraw or cancel that unit rather than regrouping its tasks'')))"

definition existing_unit_for ::
  "queue \<Rightarrow> feature_id \<Rightarrow> revision \<Rightarrow> release_unit \<Rightarrow> (store_error, release_unit_record option) result" where
  "existing_unit_for q f v proposed = existing_unit q f v (ru_task_ids proposed) (ru_task_ids proposed)"

text \<open>\<open>Display\<close> of the error; the identifiers of the list are shown with \<open>Debug\<close>.\<close>

definition debug_task_id :: "(uuid \<Rightarrow> string) \<Rightarrow> task_id \<Rightarrow> string" where
  "debug_task_id text t = ''TaskId('' @ text (as_uuid t) @ '')''"

definition release_unit_error_text :: "(uuid \<Rightarrow> string) \<Rightarrow> release_unit_error \<Rightarrow> string" where
  "release_unit_error_text text e =
     (case e of
        UnitEmpty \<Rightarrow> ''release unit must contain at least one task''
      | MissingPrerequisite t missing \<Rightarrow> ''release unit task '' @ id_display text TaskKind t
          @ '' omits required prerequisite task(s) ['' @ join '', '' (map (debug_task_id text) missing) @ '']'')"

definition unit_write_error :: "queue \<Rightarrow> store_error" where
  "unit_write_error q = Conflict (''release unit rejected by storage rules: '' @ q_violation q)"

definition insert_unit :: "queue \<Rightarrow> unit_row \<Rightarrow> (store_error, queue) result" where
  "insert_unit q u =
     (if units_ok q (q_units q @ [u]) then Inr (q\<lparr>q_units := q_units q @ [u]\<rparr>) else Inl (unit_write_error q))"

definition insert_unit_task ::
  "release_unit_id \<Rightarrow> feature_id \<Rightarrow> revision \<Rightarrow> queue \<Rightarrow> task_id \<Rightarrow> (store_error, queue) result" where
  "insert_unit_task i f v q t =
     (let rows = q_unit_tasks q @ [\<lparr>ut_unit_id = i, ut_feature_id = f, ut_plan_revision = v, ut_task_id = t\<rparr>]
      in if unit_tasks_ok q rows then Inr (q\<lparr>q_unit_tasks := rows\<rparr>) else Inl (unit_write_error q))"

definition create_release_unit ::
  "release_unit_id \<Rightarrow> feature_id \<Rightarrow> revision \<Rightarrow> task_id list \<Rightarrow> int \<Rightarrow> queue
    \<Rightarrow> (store_error, queue \<times> release_unit_record) result" where
  "create_release_unit i f v tasks created q =
     and_then (ensure (0 \<le> created) (InvalidData ''release unit timestamp must not be negative'')) (\<lambda>_.
     and_then (plan_tasks (q_plans q) f v) (\<lambda>planned.
     and_then (case filter (\<lambda>t. t \<notin> tr_task_id ` set planned) tasks of
                 unknown # _ \<Rightarrow> Inl (InvalidData (''task '' @ id_display (q_text q) TaskKind unknown
                   @ '' is not part of plan revision '' @ show_nat (unat (revision_get v))))
               | [] \<Rightarrow> Inr ()) (\<lambda>_.
     and_then (coupling_dependencies (q_plans q) f v) (\<lambda>coupling.
     and_then (map_err (\<lambda>e. Conflict (release_unit_error_text (q_text q) e)) (release_unit_new i tasks coupling)) (\<lambda>unit.
     and_then (existing_unit_for q f v unit) (\<lambda>existing.
     case existing of
       Some u \<Rightarrow> Inr (q, u)
     | None \<Rightarrow>
         and_then (insert_unit q \<lparr>un_unit_id = i, un_feature_id = f, un_plan_revision = v, un_created_at = created\<rparr>) (\<lambda>q1.
         and_then (fold_res (insert_unit_task i f v) q1 (ru_task_ids unit)) (\<lambda>q2.
         Inr (q2, \<lparr>ur_unit_id = ru_id unit, ur_feature_id = f, ur_plan_revision = v,
                   ur_task_ids = ru_task_ids unit, ur_created_at = created\<rparr>)))))))))"

section \<open>What forming a unit decides\<close>

text \<open>The coupling read from the rows says of every task of the plan exactly which prerequisites it
  needs captured.\<close>

lemma fold_couple:
  assumes "btm_sorted m"
  shows "btm_sorted (fold (couple t) needs m)
    \<and> (\<forall>x. set (unwrap_or (map_of (fold (couple t) needs m) x) [])
        = set (unwrap_or (map_of m x) []) \<union> (if x = t then {d. (d, MCaptured) \<in> set needs} else {}))"
  using assms
proof (induction needs arbitrary: m)
  case Nil
  then show ?case by simp
next
  case (Cons d needs)
  obtain y k where d: "d = (y, k)" by (cases d)
  have s: "btm_sorted (couple t d m)" using Cons.prems by (simp add: couple_def d btm_insert_sorted)
  have "set (unwrap_or (map_of (couple t d m) x) [])
      = set (unwrap_or (map_of m x) []) \<union> (if x = t \<and> k = MCaptured then {y} else {})" for x
    using Cons.prems by (auto simp: couple_def d map_of_btm_insert unwrap_or_def split: option.splits)
  then show ?case using Cons.IH [OF s] by (auto simp: d split: if_splits)
qed

lemma fold_couples:
  assumes "\<And>x. x \<in> set xs \<Longrightarrow> g x = Inr (needs x)" and "btm_sorted m"
  shows "\<exists>m'. fold_res (\<lambda>m x. and_then (g x) (\<lambda>ds. Inr (fold (couple (key x)) ds m))) m xs = Inr m' \<and> btm_sorted m'
    \<and> (\<forall>t. set (unwrap_or (map_of m' t) [])
        = set (unwrap_or (map_of m t) []) \<union> {d. \<exists>x \<in> set xs. key x = t \<and> (d, MCaptured) \<in> set (needs x)})"
  using assms
proof (induction xs arbitrary: m)
  case Nil
  then show ?case by simp
next
  case (Cons x xs)
  let ?m = "fold (couple (key x)) (needs x) m"
  have m: "btm_sorted ?m" "\<And>t. set (unwrap_or (map_of ?m t) [])
      = set (unwrap_or (map_of m t) []) \<union> (if t = key x then {d. (d, MCaptured) \<in> set (needs x)} else {})"
    using fold_couple [OF Cons.prems(2)] by blast+
  obtain m' where "fold_res (\<lambda>m x. and_then (g x) (\<lambda>ds. Inr (fold (couple (key x)) ds m))) ?m xs = Inr m'" "btm_sorted m'"
    "\<And>t. set (unwrap_or (map_of m' t) [])
        = set (unwrap_or (map_of ?m t) []) \<union> {d. \<exists>x \<in> set xs. key x = t \<and> (d, MCaptured) \<in> set (needs x)}"
    using Cons.IH [OF _ m(1)] Cons.prems(1) by auto
  then show ?case using Cons.prems(1) [of x] unfolding m(2) by (intro exI [of _ m']) auto
qed

lemma stored_coupling:
  assumes "pdb_ok db" and "r \<in> set (pdb_plans db)"
  shows "\<exists>m. coupling_dependencies db (pl_feature_id r) (pl_revision r) = Inr m
    \<and> (\<forall>t. set (unwrap_or (map_of m t) [])
        = {d. \<exists>x \<in> set (plan_tasks_of (pl_document r)). pt_id x = t \<and> (d, MCaptured) \<in> set (pt_dependencies x)})"
proof -
  let ?ts = "plan_tasks_of (pl_document r)"
  obtain recs where recs: "plan_tasks db (pl_feature_id r) (pl_revision r) = Inr recs"
    "mset (map (\<lambda>x. (tr_task_id x, tr_name x)) recs) = mset (map (\<lambda>t. (pt_id t, pt_name t)) ?ts)"
    using stored_tasks_of_plan [OF assms] by blast
  have "set (map fst (map (\<lambda>x. (tr_task_id x, tr_name x)) recs)) = set (map fst (map (\<lambda>t. (pt_id t, pt_name t)) ?ts))"
    using mset_eq_setD [OF recs(2)] by (simp only: list.set_map)
  then have ids: "tr_task_id ` set recs = pt_id ` set ?ts" by (simp add: image_image)
  define needs where "needs x = (case find (\<lambda>t. pt_id t = tr_task_id x) ?ts of None \<Rightarrow> [] | Some t \<Rightarrow> pt_dependencies t)"
    for x :: task_record
  have distinct: "distinct (map pt_id ?ts)"
    using assms plan_graph_facts(1) by (simp add: pdb_ok_def list_all_iff plan_row_valid_def)
  have at: "needs x = pt_dependencies t" if "t \<in> set ?ts" "tr_task_id x = pt_id t" for x t
  proof -
    have "find (\<lambda>t'. pt_id t' = pt_id t) ?ts = Some t"
      using filter_unique [OF distinct that(1)] by (simp add: find_filter)
    then show ?thesis using that(2) by (simp add: needs_def)
  qed
  have read: "task_prerequisites db (pl_feature_id r) (pl_revision r) (tr_task_id x) = Inr (needs x)" if "x \<in> set recs" for x
  proof -
    have "tr_task_id x \<in> pt_id ` set ?ts" using that unfolding ids [symmetric] by (rule imageI)
    then obtain t where t: "t \<in> set ?ts" "tr_task_id x = pt_id t" by (meson imageE)
    then show ?thesis using stored_prerequisites [OF assms t(1)] at by simp
  qed
  have "btm_sorted ([] :: (task_id \<times> task_id list) list)" by (simp add: btm_sorted_def bts_sorted_def)
  then obtain m where m: "fold_res (\<lambda>m x. and_then (task_prerequisites db (pl_feature_id r) (pl_revision r) (tr_task_id x))
      (\<lambda>ds. Inr (fold (couple (tr_task_id x)) ds m))) [] recs = Inr m"
    "\<And>t. set (unwrap_or (map_of m t) []) = {d. \<exists>x \<in> set recs. tr_task_id x = t \<and> (d, MCaptured) \<in> set (needs x)}"
    using fold_couples [of recs "\<lambda>x. task_prerequisites db (pl_feature_id r) (pl_revision r) (tr_task_id x)" needs "[]" tr_task_id]
      read unfolding unwrap_or_def by auto
  have "(\<exists>x \<in> set recs. tr_task_id x = t \<and> (d, MCaptured) \<in> set (needs x))
      \<longleftrightarrow> (\<exists>x \<in> set ?ts. pt_id x = t \<and> (d, MCaptured) \<in> set (pt_dependencies x))" for t d
  proof
    assume "\<exists>x \<in> set recs. tr_task_id x = t \<and> (d, MCaptured) \<in> set (needs x)"
    then obtain x where x: "x \<in> set recs" "tr_task_id x = t" "(d, MCaptured) \<in> set (needs x)" by blast
    then have "t \<in> pt_id ` set ?ts" unfolding ids [symmetric] by blast
    then show "\<exists>x \<in> set ?ts. pt_id x = t \<and> (d, MCaptured) \<in> set (pt_dependencies x)" using at x by auto
  next
    assume "\<exists>x \<in> set ?ts. pt_id x = t \<and> (d, MCaptured) \<in> set (pt_dependencies x)"
    then obtain y where y: "y \<in> set ?ts" "pt_id y = t" "(d, MCaptured) \<in> set (pt_dependencies y)" by blast
    then have "t \<in> tr_task_id ` set recs" unfolding ids by blast
    then show "\<exists>x \<in> set recs. tr_task_id x = t \<and> (d, MCaptured) \<in> set (needs x)" using at y by auto
  qed
  then show ?thesis using m recs(1) by (simp add: coupling_dependencies_def)
qed

lemma closed_under_coupled:
  assumes "\<And>t. set (unwrap_or (map_of m t) [])
      = {d. \<exists>x \<in> set (plan_tasks_of (pl_document p)). pt_id x = t \<and> (d, MCaptured) \<in> set (pt_dependencies x)}"
  shows "closed_under m ts \<longleftrightarrow> coupled_closed p ts"
proof -
  have "closed_under m ts \<longleftrightarrow> (\<forall>t \<in> ts. set (unwrap_or (map_of m t) []) \<subseteq> ts)"
  proof -
    have "(\<forall>ds. map_of m t = Some ds \<longrightarrow> set ds \<subseteq> ts) \<longleftrightarrow> set (unwrap_or (map_of m t) []) \<subseteq> ts" for t
      by (cases "map_of m t") (simp_all add: unwrap_or_def)
    then show ?thesis by (simp add: closed_under_def)
  qed
  also have "\<dots> \<longleftrightarrow> coupled_closed p ts" unfolding assms coupled_closed_def by blast
  finally show ?thesis .
qed

text \<open>A task is grouped at most once, and the unit of a grouped task can be read back.\<close>

definition ungrouped :: "queue \<Rightarrow> feature_id \<Rightarrow> revision \<Rightarrow> task_id list \<Rightarrow> bool" where
  "ungrouped q f v ts \<longleftrightarrow>
     (\<forall>r \<in> set (q_unit_tasks q). ut_feature_id r = f \<and> ut_plan_revision r = v \<longrightarrow> ut_task_id r \<notin> set ts)"

lemma members_read [simp]:
  "set (bts_collect (order_by_task db id (members q i))) = set (members q i)"
  "bts_sorted (bts_collect (order_by_task db id (members q i)))"
  by (simp_all add: order_by_task_def bts_collect_sorted)

lemma set_order_by_task [simp]: "set (order_by_task db key xs) = set xs"
  by (simp add: order_by_task_def)

lemma release_unit_for_task_None:
  assumes "unit_tasks_ok q (q_unit_tasks q)"
  shows "release_unit_for_task q f v t = None \<longleftrightarrow> ungrouped q f v [t]"
proof (cases "find (\<lambda>r. (ut_feature_id r, ut_plan_revision r, ut_task_id r) = (f, v, t)) (q_unit_tasks q)")
  case None
  then have "ungrouped q f v [t]" by (auto simp: ungrouped_def find_None_iff)
  then show ?thesis unfolding release_unit_for_task_def None by simp
next
  case (Some r)
  then have r: "r \<in> set (q_unit_tasks q)" "ut_feature_id r = f" "ut_plan_revision r = v" "ut_task_id r = t"
    using find_Some_in by fastforce+
  then have "ut_unit_id r \<in> unit_ids q" using assms by (simp add: unit_tasks_ok_def list_all_iff)
  then have "find (\<lambda>u. un_unit_id u = ut_unit_id r) (q_units q) \<noteq> None" by (auto simp: find_None_iff)
  moreover have "\<not> ungrouped q f v [t]" using r by (auto simp: ungrouped_def)
  ultimately show ?thesis unfolding release_unit_for_task_def Some by (simp add: release_unit_of_def)
qed

lemma existing_unit_outcome:
  assumes "unit_tasks_ok q (q_unit_tasks q)"
  shows "existing_unit q f v proposed ts = Inr None \<longleftrightarrow> ungrouped q f v ts"
    and "existing_unit q f v proposed ts = Inr (Some u)
      \<Longrightarrow> ur_task_ids u = proposed \<and> (\<exists>t \<in> set ts. release_unit_for_task q f v t = Some u)"
proof -
  have cons: "ungrouped q f v (t # ts) \<longleftrightarrow> ungrouped q f v [t] \<and> ungrouped q f v ts" for t ts
    by (auto simp: ungrouped_def)
  have none: "ungrouped q f v []" by (simp add: ungrouped_def)
  show "existing_unit q f v proposed ts = Inr None \<longleftrightarrow> ungrouped q f v ts"
  proof (induction ts)
    case (Cons t ts)
    then show ?case
      using release_unit_for_task_None [OF assms, of f v t] cons [of t ts]
      by (cases "release_unit_for_task q f v t") simp_all
  qed (simp add: none)
  show "existing_unit q f v proposed ts = Inr (Some u)
      \<Longrightarrow> ur_task_ids u = proposed \<and> (\<exists>t \<in> set ts. release_unit_for_task q f v t = Some u)"
    by (induction ts) (auto split: option.splits if_splits)
qed

interpretation unit_task_table: table q_unit_tasks "\<lambda>rs q. q\<lparr>q_unit_tasks := rs\<rparr>" unit_tasks_ok
  by unfold_locales (auto simp: unit_tasks_ok_def)

text \<open>What may ship together: tasks of one stored plan revision, closed under capture.\<close>

definition groupable :: "queue \<Rightarrow> feature_id \<Rightarrow> revision \<Rightarrow> task_id list \<Rightarrow> bool" where
  "groupable q f v ts \<longleftrightarrow>
     ts \<noteq> [] \<and> (\<exists>p \<in> set (pdb_plans (q_plans q)). plan_key p = (f, v)
       \<and> set ts \<subseteq> pt_id ` set (plan_tasks_of (pl_document p)) \<and> coupled_closed p (set ts))"

definition with_unit :: "queue \<Rightarrow> release_unit_id \<Rightarrow> feature_id \<Rightarrow> revision \<Rightarrow> task_id list \<Rightarrow> int \<Rightarrow> queue" where
  "with_unit q i f v ts created =
     q\<lparr>q_units := q_units q @ [\<lparr>un_unit_id = i, un_feature_id = f, un_plan_revision = v, un_created_at = created\<rparr>],
       q_unit_tasks := q_unit_tasks q
         @ map (\<lambda>t. \<lparr>ut_unit_id = i, ut_feature_id = f, ut_plan_revision = v, ut_task_id = t\<rparr>) ts\<rparr>"

lemma release_unit_new_Inr:
  "release_unit_new i ts m = Inr u \<longleftrightarrow> ts \<noteq> [] \<and> closed_under m (set ts) \<and> u = \<lparr>ru_id = i, ru_task_ids = ts\<rparr>"
  by (auto simp: release_unit_new_def res unit_check_Inr_iff unit_missing_empty_iff closed_under_def)

lemma stored_task_ids:
  assumes "pdb_ok db" and "p \<in> set (pdb_plans db)" and "plan_key p = (f, v)"
  shows "\<exists>recs. plan_tasks db f v = Inr recs \<and> tr_task_id ` set recs = pt_id ` set (plan_tasks_of (pl_document p))"
proof -
  obtain recs where recs: "plan_tasks db f v = Inr recs"
    "mset (map (\<lambda>x. (tr_task_id x, tr_name x)) recs) = mset (map (\<lambda>t. (pt_id t, pt_name t)) (plan_tasks_of (pl_document p)))"
    using stored_tasks_of_plan [OF assms(1,2)] assms(3) by (auto simp: plan_key_def)
  have "set (map fst (map (\<lambda>x. (tr_task_id x, tr_name x)) recs))
      = set (map fst (map (\<lambda>t. (pt_id t, pt_name t)) (plan_tasks_of (pl_document p))))"
    using mset_eq_setD [OF recs(2)] by (simp only: list.set_map)
  then show ?thesis using recs(1) by (simp add: image_image)
qed

lemma no_stored_tasks:
  assumes "pdb_ok db" and "(f, v) \<notin> plan_key ` set (pdb_plans db)"
  shows "plan_tasks db f v = Inr []"
proof -
  have "filter (\<lambda>r. tk_feature_id r = f \<and> tk_plan_revision r = v) (pdb_tasks db) = []"
    using assms by (fastforce simp: filter_empty_conv pdb_ok_def tasks_ok_def list_all_iff)
  then show ?thesis by (simp add: plan_tasks_def order_by_task_def)
qed

lemma task_key_stored:
  assumes "pdb_ok db" and "p \<in> set (pdb_plans db)" and "plan_key p = (f, v)"
    and "t \<in> pt_id ` set (plan_tasks_of (pl_document p))"
  shows "(f, v, t) \<in> task_key ` set (pdb_tasks db)"
proof -
  have "map fst (map (\<lambda>k. (tk_task_id k, tk_name k)) (tasks_at db (plan_key p)))
      = map fst (map (\<lambda>t. (pt_id t, pt_name t)) (plan_tasks_of (pl_document p)))"
    using assms(1,2) by (simp add: pdb_ok_def list_all_iff projected_def)
  then have "map tk_task_id (tasks_at db (f, v)) = map pt_id (plan_tasks_of (pl_document p))"
    by (simp add: comp_def assms(3))
  then have "tk_task_id ` set (tasks_at db (f, v)) = pt_id ` set (plan_tasks_of (pl_document p))"
    by (metis list.set_map)
  then have "t \<in> tk_task_id ` set (tasks_at db (f, v))" using assms(4) by simp
  then show ?thesis by (force simp: tasks_at_def task_key_def)
qed

lemma new_unit_rows:
  assumes "queue_ok q" and "0 \<le> created" and "distinct ts" and "p \<in> set (pdb_plans (q_plans q))" and "plan_key p = (f, v)"
    and "set ts \<subseteq> pt_id ` set (plan_tasks_of (pl_document p))" and "ungrouped q f v ts" and "i \<notin> unit_ids q"
  defines "u \<equiv> \<lparr>un_unit_id = i, un_feature_id = f, un_plan_revision = v, un_created_at = created\<rparr>"
  shows "units_ok q (q_units q @ [u])"
    and "unit_tasks_ok (q\<lparr>q_units := q_units q @ [u]\<rparr>) (q_unit_tasks q
      @ map (\<lambda>t. \<lparr>ut_unit_id = i, ut_feature_id = f, ut_plan_revision = v, ut_task_id = t\<rparr>) ts)"
proof -
  have ok: "units_ok q (q_units q)" "unit_tasks_ok q (q_unit_tasks q)" "pdb_ok (q_plans q)"
    using assms(1) by (simp_all add: queue_ok_def)
  have "(f, v) \<in> plan_key ` set (pdb_plans (q_plans q))" using assms(4,5) by (metis image_eqI)
  then show "units_ok q (q_units q @ [u])"
    using ok(1) assms(2,8) by (auto simp: units_ok_def u_def)
  let ?row = "\<lambda>t. \<lparr>ut_unit_id = i, ut_feature_id = f, ut_plan_revision = v, ut_task_id = t\<rparr>"
  let ?q = "q\<lparr>q_units := q_units q @ [u]\<rparr>"
  have old: "ut_unit_id r \<in> unit_ids q" "(ut_feature_id r, ut_plan_revision r, ut_task_id r) \<in> task_key ` set (pdb_tasks (q_plans q))"
    if "r \<in> set (q_unit_tasks q)" for r
    using ok(2) that by (simp_all add: unit_tasks_ok_def list_all_iff)
  have new: "(f, v, t) \<in> task_key ` set (pdb_tasks (q_plans q))" if "t \<in> set ts" for t
    using task_key_stored [OF ok(3) assms(4,5)] that assms(6) by blast
  have "list_all (\<lambda>r. ut_unit_id r \<in> unit_ids ?q
      \<and> (ut_feature_id r, ut_plan_revision r, ut_task_id r) \<in> task_key ` set (pdb_tasks (q_plans ?q))) (q_unit_tasks q @ map ?row ts)"
    using old new by (simp add: list_all_iff u_def ball_Un)
  moreover have "distinct (map (\<lambda>r. (ut_unit_id r, ut_task_id r)) (q_unit_tasks q @ map ?row ts))"
    using ok(2) old(1) assms(3,8) by (force simp: unit_tasks_ok_def distinct_map comp_def inj_on_def)
  moreover have "distinct (map (\<lambda>r. (ut_feature_id r, ut_plan_revision r, ut_task_id r)) (q_unit_tasks q @ map ?row ts))"
    using ok(2) assms(3,7) by (force simp: unit_tasks_ok_def distinct_map comp_def inj_on_def ungrouped_def)
  ultimately show "unit_tasks_ok ?q (q_unit_tasks q @ map ?row ts)" unfolding unit_tasks_ok_def by blast
qed

lemma create_release_unit_Inr:
  assumes "queue_ok q" and "bts_sorted ts"
  shows "create_release_unit i f v ts created q = Inr (q', u) \<longleftrightarrow>
     0 \<le> created \<and> groupable q f v ts
     \<and> (q' = q \<and> existing_unit q f v ts ts = Inr (Some u)
       \<or> ungrouped q f v ts \<and> i \<notin> unit_ids q \<and> q' = with_unit q i f v ts created
         \<and> u = \<lparr>ur_unit_id = i, ur_feature_id = f, ur_plan_revision = v, ur_task_ids = ts, ur_created_at = created\<rparr>)"
    (is "?l = ?r")
proof -
  have ok: "pdb_ok (q_plans q)" "unit_tasks_ok q (q_unit_tasks q)" using assms(1) by (simp_all add: queue_ok_def)
  let ?row = "\<lparr>un_unit_id = i, un_feature_id = f, un_plan_revision = v, un_created_at = created\<rparr>"
  let ?tail = "\<lambda>unit. and_then (existing_unit_for q f v unit) (\<lambda>existing.
     case existing of
       Some u \<Rightarrow> Inr (q, u)
     | None \<Rightarrow>
         and_then (insert_unit q ?row) (\<lambda>q1.
         and_then (fold_res (insert_unit_task i f v) q1 (ru_task_ids unit)) (\<lambda>q2.
         Inr (q2, \<lparr>ur_unit_id = ru_id unit, ur_feature_id = f, ur_plan_revision = v,
                   ur_task_ids = ru_task_ids unit, ur_created_at = created\<rparr>))))"
  show ?thesis
  proof (cases "\<exists>p \<in> set (pdb_plans (q_plans q)). plan_key p = (f, v)")
    case False
    then have "plan_tasks (q_plans q) f v = Inr []" by (intro no_stored_tasks [OF ok(1)]) auto
    moreover have "\<not> groupable q f v ts" using False by (auto simp: groupable_def)
    moreover have "release_unit_new i [] m = Inl UnitEmpty" for m by (simp add: release_unit_new_def)
    ultimately show ?thesis
      by (cases ts) (auto simp: create_release_unit_def res split: list.splits)
  next
    case True
    then obtain p where p: "p \<in> set (pdb_plans (q_plans q))" "plan_key p = (f, v)" by blast
    obtain recs where recs: "plan_tasks (q_plans q) f v = Inr recs"
      "tr_task_id ` set recs = pt_id ` set (plan_tasks_of (pl_document p))"
      using stored_task_ids [OF ok(1) p] by blast
    obtain m where m: "coupling_dependencies (q_plans q) f v = Inr m"
      "\<And>t. set (unwrap_or (map_of m t) [])
        = {d. \<exists>x \<in> set (plan_tasks_of (pl_document p)). pt_id x = t \<and> (d, MCaptured) \<in> set (pt_dependencies x)}"
      using stored_coupling [OF ok(1) p(1)] p(2) by (auto simp: plan_key_def)
    have "p' = p" if "p' \<in> set (pdb_plans (q_plans q))" "plan_key p' = (f, v)" for p'
      using that p by (intro one_plan [OF ok(1)]) simp_all
    then have g: "groupable q f v ts \<longleftrightarrow> ts \<noteq> [] \<and> set ts \<subseteq> pt_id ` set (plan_tasks_of (pl_document p))
        \<and> closed_under m (set ts)"
      unfolding groupable_def closed_under_coupled [OF m(2)] using p by metis
    have known: "(case filter (\<lambda>t. t \<notin> tr_task_id ` set recs) ts of
                 unknown # _ \<Rightarrow> Inl (InvalidData (''task '' @ id_display (q_text q) TaskKind unknown
                   @ '' is not part of plan revision '' @ show_nat (unat (revision_get v))))
               | [] \<Rightarrow> Inr ()) = Inr y \<longleftrightarrow> set ts \<subseteq> pt_id ` set (plan_tasks_of (pl_document p))" for y
      unfolding recs(2) by (cases "filter (\<lambda>t. t \<notin> pt_id ` set (plan_tasks_of (pl_document p))) ts")
        (auto simp: filter_empty_conv filter_eq_Cons_iff)
    have l: "?l \<longleftrightarrow> 0 \<le> created \<and> groupable q f v ts \<and> ?tail \<lparr>ru_id = i, ru_task_ids = ts\<rparr> = Inr (q', u)"
      unfolding create_release_unit_def and_then_Inr_iff ensure_Inr_iff recs(1) m(1) known map_err_Inr_iff release_unit_new_Inr g
      by (auto simp: recs(1) m(1) known release_unit_new_Inr)
    have fold: "fold_res (insert_unit_task i f v) q1 ts = Inr q2 \<longleftrightarrow>
        unit_tasks_ok q1 (q_unit_tasks q1 @ map (\<lambda>t. \<lparr>ut_unit_id = i, ut_feature_id = f, ut_plan_revision = v, ut_task_id = t\<rparr>) ts)
        \<and> q2 = q1\<lparr>q_unit_tasks := q_unit_tasks q1
            @ map (\<lambda>t. \<lparr>ut_unit_id = i, ut_feature_id = f, ut_plan_revision = v, ut_task_id = t\<rparr>) ts\<rparr>"
      if "unit_tasks_ok q1 (q_unit_tasks q1)" for q1 q2 :: queue
      by (rule unit_task_table.insert_all [OF _ that, where violation = unit_write_error])
         (simp add: insert_unit_task_def Let_def)
    have keep: "unit_tasks_ok (q\<lparr>q_units := q_units q @ [?row]\<rparr>) (q_unit_tasks (q\<lparr>q_units := q_units q @ [?row]\<rparr>))"
      using ok(2) by (auto simp: unit_tasks_ok_def list_all_iff)
    have tail: "?tail \<lparr>ru_id = i, ru_task_ids = ts\<rparr> = Inr (q', u) \<longleftrightarrow>
        q' = q \<and> existing_unit q f v ts ts = Inr (Some u)
       \<or> ungrouped q f v ts \<and> i \<notin> unit_ids q \<and> q' = with_unit q i f v ts created
         \<and> u = \<lparr>ur_unit_id = i, ur_feature_id = f, ur_plan_revision = v, ur_task_ids = ts, ur_created_at = created\<rparr>"
      if "0 \<le> created" "groupable q f v ts"
    proof (cases "ungrouped q f v ts")
      case True
      have sub: "set ts \<subseteq> pt_id ` set (plan_tasks_of (pl_document p))" using g that(2) by blast
      have none: "existing_unit q f v ts ts = Inr None" using existing_unit_outcome(1) [OF ok(2)] True by blast
      show ?thesis
      proof (cases "i \<in> unit_ids q")
        case False
        note rows = new_unit_rows [OF assms(1) that(1) bts_sorted_distinct [OF assms(2)] p sub True False]
        have "fold_res (insert_unit_task i f v) (q\<lparr>q_units := q_units q @ [?row]\<rparr>) ts = Inr (with_unit q i f v ts created)"
          unfolding fold [OF keep] using rows(2) by (simp add: with_unit_def)
        then show ?thesis using True False rows(1) none
          by (auto simp: existing_unit_for_def insert_unit_def)
      next
        case dup: True
        then have "\<not> units_ok q (q_units q @ [?row])" by (auto simp: units_ok_def)
        then show ?thesis using dup none by (simp add: existing_unit_for_def insert_unit_def)
      qed
    next
      case False
      then show ?thesis using existing_unit_outcome(1) [OF ok(2), of f v ts ts]
        by (cases "existing_unit q f v ts ts") (auto simp: existing_unit_for_def split: option.splits)
    qed
    show ?thesis unfolding l using tail by blast
  qed
qed

text \<open>The unit that already ships exactly these tasks.\<close>

definition grouped_as :: "queue \<Rightarrow> feature_id \<Rightarrow> revision \<Rightarrow> task_id list \<Rightarrow> release_unit_record \<Rightarrow> bool" where
  "grouped_as q f v ts u \<longleftrightarrow>
     (\<exists>x \<in> set (q_units q). un_feature_id x = f \<and> un_plan_revision x = v \<and> set (members q (un_unit_id x)) = set ts
        \<and> u = \<lparr>ur_unit_id = un_unit_id x, ur_feature_id = f, ur_plan_revision = v, ur_task_ids = ts,
               ur_created_at = un_created_at x\<rparr>)"

lemma members_iff: "t \<in> set (members q i) \<longleftrightarrow> (\<exists>r \<in> set (q_unit_tasks q). ut_unit_id r = i \<and> ut_task_id r = t)"
  by (auto simp: members_def)

lemma unit_row_found:
  assumes "units_ok q (q_units q)" and "x \<in> set (q_units q)"
  shows "find (\<lambda>u. un_unit_id u = un_unit_id x) (q_units q) = Some x"
proof -
  have "distinct (map un_unit_id (q_units q))" using assms(1) by (simp add: units_ok_def)
  then have "filter (\<lambda>u. un_unit_id u = un_unit_id x) (q_units q) = [x]" using assms(2) by (rule filter_unique)
  then show ?thesis by (simp add: find_filter)
qed

lemma release_unit_for_task_row:
  assumes "unit_tasks_ok q (q_unit_tasks q)" and "r \<in> set (q_unit_tasks q)"
  shows "release_unit_for_task q (ut_feature_id r) (ut_plan_revision r) (ut_task_id r) = release_unit_of q (ut_unit_id r)"
proof -
  let ?key = "\<lambda>r. (ut_feature_id r, ut_plan_revision r, ut_task_id r)"
  have "distinct (map ?key (q_unit_tasks q))" using assms(1) by (simp add: unit_tasks_ok_def)
  then have "filter (\<lambda>x. ?key x = ?key r) (q_unit_tasks q) = [r]" using assms(2) by (rule filter_unique)
  then have "find (\<lambda>x. ?key x = ?key r) (q_unit_tasks q) = Some r" by (simp only: find_filter list.simps)
  then show ?thesis unfolding release_unit_for_task_def by (simp only: option.simps)
qed

lemma unit_of_stored_task:
  assumes "queue_ok q" and "r \<in> set (q_unit_tasks q)"
  shows "\<exists>x \<in> set (q_units q). un_unit_id x = ut_unit_id r \<and> un_feature_id x = ut_feature_id r
    \<and> un_plan_revision x = ut_plan_revision r"
proof -
  have "unit_tasks_ok q (q_unit_tasks q)" "units_formed q" using assms(1) by (simp_all add: queue_ok_def)
  then obtain x where x: "x \<in> set (q_units q)" "un_unit_id x = ut_unit_id r"
    using assms(2) by (auto simp: unit_tasks_ok_def list_all_iff)
  then have "unit_formed q x" using \<open>units_formed q\<close> by (simp add: units_formed_def list_all_iff)
  then show ?thesis using x assms(2) unfolding unit_formed_def by metis
qed

lemma existing_unit_grouped:
  assumes "queue_ok q" and "bts_sorted ts" and "ts \<noteq> []"
  shows "existing_unit q f v ts ts = Inr (Some u) \<longleftrightarrow> grouped_as q f v ts u"
proof
  have ok: "units_ok q (q_units q)" "unit_tasks_ok q (q_unit_tasks q)" "units_formed q"
    using assms(1) by (simp_all add: queue_ok_def)
  {
    assume "existing_unit q f v ts ts = Inr (Some u)"
    then obtain t where t: "ur_task_ids u = ts" "release_unit_for_task q f v t = Some u"
      using existing_unit_outcome(2) [OF ok(2)] by blast
    then obtain r where r: "r \<in> set (q_unit_tasks q)" "ut_feature_id r = f" "ut_plan_revision r = v"
      "release_unit_of q (ut_unit_id r) = Some u"
      unfolding release_unit_for_task_def by (auto split: option.splits dest!: find_Some_in)
    obtain x where x: "x \<in> set (q_units q)" "un_unit_id x = ut_unit_id r" "un_feature_id x = f" "un_plan_revision x = v"
      using unit_of_stored_task [OF assms(1) r(1)] r(2,3) by blast
    have u: "u = \<lparr>ur_unit_id = un_unit_id x, ur_feature_id = f, ur_plan_revision = v,
        ur_task_ids = bts_collect (order_by_task (q_plans q) id (members q (un_unit_id x))), ur_created_at = un_created_at x\<rparr>"
      using r(4) unit_row_found [OF ok(1) x(1)] x(2-4) by (auto simp: release_unit_of_def)
    then have "set (members q (un_unit_id x)) = set ts" using t(1) by auto
    then show "grouped_as q f v ts u" using x u t(1) unfolding grouped_as_def by auto
  }
  {
    assume "grouped_as q f v ts u"
    then obtain x where x: "x \<in> set (q_units q)" "un_feature_id x = f" "un_plan_revision x = v"
        "set (members q (un_unit_id x)) = set ts"
      and u: "u = \<lparr>ur_unit_id = un_unit_id x, ur_feature_id = f, ur_plan_revision = v, ur_task_ids = ts,
               ur_created_at = un_created_at x\<rparr>"
      unfolding grouped_as_def by blast
    have tasks: "bts_collect (order_by_task (q_plans q) id (members q (un_unit_id x))) = ts"
      using members_read x(4) assms(2) by (intro bts_ext) auto
    obtain t ts' where ts: "ts = t # ts'" using assms(3) by (cases ts) auto
    then have "t \<in> set (members q (un_unit_id x))" using x(4) by simp
    then obtain r where r: "r \<in> set (q_unit_tasks q)" "ut_unit_id r = un_unit_id x" "ut_task_id r = t"
      unfolding members_iff by blast
    have "unit_formed q x" using ok(3) x(1) by (simp add: units_formed_def list_all_iff)
    then have "ut_feature_id r = f" "ut_plan_revision r = v" using r x(2,3) unfolding unit_formed_def by blast+
    then have "release_unit_for_task q f v t = Some u"
      using release_unit_for_task_row [OF ok(2) r(1)] r(2,3) unit_row_found [OF ok(1) x(1)] x(2,3) tasks u
      by (simp add: release_unit_of_def)
    then show "existing_unit q f v ts ts = Inr (Some u)" by (simp add: ts u)
  }
qed

theorem create_release_unit_decides:
  assumes "queue_ok q" and "bts_sorted ts" and "0 \<le> created"
  shows "create_release_unit i f v ts created q = Inr (q', u) \<longleftrightarrow>
     groupable q f v ts \<and>
     (q' = q \<and> grouped_as q f v ts u
      \<or> q' = with_unit q i f v ts created \<and> grouped_as q' f v ts u \<and> ur_unit_id u = i
        \<and> ungrouped q f v ts \<and> i \<notin> unit_ids q)"
proof (cases "groupable q f v ts")
  case True
  then have ne: "ts \<noteq> []" by (simp add: groupable_def)
  have tasks: "unit_tasks_ok q (q_unit_tasks q)" using assms(1) by (simp add: queue_ok_def)
  have "grouped_as (with_unit q i f v ts created) f v ts u \<and> ur_unit_id u = i \<longleftrightarrow>
      u = \<lparr>ur_unit_id = i, ur_feature_id = f, ur_plan_revision = v, ur_task_ids = ts, ur_created_at = created\<rparr>"
    if "i \<notin> unit_ids q"
  proof -
    have "\<forall>r \<in> set (q_unit_tasks q). ut_unit_id r \<noteq> i"
      using tasks that by (auto simp: unit_tasks_ok_def list_all_iff)
    then have "set (members (with_unit q i f v ts created) i) = set ts" by (auto simp: members_def with_unit_def)
    then show ?thesis using that unfolding grouped_as_def by (auto simp: with_unit_def)
  qed
  then show ?thesis
    using True assms(3) unfolding create_release_unit_Inr [OF assms(1,2)] existing_unit_grouped [OF assms(1,2) ne] by blast
next
  case False
  then show ?thesis using create_release_unit_Inr [OF assms(1,2)] by blast
qed

section \<open>Units stay formed\<close>

lemma members_other: "i \<noteq> j \<Longrightarrow> members (with_unit q i f v ts created) j = members q j"
  by (simp add: members_def with_unit_def comp_def)

lemma members_new: "i \<notin> unit_ids q \<Longrightarrow> unit_tasks_ok q (q_unit_tasks q) \<Longrightarrow> members (with_unit q i f v ts created) i = ts"
  by (auto simp: members_def with_unit_def comp_def unit_tasks_ok_def list_all_iff filter_empty_conv)

lemma with_unit_moves:
  assumes "queue_ok q" and "0 \<le> created" and "distinct ts" and "groupable q f v ts" and "ungrouped q f v ts" and "i \<notin> unit_ids q"
  shows "queue_ok (with_unit q i f v ts created) \<and> queue_follows q (with_unit q i f v ts created)"
proof -
  let ?q = "with_unit q i f v ts created"
  obtain p where p: "p \<in> set (pdb_plans (q_plans q))" "plan_key p = (f, v)"
      "set ts \<subseteq> pt_id ` set (plan_tasks_of (pl_document p))" "coupled_closed p (set ts)" and ne: "ts \<noteq> []"
    using assms(4) by (auto simp: groupable_def)
  have ok: "unit_tasks_ok q (q_unit_tasks q)" "units_ok q (q_units q)" using assms(1) by (simp_all add: queue_ok_def)
  note rows = new_unit_rows [OF assms(1-3) p(1-3) assms(5,6)]
  have "units_ok ?q (q_units ?q)" using rows(1) by (simp add: units_ok_def with_unit_def)
  moreover have "unit_tasks_ok ?q (q_unit_tasks ?q)" using rows(2) by (simp add: unit_tasks_ok_def with_unit_def)
  moreover have ids: "unit_ids q \<subseteq> unit_ids ?q" by (auto simp: with_unit_def)
  have plans: "q_plans ?q = q_plans q" by (simp add: with_unit_def)
  have "slots_ok ?q (q_slots q)"
    by (rule slots_ok_mono [of q, OF _ ids]) (use assms(1) plans in \<open>simp_all add: queue_ok_def\<close>)
  moreover have "pull_requests_ok (unit_ids ?q) (repository_ids ?q) (q_pull_requests q)"
    by (rule pull_requests_ok_mono [OF _ ids, of "repository_ids q"]) (use assms(1) plans in \<open>simp_all add: queue_ok_def\<close>)
  moreover have "unit_formed ?q x" if "x \<in> set (q_units ?q)" for x
  proof (cases "un_unit_id x = i")
    case True
    then have x: "x = \<lparr>un_unit_id = i, un_feature_id = f, un_plan_revision = v, un_created_at = created\<rparr>"
      using that assms(6) by (auto simp: with_unit_def)
    have "\<forall>r \<in> set (q_unit_tasks q). ut_unit_id r \<noteq> i" using ok(1) assms(6) by (auto simp: unit_tasks_ok_def list_all_iff)
    have "ut_feature_id r = f \<and> ut_plan_revision r = v" if r: "r \<in> set (q_unit_tasks ?q)" "ut_unit_id r = i" for r
    proof -
      obtain t where "r = \<lparr>ut_unit_id = i, ut_feature_id = f, ut_plan_revision = v, ut_task_id = t\<rparr>"
        using r \<open>\<forall>r \<in> set (q_unit_tasks q). ut_unit_id r \<noteq> i\<close> unfolding with_unit_def by force
      then show ?thesis by simp
    qed
    then show ?thesis
      unfolding unit_formed_def x plans unit_row.select_convs members_new [OF assms(6) ok(1)] using ne p by blast
  next
    case False
    then have "x \<in> set (q_units q)" using that by (auto simp: with_unit_def)
    then have "unit_formed q x" using assms(1) by (simp add: queue_ok_def units_formed_def list_all_iff)
    then show ?thesis using False members_other [of i "un_unit_id x" q f v ts created]
      unfolding unit_formed_def plans by (fastforce simp: with_unit_def)
  qed
  then have "units_formed ?q" by (simp add: units_formed_def list_all_iff)
  moreover have "slots_placed ?q"
    using assms(1,6) by (auto simp: queue_ok_def slots_placed_def slots_ok_def slot_row_ok_def list_all_iff with_unit_def)
  ultimately have "queue_ok ?q"
    using assms(1) by (simp add: queue_ok_def with_unit_def pauses_ok_def attempt_view_def)
  moreover have "queue_follows q ?q"
    using queue_follows_refl [OF assms(1)] by (simp add: queue_follows_def with_unit_def)
  ultimately show ?thesis by blast
qed

lemma create_release_unit_stays:
  assumes "bts_sorted ts"
  shows "stays queue_moves (writing (create_release_unit i f v ts created))"
proof (rule queue.writing)
  fix q q' u assume c: "create_release_unit i f v ts created q = Inr (q', u)"
  show "queue_moves q q'"
    unfolding queue_moves_def
  proof
    assume ok: "queue_ok q"
    show "queue_ok q' \<and> queue_follows q q'"
      using c [unfolded create_release_unit_Inr [OF ok assms]] with_unit_moves [OF ok _ bts_sorted_distinct [OF assms]]
        ok queue_follows_refl by blast
  qed
qed

end
