(* ===== verification/Dependents.thy ===== *)
theory Dependents
  imports Queue
begin

text \<open>
  What depends on a task (\<open>block_dependents\<close> of \<open>crates/store/src/units.rs\<close>).

  When a task is given up, every open task waiting on it, directly or not, is blocked where it stands
  and keeps the status to resume from; no other task changes.  The search is a loop over a stack that
  reads and writes the store at every step; it ends because each task with a prerequisite is pushed at
  most once.
\<close>

section \<open>Blocking what depends on a task\<close>

type_synonym visit_state = "task_id list \<times> task_id list \<times> task_id list"

text \<open>One dependent: the pending stack, the tasks seen and the tasks blocked so far.\<close>

definition visit_dependent ::
  "feature_id \<Rightarrow> revision \<Rightarrow> state_reason \<Rightarrow> int \<Rightarrow> visit_state \<Rightarrow> task_dependency
    \<Rightarrow> (queue, store_error, visit_state) cmd" where
  "visit_dependent f v reason now = (\<lambda>(pending, seen, blocked) d.
     if dp_task_id d \<in> set seen then c_return (pending, seen, blocked)
     else let pending' = dp_task_id d # pending; seen' = dp_task_id d # seen
          in c_then (reading (\<lambda>q. task_of (q_plans q) f v (dp_task_id d))) (\<lambda>found.
             case found of
               None \<Rightarrow> c_return (pending', seen', blocked)
             | Some task \<Rightarrow>
                 if is_terminal (ts_status (tr_state task)) \<or> ts_status (tr_state task) = Blocked
                 then c_return (pending', seen', blocked)
                 else c_then (advancing f v (dp_task_id d) Blocked (Some reason) now) (\<lambda>_.
                        c_return (pending', seen', blocked @ [dp_task_id d]))))"

text \<open>The tasks some edge starts from: the search sees each of them once.\<close>

definition edge_tasks :: "queue \<Rightarrow> task_id set" where
  "edge_tasks q = eg_task_id ` set (pdb_edges (q_plans q))"

lemma advancing_Inr_iff:
  "advancing f v t target reason now q = Some (Inr rec, q') \<longleftrightarrow>
     (\<exists>db. advance_task (q_plans q) f v t target reason now = Inr (db, rec) \<and> q' = q\<lparr>q_plans := db\<rparr>)"
  by (auto simp: advancing_def on_plans_def writing_Inr_iff and_then_Inr_iff)

lemma advancing_edges:
  assumes "advancing f v t target reason now q = Some (Inr rec, q')"
  shows "pdb_edges (q_plans q') = pdb_edges (q_plans q)"
  using assms advance_task_frame by (fastforce simp: advancing_Inr_iff)

lemma visit_dependent_grows:
  assumes "visit_dependent f v reason now (p, s, b) d q = Some (Inr (p', s', b'), q')"
  shows "pdb_edges (q_plans q') = pdb_edges (q_plans q)"
    and "p' = (if dp_task_id d \<in> set s then p else dp_task_id d # p)"
    and "s' = (if dp_task_id d \<in> set s then s else dp_task_id d # s)"
  using assms by (auto simp: visit_dependent_def Let_def then_Inr_iff reading_Some_iff run_return
      split: if_splits option.splits dest: advancing_edges)

lemma visits_grow:
  assumes "c_fold (visit_dependent f v reason now) (p, s, b) ds q = Some (Inr (p', s', b'), q')"
  shows "\<exists>new. p' = new @ p \<and> s' = new @ s \<and> set new = dp_task_id ` set ds - set s \<and> distinct new
    \<and> pdb_edges (q_plans q') = pdb_edges (q_plans q)"
  using assms
proof (induction ds arbitrary: p s b q)
  case Nil
  then show ?case by (auto simp: run_return)
next
  case (Cons d ds)
  obtain p1 s1 b1 q1 where one: "visit_dependent f v reason now (p, s, b) d q = Some (Inr (p1, s1, b1), q1)"
    and rest: "c_fold (visit_dependent f v reason now) (p1, s1, b1) ds q1 = Some (Inr (p', s', b'), q')"
    using Cons.prems by (auto simp: then_Inr_iff)
  obtain new where new: "p' = new @ p1" "s' = new @ s1" "set new = dp_task_id ` set ds - set s1" "distinct new"
    "pdb_edges (q_plans q') = pdb_edges (q_plans q1)"
    using Cons.IH [OF rest] by blast
  show ?case
  proof (cases "dp_task_id d \<in> set s")
    case True
    then show ?thesis using new visit_dependent_grows [OF one] by (intro exI [of _ new]) auto
  next
    case False
    then show ?thesis
      using new visit_dependent_grows [OF one] by (intro exI [of _ "new @ [dp_task_id d]"]) auto
  qed
qed

lemma collect_res_in: "collect_res f xs = Inr ys \<Longrightarrow> y \<in> set ys \<Longrightarrow> \<exists>x \<in> set xs. f x = Inr y"
proof -
  assume "collect_res f xs = Inr ys" "y \<in> set ys"
  then obtain i where "i < length xs" "f (xs ! i) = Inr y" by (auto simp: res list_all2_conv_all_nth in_set_conv_nth)
  then show ?thesis using nth_mem by blast
qed

lemma dependents_are_edges:
  assumes "task_dependents (q_plans q) f v t = Inr ds"
  shows "dp_task_id ` set ds \<subseteq> edge_tasks q"
proof
  fix x assume "x \<in> dp_task_id ` set ds"
  then obtain d where d: "d \<in> set ds" "x = dp_task_id d" by blast
  show "x \<in> edge_tasks q"
    using collect_res_in [OF assms [unfolded task_dependents_def] d(1)] d(2)
    by (auto simp: order_by_task_def edge_tasks_def res)
qed

text \<open>The loop.  The stack \<open>pending\<close> has its top first.\<close>

function block_loop ::
  "feature_id \<Rightarrow> revision \<Rightarrow> state_reason \<Rightarrow> int \<Rightarrow> task_id list \<Rightarrow> task_id list \<Rightarrow> task_id list
    \<Rightarrow> queue \<Rightarrow> ((store_error, task_id list) result \<times> queue) option" where
  "block_loop f v reason now [] seen blocked q = Some (Inr blocked, q)"
| "block_loop f v reason now (current # pending) seen blocked q =
     (case task_dependents (q_plans q) f v current of
        Inl e \<Rightarrow> Some (Inl e, q)
      | Inr ds \<Rightarrow>
          (case c_fold (visit_dependent f v reason now) (pending, seen, blocked) ds q of
             None \<Rightarrow> None
           | Some (Inl e, q') \<Rightarrow> Some (Inl e, q')
           | Some (Inr (pending', seen', blocked'), q') \<Rightarrow> block_loop f v reason now pending' seen' blocked' q'))"
  by pat_completeness auto
termination
proof (relation "inv_image (less_than <*lex*> less_than)
    (\<lambda>(f, v, reason, now, pending, seen, blocked, q). (card (edge_tasks q - set seen), length pending))")
  fix f :: feature_id and v :: revision and reason now current pending seen blocked and q :: queue
    and ds z y q' r x p' s' b'
  assume deps: "task_dependents (q_plans q) f v current = Inr ds"
    and visits: "c_fold (visit_dependent f v reason now) (pending, seen, blocked) ds q = Some z"
    and z: "(y, q') = z" "y = Inr r" "(p', x) = r" "(s', b') = x"
  obtain new where new: "p' = new @ pending" "s' = new @ seen" "set new = dp_task_id ` set ds - set seen"
    "distinct new" "pdb_edges (q_plans q') = pdb_edges (q_plans q)"
    using visits_grow [of f v reason now pending seen blocked ds q p' s' b' q'] visits z by auto
  have same: "edge_tasks q' = edge_tasks q" using new(5) by (simp add: edge_tasks_def)
  show "((f, v, reason, now, p', s', b', q'), f, v, reason, now, current # pending, seen, blocked, q)
    \<in> inv_image (less_than <*lex*> less_than)
      (\<lambda>(f, v, reason, now, pending, seen, blocked, q). (card (edge_tasks q - set seen), length pending))"
  proof (cases "new = []")
    case True
    then show ?thesis using new same by simp
  next
    case False
    have "set new \<subseteq> edge_tasks q - set seen" using dependents_are_edges [OF deps] new(3) by blast
    then have "edge_tasks q - set s' \<subset> edge_tasks q - set seen" using False new(2) by (cases new) auto
    then have "card (edge_tasks q' - set s') < card (edge_tasks q - set seen)"
      unfolding same by (rule psubset_card_mono [rotated]) (simp add: edge_tasks_def)
    then show ?thesis by simp
  qed
qed auto

declare block_loop.simps(2) [simp del]

definition block_dependents ::
  "feature_id \<Rightarrow> revision \<Rightarrow> task_id \<Rightarrow> reason_code \<Rightarrow> string \<Rightarrow> int \<Rightarrow> (queue, store_error, task_id list) cmd" where
  "block_dependents f v prerequisite code message now =
     c_then (reading (\<lambda>_. map_err (\<lambda>e. InvalidData (transition_error_text e)) (state_reason_new code message))) (\<lambda>reason.
     c_then (block_loop f v reason now [prerequisite] [prerequisite] []) (\<lambda>blocked. c_return (sort blocked)))"

section \<open>What is blocked\<close>

text \<open>The task that depends on another, directly or not.\<close>

definition waits_on :: "queue \<Rightarrow> feature_id \<Rightarrow> revision \<Rightarrow> (task_id \<times> task_id) set" where
  "waits_on q f v = {(eg_depends_on e, eg_task_id e) | e. e \<in> set (pdb_edges (q_plans q))
     \<and> eg_feature_id e = f \<and> eg_plan_revision e = v}"

definition open_row :: "task_row \<Rightarrow> bool" where
  "open_row r \<longleftrightarrow> tk_status r \<notin> status_column ` {Published, Cancelled, Superseded, Blocked}"

definition block_row :: "state_reason \<Rightarrow> int \<Rightarrow> task_row \<Rightarrow> task_row" where
  "block_row reason now r = r\<lparr>tk_status := ''blocked'', tk_reason := Some reason,
     tk_blocked_from := Some (tk_status r), tk_updated_at := now\<rparr>"

definition block_rows ::
  "feature_id \<Rightarrow> revision \<Rightarrow> state_reason \<Rightarrow> int \<Rightarrow> task_id set \<Rightarrow> task_row list \<Rightarrow> task_row list" where
  "block_rows f v reason now ts =
     map (\<lambda>r. if tk_feature_id r = f \<and> tk_plan_revision r = v \<and> tk_task_id r \<in> ts \<and> open_row r
              then block_row reason now r else r)"

definition open_tasks :: "queue \<Rightarrow> feature_id \<Rightarrow> revision \<Rightarrow> task_id set" where
  "open_tasks q f v = {tk_task_id r | r. r \<in> set (pdb_tasks (q_plans q)) \<and> tk_feature_id r = f
     \<and> tk_plan_revision r = v \<and> open_row r}"

lemma open_tasks_iff:
  "t \<in> open_tasks q f v \<longleftrightarrow> (\<exists>r \<in> set (pdb_tasks (q_plans q)). task_key r = (f, v, t) \<and> open_row r)"
  unfolding open_tasks_def task_key_def by blast

definition with_tasks :: "queue \<Rightarrow> task_row list \<Rightarrow> queue" where
  "with_tasks q rows = q\<lparr>q_plans := (q_plans q)\<lparr>pdb_tasks := rows\<rparr>\<rparr>"

lemma with_tasks_sel [simp]:
  "q_plans (with_tasks q rows) = (q_plans q)\<lparr>pdb_tasks := rows\<rparr>" "with_tasks (with_tasks q rows) rows' = with_tasks q rows'"
  "with_tasks q (pdb_tasks (q_plans q)) = q"
  by (simp_all add: with_tasks_def)

lemma block_row_sel [simp]:
  "task_key (block_row reason now r) = task_key r" "tk_feature_id (block_row reason now r) = tk_feature_id r"
  "tk_plan_revision (block_row reason now r) = tk_plan_revision r" "tk_task_id (block_row reason now r) = tk_task_id r"
  "\<not> open_row (block_row reason now r)"
  by (simp_all add: block_row_def task_key_def open_row_def)

lemma block_rows_Nil [simp]: "block_rows f v reason now {} rows = rows"
  by (simp add: block_rows_def)

lemma block_rows_insert:
  "block_rows f v reason now {t} (block_rows f v reason now ts rows) = block_rows f v reason now (insert t ts) rows"
  by (auto simp: block_rows_def)

lemma block_rows_other:
  assumes "tk_task_id r \<notin> ts"
  shows "r \<in> set (block_rows f v reason now ts rows) \<longleftrightarrow> r \<in> set rows"
proof -
  let ?h = "\<lambda>r. if tk_feature_id r = f \<and> tk_plan_revision r = v \<and> tk_task_id r \<in> ts \<and> open_row r
    then block_row reason now r else r"
  have keep: "tk_task_id x \<in> ts \<or> ?h x = x" and id: "tk_task_id (?h x) = tk_task_id x" for x by simp_all
  show ?thesis
  proof
    assume "r \<in> set (block_rows f v reason now ts rows)"
    then have "\<exists>x \<in> set rows. r = ?h x" unfolding block_rows_def list.set_map image_iff .
    then obtain x where "x \<in> set rows" "r = ?h x" by blast
    moreover have "tk_task_id x \<notin> ts" using id [of x] \<open>r = ?h x\<close> assms by simp
    then have "?h x = x" using keep [of x] by blast
    ultimately show "r \<in> set rows" by simp
  next
    assume "r \<in> set rows"
    then have "?h r \<in> set (block_rows f v reason now ts rows)" unfolding block_rows_def list.set_map by (rule imageI)
    then show "r \<in> set (block_rows f v reason now ts rows)" using keep [of r] assms by metis
  qed
qed

lemma open_row_holds: "row_holds r st \<Longrightarrow> open_row r \<longleftrightarrow> \<not> is_terminal (ts_status st) \<and> ts_status st \<noteq> Blocked"
  unfolding row_holds_def open_row_def by (cases "ts_status st") simp_all

text \<open>Blocking an open task always succeeds.\<close>

lemma block_open_task:
  assumes "pdb_ok db" and "find (\<lambda>r. task_key r = (f, v, t)) (pdb_tasks db) = Some r" and "open_row r" and "0 \<le> now"
  shows "\<exists>rec. advance_task db f v t Blocked (Some reason) now
    = Inr (db\<lparr>pdb_tasks := block_rows f v reason now {t} (pdb_tasks db)\<rparr>, rec)"
proof -
  have r: "r \<in> set (pdb_tasks db)" "task_key r = (f, v, t)" using find_Some_in [OF assms(2)] by auto
  obtain st where st: "row_holds r st" using assms(1) r(1) by (auto simp: pdb_ok_def list_all_iff)
  have open_st: "\<not> is_terminal (ts_status st)" "ts_status st \<noteq> Blocked" using open_row_holds [OF st] assms(3) by auto
  let ?state = "\<lparr>ts_status = Blocked, ts_reason = Some reason, ts_blocked_from = Some (ts_status st)\<rparr>"
  have tr: "ts_transition st Blocked (Some reason) = Inr ?state" using open_st by (simp add: ts_transition_def)
  let ?cond = "\<lambda>x. task_key x = (f, v, t) \<and> tk_status x = status_column (ts_status st)
    \<and> tk_blocked_from x = map_option status_column (ts_blocked_from st)"
  have uniq: "x = r" if "x \<in> set (pdb_tasks db)" "task_key x = (f, v, t)" for x
    using that r by (intro one_task [OF assms(1)]) simp_all
  have cr: "?cond r" using r(2) st by (auto simp: row_holds_def)
  have "filter (\<lambda>x. task_key x = task_key r) (pdb_tasks db) = [r]"
    using filter_unique [of task_key, OF _ r(1)] assms(1) by (simp add: pdb_ok_def tasks_ok_def)
  moreover have "filter ?cond (pdb_tasks db) = filter (\<lambda>x. task_key x = task_key r) (pdb_tasks db)"
    by (rule filter_cong) (use cr uniq r(2) in auto)
  ultimately have one: "length (filter ?cond (pdb_tasks db)) = 1" by simp
  let ?rows = "block_rows f v reason now {t} (pdb_tasks db)"
  have rows: "map (\<lambda>x. if ?cond x then moved_row ?state now x else x) (pdb_tasks db) = ?rows"
    unfolding block_rows_def
  proof (rule map_cong [OF refl])
    fix x assume x: "x \<in> set (pdb_tasks db)"
    have "(tk_feature_id x = f \<and> tk_plan_revision x = v \<and> tk_task_id x \<in> {t} \<and> open_row x) \<longleftrightarrow> ?cond x"
      using uniq [OF x] cr assms(3) by (auto simp: task_key_def)
    moreover have "?cond x \<Longrightarrow> moved_row ?state now x = block_row reason now x"
      by (simp add: moved_row_def block_row_def)
    ultimately show "(if ?cond x then moved_row ?state now x else x) = (if tk_feature_id x = f \<and> tk_plan_revision x = v
        \<and> tk_task_id x \<in> {t} \<and> open_row x then block_row reason now x else x)" by simp
  qed
  have "map task_key ?rows = map task_key (pdb_tasks db)" by (simp add: block_rows_def)
  then have "distinct (map task_key ?rows)" using assms(1) by (simp only: pdb_ok_def tasks_ok_def)
  moreover have "list_all (\<lambda>r. task_row_ok r \<and> (tk_feature_id r, tk_plan_revision r) \<in> plan_key ` set (pdb_plans db)) ?rows"
  proof -
    have "task_row_ok (block_row reason now x)" if "task_row_ok x" for x
      using that assms(4) by (simp add: task_row_ok_def block_row_def)
    then show ?thesis using assms(1) unfolding pdb_ok_def tasks_ok_def by (fastforce simp: block_rows_def list_all_iff)
  qed
  ultimately have "tasks_ok db ?rows" by (simp add: tasks_ok_def list_all_iff)
  then have upd: "update_task db ?cond (moved_row ?state now) = Inr (db\<lparr>pdb_tasks := ?rows\<rparr>)"
    using one rows by (simp add: update_task_def)
  have exp0: "expect_task db f v t = Inr (record_of r st)" using assms(2) st by (auto simp: expect_task_Inr)
  have "find (\<lambda>x. task_key x = (f, v, t)) ?rows = Some (moved_row ?state now r)"
    unfolding rows [symmetric] using find_map_update [of task_key "moved_row ?state now" "(f, v, t)" ?cond] assms(2) cr by simp
  moreover have "ts_reachable ?state" using st tr by (auto simp: row_holds_def intro: ts_reachable.step ts_step.transition)
  ultimately have "expect_task (db\<lparr>pdb_tasks := ?rows\<rparr>) f v t = Inr (record_of (moved_row ?state now r) ?state)"
    using moved_row_holds by (auto simp: expect_task_Inr)
  then show ?thesis
    using exp0 tr upd by (simp add: advance_task_def Let_def moved_row_def [abs_def])
qed

text \<open>What the search has done when the tasks of \<open>seen\<close> have been visited.\<close>

definition searched ::
  "queue \<Rightarrow> feature_id \<Rightarrow> revision \<Rightarrow> state_reason \<Rightarrow> int \<Rightarrow> task_id \<Rightarrow> task_id list \<Rightarrow> task_id list \<Rightarrow> queue \<Rightarrow> bool" where
  "searched q0 f v reason now p seen blocked q \<longleftrightarrow>
     q = with_tasks q0 (block_rows f v reason now (set seen - {p}) (pdb_tasks (q_plans q0)))
     \<and> pdb_ok (q_plans q) \<and> p \<in> set seen \<and> distinct blocked
     \<and> set blocked = open_tasks q0 f v \<inter> (set seen - {p})"

lemma visit_searched:
  assumes "searched q0 f v reason now p seen blocked q" and "0 \<le> now"
  shows "\<exists>pending' seen' blocked' q'. visit_dependent f v reason now (pending, seen, blocked) d q
      = Some (Inr (pending', seen', blocked'), q') \<and> searched q0 f v reason now p seen' blocked' q'"
proof (cases "dp_task_id d \<in> set seen")
  case True
  then show ?thesis using assms(1) by (simp add: visit_dependent_def run_return)
next
  case False
  let ?t = "dp_task_id d"
  have inv: "q = with_tasks q0 (block_rows f v reason now (set seen - {p}) (pdb_tasks (q_plans q0)))"
    "pdb_ok (q_plans q)" "p \<in> set seen" "distinct blocked" "set blocked = open_tasks q0 f v \<inter> (set seen - {p})"
    using assms(1) unfolding searched_def by blast+
  have tp: "?t \<noteq> p" using False inv(3) by blast
  have sets: "set (?t # seen) - {p} = insert ?t (set seen - {p})" using tp by auto
  have rows: "pdb_tasks (q_plans q) = block_rows f v reason now (set seen - {p}) (pdb_tasks (q_plans q0))"
    by (simp add: inv(1))
  have untouched: "r \<in> set (pdb_tasks (q_plans q)) \<longleftrightarrow> r \<in> set (pdb_tasks (q_plans q0))" if "task_key r = (f, v, ?t)" for r
    unfolding rows by (rule block_rows_other) (use that False in \<open>auto simp: task_key_def\<close>)
  have untouched_rows: "searched q0 f v reason now p (?t # seen) blocked q" if "?t \<notin> open_tasks q0 f v"
  proof -
    have "block_rows f v reason now (set (?t # seen) - {p}) (pdb_tasks (q_plans q0))
      = block_rows f v reason now (set seen - {p}) (pdb_tasks (q_plans q0))"
      using that unfolding sets block_rows_def by (auto simp: open_tasks_def)
    then have "q = with_tasks q0 (block_rows f v reason now (set (?t # seen) - {p}) (pdb_tasks (q_plans q0)))"
      using inv(1) by simp
    moreover have "set blocked = open_tasks q0 f v \<inter> (set (?t # seen) - {p})" using inv(5) that by auto
    ultimately show ?thesis using inv(2-4) unfolding searched_def by simp
  qed
  show ?thesis
  proof (cases "find (\<lambda>r. task_key r = (f, v, ?t)) (pdb_tasks (q_plans q))")
    case None
    then have "task_of (q_plans q) f v ?t = Inr None" by (simp add: task_of_def)
    moreover have "?t \<notin> open_tasks q0 f v"
    proof
      assume "?t \<in> open_tasks q0 f v"
      then obtain x where "x \<in> set (pdb_tasks (q_plans q0))" "task_key x = (f, v, ?t)"
        unfolding open_tasks_iff by blast
      then show False using None untouched [of x] by (simp add: find_None_iff)
    qed
    then have "searched q0 f v reason now p (?t # seen) blocked q" using untouched_rows by simp
    ultimately show ?thesis using False by (simp add: visit_dependent_def Let_def then_reading run_return)
  next
    case (Some r)
    have r: "r \<in> set (pdb_tasks (q_plans q))" "task_key r = (f, v, ?t)" using find_Some_in [OF Some] by auto
    obtain st where st: "row_holds r st" using inv(2) r(1) by (auto simp: pdb_ok_def list_all_iff)
    then have found: "task_of (q_plans q) f v ?t = Inr (Some (record_of r st))"
      using Some by (auto simp: task_of_def res task_from_row_Inr)
    have uniq: "x = r" if "x \<in> set (pdb_tasks (q_plans q))" "task_key x = (f, v, ?t)" for x
      using that r by (intro one_task [OF inv(2)]) simp_all
    have op: "?t \<in> open_tasks q0 f v \<longleftrightarrow> open_row r"
      using untouched uniq r unfolding open_tasks_iff by blast
    show ?thesis
    proof (cases "open_row r")
      case False
      then have "is_terminal (ts_status st) \<or> ts_status st = Blocked" using open_row_holds [OF st] by blast
      moreover have "searched q0 f v reason now p (?t # seen) blocked q" using untouched_rows op False by blast
      ultimately show ?thesis
        using \<open>?t \<notin> set seen\<close> found by (simp add: visit_dependent_def Let_def then_reading run_return)
    next
      case True
      let ?q = "with_tasks q (block_rows f v reason now {?t} (pdb_tasks (q_plans q)))"
      obtain rec where adv: "advance_task (q_plans q) f v ?t Blocked (Some reason) now
          = Inr ((q_plans q)\<lparr>pdb_tasks := block_rows f v reason now {?t} (pdb_tasks (q_plans q))\<rparr>, rec)"
        using block_open_task [OF inv(2) Some True assms(2)] by blast
      then have adv_q: "advancing f v ?t Blocked (Some reason) now q = Some (Inr rec, ?q)"
        by (simp add: advancing_Inr_iff with_tasks_def)
      have "\<not> (is_terminal (ts_status st) \<or> ts_status st = Blocked)" using open_row_holds [OF st] True by blast
      then have visited: "visit_dependent f v reason now (pending, seen, blocked) d q
          = Some (Inr (?t # pending, ?t # seen, blocked @ [?t]), ?q)"
        using \<open>?t \<notin> set seen\<close> found by (simp add: visit_dependent_def Let_def then_reading then_Ok [where m = "advancing f v ?t Blocked (Some reason) now" and s = q, OF adv_q] run_return)
      have "?q = with_tasks q0 (block_rows f v reason now (set (?t # seen) - {p}) (pdb_tasks (q_plans q0)))"
        unfolding sets rows by (simp add: inv(1) block_rows_insert)
      moreover have "pdb_ok (q_plans ?q)" using advance_task_rows(1) [OF inv(2) adv] by simp
      moreover have "distinct (blocked @ [?t])" using inv(4,5) \<open>?t \<notin> set seen\<close> by auto
      moreover have "set (blocked @ [?t]) = open_tasks q0 f v \<inter> (set (?t # seen) - {p})"
        using inv(5) op True tp by auto
      ultimately have "searched q0 f v reason now p (?t # seen) (blocked @ [?t]) ?q"
        using inv(3) unfolding searched_def by simp
      then show ?thesis
        using visited by blast
    qed
  qed
qed

lemma visits_searched:
  assumes "searched q0 f v reason now p seen blocked q" and "0 \<le> now"
  shows "\<exists>pending' seen' blocked' q'. c_fold (visit_dependent f v reason now) (pending, seen, blocked) ds q
      = Some (Inr (pending', seen', blocked'), q') \<and> searched q0 f v reason now p seen' blocked' q'"
  using assms(1)
proof (induction ds arbitrary: pending seen blocked q)
  case Nil
  then show ?case by (simp add: run_return)
next
  case (Cons d ds)
  obtain p1 s1 b1 q1 where one: "visit_dependent f v reason now (pending, seen, blocked) d q = Some (Inr (p1, s1, b1), q1)"
    and inv: "searched q0 f v reason now p s1 b1 q1"
    using visit_searched [OF Cons.prems assms(2)] by blast
  show ?case using Cons.IH [OF inv] by (simp add: run_then one)
qed

text \<open>Everything seen waits on the prerequisite, and what is not pending has had its dependents seen.\<close>

definition search_closed :: "(task_id \<times> task_id) set \<Rightarrow> task_id \<Rightarrow> task_id list \<Rightarrow> task_id list \<Rightarrow> bool" where
  "search_closed E p pending seen \<longleftrightarrow>
     set pending \<subseteq> set seen \<and> p \<in> set seen \<and> set seen \<subseteq> insert p {t. (p, t) \<in> trancl E}
     \<and> (\<forall>s \<in> set seen - set pending. \<forall>t. (s, t) \<in> E \<longrightarrow> t \<in> set seen)"

lemma search_closed_done:
  assumes "search_closed E p [] seen"
  shows "set seen = insert p {t. (p, t) \<in> trancl E}"
proof -
  have "t \<in> set seen" if "(p, t) \<in> trancl E" for t
    using that by (induction rule: trancl_induct) (use assms in \<open>auto simp: search_closed_def\<close>)
  then show ?thesis using assms by (auto simp: search_closed_def)
qed

lemma search_closed_step:
  assumes "search_closed E p (c # pending) seen" and "set new = {t. (c, t) \<in> E} - set seen"
  shows "search_closed E p (new @ pending) (new @ seen)"
proof -
  have c: "c \<in> set seen" "c = p \<or> (p, c) \<in> trancl E" using assms(1) by (auto simp: search_closed_def)
  have "(p, t) \<in> trancl E" if "(c, t) \<in> E" for t
    using c(2) that by (auto intro: trancl_into_trancl)
  then have "set (new @ seen) \<subseteq> insert p {t. (p, t) \<in> trancl E}"
    using assms by (auto simp: search_closed_def)
  moreover have "t \<in> set (new @ seen)" if "s \<in> set (new @ seen) - set (new @ pending)" "(s, t) \<in> E" for s t
  proof (cases "s = c")
    case True
    then show ?thesis using that(2) assms(2) by simp
  next
    case False
    then have "s \<in> set seen - set (c # pending)" using that(1) by auto
    then have "t \<in> set seen" using that(2) assms(1) unfolding search_closed_def by blast
    then show ?thesis by simp
  qed
  moreover have "set (new @ pending) \<subseteq> set (new @ seen)" "p \<in> set (new @ seen)"
    using assms(1) by (auto simp: search_closed_def)
  ultimately show ?thesis unfolding search_closed_def by blast
qed

lemma dependents_stored:
  assumes "pdb_ok (q_plans q)"
  shows "\<exists>ds. task_dependents (q_plans q) f v t = Inr ds \<and> dp_task_id ` set ds = {t'. (t, t') \<in> waits_on q f v}"
proof -
  let ?es = "order_by_task (q_plans q) eg_task_id
    (filter (\<lambda>e. eg_feature_id e = f \<and> eg_plan_revision e = v \<and> eg_depends_on e = t) (pdb_edges (q_plans q)))"
  let ?dep = "\<lambda>e. \<lparr>dp_task_id = eg_task_id e, dp_depends_on = t, dp_required_milestone = edge_milestone e\<rparr>"
  have "task_dependents (q_plans q) f v t = Inr (map ?dep ?es)"
    unfolding task_dependents_def
    by (rule collect_res_all) (simp add: order_by_task_def edge_milestone_read [OF assms])
  moreover have "dp_task_id ` set (map ?dep ?es) = {t'. (t, t') \<in> waits_on q f v}"
  proof -
    have "dp_task_id ` set (map ?dep ?es) = eg_task_id ` set ?es" by (simp add: image_image)
    also have "set ?es = {e \<in> set (pdb_edges (q_plans q)). eg_feature_id e = f \<and> eg_plan_revision e = v \<and> eg_depends_on e = t}"
      by (simp add: order_by_task_def)
    finally show ?thesis unfolding waits_on_def by blast
  qed
  ultimately show ?thesis by blast
qed

lemma block_loop_exact:
  assumes "searched q0 f v reason now p seen blocked q" and "search_closed (waits_on q0 f v) p pending seen" and "0 \<le> now"
  shows "\<exists>seen' blocked' q'. block_loop f v reason now pending seen blocked q = Some (Inr blocked', q')
    \<and> searched q0 f v reason now p seen' blocked' q' \<and> search_closed (waits_on q0 f v) p [] seen'"
  using assms
proof (induction f v reason now pending seen blocked q rule: block_loop.induct)
  case (1 f v reason now seen blocked q)
  then show ?case by auto
next
  case (2 f v reason now c pending seen blocked q)
  have "pdb_ok (q_plans q)" using 2(2) unfolding searched_def by blast
  then obtain ds where ds: "task_dependents (q_plans q) f v c = Inr ds" "dp_task_id ` set ds = {t. (c, t) \<in> waits_on q f v}"
    using dependents_stored by blast
  obtain rows where "q = with_tasks q0 rows" using 2(2) unfolding searched_def by blast
  then have "pdb_edges (q_plans q) = pdb_edges (q_plans q0)" by simp
  then have same: "waits_on q f v = waits_on q0 f v" by (simp add: waits_on_def)
  obtain p1 s1 b1 q1 where visits: "c_fold (visit_dependent f v reason now) (pending, seen, blocked) ds q
      = Some (Inr (p1, s1, b1), q1)" and inv: "searched q0 f v reason now p s1 b1 q1"
    using visits_searched [OF 2(2,4)] by blast
  obtain new where new: "p1 = new @ pending" "s1 = new @ seen" "set new = dp_task_id ` set ds - set seen"
    using visits_grow [OF visits] by blast
  have "search_closed (waits_on q0 f v) p p1 s1"
    unfolding new(1,2) by (rule search_closed_step [OF 2(3)]) (use new(3) ds(2) same in simp)
  then obtain seen' blocked' q' where "block_loop f v reason now p1 s1 b1 q1 = Some (Inr blocked', q')"
    "searched q0 f v reason now p seen' blocked' q'" "search_closed (waits_on q0 f v) p [] seen'"
    using 2(1) [OF ds(1) visits refl refl refl refl inv _ 2(4)] by blast
  moreover have "block_loop f v reason now (c # pending) seen blocked q = block_loop f v reason now p1 s1 b1 q1"
    using ds(1) visits by (simp add: block_loop.simps(2))
  ultimately show ?case by metis
qed

text \<open>Giving a task up blocks the open tasks that wait on it, and changes nothing else.\<close>

lemma block_dependents_decides:
  assumes "pdb_ok (q_plans q)" and "state_reason_new code message = Inr reason" and "0 \<le> now"
  shows "let waiting = {t. (p, t) \<in> trancl (waits_on q f v)} - {p} in
    block_dependents f v p code message now q
      = Some (Inr (sorted_list_of_set (open_tasks q f v \<inter> waiting)),
          with_tasks q (block_rows f v reason now waiting (pdb_tasks (q_plans q))))"
proof -
  let ?waiting = "{t. (p, t) \<in> trancl (waits_on q f v)} - {p}"
  have "searched q f v reason now p [p] [] q" using assms(1) by (simp add: searched_def)
  moreover have "search_closed (waits_on q f v) p [p] [p]" by (simp add: search_closed_def)
  ultimately obtain seen blocked q' where
    loop: "block_loop f v reason now [p] [p] [] q = Some (Inr blocked, q')"
    and fin: "searched q f v reason now p seen blocked q'" "search_closed (waits_on q f v) p [] seen"
    using block_loop_exact assms(3) by blast
  have seen: "set seen - {p} = ?waiting" using search_closed_done [OF fin(2)] by auto
  have q': "q' = with_tasks q (block_rows f v reason now ?waiting (pdb_tasks (q_plans q)))"
    and b: "distinct blocked" "set blocked = open_tasks q f v \<inter> ?waiting"
    using fin(1) unfolding searched_def seen by blast+
  have "sort blocked = sorted_list_of_set (set blocked)" using b(1) by (simp add: sorted_list_of_set_sort_remdups distinct_remdups_id)
  then show ?thesis
    using assms(2) unfolding Let_def b(2) [symmetric]
    by (simp add: block_dependents_def then_reading run_return q' [symmetric]
        then_Ok [where m = "block_loop f v reason now [p] [p] []" and s = q, OF loop])
qed

lemma visit_dependent_stays: "stays queue_moves (visit_dependent f v reason now s d)"
  by (cases s) (auto simp: visit_dependent_def Let_def intro!: queue.steps advancing_stays split: option.splits)

lemma block_loop_stays:
  "block_loop f v reason now pending seen blocked q = Some (r, q') \<Longrightarrow> queue_moves q q'"
proof (induction f v reason now pending seen blocked q rule: block_loop.induct)
  case (1 f v reason now seen blocked q)
  then show ?case by (simp add: queue.refl)
next
  case (2 f v reason now c pending seen blocked q)
  have fold: "stays queue_moves (c_fold (visit_dependent f v reason now) (pending, seen, blocked) ds)" for ds
    by (rule queue.fold_loop) (rule visit_dependent_stays)
  show ?case
  proof (cases "task_dependents (q_plans q) f v c")
    case (Inl e)
    then show ?thesis using 2(2) by (simp add: block_loop.simps(2) queue.refl)
  next
    case (Inr ds)
    obtain y q1 where y: "c_fold (visit_dependent f v reason now) (pending, seen, blocked) ds q = Some (y, q1)"
      using 2(2) Inr by (auto simp: block_loop.simps(2) split: option.splits)
    then have step: "queue_moves q q1" using fold unfolding stays_def by blast
    show ?thesis
    proof (cases y)
      case (Inl e)
      then show ?thesis using 2(2) \<open>task_dependents (q_plans q) f v c = Inr ds\<close> y step by (simp add: block_loop.simps(2))
    next
      case y_ok: (Inr z)
      obtain p1 s1 b1 where z: "z = (p1, s1, b1)" by (cases z)
      have "block_loop f v reason now p1 s1 b1 q1 = Some (r, q')"
        using 2(2) Inr y y_ok z by (simp add: block_loop.simps(2))
      then have "queue_moves q1 q'" using 2(1) [OF Inr y] y_ok z by simp
      then show ?thesis using step by (rule queue.trans [rotated])
    qed
  qed
qed

lemma block_dependents_stays: "stays queue_moves (block_dependents f v p code message now)"
proof -
  have "stays queue_moves (block_loop f v reason now [p] [p] [])" for reason
    unfolding stays_def using block_loop_stays by blast
  then show ?thesis unfolding block_dependents_def by (intro queue.steps)
qed

end
