(* ===== verification/Eligibility.thy ===== *)
theory Eligibility
  imports Units
begin

text \<open>
  When work may be released (\<open>milestone_is_met\<close> and its callers in \<open>crates/store/src/schedules.rs\<close>).

  A unit may be given a time when each of its tasks is queued and every prerequisite outside the unit
  has reached the milestone its edge asks for.  The selector asks the same of a grouping that is not
  stored yet; the theorem at the end shows that both give one answer.
\<close>

section \<open>Milestones\<close>

text \<open>A published attempt on the development branch that carried the task.\<close>

definition task_reached_development :: "queue \<Rightarrow> task_id \<Rightarrow> target_ref \<Rightarrow> bool" where
  "task_reached_development q t target \<longleftrightarrow>
     (\<exists>(p, v, carried) \<in> set (pdb_package_tasks (q_plans q)). carried = t
        \<and> (\<exists>a \<in> set (q_attempts q). (c_package_id a, c_package_revision a) = (p, v)
             \<and> c_status a = ''published'' \<and> c_target_ref a = target_ref_str target))"

fun milestone_is_met :: "queue \<Rightarrow> task_id \<Rightarrow> task_record \<Rightarrow> target_milestone \<Rightarrow> target_ref option \<Rightarrow> bool" where
  "milestone_is_met q t dependency MCaptured development =
     (ts_status (tr_state dependency) \<noteq> Planned \<and> ts_status (tr_state dependency) \<noteq> Building)"
| "milestone_is_met q t dependency MTargetPublished development = (ts_status (tr_state dependency) = Published)"
| "milestone_is_met q t dependency MDevelopmentAvailable development =
     (ts_status (tr_state dependency) = Published
      \<or> (case development of Some branch \<Rightarrow> task_reached_development q t branch | None \<Rightarrow> False))"

fun debug_milestone :: "target_milestone \<Rightarrow> string" where
  "debug_milestone MCaptured = ''Captured''"
| "debug_milestone MDevelopmentAvailable = ''DevelopmentAvailable''"
| "debug_milestone MTargetPublished = ''TargetPublished''"

section \<open>Asking for a grouping\<close>

record blocking_prerequisite =
  bp_task_id :: task_id
  bp_name :: string
  bp_milestone :: target_milestone

text \<open>A loop that returns early with the first hit.\<close>

fun search_res :: "('a \<Rightarrow> ('e, 'b option) result) \<Rightarrow> 'a list \<Rightarrow> ('e, 'b option) result" where
  "search_res f [] = Inr None"
| "search_res f (x # xs) = and_then (f x) (\<lambda>found. case found of Some y \<Rightarrow> Inr (Some y) | None \<Rightarrow> search_res f xs)"

definition development_target :: "queue \<Rightarrow> repository_id \<Rightarrow> (store_error, target_ref option) result" where
  "development_target q i =
     and_then (repository_of (q_registry q) i) (\<lambda>found.
       Inr (Option.bind found (\<lambda>r. rp_development_target (sr_active_policy r))))"

definition prerequisite_blocks ::
  "queue \<Rightarrow> feature_id \<Rightarrow> revision \<Rightarrow> task_id list \<Rightarrow> target_ref option \<Rightarrow> task_id \<times> target_milestone
    \<Rightarrow> (store_error, blocking_prerequisite option) result" where
  "prerequisite_blocks q f v ts development = (\<lambda>(d, m).
     if d \<in> set ts then Inr None
     else and_then (task_of (q_plans q) f v d) (\<lambda>found.
       case found of
         None \<Rightarrow> Inr None
       | Some dependency \<Rightarrow>
           if milestone_is_met q d dependency m development then Inr None
           else Inr (Some \<lparr>bp_task_id = d, bp_name = tr_name dependency, bp_milestone = m\<rparr>)))"

definition blocking_prerequisite_of ::
  "queue \<Rightarrow> feature_id \<Rightarrow> revision \<Rightarrow> task_id list \<Rightarrow> repository_id
    \<Rightarrow> (store_error, blocking_prerequisite option) result" where
  "blocking_prerequisite_of q f v ts i =
     and_then (development_target q i) (\<lambda>development.
       search_res (\<lambda>t. and_then (task_prerequisites (q_plans q) f v t)
         (search_res (prerequisite_blocks q f v ts development))) ts)"

section \<open>Asking for a stored unit\<close>

definition prerequisite_ready ::
  "queue \<Rightarrow> feature_id \<Rightarrow> revision \<Rightarrow> task_id list \<Rightarrow> target_ref option \<Rightarrow> task_id \<Rightarrow> task_id \<times> target_milestone
    \<Rightarrow> (store_error, unit) result" where
  "prerequisite_ready q f v ts development t = (\<lambda>(d, m).
     if d \<in> set ts then Inr ()
     else and_then (task_of (q_plans q) f v d) (\<lambda>found.
       and_then (ok_or found (InvalidData (''prerequisite '' @ id_display (q_text q) TaskKind d @ '' is missing''))) (\<lambda>dependency.
         ensure (milestone_is_met q d dependency m development)
           (Conflict (''task '' @ id_display (q_text q) TaskKind t @ '' waits for prerequisite ''
             @ id_display (q_text q) TaskKind d @ '' at '' @ debug_milestone m)))))"

definition ensure_unit_is_eligible :: "queue \<Rightarrow> release_unit_record \<Rightarrow> repository_id \<Rightarrow> (store_error, unit) result" where
  "ensure_unit_is_eligible q u i =
     and_then (repository_of (q_registry q) i) (\<lambda>found.
     and_then (ok_or found (InvalidData ''scheduled repository is not enrolled'')) (\<lambda>repository.
     for_each (\<lambda>t.
       and_then (task_of (q_plans q) (ur_feature_id u) (ur_plan_revision u) t) (\<lambda>task.
       and_then (ok_or task (InvalidData (''release-unit task '' @ id_display (q_text q) TaskKind t @ '' is missing''))) (\<lambda>task.
       and_then (ensure (ts_status (tr_state task) = Queued)
         (Conflict (''task '' @ id_display (q_text q) TaskKind t @ '' is '' @ debug_status (ts_status (tr_state task))
           @ '', not queued''))) (\<lambda>_.
       and_then (task_prerequisites (q_plans q) (ur_feature_id u) (ur_plan_revision u) t)
         (for_each (prerequisite_ready q (ur_feature_id u) (ur_plan_revision u) (ur_task_ids u)
            (rp_development_target (sr_active_policy repository)) t))))))
     (ur_task_ids u)))"

section \<open>Both questions have one answer\<close>

text \<open>What the rules come to: the state of the tasks, read from the document of the plan.\<close>

definition task_status_is :: "queue \<Rightarrow> feature_id \<Rightarrow> revision \<Rightarrow> task_id \<Rightarrow> (task_record \<Rightarrow> bool) \<Rightarrow> bool" where
  "task_status_is q f v t P \<longleftrightarrow> (case task_of (q_plans q) f v t of Inr (Some r) \<Rightarrow> P r | _ \<Rightarrow> False)"

definition edges_met ::
  "queue \<Rightarrow> feature_id \<Rightarrow> revision \<Rightarrow> task_id list \<Rightarrow> target_ref option \<Rightarrow> plan_task \<Rightarrow> bool" where
  "edges_met q f v ts development x \<longleftrightarrow>
     (\<forall>(d, m) \<in> set (pt_dependencies x). d \<notin> set ts \<longrightarrow>
        task_status_is q f v d (\<lambda>r. milestone_is_met q d r m development))"

definition milestones_met :: "queue \<Rightarrow> plan_row \<Rightarrow> task_id list \<Rightarrow> target_ref option \<Rightarrow> bool" where
  "milestones_met q p ts development \<longleftrightarrow>
     (\<forall>x \<in> set (plan_tasks_of (pl_document p)). pt_id x \<in> set ts \<longrightarrow>
        edges_met q (pl_feature_id p) (pl_revision p) ts development x)"

lemma task_status_is_iff: "task_status_is q f v t P \<longleftrightarrow> (\<exists>r. task_of (q_plans q) f v t = Inr (Some r) \<and> P r)"
proof (cases "task_of (q_plans q) f v t")
  case (Inr found)
  then show ?thesis by (cases found) (simp_all add: task_status_is_def)
qed (simp add: task_status_is_def)

lemma search_res_None: "search_res f xs = Inr None \<longleftrightarrow> (\<forall>x \<in> set xs. f x = Inr None)"
  by (induction xs) (auto simp: res split: option.splits)

lemma search_res_Some: "search_res f xs = Inr (Some y) \<Longrightarrow> \<exists>x \<in> set xs. f x = Inr (Some y)"
  by (induction xs) (auto simp: res split: option.splits)

lemma search_res_total: "(\<And>x. x \<in> set xs \<Longrightarrow> \<exists>y. f x = Inr y) \<Longrightarrow> \<exists>y. search_res f xs = Inr y"
proof (induction xs)
  case (Cons x xs)
  then obtain y where "f x = Inr y" by auto
  then show ?case using Cons by (cases y) auto
qed simp

text \<open>Every task a stored plan names can be read.\<close>

lemma plan_task_read:
  assumes "pdb_ok db" and "p \<in> set (pdb_plans db)" and "x \<in> set (plan_tasks_of (pl_document p))"
  shows "\<exists>r. task_of db (pl_feature_id p) (pl_revision p) (pt_id x) = Inr (Some r)"
proof -
  have "(pl_feature_id p, pl_revision p, pt_id x) \<in> task_key ` set (pdb_tasks db)"
    using task_key_stored [OF assms(1,2)] assms(3) by (auto simp: plan_key_def)
  then obtain r where r: "find (\<lambda>r. task_key r = (pl_feature_id p, pl_revision p, pt_id x)) (pdb_tasks db) = Some r"
    by (cases "find (\<lambda>r. task_key r = (pl_feature_id p, pl_revision p, pt_id x)) (pdb_tasks db)")
       (auto simp: find_None_iff)
  then obtain st where "row_holds r st" using assms(1) find_Some_in [OF r] by (auto simp: pdb_ok_def list_all_iff)
  then show ?thesis using r by (auto simp: task_of_def res task_from_row_Inr)
qed

lemma prerequisites_named:
  assumes "pdb_ok db" and "p \<in> set (pdb_plans db)" and "x \<in> set (plan_tasks_of (pl_document p))"
    and "(d, m) \<in> set (pt_dependencies x)"
  shows "\<exists>y \<in> set (plan_tasks_of (pl_document p)). pt_id y = d"
proof -
  have "map edge_of (edges_at db (plan_key p))
      = map (\<lambda>(t, d, m). (t, d, milestone_column m)) (plan_edges (plan_tasks_of (pl_document p)))"
    using assms(1,2) by (simp add: pdb_ok_def list_all_iff projected_def)
  then have "set (map edge_of (edges_at db (plan_key p)))
      = set (map (\<lambda>(t, d, m). (t, d, milestone_column m)) (plan_edges (plan_tasks_of (pl_document p))))"
    by (rule arg_cong)
  moreover have "(pt_id x, d, m) \<in> set (plan_edges (plan_tasks_of (pl_document p)))"
    using assms(3,4) by (auto simp: plan_edges_set)
  ultimately have "(pt_id x, d, milestone_column m) \<in> edge_of ` set (edges_at db (plan_key p))"
    unfolding list.set_map by (metis (no_types, lifting) image_eqI case_prod_conv)
  then obtain e where e: "e \<in> set (pdb_edges db)" "(eg_feature_id e, eg_plan_revision e) = plan_key p" "eg_depends_on e = d"
    by (auto simp: edge_of_def edges_at_def)
  then have "(pl_feature_id p, pl_revision p, d) \<in> task_key ` set (pdb_tasks db)"
    using assms(1) by (auto simp: pdb_ok_def edges_ok_def list_all_iff plan_key_def)
  then have "d \<in> tk_task_id ` set (tasks_at db (plan_key p))"
    by (force simp: task_key_def tasks_at_def plan_key_def)
  moreover have "map fst (map (\<lambda>k. (tk_task_id k, tk_name k)) (tasks_at db (plan_key p)))
      = map fst (map (\<lambda>t. (pt_id t, pt_name t)) (plan_tasks_of (pl_document p)))"
    using assms(1,2) by (simp add: pdb_ok_def list_all_iff projected_def)
  then have "map tk_task_id (tasks_at db (plan_key p)) = map pt_id (plan_tasks_of (pl_document p))" by (simp add: comp_def)
  then have "tk_task_id ` set (tasks_at db (plan_key p)) = pt_id ` set (plan_tasks_of (pl_document p))"
    by (metis list.set_map)
  ultimately show ?thesis by auto
qed

lemma development_target_read:
  assumes "queue_ok q" and "i \<in> repository_ids q"
  shows "\<exists>s. repository_of (q_registry q) i = Inr (Some s)
    \<and> development_target q i = Inr (rp_development_target (sr_active_policy s))"
proof -
  have ok: "registry_ok (q_registry q)" using assms(1) by (simp add: queue_ok_def pdb_ok_def)
  obtain r where r: "r \<in> set (rg_repositories (q_registry q))" "rr_id r = i" using assms(2) by auto
  have "find (\<lambda>x. rr_id x = i) (rg_repositories (q_registry q)) = Some r"
    using find_id [of "rg_repositories (q_registry q)" r] ok r by (simp add: registry_ok_def)
  moreover obtain s where "stored_repository_of r (policy_of_row (q_registry q) r) = Inr s"
    using joined_row_loads [OF ok r(1)] by metis
  ultimately have "repository_of (q_registry q) i = Inr (Some s)" by (simp add: repository_of_row [OF ok])
  then show ?thesis by (simp add: development_target_def)
qed

text \<open>One edge.\<close>

lemma prerequisite_outcome:
  assumes "pdb_ok (q_plans q)" and "p \<in> set (pdb_plans (q_plans q))" and "plan_key p = (f, v)"
    and "x \<in> set (plan_tasks_of (pl_document p))" and "(d, m) \<in> set (pt_dependencies x)"
  shows "\<exists>b. prerequisite_blocks q f v ts development (d, m) = Inr b
    \<and> (b = None \<longleftrightarrow> d \<in> set ts \<or> task_status_is q f v d (\<lambda>r. milestone_is_met q d r m development))
    \<and> (\<forall>y. b = Some y \<longrightarrow> bp_task_id y = d \<and> bp_milestone y = m)"
    and "prerequisite_ready q f v ts development t (d, m) = Inr ()
      \<longleftrightarrow> d \<in> set ts \<or> task_status_is q f v d (\<lambda>r. milestone_is_met q d r m development)"
proof -
  obtain y where y: "y \<in> set (plan_tasks_of (pl_document p))" "pt_id y = d"
    using prerequisites_named [OF assms(1,2,4,5)] by blast
  have fv: "pl_feature_id p = f" "pl_revision p = v" using assms(3) by (simp_all add: plan_key_def)
  obtain r where r: "task_of (q_plans q) f v d = Inr (Some r)"
    using plan_task_read [OF assms(1,2) y(1)] y(2) fv by auto
  show "\<exists>b. prerequisite_blocks q f v ts development (d, m) = Inr b
    \<and> (b = None \<longleftrightarrow> d \<in> set ts \<or> task_status_is q f v d (\<lambda>r. milestone_is_met q d r m development))
    \<and> (\<forall>y. b = Some y \<longrightarrow> bp_task_id y = d \<and> bp_milestone y = m)"
    by (simp add: prerequisite_blocks_def r task_status_is_def)
  show "prerequisite_ready q f v ts development t (d, m) = Inr ()
      \<longleftrightarrow> d \<in> set ts \<or> task_status_is q f v d (\<lambda>r. milestone_is_met q d r m development)"
    by (simp add: prerequisite_ready_def r task_status_is_def ensure_Inr_iff)
qed

text \<open>All the edges of one task.\<close>

lemma task_outcome:
  assumes "pdb_ok (q_plans q)" and "p \<in> set (pdb_plans (q_plans q))" and "plan_key p = (f, v)"
    and "x \<in> set (plan_tasks_of (pl_document p))"
  shows "\<exists>b. and_then (task_prerequisites (q_plans q) f v (pt_id x)) (search_res (prerequisite_blocks q f v ts development)) = Inr b
      \<and> (b = None \<longleftrightarrow> edges_met q f v ts development x)
      \<and> (\<forall>y. b = Some y \<longrightarrow> bp_task_id y \<notin> set ts \<and> (bp_task_id y, bp_milestone y) \<in> set (pt_dependencies x)
           \<and> \<not> task_status_is q f v (bp_task_id y) (\<lambda>r. milestone_is_met q (bp_task_id y) r (bp_milestone y) development))"
    and "and_then (task_prerequisites (q_plans q) f v (pt_id x)) (for_each (prerequisite_ready q f v ts development (pt_id x))) = Inr ()
      \<longleftrightarrow> edges_met q f v ts development x"
proof -
  have fv: "pl_feature_id p = f" "pl_revision p = v" using assms(3) by (simp_all add: plan_key_def)
  have deps: "task_prerequisites (q_plans q) f v (pt_id x) = Inr (pt_dependencies x)"
    using stored_prerequisites [OF assms(1,2,4)] fv by simp
  note one = prerequisite_outcome [OF assms(1-4)]
  let ?f = "prerequisite_blocks q f v ts development"
  obtain b where b: "search_res ?f (pt_dependencies x) = Inr b"
    using search_res_total [of "pt_dependencies x" ?f] one(1) [of _ _ ts development] by fast
  have none: "b = None \<longleftrightarrow> edges_met q f v ts development x"
  proof -
    have "b = None \<longleftrightarrow> (\<forall>(d, m) \<in> set (pt_dependencies x). ?f (d, m) = Inr None)"
      using search_res_None [of ?f "pt_dependencies x"] b by auto
    also have "\<dots> \<longleftrightarrow> edges_met q f v ts development x"
      unfolding edges_met_def using one(1) [of _ _ ts development] by (fastforce split: prod.splits)
    finally show ?thesis .
  qed
  have some: "bp_task_id y \<notin> set ts \<and> (bp_task_id y, bp_milestone y) \<in> set (pt_dependencies x)
      \<and> \<not> task_status_is q f v (bp_task_id y) (\<lambda>r. milestone_is_met q (bp_task_id y) r (bp_milestone y) development)"
    if y: "b = Some y" for y
  proof -
    have "\<exists>e \<in> set (pt_dependencies x). ?f e = Inr (Some y)" by (rule search_res_Some) (simp add: b y)
    then obtain d m where dm: "(d, m) \<in> set (pt_dependencies x)" "?f (d, m) = Inr (Some y)" by auto
    then show ?thesis using one(1) [OF dm(1), of ts development] by auto
  qed
  show "\<exists>b. and_then (task_prerequisites (q_plans q) f v (pt_id x)) (search_res ?f) = Inr b
      \<and> (b = None \<longleftrightarrow> edges_met q f v ts development x)
      \<and> (\<forall>y. b = Some y \<longrightarrow> bp_task_id y \<notin> set ts \<and> (bp_task_id y, bp_milestone y) \<in> set (pt_dependencies x)
           \<and> \<not> task_status_is q f v (bp_task_id y) (\<lambda>r. milestone_is_met q (bp_task_id y) r (bp_milestone y) development))"
    using b none some by (simp add: deps)
  show "and_then (task_prerequisites (q_plans q) f v (pt_id x)) (for_each (prerequisite_ready q f v ts development (pt_id x))) = Inr ()
      \<longleftrightarrow> edges_met q f v ts development x"
    unfolding edges_met_def deps using one(2) [of _ _ ts development "pt_id x"] by (fastforce simp: for_each_Inr_iff)
qed

lemma unit_eligibility:
  assumes "queue_ok q" and "p \<in> set (pdb_plans (q_plans q))" and "plan_key p = (f, v)"
    and "set ts \<subseteq> pt_id ` set (plan_tasks_of (pl_document p))" and "i \<in> repository_ids q"
  shows "\<exists>development b. development_target q i = Inr development \<and> blocking_prerequisite_of q f v ts i = Inr b
    \<and> (b = None \<longleftrightarrow> milestones_met q p ts development)
    \<and> (\<forall>y. b = Some y \<longrightarrow> bp_task_id y \<notin> set ts
         \<and> \<not> task_status_is q f v (bp_task_id y) (\<lambda>r. milestone_is_met q (bp_task_id y) r (bp_milestone y) development))
    \<and> (\<forall>j c. ensure_unit_is_eligible q
           \<lparr>ur_unit_id = j, ur_feature_id = f, ur_plan_revision = v, ur_task_ids = ts, ur_created_at = c\<rparr> i = Inr ()
         \<longleftrightarrow> b = None \<and> (\<forall>t \<in> set ts. task_status_is q f v t (\<lambda>r. ts_status (tr_state r) = Queued)))"
proof -
  have ok: "pdb_ok (q_plans q)" using assms(1) by (simp add: queue_ok_def)
  have fv: "pl_feature_id p = f" "pl_revision p = v" using assms(3) by (simp_all add: plan_key_def)
  obtain s where s: "repository_of (q_registry q) i = Inr (Some s)"
    "development_target q i = Inr (rp_development_target (sr_active_policy s))"
    using development_target_read [OF assms(1,5)] by blast
  let ?dev = "rp_development_target (sr_active_policy s)"
  let ?one = "\<lambda>t. and_then (task_prerequisites (q_plans q) f v t) (search_res (prerequisite_blocks q f v ts ?dev))"
  note task = task_outcome [OF ok assms(2,3), of _ ts ?dev]
  have named: "\<exists>x \<in> set (plan_tasks_of (pl_document p)). pt_id x = t" if "t \<in> set ts" for t
    using that assms(4) by auto
  have met: "milestones_met q p ts ?dev \<longleftrightarrow> (\<forall>x \<in> set (plan_tasks_of (pl_document p)). pt_id x \<in> set ts \<longrightarrow>
      edges_met q f v ts ?dev x)"
    by (simp add: milestones_met_def fv)
  have "\<exists>y. ?one t = Inr y" if "t \<in> set ts" for t using named [OF that] task(1) by metis
  then obtain b where b: "search_res ?one ts = Inr b" using search_res_total [of ts ?one] by blast
  have none: "b = None \<longleftrightarrow> milestones_met q p ts ?dev"
  proof -
    have "b = None \<longleftrightarrow> (\<forall>t \<in> set ts. ?one t = Inr None)" using search_res_None [of ?one ts] b by auto
    also have "\<dots> \<longleftrightarrow> (\<forall>x \<in> set (plan_tasks_of (pl_document p)). pt_id x \<in> set ts \<longrightarrow> ?one (pt_id x) = Inr None)"
      using named by fastforce
    also have "\<dots> \<longleftrightarrow> milestones_met q p ts ?dev"
      unfolding met by (rule ball_cong [OF refl]) (use task(1) in fastforce)
    finally show ?thesis .
  qed
  have some: "bp_task_id y \<notin> set ts
      \<and> \<not> task_status_is q f v (bp_task_id y) (\<lambda>r. milestone_is_met q (bp_task_id y) r (bp_milestone y) ?dev)"
    if y: "b = Some y" for y
  proof -
    obtain t where t: "t \<in> set ts" "?one t = Inr (Some y)" using search_res_Some [of ?one ts y] b y by auto
    then obtain x where "x \<in> set (plan_tasks_of (pl_document p))" "pt_id x = t" using named by blast
    then show ?thesis using task(1) [of x] t(2) by auto
  qed
  have ready: "and_then (task_prerequisites (q_plans q) f v t) (for_each (prerequisite_ready q f v ts ?dev t)) = Inr ()
      \<longleftrightarrow> ?one t = Inr None" if t: "t \<in> set ts" for t
  proof -
    obtain x where "x \<in> set (plan_tasks_of (pl_document p))" "pt_id x = t" using named [OF t] by blast
    then show ?thesis using task [of x] by auto
  qed
  have ens: "ensure_unit_is_eligible q
        \<lparr>ur_unit_id = j, ur_feature_id = f, ur_plan_revision = v, ur_task_ids = ts, ur_created_at = c\<rparr> i = Inr ()
      \<longleftrightarrow> b = None \<and> (\<forall>t \<in> set ts. task_status_is q f v t (\<lambda>r. ts_status (tr_state r) = Queued))" for j c
  proof -
    have "ensure_unit_is_eligible q
        \<lparr>ur_unit_id = j, ur_feature_id = f, ur_plan_revision = v, ur_task_ids = ts, ur_created_at = c\<rparr> i = Inr ()
      \<longleftrightarrow> (\<forall>t \<in> set ts. task_status_is q f v t (\<lambda>r. ts_status (tr_state r) = Queued)
            \<and> and_then (task_prerequisites (q_plans q) f v t) (for_each (prerequisite_ready q f v ts ?dev t)) = Inr ())"
    proof -
      have "and_then (task_of (q_plans q) f v t) (\<lambda>task.
        and_then (ok_or task e) (\<lambda>task.
        and_then (ensure (ts_status (tr_state task) = Queued) (g task)) (\<lambda>_. k))) = Inr ()
        \<longleftrightarrow> task_status_is q f v t (\<lambda>r. ts_status (tr_state r) = Queued) \<and> k = Inr ()" if t: "t \<in> set ts" for t e g and k :: "(store_error, unit) result"
      proof -
        obtain x where "x \<in> set (plan_tasks_of (pl_document p))" "pt_id x = t" using named [OF t] by blast
        then obtain r where "task_of (q_plans q) f v t = Inr (Some r)"
          using plan_task_read [OF ok assms(2)] fv by auto
        then show ?thesis by (simp add: task_status_is_def and_then_Inr_iff ensure_Inr_iff)
      qed
      then show ?thesis by (simp add: ensure_unit_is_eligible_def s(1) for_each_Inr_iff)
    qed
    also have "\<dots> \<longleftrightarrow> b = None \<and> (\<forall>t \<in> set ts. task_status_is q f v t (\<lambda>r. ts_status (tr_state r) = Queued))"
      using ready search_res_None [of ?one ts] b by auto
    finally show ?thesis .
  qed
  have "blocking_prerequisite_of q f v ts i = Inr b" using b by (simp add: blocking_prerequisite_of_def s(2))
  then show ?thesis using s(2) none some ens by blast
qed

theorem blocking_prerequisite_agrees:
  assumes "queue_ok q" and "p \<in> set (pdb_plans (q_plans q))" and "plan_key p = (f, v)"
    and "set ts \<subseteq> pt_id ` set (plan_tasks_of (pl_document p))" and "i \<in> repository_ids q"
  shows "\<exists>development b. development_target q i = Inr development \<and> blocking_prerequisite_of q f v ts i = Inr b
    \<and> (b = None \<longleftrightarrow> milestones_met q p ts development)
    \<and> (\<forall>y. b = Some y \<longrightarrow> bp_task_id y \<notin> set ts
         \<and> \<not> task_status_is q f v (bp_task_id y) (\<lambda>r. milestone_is_met q (bp_task_id y) r (bp_milestone y) development))
    \<and> (\<forall>j c. ensure_unit_is_eligible q
           \<lparr>ur_unit_id = j, ur_feature_id = f, ur_plan_revision = v, ur_task_ids = ts, ur_created_at = c\<rparr> i = Inr ()
         \<longleftrightarrow> b = None \<and> (\<forall>t \<in> set ts. task_status_is q f v t (\<lambda>r. ts_status (tr_state r) = Queued)))"
  by (rule unit_eligibility [OF assms])

end
