(* ===== verification/Slots.thy ===== *)
theory Slots
  imports Eligibility
begin

text \<open>
  Selected release times (\<open>crates/store/src/schedules.rs\<close>).

  A unit that may be released is given one time: the row of the time is written and every task of the
  unit moves from queued to scheduled, or nothing changes.  A time is never rewritten.  It is
  withdrawn, with a reason, as long as no attempt owns the unit, and the tasks that were waiting for
  it return to the queue.
\<close>

section \<open>Reading times\<close>

record schedule_slot =
  ss_unit_id :: release_unit_id
  ss_repository_id :: repository_id
  ss_package_id :: package_id
  ss_package_revision :: revision
  ss_policy_revision :: revision
  ss_timezone :: string
  ss_eligible_at :: int
  ss_selected_at :: int
  ss_created_at :: int
  ss_on_request :: bool

record repository_pause =
  rz_reason :: string
  rz_paused_at :: int

record schedule_recalculation =
  sc_withdrawn :: "release_unit_id list"
  sc_retained :: "release_unit_id list"

record withdrawn_slot =
  ws_selected_at :: int
  ws_invalidated_at :: "int option"
  ws_invalidated_reason :: "string option"

record new_schedule_slot =
  ns_unit_id :: release_unit_id
  ns_package_id :: package_id
  ns_package_revision :: revision
  ns_policy_revision :: revision
  ns_timezone :: string
  ns_eligible_at :: int
  ns_selected_at :: int
  ns_created_at :: int
  ns_on_request :: bool

definition slot_from_row :: "slot_row \<Rightarrow> schedule_slot" where
  "slot_from_row s =
     \<lparr>ss_unit_id = sl_unit_id s, ss_repository_id = sl_repository_id s, ss_package_id = sl_package_id s,
      ss_package_revision = sl_package_revision s, ss_policy_revision = sl_policy_revision s,
      ss_timezone = sl_timezone s, ss_eligible_at = sl_eligible_at s, ss_selected_at = sl_selected_at s,
      ss_created_at = sl_created_at s, ss_on_request = sl_on_request s\<rparr>"

definition schedule_slot_of :: "queue \<Rightarrow> release_unit_id \<Rightarrow> schedule_slot option" where
  "schedule_slot_of q i = map_option slot_from_row (find (\<lambda>s. sl_unit_id s = i \<and> sl_live s) (q_slots q))"

definition live_slot_unit_for_package :: "queue \<Rightarrow> package_id \<Rightarrow> revision \<Rightarrow> release_unit_id option" where
  "live_slot_unit_for_package q p v =
     map_option sl_unit_id (find (\<lambda>s. sl_package_id s = p \<and> sl_package_revision s = v \<and> sl_live s) (q_slots q))"

text \<open>\<open>ORDER BY selected_at, release_unit_id\<close>.\<close>

definition in_execution_order :: "queue \<Rightarrow> slot_row list \<Rightarrow> slot_row list" where
  "in_execution_order q rows =
     sort_key sl_selected_at (sort_key (\<lambda>s. id_display (q_text q) ReleaseUnitKind (sl_unit_id s)) rows)"

definition schedule_slots_of :: "queue \<Rightarrow> repository_id \<Rightarrow> schedule_slot list" where
  "schedule_slots_of q i =
     map slot_from_row (in_execution_order q (filter (\<lambda>s. sl_repository_id s = i \<and> sl_live s) (q_slots q)))"

definition overdue_schedule_slots :: "queue \<Rightarrow> repository_id \<Rightarrow> int \<Rightarrow> schedule_slot list" where
  "overdue_schedule_slots q i now =
     map slot_from_row (in_execution_order q
       (filter (\<lambda>s. sl_repository_id s = i \<and> sl_live s \<and> sl_selected_at s \<le> now) (q_slots q)))"

definition schedule_slot_history :: "queue \<Rightarrow> release_unit_id \<Rightarrow> withdrawn_slot list" where
  "schedule_slot_history q i =
     map (\<lambda>s. \<lparr>ws_selected_at = sl_selected_at s, ws_invalidated_at = sl_invalidated_at s,
                ws_invalidated_reason = sl_invalidated_reason s\<rparr>)
       (sort_key (\<lambda>s. - sl_created_at s) (filter (\<lambda>s. sl_unit_id s = i) (q_slots q)))"

definition repository_pause_of :: "queue \<Rightarrow> repository_id \<Rightarrow> repository_pause option" where
  "repository_pause_of q i =
     map_option (\<lambda>p. \<lparr>rz_reason = pz_reason p, rz_paused_at = pz_paused_at p\<rparr>)
       (find (\<lambda>p. pz_repository_id p = i) (q_pauses q))"

section \<open>Selecting a time\<close>

definition slot_validate :: "new_schedule_slot \<Rightarrow> (store_error, unit) result" where
  "slot_validate n =
     ensure (\<not> (ns_eligible_at n < 0 \<or> ns_selected_at n < ns_eligible_at n \<or> ns_created_at n < 0))
       (InvalidData ''schedule timestamps must be non-negative and selected time must not precede eligibility'')"

definition schedule_write_error :: "queue \<Rightarrow> store_error" where
  "schedule_write_error q = Conflict (''schedule slot rejected by storage rules: '' @ q_violation q)"

definition new_slot_row :: "new_schedule_slot \<Rightarrow> repository_id \<Rightarrow> slot_row" where
  "new_slot_row n i =
     \<lparr>sl_unit_id = ns_unit_id n, sl_repository_id = i, sl_package_id = ns_package_id n,
      sl_package_revision = ns_package_revision n, sl_policy_revision = ns_policy_revision n,
      sl_timezone = ns_timezone n, sl_eligible_at = ns_eligible_at n, sl_selected_at = ns_selected_at n,
      sl_created_at = ns_created_at n, sl_invalidated_at = None, sl_invalidated_reason = None,
      sl_on_request = ns_on_request n\<rparr>"

definition insert_slot :: "queue \<Rightarrow> slot_row \<Rightarrow> (store_error, queue) result" where
  "insert_slot q s =
     (if slots_ok q (q_slots q @ [s]) then Inr (q\<lparr>q_slots := q_slots q @ [s]\<rparr>) else Inl (schedule_write_error q))"

text \<open>\<open>UPDATE plan_tasks SET status = .. WHERE ..\<close> of exactly one row.\<close>

definition set_task_status ::
  "(task_row \<Rightarrow> bool) \<Rightarrow> string \<Rightarrow> int \<Rightarrow> store_error \<Rightarrow> queue \<Rightarrow> (store_error, queue) result" where
  "set_task_status cond status now failure q =
     (let db = q_plans q;
          rows = map (\<lambda>r. if cond r then r\<lparr>tk_status := status, tk_updated_at := now\<rparr> else r) (pdb_tasks db)
      in if \<not> tasks_ok db rows then Inl (Sqlite (q_violation q))
         else if length (filter cond (pdb_tasks db)) \<noteq> 1 then Inl failure
         else Inr (q\<lparr>q_plans := db\<lparr>pdb_tasks := rows\<rparr>\<rparr>))"

definition mark_scheduled :: "feature_id \<Rightarrow> revision \<Rightarrow> int \<Rightarrow> queue \<Rightarrow> task_id \<Rightarrow> (store_error, queue) result" where
  "mark_scheduled f v now q t =
     set_task_status
       (\<lambda>r. task_key r = (f, v, t) \<and> tk_status r = ''queued'' \<and> tk_reason r = None \<and> tk_blocked_from r = None)
       ''scheduled'' now
       (Conflict (''task '' @ id_display (q_text q) TaskKind t @ '' is no longer queued; schedule was not recorded'')) q"

definition record_slot ::
  "new_schedule_slot \<Rightarrow> release_unit_record \<Rightarrow> repository_id \<Rightarrow> queue \<Rightarrow> (store_error, queue \<times> unit) result" where
  "record_slot n u i q =
     and_then (insert_slot q (new_slot_row n i)) (\<lambda>q1.
     and_then (fold_res (mark_scheduled (ur_feature_id u) (ur_plan_revision u) (ns_created_at n)) q1 (ur_task_ids u)) (\<lambda>q2.
       Inr (q2, ())))"

text \<open>The reads before the transaction.\<close>

definition slot_request :: "new_schedule_slot \<Rightarrow> queue \<Rightarrow> (store_error, release_unit_record \<times> stored_plan) result option" where
  "slot_request n q =
     (case and_then (ok_or (release_unit_of q (ns_unit_id n)) (InvalidData ''release unit is not stored'')) (\<lambda>u.
        and_then (snapshot_of (q_packages q) (ns_package_id n) (ns_package_revision n)) (\<lambda>found.
        and_then (ok_or found (InvalidData ''snapshot package is not stored'')) (\<lambda>snapshot.
        and_then (ensure (sn_feature_id snapshot = ur_feature_id u \<and> sn_plan_revision snapshot = ur_plan_revision u)
          (Conflict ''scheduled package and release unit belong to different plan revisions'')) (\<lambda>_.
        and_then (ensure (bts_collect (package_task_ids (q_plans q) (ns_package_id n) (ns_package_revision n)) = ur_task_ids u)
          (Conflict ''scheduled package must deliver exactly the release unit's tasks'')) (\<lambda>_. Inr u))))) of
        Inl e \<Rightarrow> Some (Inl e)
      | Inr u \<Rightarrow>
          map_option (\<lambda>loaded.
            and_then loaded (\<lambda>found.
            and_then (ok_or found (InvalidData ''release unit plan is not stored'')) (\<lambda>plan.
            and_then (ensure_unit_is_eligible q u (fp_repository_id (stp_plan plan))) (\<lambda>_. Inr (u, plan)))))
          (plan_of (q_plans q) (ur_feature_id u) (Some (ur_plan_revision u))))"

definition persist_schedule_slot :: "new_schedule_slot \<Rightarrow> (queue, store_error, schedule_slot) cmd" where
  "persist_schedule_slot n =
     c_then (reading (\<lambda>_. slot_validate n)) (\<lambda>_.
     c_then (reading (\<lambda>q. Inr (schedule_slot_of q (ns_unit_id n)))) (\<lambda>found.
     case found of
       Some existing \<Rightarrow> c_return existing
     | None \<Rightarrow>
         c_then (reading_or_panic (slot_request n)) (\<lambda>(u, plan).
         c_then (writing (record_slot n u (fp_repository_id (stp_plan plan)))) (\<lambda>_.
         reading (\<lambda>q. ok_or (schedule_slot_of q (ns_unit_id n))
           (Conflict ''schedule slot disappeared after it was committed''))))))"

section \<open>Withdrawing a time\<close>

definition short_reason :: "string \<Rightarrow> string \<Rightarrow> (store_error, unit) result" where
  "short_reason what reason = ensure (\<not> (blank reason \<or> 256 < length reason))
     (InvalidData (what @ '' reason must be a short non-empty explanation''))"

text \<open>The tasks that return to the queue, or the task that an attempt owns.\<close>

definition task_withdrawn ::
  "queue \<Rightarrow> release_unit_record \<Rightarrow> task_id list \<Rightarrow> task_id \<Rightarrow> (store_error, task_id list) result" where
  "task_withdrawn q u withdrawn t =
     and_then (task_of (q_plans q) (ur_feature_id u) (ur_plan_revision u) t) (\<lambda>found.
     and_then (ok_or found (InvalidData (''release-unit task '' @ id_display (q_text q) TaskKind t @ '' is missing''))) (\<lambda>task.
     let status = ts_status (tr_state task)
     in if status = Scheduled then
          and_then (map_err (\<lambda>e. Conflict (transition_error_text e)) (ts_withdraw_schedule (tr_state task))) (\<lambda>_.
            Inr (withdrawn @ [t]))
        else if is_terminal status \<or> status = Blocked then Inr withdrawn
        else Inl (Conflict (''task '' @ id_display (q_text q) TaskKind t @ '' is '' @ debug_status status
          @ ''; a live attempt owns this unit and its schedule cannot be withdrawn''))))"

definition withdraw_slot :: "release_unit_id \<Rightarrow> string \<Rightarrow> int \<Rightarrow> queue \<Rightarrow> (store_error, queue) result" where
  "withdraw_slot i reason now q =
     (let cond = \<lambda>s. sl_unit_id s = i \<and> sl_live s;
          rows = map (\<lambda>s. if cond s then s\<lparr>sl_invalidated_at := Some now, sl_invalidated_reason := Some reason\<rparr> else s)
            (q_slots q)
      in if \<not> slots_ok q rows then Inl (Sqlite (q_violation q))
         else if length (filter cond (q_slots q)) \<noteq> 1 then
           Inl (Conflict ''schedule slot changed concurrently; re-read it before retrying'')
         else Inr (q\<lparr>q_slots := rows\<rparr>))"

definition mark_queued :: "feature_id \<Rightarrow> revision \<Rightarrow> int \<Rightarrow> queue \<Rightarrow> task_id \<Rightarrow> (store_error, queue) result" where
  "mark_queued f v now q t =
     set_task_status (\<lambda>r. task_key r = (f, v, t) \<and> tk_status r = ''scheduled'') ''queued'' now
       (Conflict (''task '' @ id_display (q_text q) TaskKind t
         @ '' left the scheduled state while its slot was being withdrawn'')) q"

definition invalidate_schedule_slot ::
  "release_unit_id \<Rightarrow> string \<Rightarrow> int \<Rightarrow> queue \<Rightarrow> (store_error, queue \<times> schedule_slot option) result" where
  "invalidate_schedule_slot i reason now q =
     and_then (short_reason ''schedule invalidation'' reason) (\<lambda>_.
     case schedule_slot_of q i of
       None \<Rightarrow> Inr (q, None)
     | Some slot \<Rightarrow>
         and_then (ok_or (release_unit_of q i) (InvalidData ''release unit is not stored'')) (\<lambda>u.
         and_then (fold_res (task_withdrawn q u) [] (ur_task_ids u)) (\<lambda>withdrawn.
         and_then (withdraw_slot i reason now q) (\<lambda>q1.
         and_then (fold_res (mark_queued (ur_feature_id u) (ur_plan_revision u) now) q1 withdrawn) (\<lambda>q2.
           Inr (q2, Some slot))))))"

text \<open>A conflict means an attempt owns the unit: it is kept and reported.\<close>

definition recalculate_slot ::
  "string \<Rightarrow> int \<Rightarrow> schedule_recalculation \<Rightarrow> schedule_slot \<Rightarrow> (queue, store_error, schedule_recalculation) cmd" where
  "recalculate_slot reason now outcome slot =
     c_match (writing (invalidate_schedule_slot (ss_unit_id slot) reason now)) (\<lambda>r.
       case r of
         Inr (Some _) \<Rightarrow> c_return (outcome\<lparr>sc_withdrawn := sc_withdrawn outcome @ [ss_unit_id slot]\<rparr>)
       | Inr None \<Rightarrow> c_return outcome
       | Inl (Conflict _) \<Rightarrow> c_return (outcome\<lparr>sc_retained := sc_retained outcome @ [ss_unit_id slot]\<rparr>)
       | Inl e \<Rightarrow> c_fail e)"

definition invalidate_repository_schedule ::
  "repository_id \<Rightarrow> string \<Rightarrow> int \<Rightarrow> (queue, store_error, schedule_recalculation) cmd" where
  "invalidate_repository_schedule i reason now =
     c_then (reading (\<lambda>q. Inr (schedule_slots_of q i))) (\<lambda>slots.
       c_fold (recalculate_slot reason now) \<lparr>sc_withdrawn = [], sc_retained = []\<rparr> slots)"

section \<open>Pausing and releasing on request\<close>

text \<open>\<open>INSERT .. ON CONFLICT DO UPDATE\<close>.\<close>

definition pause_repository :: "repository_id \<Rightarrow> string \<Rightarrow> int \<Rightarrow> queue \<Rightarrow> (store_error, queue \<times> unit) result" where
  "pause_repository i reason now q =
     and_then (short_reason ''pause'' reason) (\<lambda>_.
     let row = \<lparr>pz_repository_id = i, pz_reason = reason, pz_paused_at = now\<rparr>;
         rows = (if i \<in> pz_repository_id ` set (q_pauses q)
                 then map (\<lambda>p. if pz_repository_id p = i then row else p) (q_pauses q) else q_pauses q @ [row])
     in if pauses_ok q rows then Inr (q\<lparr>q_pauses := rows\<rparr>, ()) else Inl (schedule_write_error q))"

definition resume_repository :: "repository_id \<Rightarrow> queue \<Rightarrow> (store_error, queue \<times> bool) result" where
  "resume_repository i q =
     Inr (q\<lparr>q_pauses := filter (\<lambda>p. pz_repository_id p \<noteq> i) (q_pauses q)\<rparr>,
          length (filter (\<lambda>p. pz_repository_id p = i) (q_pauses q)) = 1)"

definition release_unit_now :: "release_unit_id \<Rightarrow> int \<Rightarrow> (queue, store_error, schedule_slot) cmd" where
  "release_unit_now i now =
     c_then (reading (\<lambda>q. ok_or (schedule_slot_of q i) (InvalidData ''release unit has no live schedule slot''))) (\<lambda>existing.
     c_then (writing (invalidate_schedule_slot i ''released on request'' now)) (\<lambda>_.
     persist_schedule_slot
       \<lparr>ns_unit_id = i, ns_package_id = ss_package_id existing, ns_package_revision = ss_package_revision existing,
        ns_policy_revision = ss_policy_revision existing, ns_timezone = ss_timezone existing,
        ns_eligible_at = now, ns_selected_at = now, ns_created_at = now, ns_on_request = True\<rparr>))"

section \<open>Moving the tasks of a unit\<close>

text \<open>Rows that each take a step of the lifecycle keep everything the plan tables promise.\<close>

lemma rows_step_ok:
  assumes "pdb_ok db" and "tasks_ok db (map h (pdb_tasks db))"
    and "\<And>x. x \<in> set (pdb_tasks db) \<Longrightarrow> h x = x \<or> (\<exists>st st'. row_holds x st \<and> ts_step st st' \<and> h x = moved_row st' n x)"
  shows "pdb_ok (db\<lparr>pdb_tasks := map h (pdb_tasks db)\<rparr>)" and "plan_grows db (db\<lparr>pdb_tasks := map h (pdb_tasks db)\<rparr>)"
proof -
  let ?db = "db\<lparr>pdb_tasks := map h (pdb_tasks db)\<rparr>"
  have same: "task_key (h x) = task_key x \<and> tk_task_id (h x) = tk_task_id x \<and> tk_name (h x) = tk_name x
      \<and> tk_feature_id (h x) = tk_feature_id x \<and> tk_plan_revision (h x) = tk_plan_revision x" if "x \<in> set (pdb_tasks db)" for x
    using assms(3) [OF that] by auto
  have follows: "task_follows x (h x)" if x: "x \<in> set (pdb_tasks db)" for x
    using assms(3) [OF x]
  proof
    assume "\<exists>st st'. row_holds x st \<and> ts_step st st' \<and> h x = moved_row st' n x"
    then obtain st st' where st: "row_holds x st" "ts_step st st'" "h x = moved_row st' n x" by blast
    have "ts_reachable st'" using st(1,2) by (auto simp: row_holds_def intro: ts_reachable.step)
    then have "row_holds (h x) st'" unfolding st(3) by (rule moved_row_holds)
    then have "\<forall>s. row_holds x s \<longrightarrow> (\<exists>s'. row_holds (h x) s' \<and> rtranclp ts_step s s')"
      using st(2) row_holds_unique [OF st(1)] r_into_rtranclp [of ts_step] by metis
    then show ?thesis using same [OF x] by (simp add: task_follows_def)
  qed simp
  have follow: "tasks_follow db ?db"
    unfolding tasks_follow_grows_iff using follows by (simp add: grows_map)
  have keys: "map task_key (map h (pdb_tasks db)) = map task_key (pdb_tasks db)" using same by simp
  then have key_set: "task_key ` set (map h (pdb_tasks db)) = task_key ` set (pdb_tasks db)" by (metis list.set_map)
  have "projected ?db x = projected db x" for x
  proof -
    have "map (\<lambda>k. (tk_task_id k, tk_name k)) (filter P (map h rs)) = map (\<lambda>k. (tk_task_id k, tk_name k)) (filter P rs)"
      if "\<And>k. k \<in> set rs \<Longrightarrow> P (h k) = P k" "set rs \<subseteq> set (pdb_tasks db)" for P rs
      using that same by (induction rs) auto
    then have "map (\<lambda>k. (tk_task_id k, tk_name k)) (tasks_at ?db k) = map (\<lambda>k. (tk_task_id k, tk_name k)) (tasks_at db k)" for k
      using same by (simp add: tasks_at_def)
    then show ?thesis by (simp add: projected_def edges_at_def)
  qed
  moreover have "list_all (\<lambda>r. \<exists>st. row_holds r st) (map h (pdb_tasks db))"
    using assms(1) follows by (fastforce simp: pdb_ok_def list_all_iff task_follows_def)
  moreover have "edges_ok ?db (pdb_edges ?db)"
    by (rule edges_ok_tasks [of db]) (use assms(1) key_set in \<open>auto simp: pdb_ok_def\<close>)
  moreover have "tasks_ok ?db (pdb_tasks ?db)" using assms(2) by (simp add: tasks_ok_def)
  ultimately show "pdb_ok ?db"
    using assms(1) by (simp add: pdb_ok_def plans_ok_def package_tasks_ok_def plans_of_feature_def list_all_iff)
  show "plan_grows db ?db" using follow by (simp add: plan_grows_def)
qed

definition move_tasks ::
  "feature_id \<Rightarrow> revision \<Rightarrow> task_id set \<Rightarrow> task_status \<Rightarrow> int \<Rightarrow> task_row list \<Rightarrow> task_row list" where
  "move_tasks f v ts status now =
     map (\<lambda>r. if tk_feature_id r = f \<and> tk_plan_revision r = v \<and> tk_task_id r \<in> ts then moved_row (plain status) now r else r)"

definition tasks_held :: "plan_db \<Rightarrow> feature_id \<Rightarrow> revision \<Rightarrow> task_id set \<Rightarrow> task_status \<Rightarrow> bool" where
  "tasks_held db f v ts status \<longleftrightarrow>
     (\<forall>t \<in> ts. \<exists>r \<in> set (pdb_tasks db). task_key r = (f, v, t) \<and> row_holds r (plain status))"

lemma move_tasks_Nil [simp]: "move_tasks f v {} status now rows = rows"
  by (simp add: move_tasks_def)

lemma move_tasks_insert:
  "move_tasks f v {t} status now (move_tasks f v ts status now rows) = move_tasks f v (insert t ts) status now rows"
  by (auto simp: move_tasks_def moved_row_def)

lemma set_task_status_Inr:
  "set_task_status cond status now e q = Inr q' \<longleftrightarrow>
     (let rows = map (\<lambda>r. if cond r then r\<lparr>tk_status := status, tk_updated_at := now\<rparr> else r) (pdb_tasks (q_plans q))
      in tasks_ok (q_plans q) rows \<and> length (filter cond (pdb_tasks (q_plans q))) = 1
         \<and> q' = q\<lparr>q_plans := (q_plans q)\<lparr>pdb_tasks := rows\<rparr>\<rparr>)"
  by (auto simp: set_task_status_def Let_def)

lemma set_status_is_step:
  assumes "pdb_ok (q_plans q)" and "set_task_status cond (status_column target) now e q = Inr q'"
    and "\<And>r st. r \<in> set (pdb_tasks (q_plans q)) \<Longrightarrow> cond r \<Longrightarrow> row_holds r st \<Longrightarrow> st = plain source"
    and "ts_step (plain source) (plain target)"
  shows "pdb_ok (q_plans q') \<and> plan_grows (q_plans q) (q_plans q') \<and> (\<exists>db. q' = q\<lparr>q_plans := db\<rparr>)"
proof -
  let ?h = "\<lambda>r. if cond r then r\<lparr>tk_status := status_column target, tk_updated_at := now\<rparr> else r"
  have upd: "tasks_ok (q_plans q) (map ?h (pdb_tasks (q_plans q)))"
    "q' = q\<lparr>q_plans := (q_plans q)\<lparr>pdb_tasks := map ?h (pdb_tasks (q_plans q))\<rparr>\<rparr>"
    using assms(2) by (simp_all add: set_task_status_Inr Let_def)
  have "?h x = x \<or> (\<exists>st st'. row_holds x st \<and> ts_step st st' \<and> ?h x = moved_row st' now x)"
    if x: "x \<in> set (pdb_tasks (q_plans q))" for x
  proof (cases "cond x")
    case True
    obtain st where st: "row_holds x st" using assms(1) x by (auto simp: pdb_ok_def list_all_iff)
    then have "st = plain source" using assms(3) x True by blast
    then have "row_holds x (plain source)" "x\<lparr>tk_status := status_column target, tk_updated_at := now\<rparr> = moved_row (plain target) now x"
      using st by (simp_all add: row_holds_def plain_def moved_row_def)
    then show ?thesis using True assms(4) by auto
  qed simp
  then show ?thesis using rows_step_ok [OF assms(1) upd(1)] upd(2) by auto
qed

lemma plain_held: "row_holds r st \<Longrightarrow> tk_status r = status_column s \<Longrightarrow> normal_successor s \<noteq> None \<Longrightarrow> st = plain s"
  using ordinary_state [of st] by (auto simp: row_holds_def)

lemma schedule_steps: "ts_step (plain Queued) (plain Scheduled)" "ts_step (plain Scheduled) (plain Queued)"
  by (rule ts_step.transition [OF ordinary_transition], simp)
     (rule ts_step.withdraw, simp add: ts_withdraw_schedule_def plain_def)

lemma mark_scheduled_step:
  assumes "pdb_ok (q_plans q)" and "mark_scheduled f v now q t = Inr q'"
  shows "pdb_ok (q_plans q') \<and> plan_grows (q_plans q) (q_plans q') \<and> (\<exists>db. q' = q\<lparr>q_plans := db\<rparr>)"
proof (rule set_status_is_step [OF assms(1) _ _ schedule_steps(1)])
  show "set_task_status (\<lambda>r. task_key r = (f, v, t) \<and> tk_status r = ''queued'' \<and> tk_reason r = None \<and> tk_blocked_from r = None)
      (status_column Scheduled) now (Conflict (''task '' @ id_display (q_text q) TaskKind t
        @ '' is no longer queued; schedule was not recorded'')) q = Inr q'"
    using assms(2) by (simp add: mark_scheduled_def)
qed (simp add: plain_held [of _ _ Queued])

lemma mark_queued_step:
  assumes "pdb_ok (q_plans q)" and "mark_queued f v now q t = Inr q'"
  shows "pdb_ok (q_plans q') \<and> plan_grows (q_plans q) (q_plans q') \<and> (\<exists>db. q' = q\<lparr>q_plans := db\<rparr>)"
proof (rule set_status_is_step [OF assms(1) _ _ schedule_steps(2)])
  show "set_task_status (\<lambda>r. task_key r = (f, v, t) \<and> tk_status r = ''scheduled'') (status_column Queued) now
      (Conflict (''task '' @ id_display (q_text q) TaskKind t
        @ '' left the scheduled state while its slot was being withdrawn'')) q = Inr q'"
    using assms(2) by (simp add: mark_queued_def)
qed (simp add: plain_held [of _ _ Scheduled])

lemma marks_step:
  assumes "\<And>q t q'. pdb_ok (q_plans q) \<Longrightarrow> mark q t = Inr q'
      \<Longrightarrow> pdb_ok (q_plans q') \<and> plan_grows (q_plans q) (q_plans q') \<and> (\<exists>db. q' = q\<lparr>q_plans := db\<rparr>)"
    and "pdb_ok (q_plans q)" and "fold_res mark q ts = Inr q'"
  shows "pdb_ok (q_plans q') \<and> plan_grows (q_plans q) (q_plans q') \<and> (\<exists>db. q' = q\<lparr>q_plans := db\<rparr>)"
  using assms(2,3)
proof (induction ts arbitrary: q)
  case Nil
  then show ?case by (auto intro: exI [of _ "q_plans q"])
next
  case (Cons t ts)
  obtain q1 where q1: "mark q t = Inr q1" "fold_res mark q1 ts = Inr q'" using Cons.prems(2) by (auto simp: res)
  note one = assms(1) [OF Cons.prems(1) q1(1)]
  note rest = Cons.IH [OF conjunct1 [OF one] q1(2)]
  then show ?case using one by (auto intro: plan_grows_trans)
qed

lemma marks_scheduled_step:
  assumes "pdb_ok (q_plans q)" and "fold_res (mark_scheduled f v now) q ts = Inr q'"
  shows "pdb_ok (q_plans q') \<and> plan_grows (q_plans q) (q_plans q') \<and> (\<exists>db. q' = q\<lparr>q_plans := db\<rparr>)"
  using _ assms by (rule marks_step) (rule mark_scheduled_step)

lemma marks_queued_step:
  assumes "pdb_ok (q_plans q)" and "fold_res (mark_queued f v now) q ts = Inr q'"
  shows "pdb_ok (q_plans q') \<and> plan_grows (q_plans q) (q_plans q') \<and> (\<exists>db. q' = q\<lparr>q_plans := db\<rparr>)"
  using _ assms by (rule marks_step) (rule mark_queued_step)

text \<open>A task that holds the status the call expects is moved, and no other.\<close>

abbreviation moved :: "queue \<Rightarrow> feature_id \<Rightarrow> revision \<Rightarrow> task_id set \<Rightarrow> task_status \<Rightarrow> int \<Rightarrow> queue" where
  "moved q f v ts status now \<equiv>
     q\<lparr>q_plans := (q_plans q)\<lparr>pdb_tasks := move_tasks f v ts status now (pdb_tasks (q_plans q))\<rparr>\<rparr>"

lemma set_status_moves:
  assumes "pdb_ok (q_plans q)" and "r \<in> set (pdb_tasks (q_plans q))" and "task_key r = (f, v, t)"
    and "row_holds r (plain source)" and "0 \<le> now" and "target \<noteq> Blocked"
    and "\<And>x. cond x \<Longrightarrow> task_key x = (f, v, t)" and "cond r"
  shows "set_task_status cond (status_column target) now e q = Inr (moved q f v {t} target now)"
proof -
  let ?rows = "pdb_tasks (q_plans q)"
  have uniq: "x = r" if "x \<in> set ?rows" "task_key x = (f, v, t)" for x
    using that assms(2,3) by (intro one_task [OF assms(1)]) simp_all
  have cols: "tk_reason r = None" "tk_blocked_from r = None" using assms(4) by (simp_all add: row_holds_def plain_def)
  have rows: "map (\<lambda>x. if cond x then x\<lparr>tk_status := status_column target, tk_updated_at := now\<rparr> else x) ?rows
      = move_tasks f v {t} target now ?rows"
    unfolding move_tasks_def
  proof (rule map_cong [OF refl])
    fix x assume x: "x \<in> set ?rows"
    show "(if cond x then x\<lparr>tk_status := status_column target, tk_updated_at := now\<rparr> else x)
        = (if tk_feature_id x = f \<and> tk_plan_revision x = v \<and> tk_task_id x \<in> {t} then moved_row (plain target) now x else x)"
    proof (cases "task_key x = (f, v, t)")
      case True
      then have "x = r" using uniq x by blast
      then show ?thesis using True assms(8) cols by (simp add: moved_row_def plain_def task_key_def)
    next
      case False
      then show ?thesis using assms(7) [of x] by (auto simp: task_key_def)
    qed
  qed
  have "filter cond ?rows = filter (\<lambda>x. task_key x = task_key r) ?rows"
    by (rule filter_cong) (use uniq assms(3,7,8) in auto)
  also have "\<dots> = [r]" using filter_unique [of task_key, OF _ assms(2)] assms(1) by (simp add: pdb_ok_def tasks_ok_def)
  finally have one: "length (filter cond ?rows) = 1" by simp
  have "tasks_ok (q_plans q) ?rows" using assms(1) by (simp add: pdb_ok_def)
  then have "tasks_ok (q_plans q) (move_tasks f v {t} target now ?rows)"
    unfolding move_tasks_def by (rule tasks_ok_moved [OF _ assms(5,6)])
  then show ?thesis using one rows by (simp add: set_task_status_Inr Let_def)
qed

lemma marks_move:
  assumes "\<And>q t r. pdb_ok (q_plans q) \<Longrightarrow> r \<in> set (pdb_tasks (q_plans q)) \<Longrightarrow> task_key r = (f, v, t)
      \<Longrightarrow> row_holds r (plain source) \<Longrightarrow> mark q t = Inr (moved q f v {t} target now)"
    and "\<And>q t q'. pdb_ok (q_plans q) \<Longrightarrow> mark q t = Inr q' \<Longrightarrow> pdb_ok (q_plans q')"
    and "pdb_ok (q_plans q)" and "tasks_held (q_plans q) f v (set ts) source" and "distinct ts"
  shows "fold_res mark q ts = Inr (moved q f v (set ts) target now)"
  using assms(3-5)
proof (induction ts arbitrary: q)
  case Nil
  then show ?case by simp
next
  case (Cons t ts)
  obtain r where r: "r \<in> set (pdb_tasks (q_plans q))" "task_key r = (f, v, t)" "row_holds r (plain source)"
    using Cons.prems(2) by (auto simp: tasks_held_def)
  have one: "mark q t = Inr (moved q f v {t} target now)" by (rule assms(1) [OF Cons.prems(1) r])
  have "tasks_held (q_plans (moved q f v {t} target now)) f v (set ts) source"
    unfolding tasks_held_def
  proof
    fix t' assume t': "t' \<in> set ts"
    then obtain r' where r': "r' \<in> set (pdb_tasks (q_plans q))" "task_key r' = (f, v, t')" "row_holds r' (plain source)"
      using Cons.prems(2) by (auto simp: tasks_held_def)
    have "t' \<noteq> t" using t' Cons.prems(3) by auto
    then have "r' \<in> set (move_tasks f v {t} target now (pdb_tasks (q_plans q)))"
      using r'(1,2) unfolding move_tasks_def by (force simp: task_key_def)
    then show "\<exists>r' \<in> set (pdb_tasks (q_plans (moved q f v {t} target now))). task_key r' = (f, v, t') \<and> row_holds r' (plain source)"
      using r' by auto
  qed
  then have "fold_res mark (moved q f v {t} target now) ts = Inr (moved (moved q f v {t} target now) f v (set ts) target now)"
    using Cons.IH [of "moved q f v {t} target now"] assms(2) [OF Cons.prems(1) one] Cons.prems(3) by simp
  moreover have "move_tasks f v (set ts) target now (move_tasks f v {t} target now rows) = move_tasks f v (set (t # ts)) target now rows" for rows
    by (auto simp: move_tasks_def moved_row_def)
  ultimately show ?case using one by simp
qed

lemma mark_scheduled_moves:
  assumes "pdb_ok (q_plans q)" and "r \<in> set (pdb_tasks (q_plans q))" and "task_key r = (f, v, t)"
    and "row_holds r (plain Queued)" and "0 \<le> now"
  shows "mark_scheduled f v now q t = Inr (moved q f v {t} Scheduled now)"
proof -
  have "tk_status r = ''queued''" "tk_reason r = None" "tk_blocked_from r = None"
    using assms(4) by (simp_all add: row_holds_def plain_def)
  then show ?thesis
    using set_status_moves [OF assms, of Scheduled "\<lambda>r. task_key r = (f, v, t) \<and> tk_status r = ''queued'' \<and> tk_reason r = None
      \<and> tk_blocked_from r = None"] assms(3) by (simp add: mark_scheduled_def)
qed

lemma mark_queued_moves:
  assumes "pdb_ok (q_plans q)" and "r \<in> set (pdb_tasks (q_plans q))" and "task_key r = (f, v, t)"
    and "row_holds r (plain Scheduled)" and "0 \<le> now"
  shows "mark_queued f v now q t = Inr (moved q f v {t} Queued now)"
proof -
  have "tk_status r = ''scheduled''" using assms(4) by (simp add: row_holds_def plain_def)
  then show ?thesis
    using set_status_moves [OF assms, of Queued "\<lambda>r. task_key r = (f, v, t) \<and> tk_status r = ''scheduled''"] assms(3)
    by (simp add: mark_queued_def)
qed

section \<open>A time is selected for a unit that may be released, and for no other\<close>

lemma unit_read:
  assumes "queue_ok q"
  shows "release_unit_of q i = Some u \<longleftrightarrow> (\<exists>x \<in> set (q_units q). un_unit_id x = i
    \<and> u = \<lparr>ur_unit_id = i, ur_feature_id = un_feature_id x, ur_plan_revision = un_plan_revision x,
           ur_task_ids = bts_collect (members q i), ur_created_at = un_created_at x\<rparr>)"
proof -
  have collect: "bts_collect (order_by_task db id xs) = bts_collect xs" for db and xs :: "task_id list"
    by (rule bts_ext) (simp_all add: bts_collect_sorted)
  have found: "find (\<lambda>x. un_unit_id x = i) (q_units q) = Some x \<longleftrightarrow> x \<in> set (q_units q) \<and> un_unit_id x = i" for x
    using unit_row_found [of q x] find_Some_in [of "\<lambda>x. un_unit_id x = i" "q_units q" x] assms
    by (auto simp: queue_ok_def)
  show ?thesis unfolding release_unit_of_def map_option_eq_Some found collect by blast
qed

lemma plan_read:
  assumes "pdb_ok db" and "p \<in> set (pdb_plans db)" and "plan_key p = (f, v)"
  shows "plan_of db f (Some v) = Some (Inr (Some \<lparr>stp_plan = pl_document p, stp_created_at = pl_created_at p\<rparr>))"
    and "fp_repository_id (pl_document p) = pl_repository_id p"
    and "pl_repository_id p \<in> rr_id ` set (rg_repositories (pdb_registry db))"
proof -
  have fv: "pl_feature_id p = f" "pl_revision p = v" using assms(3) by (simp_all add: plan_key_def)
  show "plan_of db f (Some v) = Some (Inr (Some \<lparr>stp_plan = pl_document p, stp_created_at = pl_created_at p\<rparr>))"
    using plan_row_at [OF assms(1,2)] load_stored_plan [OF assms(1,2)] fv
    by (simp add: plan_of_def newest_plan_def eq_commute [of v])
  show "fp_repository_id (pl_document p) = pl_repository_id p"
    using assms(1,2) by (simp add: pdb_ok_def list_all_iff plan_row_valid_def)
  show "pl_repository_id p \<in> rr_id ` set (rg_repositories (pdb_registry db))"
    using assms(1,2) by (simp add: pdb_ok_def plans_ok_def list_all_iff)
qed

lemma snapshot_read:
  assumes "packages_ok plans k"
  shows "\<exists>found. snapshot_of k p v = Inr found
    \<and> (\<forall>s. found = Some s \<longleftrightarrow> s \<in> set (kd_snapshots k) \<and> snapshot_key s = (p, v))"
proof -
  have "snapshots_ok (workspace_key ` set (kd_workspaces k)) (kd_snapshots k)" using assms by (simp add: packages_ok_def)
  then have d: "distinct (map snapshot_key (kd_snapshots k))" by (simp add: snapshots_ok_def)
  have found: "find (\<lambda>s. snapshot_key s = (p, v)) (kd_snapshots k) = Some s
      \<longleftrightarrow> s \<in> set (kd_snapshots k) \<and> snapshot_key s = (p, v)" for s
    using filter_unique [OF d, of s] find_Some_in [of "\<lambda>s. snapshot_key s = (p, v)" "kd_snapshots k" s]
    by (auto simp: find_filter)
  show ?thesis
  proof (cases "find (\<lambda>s. snapshot_key s = (p, v)) (kd_snapshots k)")
    case None
    then show ?thesis using found by (simp add: snapshot_of_def load_optional_def)
  next
    case (Some s)
    then have "snapshot_validate s = Inr ()" using assms found by (auto simp: packages_ok_def list_all_iff)
    then have "snapshot_of k p v = Inr (Some s)" using Some by (simp add: snapshot_of_def load_optional_def load_snapshot_def)
    moreover have "\<forall>s'. Some s = Some s' \<longleftrightarrow> s' \<in> set (kd_snapshots k) \<and> snapshot_key s' = (p, v)"
      using found unfolding Some by blast
    ultimately show ?thesis by blast
  qed
qed

lemma tasks_held_iff:
  assumes "pdb_ok db" and "normal_successor status \<noteq> None"
  shows "tasks_held db f v ts status
    \<longleftrightarrow> (\<forall>t \<in> ts. \<exists>r. task_of db f v t = Inr (Some r) \<and> ts_status (tr_state r) = status)"
proof -
  have "(\<exists>r \<in> set (pdb_tasks db). task_key r = (f, v, t) \<and> row_holds r (plain status))
      \<longleftrightarrow> (\<exists>r. task_of db f v t = Inr (Some r) \<and> ts_status (tr_state r) = status)" for t
  proof
    assume "\<exists>r \<in> set (pdb_tasks db). task_key r = (f, v, t) \<and> row_holds r (plain status)"
    then obtain r where r: "r \<in> set (pdb_tasks db)" "task_key r = (f, v, t)" "row_holds r (plain status)" by blast
    have "filter (\<lambda>x. task_key x = task_key r) (pdb_tasks db) = [r]"
      by (rule filter_unique [OF _ r(1)]) (use assms(1) in \<open>simp add: pdb_ok_def tasks_ok_def\<close>)
    then have "find (\<lambda>x. task_key x = (f, v, t)) (pdb_tasks db) = Some r" using r(2) by (simp add: find_filter)
    then have "task_of db f v t = Inr (Some (record_of r (plain status)))"
      using r(3) by (auto simp: task_of_def res task_from_row_Inr)
    then show "\<exists>r. task_of db f v t = Inr (Some r) \<and> ts_status (tr_state r) = status" by (simp add: plain_def)
  next
    assume "\<exists>r. task_of db f v t = Inr (Some r) \<and> ts_status (tr_state r) = status"
    then obtain r st where r: "find (\<lambda>x. task_key x = (f, v, t)) (pdb_tasks db) = Some r" "row_holds r st" "ts_status st = status"
      by (auto simp: task_of_def res task_from_row_Inr split: option.splits)
    then have "st = plain status" using ordinary_state [of st] assms(2) by (auto simp: row_holds_def)
    then show "\<exists>r \<in> set (pdb_tasks db). task_key r = (f, v, t) \<and> row_holds r (plain status)"
      using r find_Some_in [OF r(1)] by blast
  qed
  then show ?thesis by (simp add: tasks_held_def)
qed

text \<open>The reads accept exactly the units that may be released.\<close>

lemma slot_request_total:
  assumes "queue_ok q"
  shows "slot_request n q \<noteq> None"
proof -
  have ok: "pdb_ok (q_plans q)" using assms by (simp add: queue_ok_def)
  have "plan_of (q_plans q) (ur_feature_id u) (Some (ur_plan_revision u)) \<noteq> None"
    if u: "release_unit_of q (ns_unit_id n) = Some u" for u
  proof -
    obtain x where x: "x \<in> set (q_units q)" "ur_feature_id u = un_feature_id x" "ur_plan_revision u = un_plan_revision x"
      using u [unfolded unit_read [OF assms]] by auto
    then have "(un_feature_id x, un_plan_revision x) \<in> plan_key ` set (pdb_plans (q_plans q))"
      using assms by (simp add: queue_ok_def units_ok_def list_all_iff)
    then obtain p where "p \<in> set (pdb_plans (q_plans q))" "plan_key p = (un_feature_id x, un_plan_revision x)" by (metis imageE)
    then show ?thesis using plan_read(1) [OF ok] x(2,3) by simp
  qed
  then show ?thesis by (auto simp: slot_request_def and_then_Inr_iff ok_or_Inr_iff split: sum.splits)
qed

text \<open>The unit is stored, the package carries exactly its tasks, every task is queued and the prerequisites
  outside the unit have reached their milestones.\<close>

definition request_ok :: "queue \<Rightarrow> new_schedule_slot \<Rightarrow> unit_row \<Rightarrow> plan_row \<Rightarrow> bool" where
  "request_ok q n x p \<longleftrightarrow>
     x \<in> set (q_units q) \<and> un_unit_id x = ns_unit_id n
     \<and> p \<in> set (pdb_plans (q_plans q)) \<and> plan_key p = (un_feature_id x, un_plan_revision x)
     \<and> (\<exists>s \<in> set (kd_snapshots (q_packages q)). snapshot_key s = (ns_package_id n, ns_package_revision n)
          \<and> (sn_feature_id s, sn_plan_revision s) = plan_key p)
     \<and> set (package_task_ids (q_plans q) (ns_package_id n) (ns_package_revision n)) = set (members q (ns_unit_id n))
     \<and> tasks_held (q_plans q) (un_feature_id x) (un_plan_revision x) (set (members q (ns_unit_id n))) Queued
     \<and> (\<exists>development. development_target q (pl_repository_id p) = Inr development
          \<and> milestones_met q p (bts_collect (members q (ns_unit_id n))) development)"

lemma unit_members_planned:
  assumes "queue_ok q" and "x \<in> set (q_units q)" and "p \<in> set (pdb_plans (q_plans q))"
    and "plan_key p = (un_feature_id x, un_plan_revision x)"
  shows "set (members q (un_unit_id x)) \<subseteq> pt_id ` set (plan_tasks_of (pl_document p))"
proof
  fix t assume "t \<in> set (members q (un_unit_id x))"
  then obtain r where r: "r \<in> set (q_unit_tasks q)" "ut_unit_id r = un_unit_id x" "ut_task_id r = t"
    unfolding members_iff by blast
  have "unit_formed q x" "unit_tasks_ok q (q_unit_tasks q)" and ok: "pdb_ok (q_plans q)"
    using assms(1,2) by (simp_all add: queue_ok_def units_formed_def list_all_iff)
  then have "ut_feature_id r = un_feature_id x" "ut_plan_revision r = un_plan_revision x"
    "(ut_feature_id r, ut_plan_revision r, t) \<in> task_key ` set (pdb_tasks (q_plans q))"
    using r unfolding unit_formed_def unit_tasks_ok_def list_all_iff by blast+
  then have "t \<in> tk_task_id ` set (tasks_at (q_plans q) (plan_key p))"
    by (force simp: task_key_def tasks_at_def assms(4))
  moreover have "map fst (map (\<lambda>k. (tk_task_id k, tk_name k)) (tasks_at (q_plans q) (plan_key p)))
      = map fst (map (\<lambda>t. (pt_id t, pt_name t)) (plan_tasks_of (pl_document p)))"
    using ok assms(3) by (simp add: pdb_ok_def list_all_iff projected_def)
  then have "map tk_task_id (tasks_at (q_plans q) (plan_key p)) = map pt_id (plan_tasks_of (pl_document p))"
    by (simp add: comp_def)
  then have "tk_task_id ` set (tasks_at (q_plans q) (plan_key p)) = pt_id ` set (plan_tasks_of (pl_document p))"
    by (metis list.set_map)
  ultimately show "t \<in> pt_id ` set (plan_tasks_of (pl_document p))" by simp
qed

lemma slot_request_Inr:
  assumes "queue_ok q"
  shows "slot_request n q = Some (Inr (u, plan)) \<longleftrightarrow>
    (\<exists>x p. request_ok q n x p
       \<and> u = \<lparr>ur_unit_id = ns_unit_id n, ur_feature_id = un_feature_id x, ur_plan_revision = un_plan_revision x,
              ur_task_ids = bts_collect (members q (ns_unit_id n)), ur_created_at = un_created_at x\<rparr>
       \<and> plan = \<lparr>stp_plan = pl_document p, stp_created_at = pl_created_at p\<rparr>)"
    (is "?l \<longleftrightarrow> (\<exists>x p. request_ok q n x p \<and> u = ?u x \<and> plan = ?plan p)")
proof -
  have ok: "pdb_ok (q_plans q)" and packages: "packages_ok (plan_key ` set (pdb_plans (q_plans q))) (q_packages q)"
    using assms by (simp_all add: queue_ok_def pdb_ok_def)
  let ?pk = "(ns_package_id n, ns_package_revision n)"
  have eligible: "ensure_unit_is_eligible q (?u x) (pl_repository_id p) = Inr ()
      \<longleftrightarrow> tasks_held (q_plans q) (un_feature_id x) (un_plan_revision x) (set (members q (ns_unit_id n))) Queued
        \<and> (\<exists>development. development_target q (pl_repository_id p) = Inr development
          \<and> milestones_met q p (bts_collect (members q (ns_unit_id n))) development)"
    if x: "x \<in> set (q_units q)" "un_unit_id x = ns_unit_id n"
      and p: "p \<in> set (pdb_plans (q_plans q))" "plan_key p = (un_feature_id x, un_plan_revision x)" for x p
  proof -
    have sub: "set (bts_collect (members q (ns_unit_id n))) \<subseteq> pt_id ` set (plan_tasks_of (pl_document p))"
      using unit_members_planned [OF assms x(1) p] x(2) by simp
    obtain development b where b: "development_target q (pl_repository_id p) = Inr development"
      "b = None \<longleftrightarrow> milestones_met q p (bts_collect (members q (ns_unit_id n))) development"
      "ensure_unit_is_eligible q (?u x) (pl_repository_id p) = Inr ()
        \<longleftrightarrow> b = None \<and> (\<forall>t \<in> set (bts_collect (members q (ns_unit_id n))).
            task_status_is q (un_feature_id x) (un_plan_revision x) t (\<lambda>r. ts_status (tr_state r) = Queued))"
      using unit_eligibility [OF assms p sub plan_read(3) [OF ok p]] by blast
    have "tasks_held (q_plans q) (un_feature_id x) (un_plan_revision x) (set (members q (ns_unit_id n))) Queued
      \<longleftrightarrow> (\<forall>t \<in> set (bts_collect (members q (ns_unit_id n))).
            task_status_is q (un_feature_id x) (un_plan_revision x) t (\<lambda>r. ts_status (tr_state r) = Queued))"
      by (simp add: tasks_held_iff [OF ok] task_status_is_iff)
    then show ?thesis using b by auto
  qed
  obtain found where found: "snapshot_of (q_packages q) (ns_package_id n) (ns_package_revision n) = Inr found"
    "\<And>s. found = Some s \<longleftrightarrow> s \<in> set (kd_snapshots (q_packages q)) \<and> snapshot_key s = ?pk"
    using snapshot_read [OF packages] by blast
  have tasks: "bts_collect (package_task_ids (q_plans q) (ns_package_id n) (ns_package_revision n)) = bts_collect (members q (ns_unit_id n))
      \<longleftrightarrow> set (package_task_ids (q_plans q) (ns_package_id n) (ns_package_revision n)) = set (members q (ns_unit_id n))"
    using bts_ext [OF bts_collect_sorted bts_collect_sorted] by (metis set_bts_collect)
  let ?reads = "and_then (ok_or (release_unit_of q (ns_unit_id n)) (InvalidData ''release unit is not stored'')) (\<lambda>u.
        and_then (snapshot_of (q_packages q) (ns_package_id n) (ns_package_revision n)) (\<lambda>found.
        and_then (ok_or found (InvalidData ''snapshot package is not stored'')) (\<lambda>snapshot.
        and_then (ensure (sn_feature_id snapshot = ur_feature_id u \<and> sn_plan_revision snapshot = ur_plan_revision u)
          (Conflict ''scheduled package and release unit belong to different plan revisions'')) (\<lambda>_.
        and_then (ensure (bts_collect (package_task_ids (q_plans q) (ns_package_id n) (ns_package_revision n)) = ur_task_ids u)
          (Conflict ''scheduled package must deliver exactly the release unit's tasks'')) (\<lambda>_. Inr u)))))"
  have reads: "?reads = Inr u' \<longleftrightarrow> (\<exists>x \<in> set (q_units q). un_unit_id x = ns_unit_id n \<and> u' = ?u x
      \<and> (\<exists>s \<in> set (kd_snapshots (q_packages q)). snapshot_key s = ?pk
          \<and> (sn_feature_id s, sn_plan_revision s) = (un_feature_id x, un_plan_revision x))
      \<and> set (package_task_ids (q_plans q) (ns_package_id n) (ns_package_revision n)) = set (members q (ns_unit_id n)))" for u'
  proof -
    have "?reads = Inr u' \<longleftrightarrow> (\<exists>s. release_unit_of q (ns_unit_id n) = Some u' \<and> found = Some s
        \<and> sn_feature_id s = ur_feature_id u' \<and> sn_plan_revision s = ur_plan_revision u'
        \<and> bts_collect (package_task_ids (q_plans q) (ns_package_id n) (ns_package_revision n)) = ur_task_ids u')"
      by (auto simp: res found(1))
    also have "\<dots> \<longleftrightarrow> (\<exists>x \<in> set (q_units q). un_unit_id x = ns_unit_id n \<and> u' = ?u x
        \<and> (\<exists>s. s \<in> set (kd_snapshots (q_packages q)) \<and> snapshot_key s = ?pk
          \<and> sn_feature_id s = un_feature_id x \<and> sn_plan_revision s = un_plan_revision x)
        \<and> bts_collect (package_task_ids (q_plans q) (ns_package_id n) (ns_package_revision n)) = bts_collect (members q (ns_unit_id n)))"
      unfolding found(2) unit_read [OF assms] by (rule iffI; clarsimp; blast)
    finally show ?thesis unfolding tasks by (simp add: Bex_def conj_ac)
  qed
  have plan_stored: "\<exists>p \<in> set (pdb_plans (q_plans q)). plan_key p = (un_feature_id x, un_plan_revision x)"
    if "x \<in> set (q_units q)" for x
    using assms that by (simp add: queue_ok_def units_ok_def list_all_iff) (metis imageE)
  have plan_uniq: "p' = p" if "p \<in> set (pdb_plans (q_plans q))" "p' \<in> set (pdb_plans (q_plans q))" "plan_key p' = plan_key p" for p p'
    using that ok by (intro one_plan) simp_all
  show ?thesis
  proof
    assume l: ?l
    then obtain u' where u': "?reads = Inr u'" unfolding slot_request_def by (auto split: sum.splits)
    then obtain x where x: "x \<in> set (q_units q)" "un_unit_id x = ns_unit_id n" "u' = ?u x"
      "\<exists>s \<in> set (kd_snapshots (q_packages q)). snapshot_key s = ?pk
          \<and> (sn_feature_id s, sn_plan_revision s) = (un_feature_id x, un_plan_revision x)"
      "set (package_task_ids (q_plans q) (ns_package_id n) (ns_package_revision n)) = set (members q (ns_unit_id n))"
      unfolding reads by blast
    obtain p where p: "p \<in> set (pdb_plans (q_plans q))" "plan_key p = (un_feature_id x, un_plan_revision x)"
      using plan_stored [OF x(1)] by blast
    note plan = plan_read [OF ok p]
    have "and_then (ensure_unit_is_eligible q (?u x) (pl_repository_id p)) (\<lambda>_. Inr (?u x, ?plan p)) = Inr (u, plan)"
      using l unfolding slot_request_def u' by (simp add: x(3) plan)
    then have "ensure_unit_is_eligible q (?u x) (pl_repository_id p) = Inr ()" "u = ?u x" "plan = ?plan p"
      by (auto simp: res)
    then show "\<exists>x p. request_ok q n x p \<and> u = ?u x \<and> plan = ?plan p"
      using x p eligible [OF x(1,2) p] unfolding request_ok_def by metis
  next
    assume "\<exists>x p. request_ok q n x p \<and> u = ?u x \<and> plan = ?plan p"
    then obtain x p where xp: "request_ok q n x p" "u = ?u x" "plan = ?plan p" by blast
    then have x: "x \<in> set (q_units q)" "un_unit_id x = ns_unit_id n"
      and p: "p \<in> set (pdb_plans (q_plans q))" "plan_key p = (un_feature_id x, un_plan_revision x)"
      unfolding request_ok_def by blast+
    have "?reads = Inr (?u x)" unfolding reads using xp(1) unfolding request_ok_def by metis
    moreover have "ensure_unit_is_eligible q (?u x) (pl_repository_id p) = Inr ()"
      using eligible [OF x p] xp(1) unfolding request_ok_def by blast
    ultimately show ?l unfolding slot_request_def by (simp add: plan_read [OF ok p] xp(2,3))
  qed
qed

text \<open>The package has no time yet either.\<close>

definition schedulable :: "queue \<Rightarrow> new_schedule_slot \<Rightarrow> unit_row \<Rightarrow> plan_row \<Rightarrow> bool" where
  "schedulable q n x p \<longleftrightarrow> request_ok q n x p
     \<and> live_slot_unit_for_package q (ns_package_id n) (ns_package_revision n) = None \<and> \<not> sql_blank (ns_timezone n)"

definition with_slot :: "queue \<Rightarrow> new_schedule_slot \<Rightarrow> repository_id \<Rightarrow> queue" where
  "with_slot q n i = q\<lparr>q_slots := q_slots q @ [new_slot_row n i]\<rparr>"

lemma new_slot_row_sel [simp]:
  "sl_unit_id (new_slot_row n i) = ns_unit_id n" "sl_live (new_slot_row n i)"
  "sl_package_id (new_slot_row n i) = ns_package_id n" "sl_package_revision (new_slot_row n i) = ns_package_revision n"
  "sl_repository_id (new_slot_row n i) = i" "sl_selected_at (new_slot_row n i) = ns_selected_at n"
  by (simp_all add: new_slot_row_def sl_live_def)

lemma insert_slot_iff:
  assumes "queue_ok q" and "slot_validate n = Inr ()" and "schedule_slot_of q (ns_unit_id n) = None"
    and "ns_unit_id n \<in> unit_ids q" and "i \<in> repository_ids q" and "(ns_package_id n, ns_package_revision n) \<in> package_keys q"
  shows "insert_slot q (new_slot_row n i) =
    (if live_slot_unit_for_package q (ns_package_id n) (ns_package_revision n) = None \<and> \<not> sql_blank (ns_timezone n)
     then Inr (with_slot q n i) else Inl (schedule_write_error q))"
proof -
  have ok: "slots_ok q (q_slots q)" using assms(1) by (simp add: queue_ok_def)
  have unit: "ns_unit_id n \<notin> sl_unit_id ` set (filter sl_live (q_slots q))"
    using assms(3) by (auto simp: schedule_slot_of_def find_None_iff)
  have package: "live_slot_unit_for_package q (ns_package_id n) (ns_package_revision n) = None
      \<longleftrightarrow> (ns_package_id n, ns_package_revision n) \<notin> (\<lambda>s. (sl_package_id s, sl_package_revision s)) ` set (filter sl_live (q_slots q))"
    by (force simp: live_slot_unit_for_package_def find_None_iff)
  have checks: "0 \<le> ns_eligible_at n" "ns_eligible_at n \<le> ns_selected_at n" "0 \<le> ns_created_at n"
    using assms(2) by (auto simp: slot_validate_def ensure_Inr_iff)
  have row: "list_all P (q_slots q @ [r]) \<longleftrightarrow> list_all P (q_slots q) \<and> P r" for P r by simp
  have "slots_ok q (q_slots q @ [new_slot_row n i]) \<longleftrightarrow>
      live_slot_unit_for_package q (ns_package_id n) (ns_package_revision n) = None \<and> \<not> sql_blank (ns_timezone n)"
    unfolding package using ok unit checks assms(4-6)
    unfolding slots_ok_def row by (auto simp: slot_row_ok_def new_slot_row_def sl_live_def)
  then show ?thesis by (simp add: insert_slot_def with_slot_def)
qed

lemma persist_schedule_slot_outcome:
  assumes "queue_ok q" and "schedule_slot_of q (ns_unit_id n) = None"
  shows "\<exists>r q'. persist_schedule_slot n q = Some (r, q')
    \<and> (case r of
         Inl e \<Rightarrow> q' = q \<and> \<not> (slot_validate n = Inr () \<and> (\<exists>x p. schedulable q n x p))
       | Inr slot \<Rightarrow> slot_validate n = Inr () \<and> (\<exists>x p. schedulable q n x p
           \<and> slot = slot_from_row (new_slot_row n (pl_repository_id p))
           \<and> q' = moved (with_slot q n (pl_repository_id p)) (un_feature_id x) (un_plan_revision x)
                (set (members q (ns_unit_id n))) Scheduled (ns_created_at n)))"
proof (cases "slot_validate n")
  case (Inl e)
  then show ?thesis by (simp add: persist_schedule_slot_def then_reading)
next
  case (Inr y)
  then have valid: "slot_validate n = Inr ()" by simp
  have ok: "pdb_ok (q_plans q)" using assms(1) by (simp add: queue_ok_def)
  obtain r where r: "slot_request n q = Some r" using slot_request_total [OF assms(1)] by blast
  have start: "persist_schedule_slot n q =
      c_then (reading_or_panic (slot_request n)) (\<lambda>(u, plan).
         c_then (writing (record_slot n u (fp_repository_id (stp_plan plan)))) (\<lambda>_.
         reading (\<lambda>q. ok_or (schedule_slot_of q (ns_unit_id n))
           (Conflict ''schedule slot disappeared after it was committed'')))) q"
    using valid assms(2) by (simp add: persist_schedule_slot_def then_reading)
  show ?thesis
  proof (cases r)
    case (Inl e)
    then have "\<nexists>x p. request_ok q n x p" using r slot_request_Inr [OF assms(1), of n] by fastforce
    then show ?thesis using r Inl unfolding start by (auto simp: run_then reading_or_panic_def schedulable_def)
  next
    case (Inr z)
    obtain u plan where z: "z = (u, plan)" by (cases z)
    then obtain x p where xp: "request_ok q n x p"
      and u: "u = \<lparr>ur_unit_id = ns_unit_id n, ur_feature_id = un_feature_id x, ur_plan_revision = un_plan_revision x,
              ur_task_ids = bts_collect (members q (ns_unit_id n)), ur_created_at = un_created_at x\<rparr>"
      and plan: "plan = \<lparr>stp_plan = pl_document p, stp_created_at = pl_created_at p\<rparr>"
      using r Inr slot_request_Inr [OF assms(1)] by blast
    have x: "x \<in> set (q_units q)" "un_unit_id x = ns_unit_id n"
      and p: "p \<in> set (pdb_plans (q_plans q))" "plan_key p = (un_feature_id x, un_plan_revision x)"
      and held: "tasks_held (q_plans q) (un_feature_id x) (un_plan_revision x) (set (members q (ns_unit_id n))) Queued"
      using xp unfolding request_ok_def by blast+
    have key: "(ns_package_id n, ns_package_revision n) \<in> package_keys q"
      using xp unfolding request_ok_def by (metis image_eqI)
    have repository: "fp_repository_id (stp_plan plan) = pl_repository_id p" "pl_repository_id p \<in> repository_ids q"
      using plan_read(2,3) [OF ok p] by (simp_all add: plan)
    let ?free = "live_slot_unit_for_package q (ns_package_id n) (ns_package_revision n) = None \<and> \<not> sql_blank (ns_timezone n)"
    let ?q = "with_slot q n (pl_repository_id p)"
    have insert: "insert_slot q (new_slot_row n (pl_repository_id p))
        = (if ?free then Inr ?q else Inl (schedule_write_error q))"
      by (rule insert_slot_iff [OF assms(1) valid assms(2) _ repository(2) key]) (use x in \<open>metis image_eqI\<close>)
    have rest: "persist_schedule_slot n q =
        c_then (writing (record_slot n u (pl_repository_id p))) (\<lambda>_.
         reading (\<lambda>q. ok_or (schedule_slot_of q (ns_unit_id n))
           (Conflict ''schedule slot disappeared after it was committed''))) q"
      unfolding start by (simp add: then_reading_or_panic r Inr z repository)
    show ?thesis
    proof (cases ?free)
      case True
      have created: "0 \<le> ns_created_at n" using valid by (auto simp: slot_validate_def ensure_Inr_iff)
      let ?moved = "moved ?q (un_feature_id x) (un_plan_revision x) (set (members q (ns_unit_id n))) Scheduled (ns_created_at n)"
      have "fold_res (mark_scheduled (un_feature_id x) (un_plan_revision x) (ns_created_at n)) ?q (bts_collect (members q (ns_unit_id n)))
          = Inr (moved ?q (un_feature_id x) (un_plan_revision x) (set (bts_collect (members q (ns_unit_id n)))) Scheduled (ns_created_at n))"
      proof (rule marks_move [where source = Queued])
        show "pdb_ok (q_plans ?q)" "tasks_held (q_plans ?q) (un_feature_id x) (un_plan_revision x)
            (set (bts_collect (members q (ns_unit_id n)))) Queued"
          using ok held by (simp_all add: with_slot_def)
        show "distinct (bts_collect (members q (ns_unit_id n)))" by (rule bts_sorted_distinct) (rule bts_collect_sorted)
      qed (auto intro: mark_scheduled_moves created dest: mark_scheduled_step)
      then have w: "record_slot n u (pl_repository_id p) q = Inr (?moved, ())"
        using insert True by (simp add: record_slot_def u)
      have "find (\<lambda>s. sl_unit_id s = ns_unit_id n \<and> sl_live s) (q_slots q) = None"
        using assms(2) by (simp add: schedule_slot_of_def)
      then have "schedule_slot_of ?moved (ns_unit_id n) = Some (slot_from_row (new_slot_row n (pl_repository_id p)))"
        by (simp add: schedule_slot_of_def with_slot_def find_append)
      then have "persist_schedule_slot n q = Some (Inr (slot_from_row (new_slot_row n (pl_repository_id p))), ?moved)"
        unfolding rest then_writing w by (simp add: run_reading)
      then show ?thesis using valid xp True by (auto simp: schedulable_def)
    next
      case False
      then have w: "record_slot n u (pl_repository_id p) q = Inl (schedule_write_error q)"
        unfolding record_slot_def insert using False by (simp only: if_False and_then.simps)
      have "persist_schedule_slot n q = Some (Inl (schedule_write_error q), q)"
        unfolding rest then_writing w by simp
      moreover have "\<nexists>x p. schedulable q n x p" using False by (simp add: schedulable_def)
      ultimately show ?thesis by simp
    qed
  qed
qed

text \<open>Every call keeps what the tables promise.\<close>

lemma schedulable_placed:
  assumes "queue_ok q" and "schedulable q n x p"
  shows "slots_placed (with_slot q n (pl_repository_id p))"
proof -
  have x: "x \<in> set (q_units q)" "un_unit_id x = ns_unit_id n"
    and p: "p \<in> set (pdb_plans (q_plans q))" "plan_key p = (un_feature_id x, un_plan_revision x)"
    using assms(2) unfolding schedulable_def request_ok_def by blast+
  have "units_ok q (q_units q)" "pdb_ok (q_plans q)" using assms(1) by (simp_all add: queue_ok_def)
  then have "u = x" if "u \<in> set (q_units q)" "un_unit_id u = ns_unit_id n" for u
    using that x by (intro one_unit [of q "q_units q"]) simp_all
  moreover have "p' = p" if "p' \<in> set (pdb_plans (q_plans q))" "plan_key p' = plan_key p" for p'
    using that p(1) by (intro one_plan [OF \<open>pdb_ok (q_plans q)\<close>]) simp_all
  ultimately have new: "pl_repository_id p' = pl_repository_id p"
    if "u \<in> set (q_units q)" "un_unit_id u = ns_unit_id n" "p' \<in> set (pdb_plans (q_plans q))"
      "plan_key p' = (un_feature_id u, un_plan_revision u)" for u p'
    using that p(2) by metis
  have "slots_placed q" using assms(1) by (simp add: queue_ok_def)
  then show ?thesis using new unfolding slots_placed_def with_slot_def by auto
qed

lemma persist_schedule_slot_stays: "stays queue_moves (persist_schedule_slot n)"
  unfolding stays_def queue_moves_def
proof (intro allI impI)
  fix q r q' assume run: "persist_schedule_slot n q = Some (r, q')" and q: "queue_ok q"
  show "queue_ok q' \<and> queue_follows q q'"
  proof (cases "schedule_slot_of q (ns_unit_id n)")
    case (Some s)
    then have "q' = q" using run by (auto simp: persist_schedule_slot_def then_reading run_return split: sum.splits)
    then show ?thesis using q queue_follows_refl by simp
  next
    case None
    note out = persist_schedule_slot_outcome [OF q None]
    show ?thesis
    proof (cases r)
      case (Inl e)
      then show ?thesis using out run q queue_follows_refl by auto
    next
      case (Inr slot)
      then obtain x p where valid: "slot_validate n = Inr ()" and xp: "schedulable q n x p"
        and q': "q' = moved (with_slot q n (pl_repository_id p)) (un_feature_id x) (un_plan_revision x)
                (set (members q (ns_unit_id n))) Scheduled (ns_created_at n)"
        using out run by auto
      let ?q = "with_slot q n (pl_repository_id p)"
      have x: "x \<in> set (q_units q)" "un_unit_id x = ns_unit_id n"
        and p: "p \<in> set (pdb_plans (q_plans q))" "plan_key p = (un_feature_id x, un_plan_revision x)"
        and free: "live_slot_unit_for_package q (ns_package_id n) (ns_package_revision n) = None \<and> \<not> sql_blank (ns_timezone n)"
        and held: "tasks_held (q_plans q) (un_feature_id x) (un_plan_revision x) (set (members q (ns_unit_id n))) Queued"
        using xp unfolding schedulable_def request_ok_def by blast+
      have key: "(ns_package_id n, ns_package_revision n) \<in> package_keys q"
        using xp unfolding schedulable_def request_ok_def by (metis image_eqI)
      have ok: "pdb_ok (q_plans q)" using q by (simp add: queue_ok_def)
      have "ns_unit_id n \<in> unit_ids q" using x by (metis image_eqI)
      then have "insert_slot q (new_slot_row n (pl_repository_id p)) = Inr ?q"
        using insert_slot_iff [OF q valid None _ plan_read(3) [OF ok p] key] free by simp
      then have "slots_ok q (q_slots ?q)" by (simp add: insert_slot_def with_slot_def split: if_splits)
      then have one: "queue_ok ?q \<and> queue_follows q ?q"
        using change_slots [OF q, of "q_slots ?q"] schedulable_placed [OF q xp]
        by (simp add: with_slot_def grows_append grows_refl)
      have marks: "fold_res (mark_scheduled (un_feature_id x) (un_plan_revision x) (ns_created_at n)) ?q (bts_collect (members q (ns_unit_id n)))
          = Inr (moved ?q (un_feature_id x) (un_plan_revision x) (set (bts_collect (members q (ns_unit_id n)))) Scheduled (ns_created_at n))"
      proof (rule marks_move [where source = Queued])
        show "pdb_ok (q_plans ?q)" "tasks_held (q_plans ?q) (un_feature_id x) (un_plan_revision x)
            (set (bts_collect (members q (ns_unit_id n)))) Queued"
          using ok held by (simp_all add: with_slot_def)
        show "distinct (bts_collect (members q (ns_unit_id n)))" by (rule bts_sorted_distinct) (rule bts_collect_sorted)
      qed (use valid in \<open>auto simp: slot_validate_def ensure_Inr_iff intro: mark_scheduled_moves dest: mark_scheduled_step\<close>)
      have "pdb_ok (q_plans ?q)" using one by (simp add: queue_ok_def)
      then have "pdb_ok (q_plans q') \<and> plan_grows (q_plans ?q) (q_plans q')"
        using marks_scheduled_step [OF _ marks] by (simp add: q')
      then have "queue_ok q' \<and> queue_follows ?q q'"
        using change_plans [of ?q "q_plans q'"] one by (simp add: q')
      then show ?thesis using one queue_follows_trans by blast
    qed
  qed
qed

end
