(* ===== verification/Withdrawals.thy ===== *)
theory Withdrawals
  imports Slots
begin

text \<open>
  What withdrawing a time does (\<open>invalidate_schedule_slot\<close>, \<open>release_unit_now\<close> and the pauses of
  \<open>crates/store/src/schedules.rs\<close>).

  A withdrawal succeeds unless an attempt owns a task of the unit; it marks the one live row and
  returns the scheduled tasks to the queue.  Blocked and finished tasks stay as they are.
\<close>

section \<open>The tasks of a withdrawn unit\<close>

definition at_work :: "task_record \<Rightarrow> bool" where
  "at_work r \<longleftrightarrow> ts_status (tr_state r) \<noteq> Scheduled \<and> \<not> is_terminal (ts_status (tr_state r))
     \<and> ts_status (tr_state r) \<noteq> Blocked"

lemma tasks_withdrawn:
  assumes "pdb_ok (q_plans q)"
    and "\<And>t. t \<in> set ts \<Longrightarrow> \<exists>r. task_of (q_plans q) (ur_feature_id u) (ur_plan_revision u) t = Inr (Some r)"
  shows "if \<exists>t \<in> set ts. task_status_is q (ur_feature_id u) (ur_plan_revision u) t at_work
    then \<exists>e. fold_res (task_withdrawn q u) acc ts = Inl (Conflict e)
    else fold_res (task_withdrawn q u) acc ts
      = Inr (acc @ filter (\<lambda>t. task_status_is q (ur_feature_id u) (ur_plan_revision u) t
          (\<lambda>r. ts_status (tr_state r) = Scheduled)) ts)"
  using assms(2)
proof (induction ts arbitrary: acc)
  case Nil
  then show ?case by simp
next
  case (Cons t ts)
  obtain r where r: "task_of (q_plans q) (ur_feature_id u) (ur_plan_revision u) t = Inr (Some r)"
    using Cons.prems by auto
  have stat: "task_status_is q (ur_feature_id u) (ur_plan_revision u) t P \<longleftrightarrow> P r" for P
    by (simp add: task_status_is_def r)
  note IH = Cons.IH [OF Cons.prems [OF list.set_intros(2)]]
  show ?case
  proof (cases "at_work r")
    case True
    then have "\<exists>e. task_withdrawn q u acc t = Inl (Conflict e)"
      by (auto simp: task_withdrawn_def r at_work_def Let_def)
    then show ?thesis using True stat by auto
  next
    case False
    have "task_withdrawn q u acc t = Inr (acc @ (if ts_status (tr_state r) = Scheduled then [t] else []))"
    proof (cases "ts_status (tr_state r) = Scheduled")
      case True
      then have "\<exists>st'. ts_withdraw_schedule (tr_state r) = Inr st'" by (simp add: ts_withdraw_schedule_def)
      then show ?thesis using True by (auto simp: task_withdrawn_def r Let_def)
    next
      case not_scheduled: False
      then show ?thesis using False by (auto simp: task_withdrawn_def r Let_def at_work_def)
    qed
    then show ?thesis using IH [of "acc @ (if ts_status (tr_state r) = Scheduled then [t] else [])"] False stat by auto
  qed
qed

section \<open>The row\<close>

definition withdrawn_row :: "string \<Rightarrow> int \<Rightarrow> slot_row \<Rightarrow> slot_row" where
  "withdrawn_row reason now s = s\<lparr>sl_invalidated_at := Some now, sl_invalidated_reason := Some reason\<rparr>"

definition without_slot :: "queue \<Rightarrow> release_unit_id \<Rightarrow> string \<Rightarrow> int \<Rightarrow> queue" where
  "without_slot q i reason now =
     q\<lparr>q_slots := map (\<lambda>s. if sl_unit_id s = i \<and> sl_live s then withdrawn_row reason now s else s) (q_slots q)\<rparr>"

lemma withdrawn_row_sel [simp]:
  "sl_unit_id (withdrawn_row reason now s) = sl_unit_id s" "\<not> sl_live (withdrawn_row reason now s)"
  "sl_repository_id (withdrawn_row reason now s) = sl_repository_id s"
  "sl_selected_at (withdrawn_row reason now s) = sl_selected_at s"
  by (simp_all add: withdrawn_row_def sl_live_def)

lemma without_slot_plans [simp]: "q_plans (without_slot q i reason now) = q_plans q" "q_units (without_slot q i reason now) = q_units q"
  "q_unit_tasks (without_slot q i reason now) = q_unit_tasks q"
  by (simp_all add: without_slot_def)

lemma live_rows_without:
  "filter sl_live (q_slots (without_slot q i reason now)) = filter (\<lambda>s. sl_live s \<and> sl_unit_id s \<noteq> i) (q_slots q)"
proof -
  have "filter sl_live (map (\<lambda>s. if sl_unit_id s = i \<and> sl_live s then withdrawn_row reason now s else s) rows)
      = filter (\<lambda>s. sl_live s \<and> sl_unit_id s \<noteq> i) rows" for rows
    by (induction rows) auto
  then show ?thesis by (simp add: without_slot_def)
qed

lemma distinct_filter_more: "distinct (map f (filter P xs)) \<Longrightarrow> distinct (map f (filter (\<lambda>x. P x \<and> Q x) xs))"
proof -
  assume "distinct (map f (filter P xs))"
  then have "distinct (map f (filter Q (filter P xs)))" by (rule distinct_map_filter)
  then show ?thesis by (simp add: conj_commute)
qed

lemma withdraw_slot_ok:
  assumes "queue_ok q" and "0 \<le> now" and "\<not> blank reason" and "schedule_slot_of q i = Some slot"
  shows "withdraw_slot i reason now q = Inr (without_slot q i reason now)"
    and "queue_ok (without_slot q i reason now) \<and> queue_follows q (without_slot q i reason now)"
proof -
  let ?h = "\<lambda>s. if sl_unit_id s = i \<and> sl_live s then withdrawn_row reason now s else s"
  have ok: "slots_ok q (q_slots q)" using assms(1) by (simp add: queue_ok_def)
  have rows: "map (\<lambda>s. if sl_unit_id s = i \<and> sl_live s then s\<lparr>sl_invalidated_at := Some now, sl_invalidated_reason := Some reason\<rparr> else s)
      (q_slots q) = q_slots (without_slot q i reason now)"
    by (simp add: without_slot_def withdrawn_row_def)
  have live: "filter sl_live (q_slots (without_slot q i reason now)) = filter (\<lambda>s. sl_live s \<and> sl_unit_id s \<noteq> i) (q_slots q)"
    by (rule live_rows_without)
  have spaced: "\<not> sql_blank reason" using assms(3) sql_blank_blank by blast
  have all: "slot_row_ok q s" if "s \<in> set (q_slots q)" for s using ok that unfolding slots_ok_def list_all_iff by blast
  have "slot_row_ok q (?h s)" if "s \<in> set (q_slots q)" for s
    using all [OF that] assms(2) spaced by (cases "sl_unit_id s = i \<and> sl_live s") (auto simp: withdrawn_row_def slot_row_ok_def)
  then have "list_all (slot_row_ok q) (map ?h (q_slots q))" unfolding list_all_iff list.set_map by blast
  then have new_ok: "slots_ok q (q_slots (without_slot q i reason now))"
    using ok unfolding slots_ok_def live by (auto simp: without_slot_def intro: distinct_filter_more)
  obtain s where s: "s \<in> set (q_slots q)" "sl_unit_id s = i" "sl_live s"
    using assms(4) by (auto simp: schedule_slot_of_def dest: find_Some_in)
  have "distinct (map sl_unit_id (filter sl_live (q_slots q)))" using ok by (simp add: slots_ok_def)
  then have "filter (\<lambda>x. sl_unit_id x = sl_unit_id s) (filter sl_live (q_slots q)) = [s]"
    by (rule filter_unique) (use s in simp)
  then have "length (filter (\<lambda>s. sl_unit_id s = i \<and> sl_live s) (q_slots q)) = 1" using s(2) by (simp add: conj_commute)
  then show "withdraw_slot i reason now q = Inr (without_slot q i reason now)"
    unfolding withdraw_slot_def Let_def rows using new_ok by (simp add: without_slot_def withdrawn_row_def)
  have "slots_placed (q\<lparr>q_slots := q_slots (without_slot q i reason now)\<rparr>)"
    using assms(1) by (auto simp: queue_ok_def slots_placed_def without_slot_def)
  moreover have "grows slot_follows (q_slots q) (q_slots (without_slot q i reason now))"
    unfolding without_slot_def by (auto intro!: grows_map simp: slot_follows_def withdrawn_row_def)
  ultimately show "queue_ok (without_slot q i reason now) \<and> queue_follows q (without_slot q i reason now)"
    using change_slots [OF assms(1) new_ok] by (simp add: without_slot_def)
qed

section \<open>Withdrawing\<close>

text \<open>The tasks of a unit that wait for its time.\<close>

definition waiting_tasks :: "queue \<Rightarrow> unit_row \<Rightarrow> task_id set" where
  "waiting_tasks q x = {t \<in> set (members q (un_unit_id x)).
     task_status_is q (un_feature_id x) (un_plan_revision x) t (\<lambda>r. ts_status (tr_state r) = Scheduled)}"

lemma invalidate_outcome:
  assumes "queue_ok q" and "0 \<le> now" and "short_reason ''schedule invalidation'' reason = Inr ()"
    and "schedule_slot_of q i = Some slot"
  shows "\<exists>x \<in> set (q_units q). un_unit_id x = i \<and>
    (if \<exists>t \<in> set (members q i). task_status_is q (un_feature_id x) (un_plan_revision x) t at_work
     then \<exists>e. invalidate_schedule_slot i reason now q = Inl (Conflict e)
     else invalidate_schedule_slot i reason now q
       = Inr (moved (without_slot q i reason now) (un_feature_id x) (un_plan_revision x) (waiting_tasks q x) Queued now, Some slot))"
proof -
  have ok: "pdb_ok (q_plans q)" "slots_ok q (q_slots q)" "units_ok q (q_units q)"
    using assms(1) by (simp_all add: queue_ok_def)
  obtain s where "s \<in> set (q_slots q)" "sl_unit_id s = i"
    using assms(4) by (auto simp: schedule_slot_of_def dest: find_Some_in)
  then obtain x where x: "x \<in> set (q_units q)" "un_unit_id x = i"
    using ok(2) by (auto simp: slots_ok_def slot_row_ok_def list_all_iff)
  define u where "u = \<lparr>ur_unit_id = i, ur_feature_id = un_feature_id x, ur_plan_revision = un_plan_revision x,
    ur_task_ids = bts_collect (members q i), ur_created_at = un_created_at x\<rparr>"
  have read: "release_unit_of q i = Some u" unfolding unit_read [OF assms(1)] using x by (auto simp: u_def)
  obtain p where p: "p \<in> set (pdb_plans (q_plans q))" "plan_key p = (un_feature_id x, un_plan_revision x)"
    using ok(3) x(1) by (simp add: units_ok_def list_all_iff) (metis imageE)
  have tasks: "\<exists>r. task_of (q_plans q) (ur_feature_id u) (ur_plan_revision u) t = Inr (Some r)" if "t \<in> set (ur_task_ids u)" for t
  proof -
    have "t \<in> pt_id ` set (plan_tasks_of (pl_document p))"
      using that unit_members_planned [OF assms(1) x(1) p] x(2) by (auto simp: u_def)
    then show ?thesis using plan_task_read [OF ok(1) p(1)] p(2) by (auto simp: u_def plan_key_def)
  qed
  have reason: "\<not> blank reason" using assms(3) by (auto simp: short_reason_def ensure_Inr_iff)
  note slot = withdraw_slot_ok [OF assms(1,2) reason assms(4)]
  have start: "invalidate_schedule_slot i reason now q =
      and_then (fold_res (task_withdrawn q u) [] (ur_task_ids u)) (\<lambda>withdrawn.
      and_then (fold_res (mark_queued (ur_feature_id u) (ur_plan_revision u) now) (without_slot q i reason now) withdrawn) (\<lambda>q2.
        Inr (q2, Some slot)))"
    by (simp add: invalidate_schedule_slot_def assms(3,4) read slot(1))
  have fold: "if \<exists>t \<in> set (ur_task_ids u). task_status_is q (ur_feature_id u) (ur_plan_revision u) t at_work
    then \<exists>e. fold_res (task_withdrawn q u) [] (ur_task_ids u) = Inl (Conflict e)
    else fold_res (task_withdrawn q u) [] (ur_task_ids u)
      = Inr ([] @ filter (\<lambda>t. task_status_is q (ur_feature_id u) (ur_plan_revision u) t
          (\<lambda>r. ts_status (tr_state r) = Scheduled)) (ur_task_ids u))"
    by (rule tasks_withdrawn [OF ok(1) tasks])
  show ?thesis
  proof (cases "\<exists>t \<in> set (members q i). task_status_is q (un_feature_id x) (un_plan_revision x) t at_work")
    case True
    then have "\<exists>e. fold_res (task_withdrawn q u) [] (ur_task_ids u) = Inl (Conflict e)" using fold by (simp add: u_def)
    then show ?thesis using x True start by auto
  next
    case False
    let ?ts = "filter (\<lambda>t. task_status_is q (un_feature_id x) (un_plan_revision x) t (\<lambda>r. ts_status (tr_state r) = Scheduled))
      (bts_collect (members q i))"
    have "fold_res (task_withdrawn q u) [] (ur_task_ids u) = Inr ?ts" using False fold by (simp add: u_def)
    moreover have "fold_res (mark_queued (un_feature_id x) (un_plan_revision x) now) (without_slot q i reason now) ?ts
        = Inr (moved (without_slot q i reason now) (un_feature_id x) (un_plan_revision x) (set ?ts) Queued now)"
    proof (rule marks_move [where source = Scheduled])
      show "pdb_ok (q_plans (without_slot q i reason now))" using ok(1) by simp
      show "tasks_held (q_plans (without_slot q i reason now)) (un_feature_id x) (un_plan_revision x) (set ?ts) Scheduled"
        by (simp add: tasks_held_iff [OF ok(1)] task_status_is_iff)
      show "distinct ?ts" by (simp add: bts_sorted_distinct bts_collect_sorted)
    qed (auto intro: mark_queued_moves assms(2) dest: mark_queued_step)
    moreover have "set ?ts = waiting_tasks q x" by (auto simp: waiting_tasks_def x(2))
    ultimately show ?thesis using x False by (auto simp: start u_def intro!: bexI [of _ x])
  qed
qed

text \<open>A reason the call refuses, or a unit without a time, changes nothing.\<close>

lemma invalidate_idle:
  "short_reason ''schedule invalidation'' reason = Inl e \<Longrightarrow> invalidate_schedule_slot i reason now q = Inl e"
  "short_reason ''schedule invalidation'' reason = Inr () \<Longrightarrow> schedule_slot_of q i = None
    \<Longrightarrow> invalidate_schedule_slot i reason now q = Inr (q, None)"
  by (simp_all add: invalidate_schedule_slot_def)

lemma invalidate_now_checked:
  assumes "invalidate_schedule_slot i reason now q = Inr (q', Some slot)"
  shows "0 \<le> now"
proof -
  obtain q1 where q1: "withdraw_slot i reason now q = Inr q1"
    using assms by (auto simp: invalidate_schedule_slot_def res split: option.splits)
  let ?rows = "map (\<lambda>s. if sl_unit_id s = i \<and> sl_live s
    then s\<lparr>sl_invalidated_at := Some now, sl_invalidated_reason := Some reason\<rparr> else s) (q_slots q)"
  have ok: "slots_ok q ?rows" and one: "length (filter (\<lambda>s. sl_unit_id s = i \<and> sl_live s) (q_slots q)) = 1"
    using q1 by (simp_all add: withdraw_slot_def Let_def split: if_splits)
  have "filter (\<lambda>s. sl_unit_id s = i \<and> sl_live s) (q_slots q) \<noteq> []" using one by (metis list.size(3) zero_neq_one)
  then obtain s where "s \<in> set (q_slots q)" "sl_unit_id s = i \<and> sl_live s" by (auto simp: filter_empty_conv)
  then have "s\<lparr>sl_invalidated_at := Some now, sl_invalidated_reason := Some reason\<rparr> \<in> set ?rows"
    unfolding list.set_map by (intro image_eqI [of _ _ s]) simp_all
  then have "slot_row_ok q (s\<lparr>sl_invalidated_at := Some now, sl_invalidated_reason := Some reason\<rparr>)"
    using ok unfolding slots_ok_def list_all_iff by blast
  then show ?thesis by (simp add: slot_row_ok_def)
qed

lemma invalidate_stays: "stays queue_moves (writing (invalidate_schedule_slot i reason now))"
proof (rule queue.writing)
  fix q q' :: queue and found assume run: "invalidate_schedule_slot i reason now q = Inr (q', found)"
  show "queue_moves q q'"
    unfolding queue_moves_def
  proof
    assume q: "queue_ok q"
    have reason: "short_reason ''schedule invalidation'' reason = Inr ()"
      using run invalidate_idle(1) by (cases "short_reason ''schedule invalidation'' reason") auto
    show "queue_ok q' \<and> queue_follows q q'"
    proof (cases "schedule_slot_of q i")
      case None
      then show ?thesis using run invalidate_idle(2) [OF reason] q queue_follows_refl by simp
    next
      case (Some slot)
      then have "found = Some slot" using run by (auto simp: invalidate_schedule_slot_def res)
      then have now: "0 \<le> now" using run invalidate_now_checked by simp
      obtain x where x: "x \<in> set (q_units q)" "un_unit_id x = i"
        and q': "q' = moved (without_slot q i reason now) (un_feature_id x) (un_plan_revision x) (waiting_tasks q x) Queued now"
        using invalidate_outcome [OF q now reason Some] run by (auto split: if_splits)
      have "\<not> blank reason" using reason by (auto simp: short_reason_def ensure_Inr_iff)
      note one = withdraw_slot_ok(2) [OF q now this Some]
      have ok: "pdb_ok (q_plans q)" using q by (simp add: queue_ok_def)
      have fin: "finite (waiting_tasks q x)" by (simp add: waiting_tasks_def)
      have marks: "fold_res (mark_queued (un_feature_id x) (un_plan_revision x) now) (without_slot q i reason now)
          (sorted_list_of_set (waiting_tasks q x))
        = Inr (moved (without_slot q i reason now) (un_feature_id x) (un_plan_revision x)
            (set (sorted_list_of_set (waiting_tasks q x))) Queued now)"
      proof (rule marks_move [where source = Scheduled])
        show "tasks_held (q_plans (without_slot q i reason now)) (un_feature_id x) (un_plan_revision x)
            (set (sorted_list_of_set (waiting_tasks q x))) Scheduled"
          using fin by (auto simp: tasks_held_iff [OF ok] waiting_tasks_def task_status_is_iff)
      qed (use now ok in \<open>auto intro: mark_queued_moves dest: mark_queued_step\<close>)
      have "pdb_ok (q_plans q') \<and> plan_grows (q_plans (without_slot q i reason now)) (q_plans q')"
        using marks_queued_step [OF _ marks] ok fin by (simp add: q')
      then have "queue_ok q' \<and> queue_follows (without_slot q i reason now) q'"
        using change_plans [of "without_slot q i reason now" "q_plans q'"] one by (simp add: q')
      then show ?thesis using one queue_follows_trans by blast
    qed
  qed
qed

lemma recalculate_slot_stays: "stays queue_moves (recalculate_slot reason now outcome slot)"
  unfolding recalculate_slot_def
  by (rule queue.matching [OF invalidate_stays]) (auto split: sum.splits option.splits store_error.splits intro: queue.return queue.fail)

lemma invalidate_repository_schedule_stays: "stays queue_moves (invalidate_repository_schedule i reason now)"
  unfolding invalidate_repository_schedule_def by (intro queue.sequence queue.reading queue.fold_loop recalculate_slot_stays)

lemma release_unit_now_stays: "stays queue_moves (release_unit_now i now)"
  unfolding release_unit_now_def
  by (intro queue.sequence queue.reading invalidate_stays persist_schedule_slot_stays)

lemma pause_repository_stays: "stays queue_moves (writing (pause_repository i reason now))"
  by (rule queue.writing)
     (auto simp: pause_repository_def res Let_def queue_moves_def split: if_splits dest: change_pauses)

lemma resume_repository_stays: "stays queue_moves (writing (resume_repository i))"
proof (rule queue.writing)
  fix q q' :: queue and b assume "resume_repository i q = Inr (q', b)"
  then have q': "q' = q\<lparr>q_pauses := filter (\<lambda>p. pz_repository_id p \<noteq> i) (q_pauses q)\<rparr>" by (simp add: resume_repository_def)
  have "pauses_ok q (filter (\<lambda>p. pz_repository_id p \<noteq> i) (q_pauses q))" if "pauses_ok q (q_pauses q)"
    using that by (auto simp: pauses_ok_def list_all_iff distinct_map_filter)
  then show "queue_moves q q'" using change_pauses by (auto simp: queue_moves_def q' queue_ok_def)
qed

end
