(* ===== verification/GivingUp.thy ===== *)
theory GivingUp
  imports Withdrawals Dependents
begin

text \<open>
  Giving a task up (\<open>cancel_task\<close>, \<open>supersede_task\<close> and \<open>discard_unscheduled_release_unit\<close> of
  \<open>crates/store/src/units.rs\<close>).

  The task ends, what waits on it is blocked, the evidence about it no longer stands, and the times of
  the units that held any of these tasks are withdrawn unless an attempt owns them.  The four calls
  run in their own transactions.
\<close>

section \<open>The operations\<close>

record lifecycle_outcome =
  lo_blocked_dependents :: "task_id list"
  lo_invalidated_evidence :: nat
  lo_withdrawn_schedules :: "release_unit_id list"

definition withdraw_unit ::
  "string \<Rightarrow> int \<Rightarrow> release_unit_id list \<Rightarrow> release_unit_id \<Rightarrow> (queue, store_error, release_unit_id list) cmd" where
  "withdraw_unit reason now withdrawn i =
     c_match (writing (invalidate_schedule_slot i reason now)) (\<lambda>r.
       case r of
         Inr (Some _) \<Rightarrow> c_return (withdrawn @ [i])
       | Inr None \<Rightarrow> c_return withdrawn
       | Inl (Conflict _) \<Rightarrow> c_return withdrawn
       | Inl e \<Rightarrow> c_fail e)"

definition units_of_tasks :: "queue \<Rightarrow> feature_id \<Rightarrow> revision \<Rightarrow> task_id list \<Rightarrow> release_unit_id list" where
  "units_of_tasks q f v ts = bts_collect (map ur_unit_id (List.map_filter (release_unit_for_task q f v) ts))"

definition withdraw_schedules_for_tasks ::
  "feature_id \<Rightarrow> revision \<Rightarrow> task_id list \<Rightarrow> string \<Rightarrow> int \<Rightarrow> (queue, store_error, release_unit_id list) cmd" where
  "withdraw_schedules_for_tasks f v ts reason now =
     c_then (reading (\<lambda>q. Inr (units_of_tasks q f v ts))) (\<lambda>units. c_fold (withdraw_unit reason now) [] units)"

text \<open>The packages that carry a task.\<close>

definition carrying :: "queue \<Rightarrow> task_id \<Rightarrow> (package_id \<times> revision) set" where
  "carrying q t = {(p, v). (p, v, t) \<in> set (pdb_package_tasks (q_plans q))}"

definition invalidating_evidence :: "task_id \<Rightarrow> string \<Rightarrow> int \<Rightarrow> (queue, store_error, nat) cmd" where
  "invalidating_evidence t reason now =
     on_checks (\<lambda>q. invalidate_task_evidence (attempt_ids q) (package_keys q) (carrying q t) reason now)"

definition cancel_task ::
  "feature_id \<Rightarrow> revision \<Rightarrow> task_id \<Rightarrow> string \<Rightarrow> int \<Rightarrow> (queue, store_error, lifecycle_outcome) cmd" where
  "cancel_task f v t message now =
     c_then (reading (\<lambda>_. map_err (\<lambda>e. InvalidData (transition_error_text e)) (state_reason_new UserRequested message))) (\<lambda>reason.
     c_then (advancing f v t Cancelled (Some reason) now) (\<lambda>_.
     c_then (block_dependents f v t PrerequisiteCancelled ''a prerequisite was cancelled'' now) (\<lambda>blocked.
     c_then (invalidating_evidence t ''task cancelled'' now) (\<lambda>evidence.
     c_then (withdraw_schedules_for_tasks f v (t # blocked) ''a task in this unit was cancelled'' now) (\<lambda>withdrawn.
     c_return \<lparr>lo_blocked_dependents = blocked, lo_invalidated_evidence = evidence, lo_withdrawn_schedules = withdrawn\<rparr>)))))"

definition supersede_task ::
  "feature_id \<Rightarrow> revision \<Rightarrow> task_id \<Rightarrow> string \<Rightarrow> int \<Rightarrow> (queue, store_error, lifecycle_outcome) cmd" where
  "supersede_task f v t message now =
     c_then (reading (\<lambda>_. map_err (\<lambda>e. InvalidData (transition_error_text e)) (state_reason_new SupersededByRevision message))) (\<lambda>reason.
     c_then (advancing f v t Superseded (Some reason) now) (\<lambda>_.
     c_then (block_dependents f v t SupersededByRevision ''a prerequisite was superseded and needs reconciliation'' now) (\<lambda>blocked.
     c_then (invalidating_evidence t ''task superseded'' now) (\<lambda>evidence.
     c_then (withdraw_schedules_for_tasks f v (t # blocked) ''a task in this unit was superseded'' now) (\<lambda>withdrawn.
     c_return \<lparr>lo_blocked_dependents = blocked, lo_invalidated_evidence = evidence, lo_withdrawn_schedules = withdrawn\<rparr>)))))"

text \<open>Removing a unit that never had a time.  The rows of its tasks go with it.\<close>

definition still_early :: "queue \<Rightarrow> release_unit_record \<Rightarrow> task_id \<Rightarrow> (store_error, unit) result" where
  "still_early q u t =
     and_then (task_of (q_plans q) (ur_feature_id u) (ur_plan_revision u) t) (\<lambda>found.
       case found of
         None \<Rightarrow> Inr ()
       | Some task \<Rightarrow> ensure (is_at_or_past (ts_status (tr_state task)) Scheduled = Some False)
           (Conflict (''task '' @ id_display (q_text q) TaskKind t @ '' is '' @ debug_status (ts_status (tr_state task))
             @ ''; the unit holding it cannot be discarded'')))"

definition delete_unit :: "release_unit_id \<Rightarrow> queue \<Rightarrow> (store_error, queue \<times> bool) result" where
  "delete_unit i q =
     (let q' = q\<lparr>q_units := filter (\<lambda>u. un_unit_id u \<noteq> i) (q_units q),
                 q_unit_tasks := filter (\<lambda>r. ut_unit_id r \<noteq> i) (q_unit_tasks q)\<rparr>
      in if i \<in> sl_unit_id ` set (q_slots q) \<or> i \<in> pq_unit ` set (q_pull_requests q) then Inl (unit_write_error q)
         else Inr (q', length (filter (\<lambda>u. un_unit_id u = i) (q_units q)) = 1))"

definition discard_unscheduled_release_unit :: "release_unit_id \<Rightarrow> queue \<Rightarrow> (store_error, queue \<times> bool) result" where
  "discard_unscheduled_release_unit i q =
     (case release_unit_of q i of
        None \<Rightarrow> Inr (q, False)
      | Some u \<Rightarrow>
          and_then (ensure (schedule_slot_of q i = None) (Conflict (''release unit ''
            @ id_display (q_text q) ReleaseUnitKind i @ '' holds a release time and cannot be discarded''))) (\<lambda>_.
          and_then (ensure (schedule_slot_history q i = []) (Conflict (''release unit ''
            @ id_display (q_text q) ReleaseUnitKind i @ '' has been scheduled before and cannot be discarded''))) (\<lambda>_.
          and_then (for_each (still_early q u) (ur_task_ids u)) (\<lambda>_.
          delete_unit i q))))"

section \<open>They keep what the tables promise\<close>

lemma withdraw_unit_stays: "stays queue_moves (withdraw_unit reason now withdrawn i)"
  unfolding withdraw_unit_def
  by (rule queue.matching [OF invalidate_stays]) (auto split: sum.splits option.splits store_error.splits intro: queue.return queue.fail)

lemma withdraw_schedules_for_tasks_stays: "stays queue_moves (withdraw_schedules_for_tasks f v ts reason now)"
  unfolding withdraw_schedules_for_tasks_def by (intro queue.sequence queue.reading queue.fold_loop withdraw_unit_stays)

lemma invalidating_evidence_stays: "stays queue_moves (invalidating_evidence t reason now)"
  unfolding invalidating_evidence_def by (rule on_checks_stays) (rule invalidate_task_evidence_stays)

lemma cancel_task_stays: "stays queue_moves (cancel_task f v t message now)"
  unfolding cancel_task_def
  by (intro queue.sequence queue.reading queue.return advancing_stays block_dependents_stays invalidating_evidence_stays
      withdraw_schedules_for_tasks_stays)

lemma supersede_task_stays: "stays queue_moves (supersede_task f v t message now)"
  unfolding supersede_task_def
  by (intro queue.sequence queue.reading queue.return advancing_stays block_dependents_stays invalidating_evidence_stays
      withdraw_schedules_for_tasks_stays)

lemma delete_unit_moves:
  assumes "queue_ok q" and "delete_unit i q = Inr (q', b)"
  shows "queue_ok q' \<and> queue_follows q q'"
proof -
  have free: "i \<notin> sl_unit_id ` set (q_slots q)" "i \<notin> pq_unit ` set (q_pull_requests q)"
    and q': "q' = q\<lparr>q_units := filter (\<lambda>u. un_unit_id u \<noteq> i) (q_units q),
                 q_unit_tasks := filter (\<lambda>r. ut_unit_id r \<noteq> i) (q_unit_tasks q)\<rparr>"
    using assms(2) by (auto simp: delete_unit_def Let_def split: if_splits)
  have ok: "units_ok q (q_units q)" "unit_tasks_ok q (q_unit_tasks q)" "slots_ok q (q_slots q)" "units_formed q" "slots_placed q"
    "pull_requests_ok (unit_ids q) (repository_ids q) (q_pull_requests q)"
    using assms(1) by (simp_all add: queue_ok_def)
  have ids: "unit_ids q' = unit_ids q - {i}" by (auto simp: q')
  have "units_ok q' (q_units q')" using ok(1) by (auto simp: q' units_ok_def list_all_iff distinct_map_filter)
  moreover have "unit_tasks_ok q' (q_unit_tasks q')"
    unfolding unit_tasks_ok_def ids using ok(2) by (auto simp: q' unit_tasks_ok_def list_all_iff distinct_map_filter)
  moreover have "slots_ok q' (q_slots q)"
  proof -
    have "slot_row_ok q' s" if "s \<in> set (q_slots q)" for s
    proof -
      have "sl_unit_id s \<noteq> i" using free(1) that by auto
      then show ?thesis using ok(3) that unfolding slots_ok_def list_all_iff slot_row_ok_def ids by (simp add: q')
    qed
    then show ?thesis using ok(3) by (simp add: slots_ok_def list_all_iff)
  qed
  moreover have "pull_requests_ok (unit_ids q') (repository_ids q') (q_pull_requests q)"
  proof -
    have "pq_unit p \<noteq> i" if "p \<in> set (q_pull_requests q)" for p using free(2) that by auto
    moreover have "repository_ids q' = repository_ids q" by (simp add: q')
    ultimately show ?thesis using ok(6) unfolding pull_requests_ok_def list_all_iff ids by auto
  qed
  moreover have "units_formed q'"
  proof -
    have m: "members q' j = members q j" if "j \<noteq> i" for j
    proof -
      have "filter (\<lambda>r. ut_unit_id r = j) (filter (\<lambda>r. ut_unit_id r \<noteq> i) rows) = filter (\<lambda>r. ut_unit_id r = j) rows" for rows :: "unit_task_row list"
        using that by (induction rows) auto
      then show ?thesis by (simp add: members_def q')
    qed
    have "unit_formed q' u" if u: "u \<in> set (q_units q')" for u
    proof -
      have "unit_formed q u" "un_unit_id u \<noteq> i" using u ok(4) by (auto simp: q' units_formed_def list_all_iff)
      then show ?thesis using m [of "un_unit_id u"] unfolding unit_formed_def by (simp add: q')
    qed
    then show ?thesis by (simp add: units_formed_def list_all_iff)
  qed
  moreover have "slots_placed q'" using ok(5) by (auto simp: slots_placed_def q')
  ultimately have "queue_ok q'" using assms(1) by (simp add: queue_ok_def q' pauses_ok_def attempt_view_def)
  moreover have "queue_follows q q'"
    using queue_follows_refl [OF assms(1)] free(1) by (auto simp: queue_follows_def q')
  ultimately show ?thesis by blast
qed

lemma discard_stays: "stays queue_moves (writing (discard_unscheduled_release_unit i))"
proof (rule queue.writing)
  fix q q' :: queue and b assume "discard_unscheduled_release_unit i q = Inr (q', b)"
  then show "queue_moves q q'"
    using delete_unit_moves queue.refl
    by (auto simp: discard_unscheduled_release_unit_def queue_moves_def res split: option.splits)
qed

section \<open>What giving a task up comes to\<close>

text \<open>The withdrawals touch only tasks that wait for a time, and give no unit a time.\<close>

definition settles :: "queue \<Rightarrow> queue \<Rightarrow> bool" where
  "settles q q' \<longleftrightarrow> (queue_ok q \<longrightarrow>
     queue_ok q' \<and> q_units q' = q_units q \<and> q_unit_tasks q' = q_unit_tasks q
     \<and> pdb_edges (q_plans q') = pdb_edges (q_plans q)
     \<and> (\<forall>i. schedule_slot_of q i = None \<longrightarrow> schedule_slot_of q' i = None)
     \<and> (\<forall>k r. find (\<lambda>r. task_key r = k) (pdb_tasks (q_plans q)) = Some r \<and> tk_status r \<noteq> ''scheduled''
          \<longrightarrow> find (\<lambda>r. task_key r = k) (pdb_tasks (q_plans q')) = Some r))"

interpretation settling: behaviour settles
  by unfold_locales (auto simp: settles_def)

lemma schedule_slot_None: "schedule_slot_of q i = None \<longleftrightarrow> i \<notin> sl_unit_id ` set (filter sl_live (q_slots q))"
  by (force simp: schedule_slot_of_def find_None_iff)

lemma slot_of_without:
  assumes "schedule_slot_of q j = None \<or> j = i"
  shows "schedule_slot_of (without_slot q i reason now) j = None"
  using assms unfolding schedule_slot_None live_rows_without by auto

lemma find_move_tasks:
  assumes "find (\<lambda>r. task_key r = k) rows = Some r" and "\<not> (tk_feature_id r = f \<and> tk_plan_revision r = v \<and> tk_task_id r \<in> ts)"
  shows "find (\<lambda>r. task_key r = k) (move_tasks f v ts status now rows) = Some r"
proof -
  have "find (\<lambda>r. task_key r = k) (move_tasks f v ts status now rows)
      = map_option (\<lambda>x. if tk_feature_id x = f \<and> tk_plan_revision x = v \<and> tk_task_id x \<in> ts then moved_row (plain status) now x else x)
          (find (\<lambda>r. task_key r = k) rows)"
    unfolding move_tasks_def
    by (rule find_map_update [of task_key "moved_row (plain status) now" k
        "\<lambda>x. tk_feature_id x = f \<and> tk_plan_revision x = v \<and> tk_task_id x \<in> ts"]) simp
  then show ?thesis using assms by simp
qed

lemma invalidate_settles:
  assumes "invalidate_schedule_slot i reason now q = Inr (q', found)"
  shows "settles q q'"
    and "queue_ok q \<Longrightarrow> schedule_slot_of q' i = None"
proof -
  have both: "settles q q' \<and> schedule_slot_of q' i = None" if q: "queue_ok q"
  proof -
    have reason: "short_reason ''schedule invalidation'' reason = Inr ()"
      using assms invalidate_idle(1) by (cases "short_reason ''schedule invalidation'' reason") auto
    show ?thesis
    proof (cases "schedule_slot_of q i")
      case None
      then have "q' = q" using assms invalidate_idle(2) [OF reason] by simp
      then show ?thesis using None settling.refl by simp
    next
      case (Some slot)
      then have "found = Some slot" using assms by (auto simp: invalidate_schedule_slot_def res)
      then have now: "0 \<le> now" using assms invalidate_now_checked by simp
      obtain x where x: "x \<in> set (q_units q)" "un_unit_id x = i"
        and q': "q' = moved (without_slot q i reason now) (un_feature_id x) (un_plan_revision x) (waiting_tasks q x) Queued now"
        using invalidate_outcome [OF q now reason Some] assms by (auto split: if_splits)
      have "find (\<lambda>r. task_key r = k) (pdb_tasks (q_plans q')) = Some r"
        if r: "find (\<lambda>r. task_key r = k) (pdb_tasks (q_plans q)) = Some r" "tk_status r \<noteq> ''scheduled''" for k r
      proof -
        have "\<not> (tk_feature_id r = un_feature_id x \<and> tk_plan_revision r = un_plan_revision x \<and> tk_task_id r \<in> waiting_tasks q x)"
        proof
          assume w: "tk_feature_id r = un_feature_id x \<and> tk_plan_revision r = un_plan_revision x \<and> tk_task_id r \<in> waiting_tasks q x"
          then have "k = (un_feature_id x, un_plan_revision x, tk_task_id r)"
            using find_Some_in [OF r(1)] by (auto simp: task_key_def)
          then have "\<exists>y. task_of (q_plans q) (un_feature_id x) (un_plan_revision x) (tk_task_id r) = Inr (Some y)
              \<and> tk_status r = status_column (ts_status (tr_state y)) \<and> ts_status (tr_state y) = Scheduled"
            using w r(1) by (auto simp: waiting_tasks_def task_status_is_iff task_of_def res task_from_row_Inr row_holds_def)
          then show False using r(2) by auto
        qed
        then show ?thesis using find_move_tasks [OF r(1)] by (simp add: q')
      qed
      moreover have "schedule_slot_of q' j = None" if "schedule_slot_of q j = None \<or> j = i" for j
        using slot_of_without [OF that] by (simp add: q' schedule_slot_of_def)
      moreover have "queue_ok q'"
        using invalidate_stays assms q unfolding stays_def queue_moves_def by (metis writing_Inr_iff)
      ultimately show ?thesis unfolding settles_def by (simp add: q')
    qed
  qed
  then show "settles q q'" by (auto simp: settles_def)
  show "queue_ok q \<Longrightarrow> schedule_slot_of q' i = None" using both by blast
qed

lemma settled_status:
  assumes "settles q q'" and "queue_ok q" and "task_status_is q f v t P" and "\<And>r. P r \<Longrightarrow> ts_status (tr_state r) \<noteq> Scheduled"
  shows "task_status_is q' f v t P"
proof -
  obtain r st where r: "find (\<lambda>r. task_key r = (f, v, t)) (pdb_tasks (q_plans q)) = Some r" "row_holds r st" "P (record_of r st)"
    using assms(3) by (auto simp: task_status_is_iff task_of_def res task_from_row_Inr split: option.splits)
  have "ts_status st \<noteq> Scheduled" using assms(4) [OF r(3)] by simp
  then have "tk_status r \<noteq> ''scheduled''"
    using r(2) status_column_inject [of "ts_status st" Scheduled] by (simp add: row_holds_def del: status_column_inject)
  then have "find (\<lambda>r. task_key r = (f, v, t)) (pdb_tasks (q_plans q')) = Some r"
    using assms(1,2) r(1) unfolding settles_def by blast
  then show ?thesis using r(2,3) by (auto simp: task_status_is_iff task_of_def res task_from_row_Inr)
qed

text \<open>A unit is free when it has no time, or an attempt has begun on it.\<close>

definition let_go :: "queue \<Rightarrow> release_unit_id \<Rightarrow> bool" where
  "let_go q i \<longleftrightarrow> schedule_slot_of q i = None
     \<or> (\<exists>x \<in> set (q_units q). un_unit_id x = i
          \<and> (\<exists>t \<in> set (members q i). task_status_is q (un_feature_id x) (un_plan_revision x) t at_work))"

lemma let_go_settled: "settles q q' \<Longrightarrow> queue_ok q \<Longrightarrow> let_go q i \<Longrightarrow> let_go q' i"
proof -
  assume s: "settles q q'" "queue_ok q" "let_go q i"
  have same: "q_units q' = q_units q" "members q' i = members q i"
    using s(1,2) unfolding settles_def members_def by auto
  have work: "task_status_is q f v t at_work \<Longrightarrow> task_status_is q' f v t at_work" for f v t
    by (rule settled_status [OF s(1,2)]) (simp_all add: at_work_def)
  have slot: "schedule_slot_of q i = None \<Longrightarrow> schedule_slot_of q' i = None" using s(1,2) unfolding settles_def by blast
  show "let_go q' i"
  proof (cases "schedule_slot_of q i = None")
    case True
    then show ?thesis using slot by (simp add: let_go_def)
  next
    case False
    then obtain x t where "x \<in> set (q_units q)" "un_unit_id x = i" "t \<in> set (members q i)"
      "task_status_is q (un_feature_id x) (un_plan_revision x) t at_work"
      using s(3) unfolding let_go_def by metis
    then show ?thesis using work unfolding let_go_def same by metis
  qed
qed

lemma withdraw_unit_runs:
  assumes "queue_ok q" and "0 \<le> now" and "short_reason ''schedule invalidation'' reason = Inr ()"
  shows "\<exists>w q'. withdraw_unit reason now acc i q = Some (Inr w, q') \<and> settles q q' \<and> let_go q' i"
proof (cases "schedule_slot_of q i")
  case None
  then show ?thesis
    using invalidate_idle(2) [OF assms(3) None]
    by (auto simp: withdraw_unit_def c_match_def writing_def run_return let_go_def intro: settling.refl)
next
  case (Some slot)
  obtain x where x: "x \<in> set (q_units q)" "un_unit_id x = i"
    and out: "if \<exists>t \<in> set (members q i). task_status_is q (un_feature_id x) (un_plan_revision x) t at_work
     then \<exists>e. invalidate_schedule_slot i reason now q = Inl (Conflict e)
     else invalidate_schedule_slot i reason now q
       = Inr (moved (without_slot q i reason now) (un_feature_id x) (un_plan_revision x) (waiting_tasks q x) Queued now, Some slot)"
    using invalidate_outcome [OF assms Some] by blast
  show ?thesis
  proof (cases "\<exists>t \<in> set (members q i). task_status_is q (un_feature_id x) (un_plan_revision x) t at_work")
    case True
    then obtain e where "invalidate_schedule_slot i reason now q = Inl (Conflict e)" using out by auto
    moreover have "let_go q i" using True x by (auto simp: let_go_def)
    ultimately show ?thesis
      by (auto simp: withdraw_unit_def c_match_def writing_def run_return intro: settling.refl)
  next
    case False
    then obtain q' where q': "invalidate_schedule_slot i reason now q = Inr (q', Some slot)" using out by auto
    then show ?thesis
      using invalidate_settles [OF q'] assms(1)
      by (auto simp: withdraw_unit_def c_match_def writing_def run_return let_go_def)
  qed
qed

lemma withdraw_units_run:
  assumes "queue_ok q" and "0 \<le> now" and "short_reason ''schedule invalidation'' reason = Inr ()"
  shows "\<exists>w q'. c_fold (withdraw_unit reason now) acc units q = Some (Inr w, q') \<and> settles q q'
    \<and> (\<forall>i \<in> set units. let_go q' i)"
  using assms(1)
proof (induction units arbitrary: acc q)
  case Nil
  then show ?case by (simp add: run_return settling.refl)
next
  case (Cons i units)
  obtain w q1 where one: "withdraw_unit reason now acc i q = Some (Inr w, q1)" "settles q q1" "let_go q1 i"
    using withdraw_unit_runs [OF Cons.prems assms(2,3)] by blast
  have ok: "queue_ok q1" using one(2) Cons.prems unfolding settles_def by blast
  obtain w' q' where rest: "c_fold (withdraw_unit reason now) w units q1 = Some (Inr w', q')" "settles q1 q'" "\<forall>i \<in> set units. let_go q' i"
    using Cons.IH [OF ok] by blast
  have "let_go q' i" by (rule let_go_settled [OF rest(2) ok one(3)])
  then show ?case using rest settling.trans [OF one(2) rest(2)] by (simp add: run_then one(1))
qed

text \<open>Marking evidence always succeeds.\<close>

lemma list_all_mapI: "(\<And>x. x \<in> set xs \<Longrightarrow> P (h x)) \<Longrightarrow> list_all P (map h xs)"
  by (simp add: list_all_iff)

lemma invalidating_evidence_runs:
  assumes "queue_ok q" and "0 \<le> now" and "\<not> sql_blank reason"
  shows "\<exists>n k. invalidating_evidence t reason now q = Some (Inr n, q\<lparr>q_checks := k\<rparr>)"
proof -
  have ok: "checks_ok (repository_ids q) (package_keys q) (attempt_ids q) (q_checks q)" using assms(1) by (simp add: queue_ok_def)
  let ?k = "q_checks q"
  have mark: "invalidation_ok (Some now) (Some reason)" using assms(2,3) by (simp add: invalidation_ok_def)
  have capture: "\<exists>n rows. invalidate_capture_evidence (package_keys q) C reason now ?k = Some (Inr n, ?k\<lparr>cd_evidence := rows\<rparr>)" for C
  proof -
    let ?h = "\<lambda>r. if ev_invalidated_at r = None \<and> (ve_package_id (ev_evidence r), ve_revision (ev_evidence r)) \<in> C
      then r\<lparr>ev_invalidated_at := Some now, ev_invalidated_reason := Some reason\<rparr> else r"
    let ?P = "\<lambda>r. 0 \<le> ve_executed_at (ev_evidence r)
        \<and> (ve_package_id (ev_evidence r), ve_revision (ev_evidence r)) \<in> package_keys q
        \<and> invalidation_ok (ev_invalidated_at r) (ev_invalidated_reason r)"
    have e: "evidence_ok (package_keys q) (cd_evidence ?k)" using ok by (simp add: checks_ok_def)
    have "map evidence_key (map ?h (cd_evidence ?k)) = map evidence_key (cd_evidence ?k)" by (simp add: evidence_key_def)
    then have "distinct (map evidence_key (map ?h (cd_evidence ?k)))" using e by (simp only: evidence_ok_def)
    moreover have p: "?P r" if "r \<in> set (cd_evidence ?k)" for r
      using e that unfolding evidence_ok_def list_all_iff by blast
    have "list_all ?P (map ?h (cd_evidence ?k))"
    proof (rule list_all_mapI)
      fix r assume "r \<in> set (cd_evidence ?k)"
      then show "?P (?h r)" using p [of r] mark
        by (cases "ev_invalidated_at r = None \<and> (ve_package_id (ev_evidence r), ve_revision (ev_evidence r)) \<in> C") auto
    qed
    ultimately have "evidence_ok (package_keys q) (map ?h (cd_evidence ?k))"
      unfolding evidence_ok_def by blast
    then show ?thesis by (simp add: invalidate_capture_evidence_def writing_def Let_def) blast
  qed
  have candidate: "\<exists>n rows. invalidate_candidate_evidence (attempt_ids q) (package_keys q) C reason now (?k\<lparr>cd_evidence := rows'\<rparr>)
      = Some (Inr n, ?k\<lparr>cd_evidence := rows', cd_candidates := rows\<rparr>)" for C rows'
  proof -
    let ?h = "\<lambda>c. if ce_invalidated_at c = None \<and> (ce_package_id c, ce_revision c) \<in> C
      then c\<lparr>ce_invalidated_at := Some now, ce_invalidated_reason := Some reason\<rparr> else c"
    let ?P = "\<lambda>c. \<not> sql_blank (ce_check_id c) \<and> length (ce_base_commit c) = 40
        \<and> length (ce_package_content_hash c) = 64 \<and> length (ce_environment_fingerprint c) = 64
        \<and> 0 \<le> ce_executed_at c \<and> invalidation_ok (ce_invalidated_at c) (ce_invalidated_reason c)
        \<and> ce_attempt_id c \<in> attempt_ids q \<and> (ce_package_id c, ce_revision c) \<in> package_keys q"
    have c: "candidates_ok (attempt_ids q) (package_keys q) (cd_candidates ?k)" using ok by (simp add: checks_ok_def)
    have "map (\<lambda>c. (ce_attempt_id c, ce_check_id c)) (map ?h (cd_candidates ?k))
        = map (\<lambda>c. (ce_attempt_id c, ce_check_id c)) (cd_candidates ?k)" by simp
    then have "distinct (map (\<lambda>c. (ce_attempt_id c, ce_check_id c)) (map ?h (cd_candidates ?k)))"
      using c by (simp only: candidates_ok_def)
    moreover have p: "?P r" if "r \<in> set (cd_candidates ?k)" for r
      using c that unfolding candidates_ok_def list_all_iff by blast
    have "list_all ?P (map ?h (cd_candidates ?k))"
    proof (rule list_all_mapI)
      fix r assume "r \<in> set (cd_candidates ?k)"
      then show "?P (?h r)" using p [of r] mark
        by (cases "ce_invalidated_at r = None \<and> (ce_package_id r, ce_revision r) \<in> C") auto
    qed
    ultimately have "candidates_ok (attempt_ids q) (package_keys q) (map ?h (cd_candidates ?k))"
      unfolding candidates_ok_def by blast
    then show ?thesis by (simp add: invalidate_candidate_evidence_def writing_def Let_def) blast
  qed
  have "\<exists>n k. invalidate_task_evidence (attempt_ids q) (package_keys q) C reason now ?k = Some (Inr n, k)" for C
  proof -
    obtain n rows where one: "invalidate_capture_evidence (package_keys q) C reason now ?k = Some (Inr n, ?k\<lparr>cd_evidence := rows\<rparr>)"
      using capture by blast
    obtain m rows' where two: "invalidate_candidate_evidence (attempt_ids q) (package_keys q) C reason now (?k\<lparr>cd_evidence := rows\<rparr>)
        = Some (Inr m, ?k\<lparr>cd_evidence := rows, cd_candidates := rows'\<rparr>)"
      using candidate by blast
    show ?thesis by (simp add: invalidate_task_evidence_def run_then one two run_return)
  qed
  then show ?thesis by (force simp: invalidating_evidence_def on_checks_def)
qed

text \<open>Both operations are one program.\<close>

definition giving_up ::
  "feature_id \<Rightarrow> revision \<Rightarrow> task_id \<Rightarrow> task_status \<Rightarrow> state_reason \<Rightarrow> reason_code \<Rightarrow> string \<Rightarrow> string \<Rightarrow> string \<Rightarrow> int
    \<Rightarrow> (queue, store_error, lifecycle_outcome) cmd" where
  "giving_up f v t target reason code why evidence_reason slot_reason now =
     c_then (advancing f v t target (Some reason) now) (\<lambda>_.
     c_then (block_dependents f v t code why now) (\<lambda>blocked.
     c_then (invalidating_evidence t evidence_reason now) (\<lambda>evidence.
     c_then (withdraw_schedules_for_tasks f v (t # blocked) slot_reason now) (\<lambda>withdrawn.
     c_return \<lparr>lo_blocked_dependents = blocked, lo_invalidated_evidence = evidence, lo_withdrawn_schedules = withdrawn\<rparr>))))"

definition given_up ::
  "queue \<Rightarrow> feature_id \<Rightarrow> revision \<Rightarrow> task_id \<Rightarrow> task_status \<Rightarrow> state_reason \<Rightarrow> lifecycle_outcome \<Rightarrow> queue \<Rightarrow> bool" where
  "given_up q f v t target reason out q' \<longleftrightarrow>
     (let waiting = open_tasks q f v \<inter> ({d. (t, d) \<in> trancl (waits_on q f v)} - {t}) in
      lo_blocked_dependents out = sorted_list_of_set waiting
      \<and> task_status_is q' f v t (\<lambda>r. ts_status (tr_state r) = target)
      \<and> (\<forall>d \<in> waiting. task_status_is q' f v d (\<lambda>r. ts_status (tr_state r) = Blocked \<and> ts_reason (tr_state r) = Some reason))
      \<and> (\<forall>d \<in> insert t waiting. \<forall>u. release_unit_for_task q f v d = Some u \<longrightarrow> let_go q' (ur_unit_id u)))"

lemma find_block_rows:
  "find (\<lambda>x. task_key x = k) (block_rows f v reason now ts rows)
    = map_option (\<lambda>x. if tk_feature_id x = f \<and> tk_plan_revision x = v \<and> tk_task_id x \<in> ts \<and> open_row x
        then block_row reason now x else x) (find (\<lambda>x. task_key x = k) rows)"
  unfolding block_rows_def
  by (rule find_map_update [of task_key "block_row reason now" k
      "\<lambda>x. tk_feature_id x = f \<and> tk_plan_revision x = v \<and> tk_task_id x \<in> ts \<and> open_row x"]) simp

lemma blocked_after:
  assumes "pdb_ok (q_plans q)" and "d \<in> open_tasks q f v" and "d \<in> ts"
  shows "\<exists>r st. find (\<lambda>r. task_key r = (f, v, d)) (block_rows f v reason now ts (pdb_tasks (q_plans q))) = Some r
    \<and> tk_status r = ''blocked'' \<and> tk_reason r = Some reason"
proof -
  obtain r where r: "r \<in> set (pdb_tasks (q_plans q))" "task_key r = (f, v, d)" "open_row r"
    using assms(2) unfolding open_tasks_iff by blast
  have "filter (\<lambda>x. task_key x = task_key r) (pdb_tasks (q_plans q)) = [r]"
    by (rule filter_unique [OF _ r(1)]) (use assms(1) in \<open>simp add: pdb_ok_def tasks_ok_def\<close>)
  then have "find (\<lambda>x. task_key x = (f, v, d)) (pdb_tasks (q_plans q)) = Some r" using r(2) by (simp add: find_filter)
  moreover have "tk_feature_id r = f" "tk_plan_revision r = v" "tk_task_id r = d" using r(2) by (simp_all add: task_key_def)
  ultimately show ?thesis unfolding find_block_rows using r(3) assms(3) by (simp add: block_row_def)
qed

lemma giving_up_outcome:
  assumes "queue_ok q" and "0 \<le> now" and "advance_task (q_plans q) f v t target (Some reason) now = Inr (db, rec)"
    and "target \<noteq> Scheduled" and "state_reason_new code why = Inr dependent_reason"
    and "\<not> sql_blank evidence_reason" and "short_reason ''schedule invalidation'' slot_reason = Inr ()"
  shows "\<exists>out q'. giving_up f v t target reason code why evidence_reason slot_reason now q = Some (Inr out, q')
    \<and> given_up q f v t target dependent_reason out q'"
proof -
  have ok: "pdb_ok (q_plans q)" using assms(1) by (simp add: queue_ok_def)
  let ?q1 = "q\<lparr>q_plans := db\<rparr>"
  have adv: "advancing f v t target (Some reason) now q = Some (Inr rec, ?q1)"
    using assms(3) by (simp add: advancing_Inr_iff)
  have ok1: "queue_ok ?q1" using advancing_stays adv assms(1) unfolding stays_def queue_moves_def by blast
  obtain st state r where tr: "ts_transition st target (Some reason) = Inr state"
    "find (\<lambda>r. task_key r = (f, v, t)) (pdb_tasks (q_plans q)) = Some r" "row_holds r st"
    and db: "db = (q_plans q)\<lparr>pdb_tasks := map (\<lambda>x. if task_key x = (f, v, t) then moved_row state now x else x) (pdb_tasks (q_plans q))\<rparr>"
    using advance_task_rows(3) [OF ok assms(3)] by blast
  have state: "ts_status state = target" "ts_reachable state"
    using tr(1,3) by (auto simp: row_holds_def elim: ts_transition_cases intro: ts_reachable.step ts_step.transition)
  have edges: "waits_on ?q1 f v = waits_on q f v" by (simp add: waits_on_def db)
  have found: "find (\<lambda>x. task_key x = k) (pdb_tasks db)
      = map_option (\<lambda>x. if task_key x = (f, v, t) then moved_row state now x else x) (find (\<lambda>x. task_key x = k) (pdb_tasks (q_plans q)))" for k
    unfolding db by (simp add: find_map_update [of task_key "moved_row state now" k "\<lambda>x. task_key x = (f, v, t)"])
  let ?waiting = "{d. (t, d) \<in> trancl (waits_on q f v)} - {t}"
  have key_rows: "{r \<in> set (pdb_tasks db). task_key r = (f, v, d)} = {r \<in> set (pdb_tasks (q_plans q)). task_key r = (f, v, d)}" if "d \<noteq> t" for d
    unfolding db using that by (auto simp: image_iff)
  have open1: "open_tasks ?q1 f v \<inter> ?waiting = open_tasks q f v \<inter> ?waiting"
  proof -
    have "d \<in> open_tasks ?q1 f v \<longleftrightarrow> d \<in> open_tasks q f v" if "d \<noteq> t" for d
      using key_rows [OF that] unfolding open_tasks_iff by auto
    then show ?thesis by blast
  qed
  let ?blocked = "sorted_list_of_set (open_tasks q f v \<inter> ?waiting)"
  let ?q2 = "with_tasks ?q1 (block_rows f v dependent_reason now ?waiting (pdb_tasks db))"
  have okdb: "pdb_ok (q_plans ?q1)" using ok1 by (simp add: queue_ok_def)
  have blk: "block_dependents f v t code why now ?q1 = Some (Inr ?blocked, ?q2)"
    using block_dependents_decides [OF okdb assms(5,2), of t f v] open1 by (simp add: edges Let_def)
  have ok2: "queue_ok ?q2" using block_dependents_stays blk ok1 unfolding stays_def queue_moves_def by blast
  obtain n k where ev: "invalidating_evidence t evidence_reason now ?q2 = Some (Inr n, ?q2\<lparr>q_checks := k\<rparr>)"
    using invalidating_evidence_runs [OF ok2 assms(2,6)] by blast
  let ?q3 = "?q2\<lparr>q_checks := k\<rparr>"
  have ok3: "queue_ok ?q3" using invalidating_evidence_stays ev ok2 unfolding stays_def queue_moves_def by blast
  let ?units = "units_of_tasks ?q3 f v (t # ?blocked)"
  obtain w q' where wd: "c_fold (withdraw_unit slot_reason now) [] ?units ?q3 = Some (Inr w, q')" "settles ?q3 q'"
    "\<forall>i \<in> set ?units. let_go q' i"
    using withdraw_units_run [OF ok3 assms(2,7)] by blast
  let ?out = "\<lparr>lo_blocked_dependents = ?blocked, lo_invalidated_evidence = n, lo_withdrawn_schedules = w\<rparr>"
  have run: "giving_up f v t target reason code why evidence_reason slot_reason now q = Some (Inr ?out, q')"
    by (simp add: giving_up_def run_then adv blk ev withdraw_schedules_for_tasks_def run_reading wd(1) run_return)
  have units: "release_unit_for_task ?q3 f v d = release_unit_for_task q f v d" for d
    by (simp add: release_unit_for_task_def release_unit_of_def members_def with_tasks_def order_by_task_def db
        cong: option.case_cong)
  have fin: "finite (open_tasks q f v)"
  proof -
    have "open_tasks q f v \<subseteq> tk_task_id ` set (pdb_tasks (q_plans q))" by (auto simp: open_tasks_def)
    then show ?thesis by (rule finite_subset) simp
  qed
  have "let_go q' (ur_unit_id u)" if "d \<in> insert t (open_tasks q f v \<inter> ?waiting)" "release_unit_for_task q f v d = Some u" for d u
  proof -
    have "ur_unit_id u \<in> set ?units"
      using that fin units by (auto simp: units_of_tasks_def List.map_filter_def image_iff intro!: bexI [of _ d])
    then show ?thesis using wd(3) by blast
  qed
  moreover have "task_status_is q' f v t (\<lambda>r. ts_status (tr_state r) = target)"
  proof (rule settled_status [OF wd(2) ok3])
    have "find (\<lambda>x. task_key x = (f, v, t)) (pdb_tasks (q_plans ?q3)) = Some (moved_row state now r)"
    proof -
      have key: "task_key r = (f, v, t)" using find_Some_in [OF tr(2)] by simp
      then have "tk_task_id r = t" by (simp add: task_key_def)
      moreover have "find (\<lambda>x. task_key x = (f, v, t)) (pdb_tasks db) = Some (moved_row state now r)"
        unfolding found using tr(2) key by simp
      ultimately show ?thesis by (simp add: find_block_rows)
    qed
    moreover have "row_holds (moved_row state now r) state" by (rule moved_row_holds [OF state(2)])
    ultimately show "task_status_is ?q3 f v t (\<lambda>r. ts_status (tr_state r) = target)"
      using state(1) by (auto simp: task_status_is_iff task_of_def res task_from_row_Inr)
  qed (use assms(4) in simp)
  moreover have "task_status_is q' f v d (\<lambda>r. ts_status (tr_state r) = Blocked \<and> ts_reason (tr_state r) = Some dependent_reason)"
    if d: "d \<in> open_tasks q f v \<inter> ?waiting" for d
  proof (rule settled_status [OF wd(2) ok3])
    have "d \<in> open_tasks ?q1 f v" using d open1 by blast
    then obtain x where x: "find (\<lambda>r. task_key r = (f, v, d)) (pdb_tasks (q_plans ?q3)) = Some x"
      "tk_status x = ''blocked''" "tk_reason x = Some dependent_reason"
      using blocked_after [OF okdb, of d f v ?waiting dependent_reason now] d by auto
    then obtain st where st: "row_holds x st" using ok3 find_Some_in [OF x(1)] by (auto simp: queue_ok_def pdb_ok_def list_all_iff)
    have "ts_status st = Blocked"
      using st x(2) status_column_inject [of "ts_status st" Blocked] by (simp add: row_holds_def del: status_column_inject)
    moreover have "ts_reason st = Some dependent_reason" using st x(3) by (simp add: row_holds_def)
    moreover have "task_of (q_plans ?q3) f v d = Inr (Some (record_of x st))"
      using st x(1) by (auto simp: task_of_def res task_from_row_Inr)
    ultimately show "task_status_is ?q3 f v d (\<lambda>r. ts_status (tr_state r) = Blocked \<and> ts_reason (tr_state r) = Some dependent_reason)"
      by (simp add: task_status_is_def)
  qed simp
  ultimately have "given_up q f v t target dependent_reason ?out q'" unfolding given_up_def Let_def by simp
  then show ?thesis using run by blast
qed

text \<open>Cancelling and superseding fail before anything has changed, or settle everything.\<close>

lemma cancel_is_giving_up:
  "cancel_task f v t message now q =
     (case state_reason_new UserRequested message of
        Inl e \<Rightarrow> Some (Inl (InvalidData (transition_error_text e)), q)
      | Inr reason \<Rightarrow> giving_up f v t Cancelled reason PrerequisiteCancelled ''a prerequisite was cancelled''
          ''task cancelled'' ''a task in this unit was cancelled'' now q)"
  by (simp add: cancel_task_def giving_up_def then_reading split: sum.splits)

lemma supersede_is_giving_up:
  "supersede_task f v t message now q =
     (case state_reason_new SupersededByRevision message of
        Inl e \<Rightarrow> Some (Inl (InvalidData (transition_error_text e)), q)
      | Inr reason \<Rightarrow> giving_up f v t Superseded reason SupersededByRevision
          ''a prerequisite was superseded and needs reconciliation''
          ''task superseded'' ''a task in this unit was superseded'' now q)"
  by (simp add: supersede_task_def giving_up_def then_reading split: sum.splits)

lemma giving_up_refused:
  assumes "advance_task (q_plans q) f v t target (Some reason) now = Inl e"
  shows "giving_up f v t target reason code why evidence_reason slot_reason now q = Some (Inl e, q)"
  by (simp add: giving_up_def run_then advancing_def on_plans_def writing_def assms)

theorem cancel_task_settles:
  assumes "queue_ok q" and "0 \<le> now"
  shows "\<exists>r q'. cancel_task f v t message now q = Some (r, q') \<and> queue_ok q' \<and> queue_follows q q'
    \<and> (case r of
         Inl e \<Rightarrow> q' = q
       | Inr out \<Rightarrow> given_up q f v t Cancelled
           \<lparr>sr_code = PrerequisiteCancelled, sr_message = ''a prerequisite was cancelled''\<rparr> out q')"
proof -
  have moves: "queue_ok q' \<and> queue_follows q q'" if "cancel_task f v t message now q = Some (r, q')" for r q'
    using cancel_task_stays that assms(1) unfolding stays_def queue_moves_def by blast
  have why: "state_reason_new PrerequisiteCancelled ''a prerequisite was cancelled''
      = Inr \<lparr>sr_code = PrerequisiteCancelled, sr_message = ''a prerequisite was cancelled''\<rparr>"
    "\<not> sql_blank ''task cancelled''" "short_reason ''schedule invalidation'' ''a task in this unit was cancelled'' = Inr ()"
    by code_simp+
  show ?thesis
  proof (cases "state_reason_new UserRequested message")
    case (Inl e)
    then show ?thesis using moves by (simp add: cancel_is_giving_up)
  next
    case (Inr reason)
    show ?thesis
    proof (cases "advance_task (q_plans q) f v t Cancelled (Some reason) now")
      case (Inl e)
      then show ?thesis using moves giving_up_refused [OF Inl] Inr by (simp add: cancel_is_giving_up)
    next
      case run: (Inr z)
      obtain db rec where z: "z = (db, rec)" by (cases z)
      show ?thesis
        using giving_up_outcome [OF assms run [unfolded z] _ why] Inr moves by (auto simp: cancel_is_giving_up)
    qed
  qed
qed

end
