(* ===== verification/Scheduler.thy ===== *)
theory Scheduler
  imports GivingUp
begin

text \<open>
  The scheduler (\<open>crates/daemon/src/scheduler.rs\<close>).

  It draws or checks a time under the active policy and records it, lists the units that may be
  released now, fairly across the repositories, and brings times that passed while nothing ran
  forward again.  The time zone arithmetic is the parameter \<open>cal\<close> of \<open>Schedule\<close>.
\<close>

section \<open>Errors and what they say\<close>

datatype scheduler_error =
    SchedulerStore store_error
  | SchedulerPolicy schedule_policy_error
  | RequestedTimeRefused string
  | MissingReleaseUnit release_unit_id
  | MissingPlan
  | MissingPolicy repository_id
  | NoSelectableSlot

fun debug_weekday :: "weekday \<Rightarrow> string" where
  "debug_weekday Monday = ''Monday''"
| "debug_weekday Tuesday = ''Tuesday''"
| "debug_weekday Wednesday = ''Wednesday''"
| "debug_weekday Thursday = ''Thursday''"
| "debug_weekday Friday = ''Friday''"
| "debug_weekday Saturday = ''Saturday''"
| "debug_weekday Sunday = ''Sunday''"

text \<open>\<open>{:02}\<close>.\<close>

definition show_02 :: "nat \<Rightarrow> string" where
  "show_02 n = (if n < 10 then ''0'' @ show_nat n else show_nat n)"

text \<open>\<open>Display\<close> of \<open>SchedulePolicyError\<close>.\<close>

fun schedule_policy_error_text :: "schedule_policy_error \<Rightarrow> string" where
  "schedule_policy_error_text (InvalidTimeZone z) = debug_str z @ '' is not a valid IANA time zone''"
| "schedule_policy_error_text (InvalidDailyTime hour minute) =
     show_02 hour @ '':'' @ show_02 minute @ '' is not a valid local clock time''"
| "schedule_policy_error_text (InvalidWindow _ _) = ''daily window must end after it starts''"
| "schedule_policy_error_text NoAllowedDays = ''at least one permitted weekday is required''"
| "schedule_policy_error_text NoWindows = ''at least one permitted time window is required''"
| "schedule_policy_error_text TooManyWindows = ''at most '' @ show_nat max_windows @ '' daily windows are permitted''"
| "schedule_policy_error_text OverlappingWindows = ''daily windows must not overlap''"
| "schedule_policy_error_text (InvalidDailyReleaseRange _ _) =
     ''daily releases must be between 1 and '' @ show_nat max_daily_releases @ '', with minimum <= maximum''"
| "schedule_policy_error_text (InvalidMinimumSpacing n) =
     ''minimum release spacing must be between 1 and 1440 minutes, got '' @ show_nat n"
| "schedule_policy_error_text (DailyLimitExceedsWindowCapacity maximum capacity) =
     ''daily maximum '' @ show_nat maximum @ '' cannot fit in permitted windows; capacity is '' @ show_nat capacity"
| "schedule_policy_error_text (InvalidCatchUpLimit n) =
     ''catch-up limit must be between 1 and '' @ show_nat max_daily_releases @ '', got '' @ show_nat n"
| "schedule_policy_error_text (InvalidSchedulingTimestamp i) =
     ''scheduling timestamp '' @ show_int i @ '' is outside the supported range''"
| "schedule_policy_error_text (InsufficientSchedulingCapacity requested selected) =
     ''not enough eligible future schedule capacity: requested '' @ show_nat requested @ '', selected '' @ show_nat selected"
| "schedule_policy_error_text SchedulingHorizonExceeded =
     ''the scheduling horizon exceeded '' @ show_nat max_scheduling_horizon_days @ '' days''"
| "schedule_policy_error_text (RequestedTimeInPast local_time) = local_time @ '' has already passed''"
| "schedule_policy_error_text (RequestedDayNotAllowed day) =
     debug_weekday day @ '' is not a day this repository publishes on''"
| "schedule_policy_error_text (RequestedTimeOutsideWindows local_time) =
     local_time @ '' is outside this repository's publishing hours''"
| "schedule_policy_error_text (RequestedTimeTooClose local_time required actual) =
     local_time @ '' is within '' @ show_int actual @ '' minutes of another scheduled release; ''
       @ ''this repository requires at least '' @ show_nat required @ '' minutes between releases''"
| "schedule_policy_error_text (RequestedDayIsFull day maximum) =
     day @ '' already has the '' @ show_nat maximum @ '' releases this repository allows in a day''"

definition open_hours :: "'d calendar \<Rightarrow> schedule_policy \<Rightarrow> int \<Rightarrow> string" where
  "open_hours cal p requested =
     (let windows = windows_on cal p requested
      in if windows = [] then
           ''This repository publishes on '' @ join '', '' (map debug_weekday
             (filter (\<lambda>d. d \<in> sp_allowed_days p) [Monday, Tuesday, Wednesday, Thursday, Friday, Saturday, Sunday])) @ ''.''
         else
           ''Publishing hours that day are '' @ join '', '' (map (\<lambda>w.
             show_02 (dt_hour (dw_start w)) @ '':'' @ show_02 (dt_minute (dw_start w)) @ ''-''
               @ show_02 (dt_hour (dw_end w)) @ '':'' @ show_02 (dt_minute (dw_end w))) windows) @ ''.'')"

fun describe_refusal :: "'d calendar \<Rightarrow> schedule_policy_error \<Rightarrow> schedule_policy \<Rightarrow> int \<Rightarrow> string" where
  "describe_refusal cal (RequestedTimeOutsideWindows t) p requested =
     schedule_policy_error_text (RequestedTimeOutsideWindows t) @ ''. '' @ open_hours cal p requested"
| "describe_refusal cal (RequestedDayNotAllowed d) p requested =
     schedule_policy_error_text (RequestedDayNotAllowed d) @ ''. '' @ open_hours cal p requested"
| "describe_refusal cal other p requested = schedule_policy_error_text other"

section \<open>Scheduling a unit\<close>

text \<open>An override refines the policy at the moment of selection.\<close>

definition effective_policy :: "registry \<Rightarrow> repository_id \<Rightarrow> stored_schedule_policy \<Rightarrow> (scheduler_error, schedule_policy) result" where
  "effective_policy g i policy =
     (case schedule_override_of g i of
        Some ov \<Rightarrow> map_err SchedulerPolicy (with_override (ssp_policy policy) ov)
      | None \<Rightarrow> Inr (ssp_policy policy))"

definition select_time ::
  "'d calendar \<Rightarrow> schedule_policy \<Rightarrow> 64 word \<Rightarrow> int option \<Rightarrow> int \<Rightarrow> int list
    \<Rightarrow> (scheduler_error, planned_slot) result option" where
  "select_time cal p seed requested_at now existing =
     (case requested_at of
        Some requested \<Rightarrow>
          Some (map_err (\<lambda>e. RequestedTimeRefused (describe_refusal cal e p requested))
            (validate_requested_slot cal p requested now existing))
      | None \<Rightarrow>
          map_option (\<lambda>r. and_then (map_err SchedulerPolicy r) (\<lambda>(slots, _).
              if slots = [] then Inl NoSelectableSlot else Inr (last slots)))
            (select cal (seeded seed) p now 1 existing))"

definition schedule_at ::
  "'d calendar \<Rightarrow> release_unit_id \<Rightarrow> package_id \<Rightarrow> revision \<Rightarrow> 64 word \<Rightarrow> int option \<Rightarrow> int
    \<Rightarrow> (queue, scheduler_error, schedule_slot) cmd" where
  "schedule_at cal i p v seed requested_at now =
     c_then (reading (\<lambda>q. Inr (schedule_slot_of q i))) (\<lambda>found.
     case found of
       Some slot \<Rightarrow> c_return slot
     | None \<Rightarrow>
         c_then (reading (\<lambda>q. ok_or (release_unit_of q i) (MissingReleaseUnit i))) (\<lambda>u.
         c_then (reading_or_panic (\<lambda>q. map_option (\<lambda>loaded. and_then (map_err SchedulerStore loaded) (\<lambda>found. ok_or found MissingPlan))
           (plan_of (q_plans q) (ur_feature_id u) (Some (ur_plan_revision u))))) (\<lambda>plan.
         let repository = fp_repository_id (stp_plan plan) in
         c_then (reading (\<lambda>q. ok_or (schedule_policy_of (q_registry q) repository) (MissingPolicy repository))) (\<lambda>policy.
         c_then (reading (\<lambda>q. effective_policy (q_registry q) repository policy)) (\<lambda>effective.
         c_then (reading_or_panic (\<lambda>q. select_time cal effective seed requested_at now
           (map ss_selected_at (schedule_slots_of q repository)))) (\<lambda>selected.
         c_map_err SchedulerStore (persist_schedule_slot
           \<lparr>ns_unit_id = i, ns_package_id = p, ns_package_revision = v, ns_policy_revision = ssp_revision policy,
            ns_timezone = ps_timezone selected, ns_eligible_at = now, ns_selected_at = ps_selected_at selected,
            ns_created_at = now, ns_on_request = False\<rparr>)))))))"

definition schedule ::
  "'d calendar \<Rightarrow> release_unit_id \<Rightarrow> package_id \<Rightarrow> revision \<Rightarrow> 64 word \<Rightarrow> int
    \<Rightarrow> (queue, scheduler_error, schedule_slot) cmd" where
  "schedule cal i p v seed now = schedule_at cal i p v seed None now"

section \<open>What is due\<close>

record due_unit =
  du_unit_id :: release_unit_id
  du_repository_id :: repository_id
  du_package_id :: package_id
  du_package_revision :: revision
  du_selected_at :: int

record missed_window_outcome =
  mw_released_now :: "release_unit_id list"
  mw_rescheduled :: "release_unit_id list"
  mw_retained :: "release_unit_id list"

fun all_scheduled :: "queue \<Rightarrow> release_unit_record \<Rightarrow> task_id list \<Rightarrow> (store_error, bool) result" where
  "all_scheduled q u [] = Inr True"
| "all_scheduled q u (t # ts) =
     and_then (task_of (q_plans q) (ur_feature_id u) (ur_plan_revision u) t) (\<lambda>found.
       case found of
         None \<Rightarrow> Inr False
       | Some task \<Rightarrow> if ts_status (tr_state task) \<noteq> Scheduled then Inr False else all_scheduled q u ts)"

definition is_claimable :: "queue \<Rightarrow> release_unit_id \<Rightarrow> package_id \<Rightarrow> revision \<Rightarrow> (store_error, bool) result" where
  "is_claimable q i p v =
     and_then (live_attempt_for_package (attempt_view q) p v) (\<lambda>attempt.
       if attempt \<noteq> None then Inr False
       else case release_unit_of q i of
              None \<Rightarrow> Inr False
            | Some u \<Rightarrow> all_scheduled q u (ur_task_ids u))"

definition due_unit_of :: "repository_id \<Rightarrow> schedule_slot \<Rightarrow> due_unit" where
  "due_unit_of i s =
     \<lparr>du_unit_id = ss_unit_id s, du_repository_id = i, du_package_id = ss_package_id s,
      du_package_revision = ss_package_revision s, du_selected_at = ss_selected_at s\<rparr>"

text \<open>One round of the loop over the repositories: nothing for a paused one or one waiting out a backoff.\<close>

definition repository_due :: "queue \<Rightarrow> int \<Rightarrow> repository_id \<Rightarrow> (store_error, due_unit list) result" where
  "repository_due q now i =
     (if repository_pause_of q i \<noteq> None then Inr []
      else if \<not> integration_is_ready (q_backoff q) Git (id_display (q_text q) RepositoryKind i) now then Inr []
      else and_then (collect_res (\<lambda>s.
             and_then (is_claimable q (ss_unit_id s) (ss_package_id s) (ss_package_revision s)) (\<lambda>free.
               Inr (if free then [due_unit_of i s] else []))) (overdue_schedule_slots q i now)) (\<lambda>rows.
           Inr (sort_key du_selected_at (sort_key du_unit_id (concat rows)))))"

text \<open>One unit per repository and round, until the limit is reached or a round takes nothing.\<close>

fun take_round :: "nat \<Rightarrow> nat \<Rightarrow> 'a list list \<Rightarrow> 'a list \<Rightarrow> 'a list" where
  "take_round limit round [] claimed = claimed"
| "take_round limit round (due # rest) claimed =
     (if length claimed = limit then claimed
      else take_round limit round rest (if round < length due then claimed @ [due ! round] else claimed))"

lemma take_round_length: "length claimed \<le> length (take_round limit round per claimed)"
proof (induction per arbitrary: claimed)
  case (Cons due rest)
  show ?case
    using Cons.IH [of claimed] Cons.IH [of "claimed @ [due ! round]"] by auto
qed simp

function claim_rounds :: "nat \<Rightarrow> nat \<Rightarrow> 'a list list \<Rightarrow> 'a list \<Rightarrow> 'a list" where
  "claim_rounds limit round per claimed =
     (if length claimed < limit then
        let claimed' = take_round limit round per claimed
        in if length claimed' = length claimed then claimed' else claim_rounds limit (Suc round) per claimed'
      else claimed)"
  by pat_completeness auto
termination
proof (relation "measure (\<lambda>(limit, round, per, claimed). limit - length claimed)")
  fix limit round :: nat and per :: "'a list list" and claimed x :: "'a list"
  assume "length claimed < limit" "x = take_round limit round per claimed" "length x \<noteq> length claimed"
  then show "((limit, Suc round, per, x), limit, round, per, claimed)
      \<in> measure (\<lambda>(limit, round, per, claimed). limit - length claimed)"
    using take_round_length [of claimed limit round per] by simp
qed simp

declare claim_rounds.simps [simp del]

definition due_units :: "queue \<Rightarrow> int \<Rightarrow> nat \<Rightarrow> (scheduler_error, due_unit list) result" where
  "due_units q now limit =
     (if limit = 0 then Inr []
      else map_err SchedulerStore
        (and_then (repositories_of (q_registry q)) (\<lambda>repositories.
         and_then (collect_res (\<lambda>r. repository_due q now (rg_id (sr_registration r))) repositories) (\<lambda>queues.
           Inr (claim_rounds limit 0 (filter (\<lambda>due. due \<noteq> []) queues) [])))))"

section \<open>Missed windows\<close>

definition catch_up_allowance :: "missed_window_behavior \<Rightarrow> nat" where
  "catch_up_allowance b = (case b of RescheduleForward \<Rightarrow> 0 | CatchUp most \<Rightarrow> most)"

definition reconcile_slot ::
  "'d calendar \<Rightarrow> nat \<Rightarrow> 64 word \<Rightarrow> int \<Rightarrow> missed_window_outcome \<Rightarrow> nat \<times> schedule_slot
    \<Rightarrow> (queue, scheduler_error, missed_window_outcome) cmd" where
  "reconcile_slot cal allowance seed now outcome = (\<lambda>(index, slot).
     if ss_on_request slot then c_return (outcome\<lparr>mw_retained := mw_retained outcome @ [ss_unit_id slot]\<rparr>)
     else if index < allowance then
       c_return (outcome\<lparr>mw_released_now := mw_released_now outcome @ [ss_unit_id slot]\<rparr>)
     else
       c_match (writing (invalidate_schedule_slot (ss_unit_id slot) ''release window was missed'' now)) (\<lambda>r.
         case r of
           Inr (Some _) \<Rightarrow>
             c_then (schedule cal (ss_unit_id slot) (ss_package_id slot) (ss_package_revision slot)
               (seed + of_nat index) now) (\<lambda>_.
             c_return (outcome\<lparr>mw_rescheduled := mw_rescheduled outcome @ [ss_unit_id slot]\<rparr>))
         | Inr None \<Rightarrow> c_return outcome
         | Inl (Conflict _) \<Rightarrow> c_return (outcome\<lparr>mw_retained := mw_retained outcome @ [ss_unit_id slot]\<rparr>)
         | Inl e \<Rightarrow> c_fail (SchedulerStore e)))"

definition reconcile_missed_windows ::
  "'d calendar \<Rightarrow> repository_id \<Rightarrow> 64 word \<Rightarrow> int \<Rightarrow> (queue, scheduler_error, missed_window_outcome) cmd" where
  "reconcile_missed_windows cal i seed now =
     c_then (reading (\<lambda>q. Inr (overdue_schedule_slots q i now))) (\<lambda>overdue.
     if overdue = [] then c_return \<lparr>mw_released_now = [], mw_rescheduled = [], mw_retained = []\<rparr>
     else
       c_then (reading (\<lambda>q. ok_or (schedule_policy_of (q_registry q) i) (MissingPolicy i))) (\<lambda>policy.
       c_fold (reconcile_slot cal (catch_up_allowance (sp_missed_window (ssp_policy policy))) seed now)
         \<lparr>mw_released_now = [], mw_rescheduled = [], mw_retained = []\<rparr> (enumerate 0 overdue)))"

section \<open>Taking turns\<close>

text \<open>The k-th round takes the k-th unit of every repository that has one.\<close>

definition round_of :: "'a list list \<Rightarrow> nat \<Rightarrow> 'a list" where
  "round_of per k = map (\<lambda>due. due ! k) (filter (\<lambda>due. k < length due) per)"

lemma take_round_takes:
  assumes "length claimed \<le> limit"
  shows "take_round limit k per claimed = claimed @ take (limit - length claimed) (round_of per k)"
  using assms
proof (induction per arbitrary: claimed)
  case Nil
  then show ?case by (simp add: round_of_def)
next
  case (Cons due rest)
  show ?case
  proof (cases "length claimed = limit \<or> length due \<le> k")
    case True
    then show ?thesis using Cons.IH [OF Cons.prems] by (auto simp: round_of_def)
  next
    case False
    have "limit - length claimed = Suc (limit - length (claimed @ [due ! k]))" using False Cons.prems by auto
    then show ?thesis using Cons.IH [of "claimed @ [due ! k]"] False Cons.prems by (simp add: round_of_def)
  qed
qed

lemma claim_rounds_takes:
  assumes "length claimed \<le> limit" and "\<And>due. due \<in> set per \<Longrightarrow> length due \<le> m"
  shows "claim_rounds limit k per claimed
    = claimed @ take (limit - length claimed) (concat (map (round_of per) [k..<m]))"
  using assms
proof (induction limit k per claimed rule: claim_rounds.induct)
  case (1 limit k per claimed)
  let ?taken = "take (limit - length claimed) (round_of per k)"
  have round: "take_round limit k per claimed = claimed @ ?taken" by (rule take_round_takes [OF 1(2)])
  consider "length claimed = limit" | "length claimed < limit" "round_of per k = []"
    | "length claimed < limit" "round_of per k \<noteq> []"
    using 1(2) by (meson le_neq_implies_less)
  then show ?case
  proof cases
    case 1
    then show ?thesis by (simp add: claim_rounds.simps [of limit k])
  next
    case 2
    then have "length due \<le> k" if "due \<in> set per" for due
      using that by (auto simp: round_of_def filter_empty_conv not_less)
    then have "round_of per j = []" if "k \<le> j" for j
      using that by (fastforce simp: round_of_def filter_empty_conv not_less)
    then have "concat (map (round_of per) [k..<m]) = []" by auto
    then show ?thesis using 2 round by (simp add: claim_rounds.simps [of limit k])
  next
    case 3
    have small: "k < m"
    proof (rule ccontr)
      assume "\<not> k < m"
      then have "length due \<le> k" if "due \<in> set per" for due using that 1(3) by fastforce
      then show False using 3(2) by (auto simp: round_of_def filter_empty_conv not_less)
    qed
    have grown: "length (take_round limit k per claimed) \<noteq> length claimed" using 3 round by simp
    have IH: "claim_rounds limit (Suc k) per (claimed @ ?taken)
        = claimed @ ?taken @ take (limit - length claimed - length ?taken) (concat (map (round_of per) [Suc k..<m]))"
      using 1(1) [OF 3(1) refl grown] 1(3) 3(1) round by auto
    have "claim_rounds limit k per claimed = claim_rounds limit (Suc k) per (take_round limit k per claimed)"
      using 3(1) grown by (simp add: claim_rounds.simps [of limit k] Let_def)
    moreover have "take (limit - length claimed - length ?taken) xs = take (limit - length claimed - length (round_of per k)) xs" for xs :: "'a list"
      by (cases "length (round_of per k) \<le> limit - length claimed") auto
    ultimately show ?thesis unfolding round IH upt_conv_Cons [OF small] list.map concat.simps take_append by simp
  qed
qed

lemma take_concat_rounds:
  "\<exists>k \<le> m. \<exists>n. take l (concat (map f [0..<m])) = concat (map f [0..<k]) @ take n (f k)
     \<and> (length (concat (map f [0..<m])) \<le> l \<longrightarrow> k = m \<and> n = 0)"
proof (induction m)
  case 0
  show ?case by (intro exI [of _ 0]) simp
next
  case (Suc m)
  let ?all = "concat (map f [0..<m])"
  show ?case
  proof (cases "length ?all + length (f m) \<le> l")
    case True
    then show ?thesis by (intro exI [of _ "Suc m"] conjI exI [of _ 0]) simp_all
  next
    case more: False
    show ?thesis
    proof (cases "length ?all \<le> l")
      case True
      then show ?thesis using more by (intro exI [of _ m] conjI exI [of _ "l - length ?all"]) simp_all
    next
      case False
      obtain k n where "k \<le> m" "take l ?all = concat (map f [0..<k]) @ take n (f k)" using Suc.IH by blast
      then show ?thesis using False more by (intro exI [of _ k] conjI exI [of _ n]) simp_all
    qed
  qed
qed

lemma short_append: "a @ b = c \<Longrightarrow> length c \<le> 1 \<Longrightarrow> a = [] \<or> a = c"
  by (cases a) auto

text \<open>What a repository gets of a number of full rounds and a started one.\<close>

definition turns :: "('a \<Rightarrow> 'i) \<Rightarrow> 'i \<Rightarrow> 'a list \<Rightarrow> nat" where
  "turns owner i claimed = length (filter (\<lambda>u. owner u = i) claimed)"

definition owned_by :: "('a \<Rightarrow> 'i) \<Rightarrow> ('i \<times> 'a list) list \<Rightarrow> bool" where
  "owned_by owner per \<longleftrightarrow> (\<forall>(i, due) \<in> set per. \<forall>u \<in> set due. owner u = i)"

lemma filter_round:
  assumes "distinct (map fst per)" and "owned_by owner per"
    and "(i, due) \<in> set per"
  shows "filter (\<lambda>u. owner u = i) (round_of (map snd per) k) = (if k < length due then [due ! k] else [])"
  using assms
proof (induction per)
  case Nil
  then show ?case by simp
next
  case (Cons x per)
  obtain j d where x: "x = (j, d)" by (cases x)
  have own: "owner (d ! k) = j" if "k < length d" using Cons.prems(2) that by (simp add: x owned_by_def)
  have split: "filter (\<lambda>u. owner u = i) (round_of (map snd (x # per)) k)
      = (if k < length d \<and> j = i then [d ! k] else []) @ filter (\<lambda>u. owner u = i) (round_of (map snd per) k)"
    using own by (auto simp: round_of_def x)
  show ?case
  proof (cases "(i, due) = x")
    case True
    have "owner u \<noteq> i" if u: "u \<in> set (round_of (map snd per) k)" for u
    proof -
      obtain z where z: "z \<in> set per" "k < length (snd z)" "u = snd z ! k" using u by (auto simp: round_of_def)
      then have "owner u = fst z" using Cons.prems(2) by (auto simp: owned_by_def)
      moreover have "fst z \<noteq> i" using Cons.prems(1) z(1) True by (auto simp: x)
      ultimately show ?thesis by simp
    qed
    then have "filter (\<lambda>u. owner u = i) (round_of (map snd per) k) = []" by (simp add: filter_empty_conv)
    then show ?thesis unfolding split using True by (auto simp: x)
  next
    case False
    then have i: "(i, due) \<in> set per" using Cons.prems(3) by simp
    then have "j \<noteq> i" using Cons.prems(1) by (force simp: x)
    moreover have "filter (\<lambda>u. owner u = i) (round_of (map snd per) k) = (if k < length due then [due ! k] else [])"
      by (rule Cons.IH [OF _ _ i]) (use Cons.prems(1,2) in \<open>simp_all add: owned_by_def\<close>)
    ultimately show ?thesis unfolding split by simp
  qed
qed

lemma filter_rounds:
  assumes "distinct (map fst per)" and "owned_by owner per"
    and "(i, due) \<in> set per"
  shows "filter (\<lambda>u. owner u = i) (concat (map (round_of (map snd per)) [0..<k])) = take k due"
proof (induction k)
  case 0
  show ?case by simp
next
  case (Suc k)
  have "take (Suc k) due = take k due @ (if k < length due then [due ! k] else [])"
    by (simp add: take_Suc_conv_app_nth)
  then show ?case using Suc filter_round [OF assms] by simp
qed

theorem claim_rounds_fair:
  assumes "distinct (map fst per)" and "owned_by owner per"
    and "claimed = claim_rounds limit 0 (map snd per) []"
  shows "length claimed \<le> limit" and "set claimed \<subseteq> (\<Union>x \<in> set per. set (snd x))"
    and "(i, due) \<in> set per \<Longrightarrow> filter (\<lambda>u. owner u = i) claimed = take (turns owner i claimed) due"
    and "\<lbrakk>(i, due) \<in> set per; (j, due') \<in> set per; turns owner i claimed < length due\<rbrakk>
      \<Longrightarrow> turns owner j claimed \<le> Suc (turns owner i claimed)"
    and "\<lbrakk>length claimed < limit; (i, due) \<in> set per\<rbrakk> \<Longrightarrow> turns owner i claimed = length due"
proof -
  define m where "m = Max (insert 0 (length ` set (map snd per)))"
  have m: "length d \<le> m" if "d \<in> set (map snd per)" for d
    unfolding m_def using that by (intro Max_ge) auto
  let ?rounds = "\<lambda>k. concat (map (round_of (map snd per)) [0..<k])"
  have claimed: "claimed = take limit (?rounds m)"
    using claim_rounds_takes [of "[]" limit "map snd per" m 0] m assms(3) by simp
  show "length claimed \<le> limit" by (simp add: claimed)
  show "set claimed \<subseteq> (\<Union>x \<in> set per. set (snd x))"
  proof
    fix u assume "u \<in> set claimed"
    then have "u \<in> set (?rounds m)" using set_take_subset [of limit "?rounds m"] unfolding claimed by blast
    then obtain k where "u \<in> set (round_of (map snd per) k)" by (auto simp only: set_concat set_map)
    then obtain x where "x \<in> set per" "k < length (snd x)" "u = snd x ! k" by (auto simp: round_of_def)
    then show "u \<in> (\<Union>x \<in> set per. set (snd x))" using nth_mem by blast
  qed
  obtain k n where kn: "k \<le> m" "take limit (?rounds m) = ?rounds k @ take n (round_of (map snd per) k)"
    "length (?rounds m) \<le> limit \<longrightarrow> k = m \<and> n = 0"
    using take_concat_rounds [of m limit "round_of (map snd per)"] by blast
  have part: "\<exists>c \<in> {k, Suc k}. filter (\<lambda>u. owner u = i) claimed = take c due" if "(i, due) \<in> set per" for i due
  proof -
    note one = filter_round [OF assms(1,2) that, where k = k]
    have "filter (\<lambda>u. owner u = i) (take n (round_of (map snd per) k)) \<in> {[], filter (\<lambda>u. owner u = i) (round_of (map snd per) k)}"
    proof -
      let ?r = "round_of (map snd per) k"
      have "filter (\<lambda>u. owner u = i) (take n ?r) @ filter (\<lambda>u. owner u = i) (drop n ?r) = filter (\<lambda>u. owner u = i) ?r"
        by (metis append_take_drop_id filter_append)
      moreover have "length (filter (\<lambda>u. owner u = i) ?r) \<le> 1" unfolding one by (simp split: if_split)
      ultimately have "filter (\<lambda>u. owner u = i) (take n ?r) = [] \<or> filter (\<lambda>u. owner u = i) (take n ?r) = filter (\<lambda>u. owner u = i) ?r"
        by (rule short_append)
      then show ?thesis by simp
    qed
    then have "filter (\<lambda>u. owner u = i) (take n (round_of (map snd per) k)) = []
        \<or> k < length due \<and> filter (\<lambda>u. owner u = i) (take n (round_of (map snd per) k)) = [due ! k]"
      unfolding one by (auto split: if_splits)
    then show ?thesis
      unfolding claimed kn(2) filter_append filter_rounds [OF assms(1,2) that]
      by (auto simp: take_Suc_conv_app_nth)
  qed
  have count: "\<exists>c \<in> {k, Suc k}. turns owner i claimed = min (length due) c" if "(i, due) \<in> set per" for i due
    using part [OF that] unfolding turns_def by fastforce
  show "filter (\<lambda>u. owner u = i) claimed = take (turns owner i claimed) due" if i: "(i, due) \<in> set per" for i due
  proof -
    obtain c where "filter (\<lambda>u. owner u = i) claimed = take c due" using part [OF i] by blast
    then show ?thesis unfolding turns_def by (simp add: min_def)
  qed
  show "turns owner j claimed \<le> Suc (turns owner i claimed)"
    if "(i, due) \<in> set per" "(j, due') \<in> set per" "turns owner i claimed < length due" for i j due due'
    using count [OF that(1)] count [OF that(2)] that(3) by auto
  show "turns owner i claimed = length due" if "length claimed < limit" "(i, due) \<in> set per" for i due
  proof -
    have "length (?rounds m) \<le> limit" using that(1) by (simp add: claimed)
    then have "k = m" using kn(3) by blast
    moreover have "length due \<le> m" using m that(2) by force
    ultimately show ?thesis using count [OF that(2)] by auto
  qed
qed

section \<open>What is due, exactly\<close>

text \<open>No attempt is publishing the package, and every task of the unit waits for its time.\<close>

definition free_slot :: "queue \<Rightarrow> slot_row \<Rightarrow> bool" where
  "free_slot q s \<longleftrightarrow>
     (\<forall>a \<in> set (q_attempts q). (c_package_id a, c_package_revision a) = (sl_package_id s, sl_package_revision s)
        \<longrightarrow> c_status a \<in> {''published'', ''cancelled'', ''superseded''})
     \<and> (\<exists>u \<in> set (q_units q). un_unit_id u = sl_unit_id s
        \<and> tasks_held (q_plans q) (un_feature_id u) (un_plan_revision u) (set (members q (sl_unit_id s))) Scheduled)"

definition serving :: "queue \<Rightarrow> int \<Rightarrow> repository_id \<Rightarrow> bool" where
  "serving q now i \<longleftrightarrow> i \<notin> pz_repository_id ` set (q_pauses q)
     \<and> integration_is_ready (q_backoff q) Git (id_display (q_text q) RepositoryKind i) now"

definition due_rows :: "queue \<Rightarrow> int \<Rightarrow> repository_id \<Rightarrow> slot_row set" where
  "due_rows q now i = {s \<in> set (q_slots q). serving q now i \<and> sl_repository_id s = i \<and> sl_live s
     \<and> sl_selected_at s \<le> now \<and> free_slot q s}"

lemma all_scheduled_reads:
  assumes "pdb_ok (q_plans q)"
    and "\<And>t. t \<in> set ts \<Longrightarrow> \<exists>r. task_of (q_plans q) (ur_feature_id u) (ur_plan_revision u) t = Inr (Some r)"
  shows "all_scheduled q u ts = Inr (tasks_held (q_plans q) (ur_feature_id u) (ur_plan_revision u) (set ts) Scheduled)"
proof -
  have "all_scheduled q u ts = Inr (\<forall>t \<in> set ts. task_status_is q (ur_feature_id u) (ur_plan_revision u) t
      (\<lambda>r. ts_status (tr_state r) = Scheduled))"
    using assms(2)
  proof (induction ts)
    case (Cons t ts)
    then obtain r where "task_of (q_plans q) (ur_feature_id u) (ur_plan_revision u) t = Inr (Some r)" by auto
    then show ?case using Cons by (auto simp: task_status_is_def)
  qed simp
  then show ?thesis by (simp add: tasks_held_iff [OF assms(1)] task_status_is_iff)
qed

lemma sort_key_Nil_iff: "sort_key f xs = [] \<longleftrightarrow> xs = []"
  by (metis length_0_conv length_sort)

lemma distinct_map_sort: "distinct (map f (sort_key g xs)) \<longleftrightarrow> distinct (map f xs)"
  by (simp add: distinct_map)

lemma is_claimable_reads:
  assumes "queue_ok q" and "s \<in> set (q_slots q)"
  shows "is_claimable q (sl_unit_id s) (sl_package_id s) (sl_package_revision s) = Inr (free_slot q s)"
proof -
  have ok: "pdb_ok (q_plans q)" "units_ok q (q_units q)" "slots_ok q (q_slots q)" "db_ok (attempt_view q)"
    using assms(1) by (simp_all add: queue_ok_def)
  let ?busy = "filter (\<lambda>r. c_package_id r = sl_package_id s \<and> c_package_revision r = sl_package_revision s
      \<and> c_status r \<notin> {''published'', ''cancelled'', ''superseded''}) (q_attempts q)"
  have idle: "?busy = [] \<longleftrightarrow> (\<forall>a \<in> set (q_attempts q).
      (c_package_id a, c_package_revision a) = (sl_package_id s, sl_package_revision s)
        \<longrightarrow> c_status a \<in> {''published'', ''cancelled'', ''superseded''})"
    by (auto simp: filter_empty_conv)
  have attempt: "\<exists>found. live_attempt_for_package (attempt_view q) (sl_package_id s) (sl_package_revision s) = Inr found
      \<and> (found = None \<longleftrightarrow> ?busy = [])"
  proof (cases "sort_key (\<lambda>r. - c_updated_at r) ?busy")
    case Nil
    then have "?busy = []" by (simp only: sort_key_Nil_iff)
    then show ?thesis using Nil by (simp add: live_attempt_for_package_def attempt_view_def)
  next
    case (Cons r rs)
    then have "r \<in> set (sort_key (\<lambda>r. - c_updated_at r) ?busy)" by (simp only: list.set_intros)
    then have "r \<in> set ?busy" by (simp only: set_sort)
    then have "row_ok r" using ok(4) by (simp add: db_ok_def attempt_view_def)
    moreover have "?busy \<noteq> []" using Cons sort_key_Nil_iff by (metis list.distinct(1))
    ultimately show ?thesis using Cons row_ok_loads [of r] by (auto simp: live_attempt_for_package_def attempt_view_def)
  qed
  obtain x where x: "x \<in> set (q_units q)" "un_unit_id x = sl_unit_id s"
    using ok(3) assms(2) by (auto simp: slots_ok_def slot_row_ok_def list_all_iff)
  define u where "u = \<lparr>ur_unit_id = sl_unit_id s, ur_feature_id = un_feature_id x, ur_plan_revision = un_plan_revision x,
    ur_task_ids = bts_collect (members q (sl_unit_id s)), ur_created_at = un_created_at x\<rparr>"
  have read: "release_unit_of q (sl_unit_id s) = Some u" unfolding unit_read [OF assms(1)] using x by (auto simp: u_def)
  obtain p where p: "p \<in> set (pdb_plans (q_plans q))" "plan_key p = (un_feature_id x, un_plan_revision x)"
    using ok(2) x(1) by (simp add: units_ok_def list_all_iff) (metis imageE)
  have tasks: "\<exists>r. task_of (q_plans q) (ur_feature_id u) (ur_plan_revision u) t = Inr (Some r)" if "t \<in> set (ur_task_ids u)" for t
  proof -
    have "t \<in> pt_id ` set (plan_tasks_of (pl_document p))"
      using that unit_members_planned [OF assms(1) x(1) p] x(2) by (auto simp: u_def)
    then show ?thesis using plan_task_read [OF ok(1) p(1)] p(2) by (auto simp: u_def plan_key_def)
  qed
  have same: "y = x" if "y \<in> set (q_units q)" "un_unit_id y = sl_unit_id s" for y
    using that x by (intro one_unit [OF ok(2)]) simp_all
  have "free_slot q s \<longleftrightarrow> ?busy = [] \<and> tasks_held (q_plans q) (un_feature_id x) (un_plan_revision x)
      (set (members q (sl_unit_id s))) Scheduled"
    unfolding free_slot_def idle using x same by blast
  then show ?thesis
    using attempt all_scheduled_reads [OF ok(1) tasks, of "ur_task_ids u"]
    by (auto simp: is_claimable_def read) (simp_all add: u_def)
qed

lemma sorted_by_two_keys:
  "sorted_wrt (\<lambda>a b. f a < f b \<or> f a = f b \<and> g a \<le> g b) (sort_key f (sort_key g xs))"
proof -
  have "sorted_wrt (\<lambda>a b. f a < f b \<or> f a = f b \<and> g a \<le> g b) ys"
    if "sorted (map f ys)" "\<And>k. sorted (map g (filter (\<lambda>y. f y = k) ys))" for ys
    using that
  proof (induction ys)
    case (Cons y ys)
    have "f y < f z \<or> f y = f z \<and> g y \<le> g z" if "z \<in> set ys" for z
      using Cons.prems(1) Cons.prems(2) [of "f y"] that by (cases "f y = f z") auto
    moreover have "sorted (map g (filter (\<lambda>y. f y = k) ys))" for k
      using Cons.prems(2) [of k] by (auto split: if_splits)
    ultimately show ?case using Cons by auto
  qed simp
  moreover have "sorted (map g (filter (\<lambda>y. f y = k) (sort_key f (sort_key g xs))))" for k
    by (subst sort_key_stable) (simp add: filter_sort)
  ultimately show ?thesis by simp
qed

definition due_before :: "due_unit \<Rightarrow> due_unit \<Rightarrow> bool" where
  "due_before a b \<longleftrightarrow> du_selected_at a < du_selected_at b
     \<or> du_selected_at a = du_selected_at b \<and> du_unit_id a \<le> du_unit_id b"

text \<open>The queue of a repository: the rows that are due, in execution order.\<close>

definition due_queue :: "queue \<Rightarrow> int \<Rightarrow> repository_id \<Rightarrow> due_unit list \<Rightarrow> bool" where
  "due_queue q now i due \<longleftrightarrow>
     set due = (\<lambda>s. due_unit_of i (slot_from_row s)) ` due_rows q now i
     \<and> distinct (map du_unit_id due) \<and> sorted_wrt due_before due"

lemma repository_due_reads:
  assumes "queue_ok q"
  shows "\<exists>due. repository_due q now i = Inr due \<and> due_queue q now i due"
proof (cases "serving q now i")
  case False
  then have "repository_due q now i = Inr []"
    by (auto simp: serving_def repository_due_def repository_pause_of_def find_None_iff)
  moreover have "due_rows q now i = {}" using False by (simp add: due_rows_def)
  ultimately show ?thesis by (simp add: due_queue_def)
next
  case True
  let ?late = "filter (\<lambda>s. sl_repository_id s = i \<and> sl_live s \<and> sl_selected_at s \<le> now) (q_slots q)"
  let ?f = "\<lambda>s. and_then (is_claimable q (ss_unit_id s) (ss_package_id s) (ss_package_revision s)) (\<lambda>free.
               Inr (if free then [due_unit_of i s] else []))"
  let ?d = "\<lambda>s. due_unit_of i (slot_from_row s)"
  have late: "set (in_execution_order q ?late) = set ?late" by (simp add: in_execution_order_def)
  have "collect_res ?f (map slot_from_row rows) = Inr (map (\<lambda>s. if free_slot q s then [?d s] else []) rows)"
    if "set rows \<subseteq> set (q_slots q)" for rows
    using that
  proof (induction rows)
    case (Cons s rows)
    then show ?case using is_claimable_reads [OF assms, of s] by (simp add: slot_from_row_def)
  qed simp
  then have "collect_res ?f (overdue_schedule_slots q i now)
      = Inr (map (\<lambda>s. if free_slot q s then [?d s] else []) (in_execution_order q ?late))"
    unfolding overdue_schedule_slots_def using late by auto
  moreover have "concat (map (\<lambda>s. if free_slot q s then [?d s] else []) rows) = map ?d (filter (free_slot q) rows)" for rows
    by (induction rows) auto
  ultimately have collected: "and_then (collect_res ?f (overdue_schedule_slots q i now)) (\<lambda>rows.
      Inr (sort_key du_selected_at (sort_key du_unit_id (concat rows))))
    = Inr (sort_key du_selected_at (sort_key du_unit_id (map ?d (filter (free_slot q) (in_execution_order q ?late)))))"
    by simp
  have ready: "repository_pause_of q i = None" "integration_is_ready (q_backoff q) Git (id_display (q_text q) RepositoryKind i) now"
    using True by (auto simp: serving_def repository_pause_of_def find_None_iff)
  let ?due = "sort_key du_selected_at (sort_key du_unit_id (map ?d (filter (free_slot q) (in_execution_order q ?late))))"
  have run: "repository_due q now i = Inr ?due"
    unfolding repository_due_def collected using ready by simp
  have ids: "map du_unit_id (map ?d rows) = map sl_unit_id rows" for rows
    by (simp add: due_unit_of_def slot_from_row_def)
  have "distinct (map sl_unit_id (filter sl_live (q_slots q)))" using assms by (simp add: queue_ok_def slots_ok_def)
  then have "distinct (map sl_unit_id (filter (\<lambda>s. sl_repository_id s = i \<and> sl_selected_at s \<le> now) (filter sl_live (q_slots q))))"
    by (rule distinct_map_filter)
  moreover have "filter (\<lambda>s. sl_repository_id s = i \<and> sl_selected_at s \<le> now) (filter sl_live (q_slots q)) = ?late"
    unfolding filter_filter by (rule filter_cong) auto
  ultimately have "distinct (map sl_unit_id ?late)" by (simp only:)
  then have "distinct (map sl_unit_id (in_execution_order q ?late))"
    unfolding in_execution_order_def distinct_map_sort .
  then have "distinct (map sl_unit_id (filter (free_slot q) (in_execution_order q ?late)))" by (rule distinct_map_filter)
  then have "distinct (map du_unit_id ?due)" unfolding distinct_map_sort ids .
  moreover have "set ?due = ?d ` due_rows q now i"
    using True late by (auto simp: due_rows_def image_iff)
  moreover have "sorted_wrt due_before ?due"
    unfolding due_before_def by (rule sorted_by_two_keys)
  ultimately show ?thesis unfolding run due_queue_def by blast
qed

section \<open>Handing out work\<close>

definition registered :: "queue \<Rightarrow> repository_id \<Rightarrow> bool" where
  "registered q i \<longleftrightarrow> i \<in> rr_id ` set (rg_repositories (q_registry q))"

lemma list_all2_results:
  "list_all2 (\<lambda>x y. f x = Inr y) xs ys \<Longrightarrow> (\<And>x y. f x = Inr y \<Longrightarrow> g y = h x) \<Longrightarrow> map g ys = map h xs"
  by (induction rule: list_all2_induct) auto

lemma repositories_of_ids:
  assumes "registry_ok g"
  shows "\<exists>ss. repositories_of g = Inr ss
    \<and> set (map (\<lambda>s. rg_id (sr_registration s)) ss) = rr_id ` set (rg_repositories g)
    \<and> distinct (map (\<lambda>s. rg_id (sr_registration s)) ss)"
proof -
  obtain ss where ss: "repositories_of g = Inr ss" "distinct (map (\<lambda>s. rg_id (sr_registration s)) ss)"
    by (rule repositories_of_loads [OF assms])
  have "list_all2 (\<lambda>x s. (case x of (r, p) \<Rightarrow> stored_repository_of r p) = Inr s)
      (sort_key (\<lambda>(r, p). id_display (rg_uuid_text g) RepositoryKind (rr_id r)) (joined_rows g)) ss"
    using ss(1) by (simp add: repositories_of_def res)
  then have "map (\<lambda>s. rg_id (sr_registration s)) ss
      = map (\<lambda>x. rr_id (fst x)) (sort_key (\<lambda>(r, p). id_display (rg_uuid_text g) RepositoryKind (rr_id r)) (joined_rows g))"
    by (rule list_all2_results) (auto simp: stored_repository_of_def registration_new_def res Let_def)
  then have "set (map (\<lambda>s. rg_id (sr_registration s)) ss) = (\<lambda>x. rr_id (fst x)) ` set (joined_rows g)"
    by (metis set_map set_sort)
  then show ?thesis using ss by (simp add: joined_rows_eq [OF assms] image_image)
qed

lemma distinct_by_group: "(\<And>i. distinct (filter (\<lambda>u. owner u = i) xs)) \<Longrightarrow> distinct xs"
proof (induction xs)
  case (Cons x xs)
  have "distinct (filter (\<lambda>u. owner u = i) xs)" for i using Cons.prems [of i] by (auto split: if_splits)
  moreover have "x \<notin> set xs" using Cons.prems [of "owner x"] by simp
  ultimately show ?case using Cons.IH by simp
qed simp

lemma due_units_outcome:
  assumes "queue_ok q"
  shows "\<exists>work claimed. due_units q now limit = Inr claimed
    \<and> (\<forall>i. registered q i \<longrightarrow> due_queue q now i (work i))
    \<and> length claimed \<le> limit \<and> distinct (map du_unit_id claimed)
    \<and> (\<forall>u \<in> set claimed. registered q (du_repository_id u) \<and> u \<in> set (work (du_repository_id u)))
    \<and> (\<forall>i. registered q i \<longrightarrow>
         filter (\<lambda>u. du_repository_id u = i) claimed = take (turns du_repository_id i claimed) (work i)
         \<and> (length claimed < limit \<longrightarrow> turns du_repository_id i claimed = length (work i))
         \<and> (\<forall>j. registered q j \<and> turns du_repository_id i claimed < length (work i)
              \<longrightarrow> turns du_repository_id j claimed \<le> Suc (turns du_repository_id i claimed)))"
proof -
  have reg: "registry_ok (q_registry q)" using assms by (simp add: queue_ok_def pdb_ok_def)
  obtain work where work: "\<And>i. repository_due q now i = Inr (work i) \<and> due_queue q now i (work i)"
    using repository_due_reads [OF assms, of now] by metis
  obtain ss where ss: "repositories_of (q_registry q) = Inr ss"
    "set (map (\<lambda>s. rg_id (sr_registration s)) ss) = rr_id ` set (rg_repositories (q_registry q))"
    "distinct (map (\<lambda>s. rg_id (sr_registration s)) ss)"
    using repositories_of_ids [OF reg] by blast
  define ids where "ids = map (\<lambda>s. rg_id (sr_registration s)) ss"
  define per where "per = filter (\<lambda>x. snd x \<noteq> []) (map (\<lambda>i. (i, work i)) ids)"
  define claimed where "claimed = claim_rounds limit 0 (map snd per) []"
  have in_ids: "i \<in> set ids \<longleftrightarrow> registered q i" for i using ss(2) by (simp add: ids_def registered_def)
  have "collect_res (\<lambda>r. repository_due q now (rg_id (sr_registration r))) ss = Inr (map work ids)"
    using collect_res_all [of ss "\<lambda>r. repository_due q now (rg_id (sr_registration r))" "\<lambda>r. work (rg_id (sr_registration r))"] work
    by (simp add: ids_def comp_def)
  moreover have queues: "filter (\<lambda>due. due \<noteq> []) (map work ids) = map snd per"
    by (simp add: per_def filter_map comp_def)
  moreover have "claim_rounds 0 0 (map snd per) [] = []" by (simp add: claim_rounds.simps)
  ultimately have run: "due_units q now limit = Inr claimed"
    by (cases "limit = 0") (simp_all add: due_units_def ss(1) claimed_def)
  have per: "distinct (map fst per)" "(i, due) \<in> set per \<longleftrightarrow> registered q i \<and> due = work i \<and> due \<noteq> []" for i due
  proof -
    have "distinct (map fst (map (\<lambda>i. (i, work i)) ids))" using ss(3) by (simp add: ids_def comp_def)
    then show "distinct (map fst per)" unfolding per_def by (rule distinct_map_filter)
    show "(i, due) \<in> set per \<longleftrightarrow> registered q i \<and> due = work i \<and> due \<noteq> []" by (auto simp: per_def in_ids)
  qed
  have repo: "du_repository_id u = i" if "u \<in> set (work i)" for u i
  proof -
    have "u \<in> (\<lambda>s. due_unit_of i (slot_from_row s)) ` due_rows q now i" using that work [of i] by (simp add: due_queue_def)
    then show ?thesis by (elim imageE) (simp add: due_unit_of_def)
  qed
  have owned: "owned_by du_repository_id per" using per(2) repo by (auto simp: owned_by_def)
  note fair = claim_rounds_fair [OF per(1) owned claimed_def]
  have from_work: "registered q (du_repository_id u) \<and> u \<in> set (work (du_repository_id u))" if "u \<in> set claimed" for u
  proof -
    obtain x where x: "x \<in> set per" "u \<in> set (snd x)" using fair(2) \<open>u \<in> set claimed\<close> by blast
    then have "registered q (fst x)" "snd x = work (fst x)" using per(2) [of "fst x" "snd x"] by simp_all
    then show ?thesis using x(2) repo [of u "fst x"] by simp
  qed
  have taken: "filter (\<lambda>u. du_repository_id u = i) claimed = take (turns du_repository_id i claimed) (work i)"
    if i: "registered q i" for i
  proof (cases "work i = []")
    case True
    then have "filter (\<lambda>u. du_repository_id u = i) claimed = []" using from_work by (force simp: filter_empty_conv)
    then show ?thesis using True by simp
  next
    case False
    then show ?thesis using fair(3) per(2) i by blast
  qed
  have all: "turns du_repository_id i claimed = length (work i)" if "registered q i" "length claimed < limit" for i
    using fair(5) [OF that(2)] per(2) that(1) taken [OF that(1)] by (cases "work i = []") (auto simp: turns_def)
  have even: "turns du_repository_id j claimed \<le> Suc (turns du_repository_id i claimed)"
    if "registered q i" "registered q j" "turns du_repository_id i claimed < length (work i)" for i j
  proof (cases "work j = []")
    case True
    then show ?thesis using taken [OF that(2)] by (simp add: turns_def)
  next
    case False
    moreover have "work i \<noteq> []" using that(3) by auto
    ultimately show ?thesis using fair(4) [of i "work i" j "work j"] per(2) that by blast
  qed
  have "distinct (map du_unit_id claimed)"
  proof -
    have "distinct (filter (\<lambda>u. du_repository_id u = i) claimed)" for i
    proof (cases "registered q i")
      case True
      have "distinct (work i)" using work [of i] by (simp add: due_queue_def distinct_map)
      then show ?thesis unfolding taken [OF True] by (rule distinct_take)
    next
      case False
      then have "filter (\<lambda>u. du_repository_id u = i) claimed = []" using from_work by (auto simp: filter_empty_conv)
      then show ?thesis by simp
    qed
    then have d: "distinct claimed" by (rule distinct_by_group)
    have row: "\<exists>s \<in> set (filter sl_live (q_slots q)). u = due_unit_of (sl_repository_id s) (slot_from_row s)"
      if "u \<in> set claimed" for u
    proof -
      have "u \<in> set (work (du_repository_id u))" using from_work [OF that] by blast
      then obtain s where "s \<in> due_rows q now (du_repository_id u)" "u = due_unit_of (du_repository_id u) (slot_from_row s)"
        using work [of "du_repository_id u"] unfolding due_queue_def by blast
      then show ?thesis by (intro bexI [of _ s]) (auto simp: due_rows_def)
    qed
    have live: "distinct (map sl_unit_id (filter sl_live (q_slots q)))" using assms by (simp add: queue_ok_def slots_ok_def)
    have "u = w" if uw: "u \<in> set claimed" "w \<in> set claimed" "du_unit_id u = du_unit_id w" for u w
    proof -
      obtain s t where s: "s \<in> set (filter sl_live (q_slots q))" "u = due_unit_of (sl_repository_id s) (slot_from_row s)"
        and t: "t \<in> set (filter sl_live (q_slots q))" "w = due_unit_of (sl_repository_id t) (slot_from_row t)"
        using row [OF uw(1)] row [OF uw(2)] by blast
      have "sl_unit_id s = sl_unit_id t" using uw(3) s(2) t(2) by (simp add: due_unit_of_def slot_from_row_def)
      then have "s = t" by (rule key_unique [OF live s(1) t(1)])
      then show ?thesis using s(2) t(2) by simp
    qed
    then show ?thesis using d by (auto simp: distinct_map inj_on_def)
  qed
  then show ?thesis
    using run work fair(1) from_work taken all even by blast
qed

end
