(* ===== verification/Scheduling.thy ===== *)
theory Scheduling
  imports Scheduler
begin

text \<open>
  What the scheduler does to the store (\<open>schedule_at\<close> and \<open>reconcile_missed_windows\<close> of
  \<open>crates/daemon/src/scheduler.rs\<close>).

  A recorded time lies within the policy that was in force, the override included; a refusal changes
  nothing.  Bringing missed windows forward only ever withdraws times that have passed and adds times
  that have not.
\<close>

section \<open>Every step keeps the store\<close>

lemma schedule_at_stays: "stays queue_moves (schedule_at cal i p v seed requested_at now)"
  unfolding schedule_at_def Let_def
  by (intro queue.sequence queue.reading queue.reading_or_panic queue.return queue.mapping_error
      persist_schedule_slot_stays | split option.split | intro conjI allI impI)+

lemma schedule_stays: "stays queue_moves (schedule cal i p v seed now)"
  unfolding schedule_def by (rule schedule_at_stays)

text \<open>What follows a withdrawal, by its result.\<close>

definition after_missed ::
  "'d calendar \<Rightarrow> 64 word \<Rightarrow> int \<Rightarrow> missed_window_outcome \<Rightarrow> nat \<Rightarrow> schedule_slot
    \<Rightarrow> (store_error, schedule_slot option) result \<Rightarrow> (queue, scheduler_error, missed_window_outcome) cmd" where
  "after_missed cal seed now outcome index slot r =
     (case r of
        Inr (Some _) \<Rightarrow>
          c_then (schedule cal (ss_unit_id slot) (ss_package_id slot) (ss_package_revision slot)
            (seed + of_nat index) now) (\<lambda>_.
          c_return (outcome\<lparr>mw_rescheduled := mw_rescheduled outcome @ [ss_unit_id slot]\<rparr>))
      | Inr None \<Rightarrow> c_return outcome
      | Inl (Conflict _) \<Rightarrow> c_return (outcome\<lparr>mw_retained := mw_retained outcome @ [ss_unit_id slot]\<rparr>)
      | Inl e \<Rightarrow> c_fail (SchedulerStore e))"

lemma reconcile_slot_steps:
  "reconcile_slot cal allowance seed now outcome (index, slot) =
     (if ss_on_request slot then c_return (outcome\<lparr>mw_retained := mw_retained outcome @ [ss_unit_id slot]\<rparr>)
      else if index < allowance then
        c_return (outcome\<lparr>mw_released_now := mw_released_now outcome @ [ss_unit_id slot]\<rparr>)
      else c_match (writing (invalidate_schedule_slot (ss_unit_id slot) ''release window was missed'' now))
        (after_missed cal seed now outcome index slot))"
  unfolding reconcile_slot_def after_missed_def prod.case by (rule refl)

lemma after_missed_stays: "stays queue_moves (after_missed cal seed now outcome index slot r)"
  unfolding after_missed_def
  by (auto split: sum.splits option.splits store_error.splits
      intro: queue.return queue.fail queue.sequence schedule_stays)

lemma reconcile_slot_stays: "stays queue_moves (reconcile_slot cal allowance seed now outcome x)"
  by (cases x) (auto simp: reconcile_slot_steps intro: queue.return queue.matching [OF invalidate_stays] after_missed_stays)

lemma reconcile_missed_windows_stays: "stays queue_moves (reconcile_missed_windows cal i seed now)"
  unfolding reconcile_missed_windows_def
  by (intro queue.sequence queue.reading queue.return queue.fold_loop reconcile_slot_stays | split if_split | intro conjI allI impI)+

section \<open>A recorded time lies within the policy\<close>

definition sound_range :: "daily_release_range \<Rightarrow> bool" where
  "sound_range r \<longleftrightarrow> dr_minimum r \<le> dr_maximum r"

definition sound_policy :: "schedule_policy \<Rightarrow> bool" where
  "sound_policy p \<longleftrightarrow> schedule_policy_ok p \<and> sound_range (sp_daily_releases p)"

text \<open>Every stored policy came from the constructor, and every stored range of an override too.\<close>

definition policies_sound :: "registry \<Rightarrow> bool" where
  "policies_sound g \<longleftrightarrow>
     (\<forall>v \<in> set (rg_schedules g). sound_policy (vr_value v))
     \<and> (\<forall>v \<in> set (rg_overrides g). null_or sound_range (so_daily_releases (vr_value v)))"

text \<open>The time is open, far enough from every other time of the repository, and its day has room.\<close>

definition within_policy :: "'d calendar \<Rightarrow> schedule_policy \<Rightarrow> int \<Rightarrow> int list \<Rightarrow> int \<Rightarrow> bool" where
  "within_policy cal p now existing t \<longleftrightarrow>
     (let others = filter (\<lambda>e. e \<noteq> t) existing
      in now \<le> t \<and> clear_of (spacing_ms_of p) others t
         \<and> (\<exists>d. permitted cal p now d t
              \<and> existing_on cal (sp_timezone p) d others < dr_maximum (sp_daily_releases p)))"

lemma select_one_within:
  assumes "select cal g p now 1 existing = Some (Inr (slots, g'))" and "sound_policy p" and "calendar_ok cal day_number"
  shows "\<exists>s. slots = [s] \<and> within_policy cal p now existing (ps_selected_at s)"
proof -
  have p: "schedule_policy_ok p" "dr_minimum (sp_daily_releases p) \<le> dr_maximum (sp_daily_releases p)"
    using assms(2) by (simp_all add: sound_policy_def sound_range_def)
  note all = select_within_policy [OF assms(1) p assms(3)]
  then obtain s where s: "slots = [s]" by (metis length_0_conv length_Suc_conv One_nat_def)
  let ?t = "ps_selected_at s"
  have sp: "0 < spacing_ms_of p" using p(1) by (simp add: schedule_policy_ok_def spacing_ms_of_def)
  have clear: "clear_of (spacing_ms_of p) existing ?t" using all by (simp add: s)
  obtain d where d: "ps_local_date s = cal_date_text cal d" "permitted cal p now d ?t" using all by (auto simp: s)
  have others: "filter (\<lambda>e. e \<noteq> ?t) existing = existing"
    using clear sp by (auto simp: filter_id_conv clear_of_def)
  have "slots_on (cal_date_text cal d) slots = 1" by (simp add: s d(1) slots_on_def)
  then have "1 + existing_on cal (sp_timezone p) d existing \<le> dr_maximum (sp_daily_releases p)"
    using all by (metis zero_less_one)
  then show ?thesis using s clear d(2) others by (auto simp: within_policy_def Let_def permitted_def)
qed

lemma requested_within:
  assumes "validate_requested_slot cal p t now existing = Inr s"
  shows "ps_selected_at s = t \<and> within_policy cal p now existing t"
  using assms unfolding validate_requested_slot_Inr
  by (auto simp: within_policy_def Let_def permitted_def)

lemma select_time_total:
  assumes "sound_policy p"
  shows "\<exists>r. select_time cal p seed requested_at now existing = Some r"
proof (cases requested_at)
  case None
  have "select_days cal p now 1 n date g occ sel \<noteq> None" for n date g occ sel
    using assms by (intro select_days_one) (simp_all add: sound_policy_def sound_range_def)
  then have one: "(select_days cal p now (Suc 0) n date g occ sel = None) = False" for n date g occ sel by simp
  have "select cal (seeded seed) p now 1 existing \<noteq> None"
    by (auto simp: select_def one split: sum.splits option.splits prod.splits)
  then show ?thesis by (auto simp: select_time_def None)
qed (simp add: select_time_def)

lemma select_time_within:
  assumes "select_time cal p seed requested_at now existing = Some (Inr s)" and "sound_policy p" and "calendar_ok cal day_number"
  shows "within_policy cal p now existing (ps_selected_at s)
    \<and> (requested_at = None \<or> requested_at = Some (ps_selected_at s))"
proof (cases requested_at)
  case None
  then obtain slots g' where slots: "select cal (seeded seed) p now 1 existing = Some (Inr (slots, g'))"
    "slots \<noteq> []" "s = last slots"
    using assms(1) by (auto simp: select_time_def res split: if_splits)
  then show ?thesis using select_one_within [OF slots(1) assms(2,3)] None by auto
next
  case (Some t)
  then have "validate_requested_slot cal p t now existing = Inr s" using assms(1) by (auto simp: select_time_def res)
  then show ?thesis using requested_within [of cal p t now existing s] Some by simp
qed

lemma active_row_in: "active_row i rows = Some v \<Longrightarrow> v \<in> set rows"
  by (auto simp: active_row_def dest: find_Some_in)

lemma effective_policy_sound:
  assumes "policies_sound g" and "schedule_policy_of g i = Some policy" and "effective_policy g i policy = Inr p"
  shows "sound_policy p"
proof -
  obtain v where v: "v \<in> set (rg_schedules g)" "ssp_policy policy = vr_value v"
    using assms(2) active_row_in by (fastforce simp: schedule_policy_of_def)
  have base: "sound_policy (ssp_policy policy)" using assms(1) v by (simp add: policies_sound_def)
  show ?thesis
  proof (cases "schedule_override_of g i")
    case None
    then show ?thesis using assms(3) base by (simp add: effective_policy_def)
  next
    case (Some ov)
    then obtain w where w: "w \<in> set (rg_overrides g)" "ov = vr_value w"
      using active_row_in by (fastforce simp: schedule_override_of_def)
    have range: "null_or sound_range (so_daily_releases ov)" using assms(1) w by (simp add: policies_sound_def)
    have p: "with_override (ssp_policy policy) ov = Inr p"
      using assms(3) Some by (simp add: effective_policy_def res)
    have "schedule_policy_ok p" using p schedule_policy_new_Inr unfolding with_override_def by blast
    moreover have "sp_daily_releases p = unwrap_or (so_daily_releases ov) (sp_daily_releases (ssp_policy policy))"
      using p unfolding with_override_def by (auto simp: schedule_policy_new_def res Let_def split: if_splits)
    ultimately show ?thesis
      using base range by (cases "so_daily_releases ov") (simp_all add: sound_policy_def unwrap_or_def)
  qed
qed

section \<open>Scheduling, exactly\<close>

definition drawn_slot ::
  "release_unit_id \<Rightarrow> package_id \<Rightarrow> revision \<Rightarrow> stored_schedule_policy \<Rightarrow> planned_slot \<Rightarrow> int \<Rightarrow> new_schedule_slot" where
  "drawn_slot i p v policy selected now =
     \<lparr>ns_unit_id = i, ns_package_id = p, ns_package_revision = v, ns_policy_revision = ssp_revision policy,
      ns_timezone = ps_timezone selected, ns_eligible_at = now, ns_selected_at = ps_selected_at selected,
      ns_created_at = now, ns_on_request = False\<rparr>"

lemma drawn_slot_sel [simp]:
  "ns_unit_id (drawn_slot i p v policy s now) = i" "ns_selected_at (drawn_slot i p v policy s now) = ps_selected_at s"
  "ns_created_at (drawn_slot i p v policy s now) = now" "ns_on_request (drawn_slot i p v policy s now) = False"
  "ns_package_id (drawn_slot i p v policy s now) = p" "ns_package_revision (drawn_slot i p v policy s now) = v"
  "ns_eligible_at (drawn_slot i p v policy s now) = now"
  by (simp_all add: drawn_slot_def)

text \<open>The time that is recorded for a unit that has none.\<close>

definition scheduled_as ::
  "'d calendar \<Rightarrow> queue \<Rightarrow> int option \<Rightarrow> int \<Rightarrow> new_schedule_slot \<Rightarrow> unit_row \<Rightarrow> plan_row \<Rightarrow> bool" where
  "scheduled_as cal q requested_at now n x p \<longleftrightarrow>
     schedulable q n x p \<and> ns_created_at n = now \<and> ns_eligible_at n = now \<and> \<not> ns_on_request n
     \<and> (requested_at = None \<or> requested_at = Some (ns_selected_at n))
     \<and> (\<exists>policy effective. schedule_policy_of (q_registry q) (pl_repository_id p) = Some policy
          \<and> ns_policy_revision n = ssp_revision policy
          \<and> effective_policy (q_registry q) (pl_repository_id p) policy = Inr effective
          \<and> within_policy cal effective now (map ss_selected_at (schedule_slots_of q (pl_repository_id p))) (ns_selected_at n))"

lemma schedule_at_outcome:
  assumes "queue_ok q" and "schedule_slot_of q i = None" and "policies_sound (q_registry q)" and "calendar_ok cal day_number"
  shows "\<exists>r q'. schedule_at cal i k v seed requested_at now q = Some (r, q')
    \<and> (case r of
         Inl e \<Rightarrow> q' = q
       | Inr slot \<Rightarrow> \<exists>n x p. ns_unit_id n = i \<and> ns_package_id n = k \<and> ns_package_revision n = v
           \<and> scheduled_as cal q requested_at now n x p
           \<and> slot = slot_from_row (new_slot_row n (pl_repository_id p))
           \<and> q' = moved (with_slot q n (pl_repository_id p)) (un_feature_id x) (un_plan_revision x)
                (set (members q i)) Scheduled now)"
proof (cases "release_unit_of q i")
  case None
  then show ?thesis by (simp add: schedule_at_def then_reading assms(2))
next
  case (Some u)
  have ok: "pdb_ok (q_plans q)" "units_ok q (q_units q)" using assms(1) by (simp_all add: queue_ok_def)
  obtain x where x: "x \<in> set (q_units q)" "un_unit_id x = i" "ur_feature_id u = un_feature_id x" "ur_plan_revision u = un_plan_revision x"
    using Some [unfolded unit_read [OF assms(1)]] by auto
  obtain p where p: "p \<in> set (pdb_plans (q_plans q))" "plan_key p = (un_feature_id x, un_plan_revision x)"
    using ok(2) x(1) by (simp add: units_ok_def list_all_iff) (metis imageE)
  let ?i = "pl_repository_id p"
  note plan = plan_read(1,2) [OF ok(1) p]
  have start: "schedule_at cal i k v seed requested_at now q =
      c_then (reading (\<lambda>q. ok_or (schedule_policy_of (q_registry q) ?i) (MissingPolicy ?i))) (\<lambda>policy.
      c_then (reading (\<lambda>q. effective_policy (q_registry q) ?i policy)) (\<lambda>effective.
      c_then (reading_or_panic (\<lambda>q. select_time cal effective seed requested_at now
        (map ss_selected_at (schedule_slots_of q ?i)))) (\<lambda>selected.
      c_map_err SchedulerStore (persist_schedule_slot (drawn_slot i k v policy selected now))))) q"
    by (simp add: schedule_at_def then_reading then_reading_or_panic assms(2) Some x(3,4) plan Let_def drawn_slot_def)
  show ?thesis
  proof (cases "schedule_policy_of (q_registry q) ?i")
    case None
    then show ?thesis by (simp add: start then_reading)
  next
    case policy: (Some policy)
    show ?thesis
    proof (cases "effective_policy (q_registry q) ?i policy")
      case (Inl e)
      then show ?thesis by (simp add: start then_reading policy)
    next
      case effective: (Inr effective)
      have sound: "sound_policy effective" by (rule effective_policy_sound [OF assms(3) policy effective])
      let ?existing = "map ss_selected_at (schedule_slots_of q ?i)"
      obtain r where r: "select_time cal effective seed requested_at now ?existing = Some r"
        using select_time_total [OF sound] by blast
      show ?thesis
      proof (cases r)
        case (Inl e)
        then show ?thesis by (simp add: start then_reading then_reading_or_panic policy effective r)
      next
        case (Inr s)
        let ?n = "drawn_slot i k v policy s now"
        have within: "within_policy cal effective now ?existing (ps_selected_at s)"
          "requested_at = None \<or> requested_at = Some (ps_selected_at s)"
          using select_time_within [OF _ sound assms(4)] r Inr by blast+
        have run: "schedule_at cal i k v seed requested_at now q = c_map_err SchedulerStore (persist_schedule_slot ?n) q"
          by (simp add: start then_reading then_reading_or_panic policy effective r Inr)
        have none: "schedule_slot_of q (ns_unit_id ?n) = None" using assms(2) by simp
        obtain r' q' where out: "persist_schedule_slot ?n q = Some (r', q')"
          "case r' of
             Inl e \<Rightarrow> q' = q \<and> \<not> (slot_validate ?n = Inr () \<and> (\<exists>x p. schedulable q ?n x p))
           | Inr slot \<Rightarrow> slot_validate ?n = Inr () \<and> (\<exists>x p. schedulable q ?n x p
               \<and> slot = slot_from_row (new_slot_row ?n (pl_repository_id p))
               \<and> q' = moved (with_slot q ?n (pl_repository_id p)) (un_feature_id x) (un_plan_revision x)
                    (set (members q (ns_unit_id ?n))) Scheduled (ns_created_at ?n))"
          using persist_schedule_slot_outcome [OF assms(1) none] by blast
        have result: "schedule_at cal i k v seed requested_at now q = Some (map_err SchedulerStore r', q')"
          unfolding run by (simp add: c_map_err_def c_match_def out(1) reading_def)
        show ?thesis
        proof (cases r')
          case (Inl e)
          then show ?thesis using out(2) result by simp
        next
          case (Inr slot)
          then obtain y p' where y: "schedulable q ?n y p'" "slot = slot_from_row (new_slot_row ?n (pl_repository_id p'))"
            "q' = moved (with_slot q ?n (pl_repository_id p')) (un_feature_id y) (un_plan_revision y) (set (members q i)) Scheduled now"
            using out(2) by auto
          have unit_y: "y \<in> set (q_units q)" "un_unit_id y = i" and plan_y: "p' \<in> set (pdb_plans (q_plans q))"
            "plan_key p' = (un_feature_id y, un_plan_revision y)"
            using y(1) unfolding schedulable_def request_ok_def by auto
          have "y = x" using unit_y x(1,2) by (intro one_unit [OF ok(2)]) simp_all
          then have "p' = p" using plan_y p by (intro one_plan [OF ok(1)]) simp_all
          then have "scheduled_as cal q requested_at now ?n y p'"
            using y(1) within policy effective unfolding scheduled_as_def by (auto simp: drawn_slot_def)
          then have "\<exists>n x p. ns_unit_id n = i \<and> ns_package_id n = k \<and> ns_package_revision n = v
              \<and> scheduled_as cal q requested_at now n x p
              \<and> slot = slot_from_row (new_slot_row n (pl_repository_id p))
              \<and> q' = moved (with_slot q n (pl_repository_id p)) (un_feature_id x) (un_plan_revision x)
                   (set (members q i)) Scheduled now"
            using y(2,3) by (intro exI [of _ ?n] exI [of _ y] exI [of _ p']) simp
          then show ?thesis using Inr result by simp
        qed
      qed
    qed
  qed
qed

section \<open>Forward only\<close>

text \<open>New times lie ahead of \<open>now\<close>, and only the units in \<open>us\<close> lose the time they had.\<close>

definition forward :: "int \<Rightarrow> release_unit_id set \<Rightarrow> queue \<Rightarrow> queue \<Rightarrow> bool" where
  "forward now us q q' \<longleftrightarrow>
     (\<forall>s' \<in> set (q_slots q'). (\<exists>s \<in> set (q_slots q). slot_follows s s')
        \<or> now \<le> sl_selected_at s' \<and> \<not> sl_on_request s')
     \<and> (\<forall>s \<in> set (q_slots q). sl_unit_id s \<notin> us \<longrightarrow> s \<in> set (q_slots q'))"

lemma slot_follows_sel: "slot_follows s s' \<Longrightarrow> sl_selected_at s' = sl_selected_at s \<and> sl_on_request s' = sl_on_request s"
  unfolding slot_follows_def
  by (metis slot_row.select_convs(8,12) slot_row.surjective slot_row.update_convs(10,11))

interpretation forwarding: behaviour "forward now us"
proof unfold_locales
  fix q r t :: queue
  show "forward now us q q" unfolding forward_def using slot_follows_refl by blast
  assume a: "forward now us q r" and b: "forward now us r t"
  have "(\<exists>s \<in> set (q_slots q). slot_follows s s') \<or> now \<le> sl_selected_at s' \<and> \<not> sl_on_request s'" if "s' \<in> set (q_slots t)" for s'
    using b that unfolding forward_def
  proof (elim conjE)
    assume all: "\<forall>s' \<in> set (q_slots t). (\<exists>s \<in> set (q_slots r). slot_follows s s') \<or> now \<le> sl_selected_at s' \<and> \<not> sl_on_request s'"
    show ?thesis
    proof (cases "\<exists>s \<in> set (q_slots r). slot_follows s s'")
      case True
      then obtain s where s: "s \<in> set (q_slots r)" "slot_follows s s'" by blast
      then show ?thesis using a slot_follows_trans slot_follows_sel [OF s(2)] unfolding forward_def by metis
    next
      case False
      then show ?thesis using all that by blast
    qed
  qed
  then show "forward now us q t" using a b unfolding forward_def by blast
qed

text \<open>Where the store is as it should be, every step goes forward and gives an answer.\<close>

definition orderly :: "queue \<Rightarrow> bool" where
  "orderly q \<longleftrightarrow> queue_ok q \<and> policies_sound (q_registry q)"

definition brings :: "int \<Rightarrow> release_unit_id set \<Rightarrow> queue \<Rightarrow> queue \<Rightarrow> bool" where
  "brings now us q q' \<longleftrightarrow> (orderly q \<longrightarrow> orderly q' \<and> forward now us q q')"

interpretation bringing: behaviour "brings now us"
  by unfold_locales (auto simp: brings_def intro: forwarding.refl forwarding.trans)

definition answers :: "(queue, 'e, 'a) cmd \<Rightarrow> bool" where
  "answers m \<longleftrightarrow> (\<forall>q. orderly q \<longrightarrow> (\<exists>r q'. m q = Some (r, q') \<and> orderly q'))"

lemma answers_reading: "answers (reading f)" "answers (c_return x)" "answers (c_fail e)"
  by (simp_all add: answers_def c_return_def c_fail_def reading_def)

lemma answers_match: "answers m \<Longrightarrow> (\<And>r. answers (f r)) \<Longrightarrow> answers (c_match m f)"
  unfolding answers_def c_match_def by (metis (no_types, lifting) case_prod_conv option.simps(5))

lemma answers_then: "answers m \<Longrightarrow> (\<And>x. answers (f x)) \<Longrightarrow> answers (c_then m f)"
  unfolding c_then_def by (rule answers_match) (auto intro: answers_reading split: sum.split)

lemma answers_fold: "(\<And>b x. answers (f b x)) \<Longrightarrow> answers (c_fold f b xs)"
  by (induction xs arbitrary: b) (auto intro: answers_reading answers_then)

lemma forward_map:
  assumes "q_slots q' = map h (q_slots q)" and "\<And>s. slot_follows s (h s)" and "\<And>s. sl_unit_id s \<notin> us \<Longrightarrow> h s = s"
  shows "forward now us q q'"
  unfolding forward_def assms(1) list.set_map
proof (intro conjI ballI impI)
  fix s' assume "s' \<in> h ` set (q_slots q)"
  then show "(\<exists>s \<in> set (q_slots q). slot_follows s s') \<or> now \<le> sl_selected_at s' \<and> \<not> sl_on_request s'"
    using assms(2) by blast
next
  fix s assume "s \<in> set (q_slots q)" "sl_unit_id s \<notin> us"
  then show "s \<in> h ` set (q_slots q)" using assms(3) [of s] by (metis imageI)
qed

lemma forward_append:
  assumes "q_slots q' = q_slots q @ [s]" and "now \<le> sl_selected_at s" and "\<not> sl_on_request s"
  shows "forward now us q q'"
proof -
  have "\<exists>s \<in> set (q_slots q). slot_follows s s'" if "s' \<in> set (q_slots q)" for s'
    using slot_follows_refl that by blast
  then show ?thesis unfolding forward_def assms(1) using assms(2,3) by simp
qed

lemma invalidate_brings:
  assumes "i \<in> us"
  shows "stays (brings now' us) (writing (invalidate_schedule_slot i reason now))"
proof (rule bringing.writing)
  fix q q' :: queue and found assume run: "invalidate_schedule_slot i reason now q = Inr (q', found)"
  show "brings now' us q q'"
    unfolding brings_def
  proof
    assume q: "orderly q"
    then have ok: "queue_ok q" by (simp add: orderly_def)
    have ok': "queue_ok q'"
      using invalidate_stays run ok unfolding stays_def queue_moves_def by (metis writing_Inr_iff)
    have reason: "short_reason ''schedule invalidation'' reason = Inr ()"
      using run invalidate_idle(1) by (cases "short_reason ''schedule invalidation'' reason") auto
    show "orderly q' \<and> forward now' us q q'"
    proof (cases "schedule_slot_of q i")
      case None
      then show ?thesis using run invalidate_idle(2) [OF reason] q forwarding.refl by simp
    next
      case (Some slot)
      then have "found = Some slot" using run by (auto simp: invalidate_schedule_slot_def res)
      then have now: "0 \<le> now" using run invalidate_now_checked by simp
      obtain x where q': "q' = moved (without_slot q i reason now) (un_feature_id x) (un_plan_revision x) (waiting_tasks q x) Queued now"
        using invalidate_outcome [OF ok now reason Some] run by (auto split: if_splits)
      have rows: "q_slots q' = map (\<lambda>s. if sl_unit_id s = i \<and> sl_live s then withdrawn_row reason now s else s) (q_slots q)"
        by (simp add: q' without_slot_def)
      have "forward now' us q q'"
        by (rule forward_map [OF rows]) (use assms in \<open>auto simp: slot_follows_def withdrawn_row_def\<close>)
      moreover have "orderly q'" using q ok' by (simp add: orderly_def q')
      ultimately show ?thesis by blast
    qed
  qed
qed

lemma invalidate_answers: "answers (writing (invalidate_schedule_slot i reason now))"
proof -
  have "\<exists>r q'. writing (invalidate_schedule_slot i reason now) q = Some (r, q')" for q
    by (auto simp: writing_def split: sum.splits)
  then show ?thesis
    using invalidate_brings [of i "{i}"] unfolding answers_def stays_def brings_def by (metis singletonI)
qed

lemma schedule_outcome_forward:
  assumes "orderly q" and "calendar_ok cal day_number" and "schedule cal i k v seed now q = Some (r, q')"
  shows "orderly q' \<and> forward now us q q'"
proof -
  have ok: "queue_ok q" "policies_sound (q_registry q)" using assms(1) by (simp_all add: orderly_def)
  have ok': "queue_ok q'" using schedule_stays assms(3) ok(1) unfolding stays_def queue_moves_def by blast
  show ?thesis
  proof (cases "schedule_slot_of q i")
    case (Some slot)
    then have "q' = q" using assms(3) by (simp add: schedule_def schedule_at_def then_reading run_return)
    then show ?thesis using assms(1) forwarding.refl by simp
  next
    case None
    note out = schedule_at_outcome [OF ok(1) None ok(2) assms(2), of k v seed None now]
    show ?thesis
    proof (cases r)
      case (Inl e)
      then have "q' = q" using out assms(3) by (auto simp: schedule_def)
      then show ?thesis using assms(1) forwarding.refl by simp
    next
      case (Inr slot)
      then obtain n x p where n: "scheduled_as cal q None now n x p"
        "q' = moved (with_slot q n (pl_repository_id p)) (un_feature_id x) (un_plan_revision x) (set (members q i)) Scheduled now"
        using out assms(3) by (auto simp: schedule_def)
      have ahead: "now \<le> ns_selected_at n" "\<not> ns_on_request n"
        using n(1) by (auto simp: scheduled_as_def within_policy_def Let_def)
      have rows: "q_slots q' = q_slots q @ [new_slot_row n (pl_repository_id p)]" by (simp add: n(2) with_slot_def)
      have "orderly q'" using ok ok' by (simp add: orderly_def n(2) with_slot_def)
      moreover have "\<not> sl_on_request (new_slot_row n (pl_repository_id p))" using ahead(2) by (simp add: new_slot_row_def)
      then have "forward now us q q'" using ahead(1) by (intro forward_append [OF rows]) simp_all
      ultimately show ?thesis by blast
    qed
  qed
qed

lemma schedule_brings: "calendar_ok cal day_number \<Longrightarrow> stays (brings now us) (schedule cal i k v seed now)"
  unfolding stays_def brings_def using schedule_outcome_forward by blast

lemma schedule_answers:
  assumes "calendar_ok cal day_number"
  shows "answers (schedule cal i k v seed now)"
  unfolding answers_def
proof (intro allI impI)
  fix q assume q: "orderly q"
  then have ok: "queue_ok q" "policies_sound (q_registry q)" by (simp_all add: orderly_def)
  have "\<exists>r q'. schedule cal i k v seed now q = Some (r, q')"
  proof (cases "schedule_slot_of q i")
    case None
    then show ?thesis
      using schedule_at_outcome [OF ok(1) None ok(2) assms, of k v seed None now] by (auto simp: schedule_def)
  qed (simp add: schedule_def schedule_at_def then_reading run_return)
  then show "\<exists>r q'. schedule cal i k v seed now q = Some (r, q') \<and> orderly q'"
    using schedule_outcome_forward [OF q assms] by blast
qed

section \<open>Missed windows\<close>

text \<open>The units whose time is to be brought forward.\<close>

definition missed_units :: "queue \<Rightarrow> repository_id \<Rightarrow> int \<Rightarrow> nat \<Rightarrow> release_unit_id set" where
  "missed_units q i now allowance =
     {ss_unit_id s | k s. (k, s) \<in> set (enumerate 0 (overdue_schedule_slots q i now)) \<and> \<not> ss_on_request s \<and> allowance \<le> k}"

lemma after_missed_brings:
  assumes "calendar_ok cal day_number"
  shows "stays (brings now us) (after_missed cal seed now outcome index slot r)"
    and "answers (after_missed cal seed now outcome index slot r)"
  unfolding after_missed_def
  by (auto split: sum.split option.split store_error.split
      intro!: bringing.return bringing.fail bringing.sequence schedule_brings [OF assms]
        answers_reading answers_then schedule_answers [OF assms])

lemma reconcile_slot_brings:
  assumes "calendar_ok cal day_number" and "\<not> ss_on_request slot \<Longrightarrow> allowance \<le> index \<Longrightarrow> ss_unit_id slot \<in> us"
  shows "stays (brings now us) (reconcile_slot cal allowance seed now outcome (index, slot))"
    and "answers (reconcile_slot cal allowance seed now outcome (index, slot))"
  using assms unfolding reconcile_slot_steps
  by (auto intro!: bringing.return bringing.matching invalidate_brings after_missed_brings
      answers_reading answers_match invalidate_answers)

text \<open>What a policy without a catch-up allowance lists as released now.\<close>

lemma after_missed_released:
  assumes "after_missed cal seed now outcome index slot r q = Some (Inr outcome', q')"
  shows "mw_released_now outcome' = mw_released_now outcome"
  using assms unfolding after_missed_def
  by (auto simp: run_return run_fail then_Inr_iff split: sum.splits option.splits store_error.splits)

lemma reconcile_slot_released:
  assumes "reconcile_slot cal 0 seed now outcome (index, slot) q = Some (Inr outcome', q')"
  shows "mw_released_now outcome' = mw_released_now outcome"
proof (cases "ss_on_request slot")
  case True
  then show ?thesis using assms by (auto simp: reconcile_slot_steps run_return)
next
  case False
  then have "c_match (writing (invalidate_schedule_slot (ss_unit_id slot) ''release window was missed'' now))
      (after_missed cal seed now outcome index slot) q = Some (Inr outcome', q')"
    using assms unfolding reconcile_slot_steps by simp
  then show ?thesis unfolding match_Some_iff using after_missed_released by blast
qed

lemma reconcile_fold_released:
  assumes "c_fold (reconcile_slot cal 0 seed now) outcome xs q = Some (Inr outcome', q')"
  shows "mw_released_now outcome' = mw_released_now outcome"
  using assms
proof (induction xs arbitrary: outcome q)
  case Nil
  then show ?case by (simp add: run_return)
next
  case (Cons x xs)
  obtain mid q1 where mid: "reconcile_slot cal 0 seed now outcome x q = Some (Inr mid, q1)"
    "c_fold (reconcile_slot cal 0 seed now) mid xs q1 = Some (Inr outcome', q')"
    using Cons.prems unfolding c_fold.simps then_Inr_iff by blast
  have "mw_released_now mid = mw_released_now outcome"
    using reconcile_slot_released mid(1) by (cases x) blast
  then show ?case using Cons.IH [OF mid(2)] by simp
qed

lemma reconcile_outcome:
  assumes "orderly q" and "calendar_ok cal day_number" and "schedule_policy_of (q_registry q) i = Some policy"
  shows "\<exists>r q'. reconcile_missed_windows cal i seed now q = Some (r, q') \<and> orderly q'
    \<and> forward now (missed_units q i now (catch_up_allowance (sp_missed_window (ssp_policy policy)))) q q'
    \<and> (sp_missed_window (ssp_policy policy) = RescheduleForward \<longrightarrow> (\<forall>outcome. r = Inr outcome \<longrightarrow> mw_released_now outcome = []))"
proof -
  let ?none = "\<lparr>mw_released_now = [], mw_rescheduled = [], mw_retained = []\<rparr>"
  let ?a = "catch_up_allowance (sp_missed_window (ssp_policy policy))"
  let ?overdue = "overdue_schedule_slots q i now"
  let ?us = "missed_units q i now ?a"
  let ?loop = "c_fold (reconcile_slot cal ?a seed now) ?none (enumerate 0 ?overdue)"
  show ?thesis
  proof (cases "?overdue = []")
    case True
    then have "reconcile_missed_windows cal i seed now q = Some (Inr ?none, q)"
      by (simp add: reconcile_missed_windows_def then_reading run_return)
    then show ?thesis using assms(1) forwarding.refl by simp
  next
    case False
    then have run: "reconcile_missed_windows cal i seed now q = ?loop q"
      by (simp add: reconcile_missed_windows_def then_reading assms(3))
    have step: "stays (brings now ?us) (reconcile_slot cal ?a seed now outcome x)" if "x \<in> set (enumerate 0 ?overdue)" for outcome x
    proof (cases x)
      case (Pair k s)
      have "ss_unit_id s \<in> ?us" if "\<not> ss_on_request s" "?a \<le> k"
        using that \<open>x \<in> set (enumerate 0 ?overdue)\<close> unfolding missed_units_def Pair by blast
      then show ?thesis unfolding Pair by (intro reconcile_slot_brings(1) [OF assms(2)])
    qed
    have "stays (brings now ?us) ?loop" by (rule bringing.fold_loop) (rule step)
    moreover have "answers (reconcile_slot cal ?a seed now outcome x)" for outcome x
      using reconcile_slot_brings(2) [OF assms(2), where us = UNIV] by (cases x) simp
    then have "answers ?loop" by (rule answers_fold)
    ultimately obtain r q' where out: "?loop q = Some (r, q')" "orderly q'" "forward now ?us q q'"
      using assms(1) unfolding answers_def stays_def brings_def by metis
    have "mw_released_now outcome = []" if "sp_missed_window (ssp_policy policy) = RescheduleForward" "r = Inr outcome" for outcome
      using reconcile_fold_released [of cal seed now ?none "enumerate 0 ?overdue" q outcome q'] out(1) that
      by (simp add: catch_up_allowance_def)
    then show ?thesis unfolding run using out by blast
  qed
qed

end
