(* ===== verification/Mirror.thy ===== *)
theory Mirror
  imports GitPublish Registry Packages
begin

text \<open>
  The managed clone (\<open>crates/git/src/lib.rs\<close>, \<open>ManagedClone\<close>) and what its errors say.

  A daemon-owned mirror is cloned once, fetches exactly the branch it is asked for, and gives each
  release its own detached workspace with one verified snapshot in it.  The file system and the
  snapshot packages of \<open>capture\<close> are parameters beside Git.
\<close>

section \<open>Paths\<close>

text \<open>\<open>Path::join\<close>, and \<open>Path::parent\<close> and \<open>Path::file_name\<close> of a path that ends in a name.\<close>

definition path_join :: "string \<Rightarrow> string \<Rightarrow> string" where
  "path_join a b = (if prefix ''/'' b then b else if a = [] \<or> suffix ''/'' a then a @ b else a @ ''/'' @ b)"

definition path_split :: "string \<Rightarrow> (string \<times> string) option" where
  "path_split p =
     (let p = rev (dropWhile (\<lambda>c. c = CHR ''/'') (rev p));
          name = rev (takeWhile (\<lambda>c. c \<noteq> CHR ''/'') (rev p));
          front = take (length p - length name) p;
          parent = rev (dropWhile (\<lambda>c. c = CHR ''/'') (rev front))
      in if name = [] \<or> name = ''..'' then None
         else Some (if front \<noteq> [] \<and> parent = [] then ''/'' else parent, name))"

section \<open>What the errors say\<close>

text \<open>\<open>Debug\<close> of a duration: the largest unit that leaves a digit before the point.\<close>

definition trim_zeros :: "string \<Rightarrow> string" where
  "trim_zeros s = rev (dropWhile (\<lambda>c. c = CHR ''0'') (rev s))"

definition fraction_text :: "nat \<Rightarrow> nat \<Rightarrow> string" where
  "fraction_text digits n =
     (let shown = show_nat n; text = trim_zeros (replicate (digits - length shown) CHR ''0'' @ shown)
      in if text = [] then [] else ''.'' @ text)"

definition debug_duration :: "duration \<Rightarrow> string" where
  "debug_duration d =
     (if 10 ^ 9 \<le> d then show_nat (d div 10 ^ 9) @ fraction_text 9 (d mod 10 ^ 9) @ ''s''
      else if 10 ^ 6 \<le> d then show_nat (d div 10 ^ 6) @ fraction_text 6 (d mod 10 ^ 6) @ ''ms''
      else if 1000 \<le> d then show_nat (d div 1000) @ fraction_text 3 (d mod 1000) @ [CHR 0xC2, CHR 0xB5, CHR ''s'']
      else show_nat d @ ''ns'')"

definition debug_list :: "string list \<Rightarrow> string" where
  "debug_list xs = ''['' @ join '', '' xs @ '']''"

fun debug_option :: "string option \<Rightarrow> string" where
  "debug_option None = ''None''"
| "debug_option (Some s) = ''Some('' @ s @ '')''"

text \<open>The text of an I/O error comes from the operating system.\<close>

fun git_error_text :: "(io_kind \<Rightarrow> string) \<Rightarrow> git_error \<Rightarrow> string" where
  "git_error_text io InvalidInvocation = ''Git invocation requires an absolute directory, arguments, and a nonzero timeout''"
| "git_error_text io (GitIo k) = ''Git could not start: '' @ io k"
| "git_error_text io (GitTimedOut d) = ''Git operation timed out after '' @ debug_duration d"
| "git_error_text io GitCancelled = ''Git operation was cancelled''"
| "git_error_text io (GitFailed status message) =
     ''Git failed ('' @ debug_option (map_option show_int status) @ ''): '' @ message"
| "git_error_text io (ManagedPathExists p) = ''managed clone path already exists: '' @ p"
| "git_error_text io (SnapshotInvalid detail) = ''snapshot package could not be verified: '' @ detail"
| "git_error_text io (CandidateSnapshotMismatch component) =
     ''candidate snapshot '' @ component @ '' differs from its authenticated manifest''"
| "git_error_text io NonUtf8Output = ''Git returned non-UTF-8 output where a path was required''"

fun verification_error_text :: "(io_kind \<Rightarrow> string) \<Rightarrow> candidate_verification_error \<Rightarrow> string" where
  "verification_error_text io (VerificationGit e) = git_error_text io e"
| "verification_error_text io (TargetChanged expected actual) =
     ''candidate target changed from '' @ expected @ '' to '' @ actual"
| "verification_error_text io (UnmergedPaths paths) =
     ''candidate has unresolved paths: '' @ debug_list (map debug_str paths)"

fun commit_error_text :: "(io_kind \<Rightarrow> string) \<Rightarrow> candidate_commit_error \<Rightarrow> string" where
  "commit_error_text io (CommitVerification e) = verification_error_text io e"
| "commit_error_text io InvalidMessage = ''candidate commit message must contain non-whitespace text and no NUL bytes''"
| "commit_error_text io (InvalidIdentity field) = ''candidate commit '' @ field @ '' is invalid''"
| "commit_error_text io (CommitGit e) = git_error_text io e"
| "commit_error_text io ParentMismatch = ''persisted candidate parent differs from verified target''"
| "commit_error_text io TreeMismatch = ''persisted candidate tree differs from verified staged tree''"

fun publish_error_text :: "(io_kind \<Rightarrow> string) \<Rightarrow> candidate_publish_error \<Rightarrow> string" where
  "publish_error_text io (PublishGit e) = git_error_text io e"
| "publish_error_text io InvalidRemote = ''candidate publish remote is invalid''"
| "publish_error_text io PublishInvalidTargetRef = ''candidate publish target must be a valid refs/heads/ branch''"
| "publish_error_text io LocalCandidateMismatch = ''persisted candidate does not belong to this candidate workspace''"
| "publish_error_text io (TargetMissing target) = ''remote target '' @ target @ '' does not exist''"
| "publish_error_text io (TargetAdvanced target expected actual) =
     ''remote target '' @ target @ '' advanced from expected '' @ expected @ '' to '' @ actual"
| "publish_error_text io (ConfirmationFailed target expected actual) =
     ''remote target '' @ target @ '' did not confirm candidate '' @ expected @ ''; found ''
       @ debug_option (map_option debug_str actual)"

section \<open>Snapshot packages\<close>

record snapshot_manifest =
  pm_schema_version :: nat
  pm_package_id :: package_id
  pm_revision :: revision
  pm_feature_id :: feature_id
  pm_plan_revision :: revision
  pm_task_ids :: "task_id list"
  pm_parent_package_id :: "package_id option"
  pm_base_commit :: string
  pm_base_tree :: string
  pm_result_tree :: string
  pm_snapshot_commit :: string
  pm_bundle_sha256 :: string
  pm_content_hash :: string

record snapshot_package =
  pk_path :: string
  pk_manifest :: snapshot_manifest

text \<open>What the worker uses of the machine it runs on.\<close>

datatype check_failure = CheckNotStarted string | CheckNotObserved string

record 'w host =
  h_git :: "'w git"
  h_io_text :: "io_kind \<Rightarrow> string"
  h_exists :: "string \<Rightarrow> 'w \<Rightarrow> bool"
  h_create_dir_all :: "string \<Rightarrow> ('w, io_kind, unit) action"
  h_open_package :: "string \<Rightarrow> ('w, string, snapshot_package) action"
  h_run_check :: "string list \<Rightarrow> string \<Rightarrow> nat \<Rightarrow> ('w, check_failure, int option option) action"
  h_environment :: "'w \<Rightarrow> (string \<times> string) list"
  h_sha256 :: "string \<Rightarrow> string"
  h_since_epoch :: "'w \<Rightarrow> (string, nat) result"
  h_new_attempt_id :: "'w \<Rightarrow> attempt_id \<times> 'w"
  h_uuid_text :: "uuid \<Rightarrow> string"
  h_redact :: "string \<Rightarrow> string"

section \<open>The mirror\<close>

definition provision :: "'w host \<Rightarrow> string \<Rightarrow> string \<Rightarrow> duration \<Rightarrow> ('w, git_error, string) action" where
  "provision h remote path timeout w =
     (if h_exists h path w then (Inl (ManagedPathExists path), w)
      else
        case path_split path of
          None \<Rightarrow> (Inl InvalidInvocation, w)
        | Some (parent, name) \<Rightarrow>
            act_bind (git_run (h_git h) parent [''clone'', ''--mirror'', remote, name] timeout)
              (\<lambda>_. act_return (Inr path)) w)"

definition mirror_resolve :: "'w host \<Rightarrow> string \<Rightarrow> string \<Rightarrow> duration \<Rightarrow> ('w, git_error, string) action" where
  "mirror_resolve h path reference timeout = git_text (h_git h) path [''rev-parse'', reference] timeout"

definition remote_head ::
  "'w host \<Rightarrow> string \<Rightarrow> string \<Rightarrow> string \<Rightarrow> duration \<Rightarrow> ('w, git_error, string option) action" where
  "remote_head h path remote reference timeout = remote_ref (h_git h) path remote reference timeout"

definition fetch_ref :: "'w host \<Rightarrow> string \<Rightarrow> string \<Rightarrow> string \<Rightarrow> duration \<Rightarrow> ('w, git_error, string) action" where
  "fetch_ref h path remote reference timeout =
     git_run (h_git h) path [''fetch'', ''--no-tags'', remote, ''+'' @ reference @ '':'' @ reference] timeout"

definition create_release_workspace ::
  "'w host \<Rightarrow> string \<Rightarrow> string \<Rightarrow> string \<Rightarrow> duration \<Rightarrow> ('w, git_error, string) action" where
  "create_release_workspace h mirror destination commit timeout w =
     (if h_exists h destination w then (Inl (ManagedPathExists destination), w)
      else
        case path_split destination of
          None \<Rightarrow> (Inl InvalidInvocation, w)
        | Some (parent, name) \<Rightarrow>
            act_bind (git_run (h_git h) parent [''clone'', ''--no-checkout'', mirror, name] timeout) (\<lambda>_.
            act_bind (git_run (h_git h) destination [''checkout'', ''--detach'', commit] timeout) (\<lambda>_.
              act_return (Inr destination))) w)"

text \<open>A value of the manifest against what Git resolves it to.\<close>

definition expect_object ::
  "'w host \<Rightarrow> string \<Rightarrow> string \<Rightarrow> string \<Rightarrow> string \<Rightarrow> duration \<Rightarrow> ('w, git_error, unit) action" where
  "expect_object h path reference expected component timeout =
     act_bind (git_text (h_git h) path [''rev-parse'', reference] timeout) (\<lambda>actual.
       act_return (if actual \<noteq> expected then Inl (CandidateSnapshotMismatch component) else Inr ()))"

definition prepare_candidate_workspace ::
  "'w host \<Rightarrow> string \<Rightarrow> string \<Rightarrow> string \<Rightarrow> snapshot_package \<Rightarrow> duration
    \<Rightarrow> ('w, git_error, candidate_workspace) action" where
  "prepare_candidate_workspace h mirror destination target_commit package timeout =
     act_bind (act_err SnapshotInvalid (h_open_package h (pk_path package))) (\<lambda>snapshot.
     act_bind (create_release_workspace h mirror destination target_commit timeout) (\<lambda>path.
     let m = pk_manifest snapshot;
         name = id_display (h_uuid_text h) PackageKind (pm_package_id m) @ ''/'' @ show_nat (unat (revision_get (pm_revision m)));
         snapshot_ref = ''refs/reccursive/snapshots/'' @ name;
         imported_ref = ''refs/reccursive/candidates/'' @ name
     in
     act_bind (git_run (h_git h) path [''fetch'', ''--no-tags'', path_join (pk_path snapshot) ''objects.bundle'',
       snapshot_ref @ '':'' @ imported_ref] timeout) (\<lambda>_.
     act_bind (expect_object h path imported_ref (pm_snapshot_commit m) ''commit'' timeout) (\<lambda>_.
     act_bind (expect_object h path (imported_ref @ ''^{tree}'') (pm_result_tree m) ''tree'' timeout) (\<lambda>_.
     act_bind (expect_object h path (imported_ref @ ''^'') (pm_base_commit m) ''base commit'' timeout) (\<lambda>_.
     act_bind (git_text (h_git h) path [''rev-parse'', ''HEAD''] timeout) (\<lambda>target.
       act_return (Inr \<lparr>cw_path = path, cw_target_commit = target, cw_snapshot_commit = pm_snapshot_commit m,
         cw_snapshot_ref = imported_ref\<rparr>))))))))"

end
