(* ===== verification/Release.thy ===== *)
theory Release
  imports Scheduling Mirror
begin

text \<open>
  The release worker (\<open>crates/daemon/src/release.rs\<close>, and the failure vocabulary of
  \<open>crates/protocol/src/lib.rs\<close>).

  The worker drives the store and the outside world: its state is a pair of both.  A call of the
  store leaves the world alone and an action on the world leaves the store alone, and every
  question mark of the code is an early return that keeps what was done before it.
\<close>

section \<open>The two halves of the state\<close>

type_synonym ('w, 'e, 'a) work = "(queue \<times> 'w, 'e, 'a) cmd"

definition on_store :: "(queue, 'e, 'a) cmd \<Rightarrow> ('w, 'e, 'a) work" where
  "on_store m s = map_option (\<lambda>(r, q). (r, (q, snd s))) (m (fst s))"

definition on_world :: "('w, 'e, 'a) action \<Rightarrow> ('w, 'e, 'a) work" where
  "on_world m s = (case m (snd s) of (r, w) \<Rightarrow> Some (r, (fst s, w)))"

section \<open>Failures\<close>

datatype release_failure =
    RFConflict | RFValidationFailed | RFValidationUnavailable | RFCommitFailed | RFAuthentication | RFBranchRule
  | RFTransport | RFRemote | RFTimeout | RFAmbiguousRemote | RFTargetChanged | RFSigning | RFConfiguration
  | RFCancelled | RFRetryExhausted | RFPublicationFailed | RFInternalError

definition all_release_failures :: "release_failure list" where
  "all_release_failures =
     [RFConflict, RFValidationFailed, RFValidationUnavailable, RFCommitFailed, RFAuthentication, RFBranchRule,
      RFTransport, RFRemote, RFTimeout, RFAmbiguousRemote, RFTargetChanged, RFSigning, RFConfiguration,
      RFCancelled, RFRetryExhausted, RFPublicationFailed, RFInternalError]"

fun release_failure_str :: "release_failure \<Rightarrow> string" where
  "release_failure_str RFConflict = ''conflict''"
| "release_failure_str RFValidationFailed = ''validation_failed''"
| "release_failure_str RFValidationUnavailable = ''validation_unavailable''"
| "release_failure_str RFCommitFailed = ''commit_failed''"
| "release_failure_str RFAuthentication = ''authentication''"
| "release_failure_str RFBranchRule = ''branch_rule''"
| "release_failure_str RFTransport = ''transport''"
| "release_failure_str RFRemote = ''remote''"
| "release_failure_str RFTimeout = ''timeout''"
| "release_failure_str RFAmbiguousRemote = ''ambiguous_remote''"
| "release_failure_str RFTargetChanged = ''target_changed''"
| "release_failure_str RFSigning = ''signing''"
| "release_failure_str RFConfiguration = ''configuration''"
| "release_failure_str RFCancelled = ''cancelled''"
| "release_failure_str RFRetryExhausted = ''retry_exhausted''"
| "release_failure_str RFPublicationFailed = ''publication_failed''"
| "release_failure_str RFInternalError = ''internal_error''"

definition release_failure_parse :: "string \<Rightarrow> release_failure option" where
  "release_failure_parse v = find (\<lambda>known. release_failure_str known = v) all_release_failures"

fun manual_block_failure :: "publication_block \<Rightarrow> release_failure" where
  "manual_block_failure BlockAuthentication = RFAuthentication"
| "manual_block_failure BlockSigning = RFSigning"
| "manual_block_failure BlockBranchRule = RFBranchRule"
| "manual_block_failure BlockConflict = RFConflict"
| "manual_block_failure BlockConfiguration = RFConfiguration"
| "manual_block_failure BlockCancelled = RFCancelled"
| "manual_block_failure BlockRetryExhausted = RFRetryExhausted"
| "manual_block_failure BlockGitFailure = RFPublicationFailed"

fun debug_publication_block :: "publication_block \<Rightarrow> string" where
  "debug_publication_block BlockAuthentication = ''Authentication''"
| "debug_publication_block BlockSigning = ''Signing''"
| "debug_publication_block BlockBranchRule = ''BranchRule''"
| "debug_publication_block BlockConflict = ''Conflict''"
| "debug_publication_block BlockConfiguration = ''Configuration''"
| "debug_publication_block BlockCancelled = ''Cancelled''"
| "debug_publication_block BlockGitFailure = ''GitFailure''"
| "debug_publication_block BlockRetryExhausted = ''RetryExhausted''"

definition classify :: "(io_kind \<Rightarrow> string) \<Rightarrow> candidate_publish_error \<Rightarrow> release_failure" where
  "classify io e =
     (case e of
        PublishGit e \<Rightarrow>
          (case classify_git (git_error_text io e) of
             Rejected \<Rightarrow> RFAuthentication
           | Refused \<Rightarrow> RFBranchRule
           | TimedOut \<Rightarrow> RFTimeout
           | Unreachable \<Rightarrow> RFTransport)
      | TargetAdvanced _ _ _ \<Rightarrow> RFTargetChanged
      | _ \<Rightarrow> RFPublicationFailed)"

definition failure_reason_code :: "release_failure \<Rightarrow> reason_code" where
  "failure_reason_code f =
     (if f \<in> {RFConflict, RFTargetChanged, RFBranchRule} then ReasonConflict
      else if f \<in> {RFTransport, RFTimeout, RFRemote, RFAmbiguousRemote} then DeviceUnavailable
      else if f = RFAuthentication then AuthenticationRequired
      else if f \<in> {RFValidationFailed, RFValidationUnavailable} then ReasonValidationFailed
      else if f \<in> {RFSigning, RFConfiguration} then AuthenticationRequired
      else if f = RFCancelled then UserRequested
      else Other (release_failure_str f))"

definition release_reason_code :: "string \<Rightarrow> reason_code" where
  "release_reason_code classification =
     (case release_failure_parse classification of
        None \<Rightarrow> Other classification
      | Some failure \<Rightarrow> failure_reason_code failure)"

section \<open>Errors, requests and outcomes\<close>

datatype release_error =
    ReleaseStore store_error
  | ReleaseGit git_error
  | ReleasePublish candidate_publish_error
  | ReleaseIo io_kind
  | ReleaseUnavailable string

fun store_error_text :: "(uuid \<Rightarrow> string) \<Rightarrow> store_error \<Rightarrow> string" where
  "store_error_text text (Sqlite e) = ''SQLite operation failed: '' @ e"
| "store_error_text text (Json e) = ''stored JSON is invalid: '' @ e"
| "store_error_text text (PolicyRepositoryMismatch registration policy) =
     ''repository policy belongs to '' @ id_display text RepositoryKind policy @ '', not ''
       @ id_display text RepositoryKind registration"
| "store_error_text text (InvalidData detail) = ''stored value is invalid: '' @ detail"
| "store_error_text text (Conflict detail) = ''stored record conflicts with existing state: '' @ detail"

fun release_error_text :: "'w host \<Rightarrow> release_error \<Rightarrow> string" where
  "release_error_text h (ReleaseStore e) = store_error_text (h_uuid_text h) e"
| "release_error_text h (ReleaseGit e) = git_error_text (h_io_text h) e"
| "release_error_text h (ReleasePublish e) = publish_error_text (h_io_text h) e"
| "release_error_text h (ReleaseIo k) = ''release storage is unavailable: '' @ h_io_text h k"
| "release_error_text h (ReleaseUnavailable detail) = detail"

record release_request =
  rq_package_id :: package_id
  rq_package_revision :: revision
  rq_message :: string
  rq_author_name :: string
  rq_author_email :: string

datatype release_outcome =
    ReleasePublished attempt_id string
  | ReleaseBlocked attempt_id string string
  | ReleaseDeferred attempt_id int string

record recovery_failure =
  rf_attempt_id :: attempt_id
  rf_detail :: string

record recovery_report =
  rc_resolved :: "attempt_id list"
  rc_failures :: "recovery_failure list"

record release_worker =
  rw_managed_root :: string
  rw_workspace_root :: string
  rw_lease_owner :: string
  rw_retry :: publication_retry_policy

definition release_worker_new :: "string \<Rightarrow> string \<Rightarrow> string \<Rightarrow> release_worker" where
  "release_worker_new managed workspaces owner =
     \<lparr>rw_managed_root = managed, rw_workspace_root = workspaces, rw_lease_owner = owner, rw_retry = retry_default\<rparr>"

record publication_target =
  pb_branch :: target_ref
  pb_base :: target_ref
  pb_create_if_absent :: bool

definition git_timeout :: duration where
  "git_timeout = from_secs 120"

definition lease_duration_ms :: int where
  "lease_duration_ms = 5 * 60 * 1000"

text \<open>\<open>i64\<close> addition of a release build.\<close>

definition i64_wrapping_add :: "int \<Rightarrow> int \<Rightarrow> int" where
  "i64_wrapping_add a b = sint (word_of_int (a + b) :: 64 word)"


section \<open>Settling an attempt in the store\<close>

definition load_attempt :: "attempt_id \<Rightarrow> (queue, store_error, release_attempt) cmd" where
  "load_attempt i =
     reading (\<lambda>q. and_then (release_attempt_of (attempt_view q) i) (\<lambda>found.
       ok_or found (InvalidData ''release attempt disappeared'')))"

definition advancing_attempt ::
  "attempt_id \<Rightarrow> task_status \<Rightarrow> state_reason option \<Rightarrow> int \<Rightarrow> (queue, store_error, release_attempt) cmd" where
  "advancing_attempt i target reason now = on_attempts (\<lambda>db. advance_release_attempt db i target reason now)"

text \<open>One task of the package: one that is gone, finished or already blocked is left alone.\<close>

definition block_task ::
  "feature_id \<Rightarrow> revision \<Rightarrow> state_reason \<Rightarrow> int \<Rightarrow> task_id \<Rightarrow> (queue, store_error, unit) cmd" where
  "block_task f v reason now t =
     c_then (reading (\<lambda>q. task_of (q_plans q) f v t)) (\<lambda>found.
     case found of
       None \<Rightarrow> c_return ()
     | Some task \<Rightarrow>
         if is_terminal (ts_status (tr_state task)) \<or> ts_status (tr_state task) = Blocked then c_return ()
         else c_then (advancing f v t Blocked (Some reason) now) (\<lambda>_. c_return ()))"

definition block_release ::
  "(uuid \<Rightarrow> string) \<Rightarrow> release_attempt \<Rightarrow> string \<Rightarrow> string \<Rightarrow> int \<Rightarrow> (queue, store_error, unit) cmd" where
  "block_release text attempt classification detail now =
     c_then (load_attempt (ra_attempt_id attempt)) (\<lambda>current.
     if is_terminal (ts_status (ra_state current)) \<or> ts_status (ra_state current) = Blocked then c_return ()
     else
       c_then (on_attempts (\<lambda>db. record_publication_failure db (ra_attempt_id attempt) classification now)) (\<lambda>_.
       c_then (on_backoff (\<lambda>t. record_integration_failure t Git
         (id_display text RepositoryKind (ra_repository_id attempt)) (classify_git detail) detail backoff_default now)) (\<lambda>_.
       c_then (reading (\<lambda>_. map_err (\<lambda>e. InvalidData (transition_error_text e))
         (state_reason_new (release_reason_code classification) detail))) (\<lambda>reason.
       c_then (advancing_attempt (ra_attempt_id attempt) Blocked (Some reason) now) (\<lambda>_.
       c_then (reading (\<lambda>q. snapshot_of (q_packages q) (ra_package_id attempt) (ra_package_revision attempt))) (\<lambda>found.
       case found of
         None \<Rightarrow> c_return ()
       | Some snapshot \<Rightarrow>
           c_then (reading (\<lambda>q. Inr (package_task_ids (q_plans q) (ra_package_id attempt) (ra_package_revision attempt)))) (\<lambda>ts.
           c_each (block_task (sn_feature_id snapshot) (sn_plan_revision snapshot) reason now) ts)))))))"

definition is_development_publication :: "release_attempt \<Rightarrow> queue \<Rightarrow> (store_error, bool) result" where
  "is_development_publication attempt q =
     and_then (repository_of (q_registry q) (ra_repository_id attempt)) (\<lambda>found.
       Inr (case found of None \<Rightarrow> False
            | Some repository \<Rightarrow> ra_target attempt \<noteq> rp_target (sr_active_policy repository)))"

definition publish_tasks :: "release_attempt \<Rightarrow> int \<Rightarrow> (queue, store_error, unit) cmd" where
  "publish_tasks attempt now =
     c_then (reading (is_development_publication attempt)) (\<lambda>development.
     if development then
       c_then (reading (\<lambda>q. Inr (live_slot_unit_for_package q (ra_package_id attempt) (ra_package_revision attempt)))) (\<lambda>found.
       case found of
         None \<Rightarrow> c_return ()
       | Some i \<Rightarrow>
           c_then (writing (invalidate_schedule_slot i ''published to the development branch'' now)) (\<lambda>_. c_return ()))
     else
       c_then (reading (\<lambda>q. snapshot_of (q_packages q) (ra_package_id attempt) (ra_package_revision attempt))) (\<lambda>found.
       case found of
         None \<Rightarrow> c_return ()
       | Some snapshot \<Rightarrow>
           c_then (reading (\<lambda>q. Inr (package_task_ids (q_plans q) (ra_package_id attempt) (ra_package_revision attempt)))) (\<lambda>ts.
           c_each (\<lambda>t. c_then (advancing_to (sn_feature_id snapshot) (sn_plan_revision snapshot) t Published now)
             (\<lambda>_. c_return ())) ts)))"

definition confirm_publication :: "release_attempt \<Rightarrow> string \<Rightarrow> int \<Rightarrow> (queue, store_error, unit) cmd" where
  "confirm_publication attempt candidate now =
     (let i = ra_attempt_id attempt in
      c_then (load_attempt i) (\<lambda>current.
      c_then (if ts_status (ra_state current) = Blocked
              then c_then (advancing_attempt i PushPending None now) (\<lambda>_. c_return ()) else c_return ()) (\<lambda>_.
      c_then (on_attempts (\<lambda>db. record_remote_observation db i candidate now)) (\<lambda>_.
      c_then (advancing_attempt i RemoteConfirmed None now) (\<lambda>_.
      c_then (advancing_attempt i Published None now) (\<lambda>_.
      publish_tasks attempt now))))))"

section \<open>Checks against the candidate\<close>

text \<open>\<open>str::replace\<close>.\<close>

function replace_all :: "string \<Rightarrow> string \<Rightarrow> string \<Rightarrow> string" where
  "replace_all needle by [] = []"
| "replace_all needle by (c # s) =
     (if prefix needle (c # s) then by @ replace_all needle by (drop (length needle - 1) s)
      else c # replace_all needle by s)"
  by pat_completeness auto
termination by (relation "measure (\<lambda>(_, _, s). length s)") auto

definition environment_fingerprint :: "'w host \<Rightarrow> 'w \<Rightarrow> string" where
  "environment_fingerprint h w =
     h_sha256 h (concat (map (\<lambda>v. v @ [CHR 0x00]) (sort (map (\<lambda>(key, v). key @ ''='' @ v) (h_environment h w)))))"

definition current_unix_ms :: "'w host \<Rightarrow> ('w, release_error, int) action" where
  "current_unix_ms h w =
     (case h_since_epoch h w of
        Inl e \<Rightarrow> Inl (ReleaseUnavailable (''system clock is before epoch: '' @ e))
      | Inr ms \<Rightarrow> ok_or (i64_try_from ms) (ReleaseUnavailable ''system clock exceeds supported range''), w)"

fun check_failure_text :: "string \<Rightarrow> check_failure \<Rightarrow> string" where
  "check_failure_text i (CheckNotStarted e) = ''trusted check '' @ i @ '' could not be started: '' @ e"
| "check_failure_text i (CheckNotObserved e) = ''trusted check '' @ i @ '' could not be observed: '' @ e"

text \<open>The code indexes the first word of the command: an empty one is a panic.\<close>

definition run_candidate_check ::
  "'w host \<Rightarrow> trusted_check \<Rightarrow> attempt_id \<Rightarrow> snapshot_record \<Rightarrow> string \<Rightarrow> string \<Rightarrow> int
    \<Rightarrow> ('w, release_error, candidate_evidence) work" where
  "run_candidate_check h check i snapshot directory base now =
     (let command = map (replace_all ''{base_commit}'' base) (tc_command check) in
      if command = [] then (\<lambda>_. None)
      else
        c_then (on_world (act_err (\<lambda>e. ReleaseUnavailable (check_failure_text (tc_id check) e))
          (h_run_check h command directory (tc_timeout_seconds check)))) (\<lambda>status.
        c_then (on_world (\<lambda>w. (Inr (environment_fingerprint h w), w))) (\<lambda>fingerprint.
        c_then (on_world (current_unix_ms h)) (\<lambda>ms.
        c_return
          \<lparr>ce_attempt_id = i, ce_package_id = sn_package_id snapshot, ce_revision = sn_revision snapshot,
           ce_check_id = tc_id check, ce_base_commit = base, ce_package_content_hash = sn_content_hash snapshot,
           ce_command = command, ce_environment_fingerprint = fingerprint,
           ce_exit_code = (case status of Some code \<Rightarrow> code | None \<Rightarrow> None),
           ce_timed_out = (status = None),
           ce_output_summary = h_redact h (if status = None then ''trusted check exceeded its configured timeout'' else []),
           ce_executed_at = max now ms, ce_invalidated_at = None, ce_invalidated_reason = None\<rparr>))))"

section \<open>Publishing\<close>

definition storing :: "(queue, store_error, 'a) cmd \<Rightarrow> ('w, release_error, 'a) work" where
  "storing m = c_map_err ReleaseStore (on_store m)"

definition running_git :: "('w, git_error, 'a) action \<Rightarrow> ('w, release_error, 'a) work" where
  "running_git m = c_map_err ReleaseGit (on_world m)"

text \<open>An attempt that stops: the reason is durable before it is reported.\<close>

definition give_up ::
  "'w host \<Rightarrow> release_attempt \<Rightarrow> string \<Rightarrow> string \<Rightarrow> int \<Rightarrow> ('w, release_error, release_outcome) work" where
  "give_up h attempt classification detail now =
     c_then (storing (block_release (h_uuid_text h) attempt classification detail now)) (\<lambda>_.
     c_return (ReleaseBlocked (ra_attempt_id attempt) classification detail))"

definition retry_not_before :: "int \<Rightarrow> duration \<Rightarrow> (release_error, int) result" where
  "retry_not_before now delay =
     and_then (ok_or (i64_try_from (as_millis delay)) (ReleaseUnavailable ''publication retry delay is too large'')) (\<lambda>ms.
       ok_or (i64_checked_add now ms) (ReleaseUnavailable ''publication retry time overflows''))"

definition resolve_against_remote ::
  "'w host \<Rightarrow> release_attempt \<Rightarrow> candidate_workspace \<Rightarrow> persisted_candidate \<Rightarrow> candidate_publish_request \<Rightarrow> int
    \<Rightarrow> ('w, release_error, release_outcome) work" where
  "resolve_against_remote h attempt workspace candidate req now =
     c_then (c_map_err ReleasePublish (on_world (recover_publication (h_git h) workspace candidate req git_timeout))) (\<lambda>found.
     case found of
       RecoveredPublished published \<Rightarrow>
         c_then (storing (confirm_publication attempt (pd_commit published) now)) (\<lambda>_.
         c_return (ReleasePublished (ra_attempt_id attempt) (pd_commit published)))
     | PendingRetry _ target_commit \<Rightarrow>
         give_up h attempt ''transport'' (''remote is still at '' @ target_commit @ ''; the push never landed'') now
     | Ambiguous _ expected actual \<Rightarrow>
         give_up h attempt ''ambiguous_remote''
           (''remote holds '' @ actual @ '', expected '' @ expected @ ''; another writer advanced the target'') now)"

definition handle_publish_error ::
  "'w host \<Rightarrow> release_worker \<Rightarrow> release_attempt \<Rightarrow> candidate_workspace \<Rightarrow> persisted_candidate
    \<Rightarrow> candidate_publish_request \<Rightarrow> int \<Rightarrow> candidate_publish_error \<Rightarrow> ('w, release_error, release_outcome) work" where
  "handle_publish_error h worker attempt workspace candidate req now e =
     (let classification = release_failure_str (classify (h_io_text h) e);
          shown = publish_error_text (h_io_text h) e
      in case decide (rw_retry worker) (u8_saturating_add (ra_failed_attempts attempt) 1) e of
           Retry delay \<Rightarrow>
             c_then (reading (\<lambda>_. retry_not_before now delay)) (\<lambda>retry_at.
             c_then (storing (on_attempts (\<lambda>db.
               defer_publication_retry db (ra_attempt_id attempt) classification retry_at now))) (\<lambda>_.
             c_return (ReleaseDeferred (ra_attempt_id attempt) retry_at (classification @ '': '' @ shown))))
         | ResolveRecoverRemote \<Rightarrow> resolve_against_remote h attempt workspace candidate req now
         | RebuildCandidate \<Rightarrow>
             give_up h attempt ''target_changed'' (''target moved during publication: '' @ shown) now
         | ResolveManual block \<Rightarrow>
             give_up h attempt (release_failure_str (manual_block_failure block))
               (debug_publication_block block @ '': '' @ shown) now)"

definition publish_with_retry ::
  "'w host \<Rightarrow> release_worker \<Rightarrow> release_attempt \<Rightarrow> candidate_workspace \<Rightarrow> persisted_candidate \<Rightarrow> string
    \<Rightarrow> publication_target \<Rightarrow> int \<Rightarrow> ('w, release_error, release_outcome) work" where
  "publish_with_retry h worker attempt workspace candidate remote publication now =
     (let i = ra_attempt_id attempt;
          req = \<lparr>pr_remote = remote, pr_target_ref = target_ref_str (pb_branch publication),
                 pr_create_if_absent = pb_create_if_absent publication\<rparr>
      in
      c_then (storing (advancing_attempt i PushPending None now)) (\<lambda>_.
      c_match (on_world (publish (h_git h) workspace candidate req git_timeout)) (\<lambda>pushed.
      case pushed of
        Inr published \<Rightarrow>
          c_then (storing (on_backoff (\<lambda>t. Inr (clear_integration_failure t Git
            (id_display (h_uuid_text h) RepositoryKind (ra_repository_id attempt)), ())))) (\<lambda>_.
          c_then (storing (confirm_publication attempt (pd_commit published) now)) (\<lambda>_.
          c_return (ReleasePublished i (pd_commit published))))
      | Inl e \<Rightarrow> handle_publish_error h worker attempt workspace candidate req now e)))"


section \<open>One attempt from start to end\<close>

definition managed_clone :: "'w host \<Rightarrow> release_worker \<Rightarrow> string \<Rightarrow> string \<Rightarrow> ('w, git_error, string) action" where
  "managed_clone h worker remote name w =
     (let path = path_join (rw_managed_root worker) (name @ ''.git'') in
      if h_exists h path w then (Inr path, w)
      else
        act_bind (case path_split path of
                    Some (parent, _) \<Rightarrow> act_err GitIo (h_create_dir_all h parent)
                  | None \<Rightarrow> act_return (Inr ()))
          (\<lambda>_. provision h remote path git_timeout) w)"

text \<open>The history the candidate is built on: a branch that may be created and is not there yet starts
  from the branch it will be integrated into.\<close>

definition base_of_candidate ::
  "'w host \<Rightarrow> string \<Rightarrow> string \<Rightarrow> publication_target \<Rightarrow> ('w, git_error, target_ref) action" where
  "base_of_candidate h mirror remote publication =
     (if pb_create_if_absent publication then
        act_bind (remote_head h mirror remote (target_ref_str (pb_branch publication)) git_timeout) (\<lambda>found.
          act_return (Inr (if found = None then pb_base publication else pb_branch publication)))
      else act_return (Inr (pb_branch publication)))"

fun verification_failure :: "candidate_verification_error \<Rightarrow> string" where
  "verification_failure (TargetChanged _ _) = ''target_changed''"
| "verification_failure (UnmergedPaths _) = ''conflict''"
| "verification_failure (VerificationGit _) = ''git_failure''"

text \<open>The enabled checks, in order: the first that cannot run or does not pass ends the attempt.\<close>

fun run_checks ::
  "'w host \<Rightarrow> release_attempt \<Rightarrow> snapshot_record \<Rightarrow> candidate_workspace \<Rightarrow> string \<Rightarrow> int \<Rightarrow> trusted_check list
    \<Rightarrow> ('w, release_error, release_outcome option) work" where
  "run_checks h attempt snapshot workspace target_commit now [] = c_return None"
| "run_checks h attempt snapshot workspace target_commit now (check # checks) =
     c_match (run_candidate_check h check (ra_attempt_id attempt) snapshot (cw_path workspace) target_commit now) (\<lambda>r.
     case r of
       Inl e \<Rightarrow>
         c_then (give_up h attempt ''validation_unavailable'' (release_error_text h e) now) (\<lambda>out. c_return (Some out))
     | Inr evidence \<Rightarrow>
         c_then (storing (on_checks (\<lambda>q. record_candidate_validation_evidence (attempt_ids q) (package_keys q) evidence))) (\<lambda>_.
         if ce_exit_code evidence = Some 0 \<and> \<not> ce_timed_out evidence then
           run_checks h attempt snapshot workspace target_commit now checks
         else
           c_then (give_up h attempt ''validation_failed''
             (''trusted check '' @ tc_id check @ '' failed against reconciled candidate'') now) (\<lambda>out. c_return (Some out))))"

definition commit_and_publish ::
  "'w host \<Rightarrow> release_worker \<Rightarrow> release_attempt \<Rightarrow> candidate_workspace \<Rightarrow> string \<Rightarrow> publication_target
    \<Rightarrow> release_request \<Rightarrow> int \<Rightarrow> ('w, release_error, release_outcome) work" where
  "commit_and_publish h worker attempt workspace remote publication req now =
     (let i = ra_attempt_id attempt in
      c_then (storing (advancing_attempt i CommitPrepared None now)) (\<lambda>_.
      c_match (on_world (cw_persist (h_git h) workspace
        \<lparr>cc_message = rq_message req, cc_author_name = rq_author_name req, cc_author_email = rq_author_email req\<rparr>
        git_timeout)) (\<lambda>persisted.
      case persisted of
        Inl e \<Rightarrow> give_up h attempt ''commit_failed'' (commit_error_text (h_io_text h) e) now
      | Inr candidate \<Rightarrow>
          c_then (storing (on_attempts (\<lambda>db.
            record_push_intent db i (pc_commit candidate) (pc_parent_commit candidate) now))) (\<lambda>_.
          publish_with_retry h worker attempt workspace candidate remote publication now))))"

definition verify_and_publish ::
  "'w host \<Rightarrow> release_worker \<Rightarrow> release_attempt \<Rightarrow> snapshot_record \<Rightarrow> candidate_workspace \<Rightarrow> string \<Rightarrow> string
    \<Rightarrow> publication_target \<Rightarrow> release_request \<Rightarrow> int \<Rightarrow> ('w, release_error, release_outcome) work" where
  "verify_and_publish h worker attempt snapshot workspace target_commit remote publication req now =
     c_then (storing (advancing_attempt (ra_attempt_id attempt) Verifying None now)) (\<lambda>_.
     c_match (on_world (cw_verify (h_git h) workspace git_timeout)) (\<lambda>verified.
     case verified of
       Inl e \<Rightarrow> give_up h attempt (verification_failure e) (verification_error_text (h_io_text h) e) now
     | Inr _ \<Rightarrow>
         c_then (storing (reading (\<lambda>q. Inr (filter tc_enabled (trusted_checks (q_checks q) (ra_repository_id attempt)))))) (\<lambda>checks.
         c_then (run_checks h attempt snapshot workspace target_commit now checks) (\<lambda>stopped.
         case stopped of
           Some out \<Rightarrow> c_return out
         | None \<Rightarrow> commit_and_publish h worker attempt workspace remote publication req now))))"

definition run_attempt ::
  "'w host \<Rightarrow> release_worker \<Rightarrow> release_attempt \<Rightarrow> snapshot_record \<Rightarrow> string \<Rightarrow> publication_target
    \<Rightarrow> release_request \<Rightarrow> int \<Rightarrow> ('w, release_error, release_outcome) work" where
  "run_attempt h worker attempt snapshot remote publication req now =
     (let i = ra_attempt_id attempt in
      c_then (storing (advancing_attempt i Reconciling None now)) (\<lambda>_.
      c_then (running_git (managed_clone h worker remote
        (id_display (h_uuid_text h) RepositoryKind (ra_repository_id attempt)))) (\<lambda>mirror.
      c_then (running_git (base_of_candidate h mirror remote publication)) (\<lambda>base.
      c_then (running_git (fetch_ref h mirror remote (target_ref_str base) git_timeout)) (\<lambda>_.
      c_then (running_git (mirror_resolve h mirror (target_ref_str base) git_timeout)) (\<lambda>target_commit.
      c_then (c_map_err ReleaseUnavailable (on_world (h_open_package h (sn_path snapshot)))) (\<lambda>package.
      c_then (c_map_err ReleaseIo (on_world (h_create_dir_all h (rw_workspace_root worker)))) (\<lambda>_.
      c_then (running_git (prepare_candidate_workspace h mirror
        (path_join (rw_workspace_root worker) (''release-'' @ id_display (h_uuid_text h) AttemptKind i))
        target_commit package git_timeout)) (\<lambda>workspace.
      c_then (running_git (apply_snapshot (h_git h) workspace git_timeout)) (\<lambda>applied.
      case applied of
        Conflicted paths \<Rightarrow> give_up h attempt ''conflict'' (''unresolved paths: '' @ join '', '' paths) now
      | Applied _ \<Rightarrow>
          verify_and_publish h worker attempt snapshot workspace target_commit remote publication req now))))))))))"

section \<open>Releasing a package\<close>

definition snapshot_base_commit :: "snapshot_record \<Rightarrow> (release_error, string) result" where
  "snapshot_base_commit s =
     (case sn_manifest s of
        JObject entries \<Rightarrow>
          (case map_of entries ''base_commit'' of
             Some (JString base) \<Rightarrow> Inr base
           | _ \<Rightarrow> Inl (ReleaseUnavailable ''package manifest does not record a base commit''))
      | _ \<Rightarrow> Inl (ReleaseUnavailable ''package manifest does not record a base commit''))"

text \<open>Immediate mode publishes a package to the development branch first and, once it is there, to the target.\<close>

definition publication_target_of ::
  "repository_policy \<Rightarrow> package_id \<Rightarrow> revision \<Rightarrow> queue \<Rightarrow> publication_target" where
  "publication_target_of policy p v q =
     (let development =
            (case rp_publication_mode policy of
               ImmediateAvailability \<Rightarrow> rp_development_target policy
             | ScheduledCreation \<Rightarrow> None);
          unreached =
            (case development of
               Some branch \<Rightarrow> if package_published_to (attempt_view q) p v branch then None else Some branch
             | None \<Rightarrow> None)
      in case unreached of
           Some branch \<Rightarrow> \<lparr>pb_branch = branch, pb_base = rp_target policy, pb_create_if_absent = True\<rparr>
         | None \<Rightarrow> \<lparr>pb_branch = rp_target policy, pb_base = rp_target policy, pb_create_if_absent = False\<rparr>)"

text \<open>The target is claimed before anything touches Git.\<close>

definition open_and_run :: "'w host \<Rightarrow> release_worker \<Rightarrow> snapshot_record \<Rightarrow> publication_target \<Rightarrow> release_request \<Rightarrow> int
    \<Rightarrow> new_release_attempt \<Rightarrow> ('w, release_error, release_outcome) work" where
  "open_and_run h worker snapshot publication req now n =
     c_then (storing (on_attempts (\<lambda>db. open_release_attempt db n))) (\<lambda>attempt.
     c_match (run_attempt h worker attempt snapshot (na_remote n) publication req now) (\<lambda>r.
     case r of
       Inr out \<Rightarrow> c_return out
     | Inl e \<Rightarrow> give_up h attempt ''internal_error'' (release_error_text h e) now))"

definition release_package ::
  "'w host \<Rightarrow> release_worker \<Rightarrow> release_request \<Rightarrow> int \<Rightarrow> ('w, release_error, release_outcome) work" where
  "release_package h worker req now =
     c_then (storing (reading (\<lambda>q. snapshot_of (q_packages q) (rq_package_id req) (rq_package_revision req)))) (\<lambda>found.
     c_then (reading (\<lambda>_. ok_or found (ReleaseUnavailable
       (''package '' @ id_display (h_uuid_text h) PackageKind (rq_package_id req) @ '' is not stored'')))) (\<lambda>snapshot.
     c_then (storing (reading_or_panic (\<lambda>q. plan_of (q_plans q) (sn_feature_id snapshot) (Some (sn_plan_revision snapshot))))) (\<lambda>found.
     c_then (reading (\<lambda>_. ok_or found (ReleaseUnavailable ''the package's plan revision is not stored''))) (\<lambda>plan.
     c_then (storing (reading (\<lambda>q. repository_of (q_registry q) (fp_repository_id (stp_plan plan))))) (\<lambda>found.
     c_then (reading (\<lambda>_. ok_or found (ReleaseUnavailable ''the package's repository is no longer enrolled''))) (\<lambda>repository.
     c_then (storing (reading (\<lambda>q. Inr (publication_target_of (sr_active_policy repository)
       (sn_package_id snapshot) (sn_revision snapshot) q)))) (\<lambda>publication.
     c_then (on_world (\<lambda>w. case h_new_attempt_id h w of (i, w) \<Rightarrow> (Inr i, w))) (\<lambda>i.
     c_then (reading (\<lambda>_. snapshot_base_commit snapshot)) (\<lambda>base.
     open_and_run h worker snapshot publication req now
       \<lparr>na_attempt_id = i, na_repository_id = rg_id (sr_registration repository),
        na_package_id = sn_package_id snapshot, na_package_revision = sn_revision snapshot,
        na_remote = rg_canonical_remote (sr_registration repository), na_target = pb_branch publication, na_base_commit = base,
        na_lease = \<lparr>al_owner = rw_lease_owner worker, al_expires = i64_wrapping_add now lease_duration_ms\<rparr>,
        na_created_at = now\<rparr>)))))))))"

section \<open>Recovery\<close>

definition settle_interrupted ::
  "'w host \<Rightarrow> release_attempt \<Rightarrow> string \<Rightarrow> string \<Rightarrow> int \<Rightarrow> ('w, release_error, unit) work" where
  "settle_interrupted h attempt candidate observed now =
     (if observed = candidate then storing (confirm_publication attempt candidate now)
      else if ra_candidate_parent_sha attempt = Some observed \<and> ra_retry_not_before attempt \<noteq> None then c_return ()
      else
        storing (block_release (h_uuid_text h) attempt
          (if ra_candidate_parent_sha attempt = Some observed then ''transport'' else ''ambiguous_remote'')
          (''remote holds '' @ observed @ '', not candidate '' @ candidate @ ''; manual resolution is required'') now))"

definition recover_interrupted_release ::
  "'w host \<Rightarrow> release_worker \<Rightarrow> release_attempt \<Rightarrow> int \<Rightarrow> ('w, release_error, unit) work" where
  "recover_interrupted_release h worker attempt now =
     (let remote = ra_remote attempt; target = target_ref_str (ra_target attempt) in
      c_then (reading (\<lambda>_. ok_or (ra_candidate_sha attempt)
        (ReleaseUnavailable ''transmitted push is missing its candidate commit''))) (\<lambda>candidate.
      c_then (running_git (managed_clone h worker remote
        (id_display (h_uuid_text h) RepositoryKind (ra_repository_id attempt)))) (\<lambda>mirror.
      c_then (storing (reading (is_development_publication attempt))) (\<lambda>development.
      c_then (if development
              then c_then (running_git (remote_head h mirror remote target git_timeout)) (\<lambda>found. c_return (found = None))
              else c_return False) (\<lambda>absent.
      if absent then
        (if ra_retry_not_before attempt \<noteq> None then c_return ()
         else
           storing (block_release (h_uuid_text h) attempt ''transport''
             (''development branch '' @ target @ '' was never created; candidate '' @ candidate
               @ '' did not reach the remote'') now))
      else
        c_then (running_git (fetch_ref h mirror remote target git_timeout)) (\<lambda>_.
        c_then (running_git (mirror_resolve h mirror target git_timeout)) (\<lambda>observed.
        settle_interrupted h attempt candidate observed now)))))))"

definition recover_one ::
  "'w host \<Rightarrow> release_worker \<Rightarrow> int \<Rightarrow> recovery_report \<Rightarrow> release_attempt \<Rightarrow> ('w, store_error, recovery_report) work" where
  "recover_one h worker now report attempt =
     c_match (recover_interrupted_release h worker attempt now) (\<lambda>r.
     case r of
       Inr _ \<Rightarrow> c_return (report\<lparr>rc_resolved := rc_resolved report @ [ra_attempt_id attempt]\<rparr>)
     | Inl e \<Rightarrow> c_return (report\<lparr>rc_failures := rc_failures report
         @ [\<lparr>rf_attempt_id = ra_attempt_id attempt, rf_detail = release_error_text h e\<rparr>]\<rparr>))"

definition recover_interrupted_releases ::
  "'w host \<Rightarrow> release_worker \<Rightarrow> int \<Rightarrow> ('w, store_error, recovery_report) work" where
  "recover_interrupted_releases h worker now =
     c_then (on_store (reading (\<lambda>q. release_attempts_awaiting_remote_resolution (attempt_view q)))) (\<lambda>attempts.
     c_fold (recover_one h worker now) \<lparr>rc_resolved = [], rc_failures = []\<rparr> attempts)"

end
