(* ===== verification/Journey.thy ===== *)
theory Journey
  imports Release
begin

text \<open>
  The runs of the release worker (daemon/src/release.rs), followed call by call. A run is a sequence of store calls
  and of calls to the world outside (git, the file system, trusted checks), interleaved as the worker
  makes them. The theory proves about whole runs what holds for each call in them: every push is
  preceded by a committed record of what it sends, and recovery after a restart never pushes.
  The locale \<^theory_text>\<open>conduct\<close> is what a kind of step must satisfy to be followed
  through the worker's control flow.
\<close>

section \<open>What the worker may do\<close>

text \<open>A push that the store already knows about: an attempt waits for its answer, with the commit on record,
  and the push sends exactly that commit to the branch of the attempt.\<close>

definition intended :: "queue \<Rightarrow> string list \<Rightarrow> bool" where
  "intended q args \<longleftrightarrow>
     (\<exists>r \<in> set (q_attempts q). \<exists>commit leased. c_status r = ''push_pending'' \<and> c_candidate_sha r = Some commit
        \<and> args = [''push'', ''--porcelain'', ''--force-with-lease='' @ c_target_ref r @ '':'' @ leased,
            c_target_remote r, commit @ '':'' @ c_target_ref r])"

definition is_push :: "string list \<Rightarrow> bool" where
  "is_push args \<longleftrightarrow> take 1 args = [''push'']"

inductive world_step :: "'w host \<Rightarrow> (string list \<Rightarrow> bool) \<Rightarrow> 'w \<Rightarrow> 'w \<Rightarrow> bool" for h allowed where
  git: "(is_push args \<Longrightarrow> allowed args) \<Longrightarrow> h_git h dir args timeout w = (r, w') \<Longrightarrow> world_step h allowed w w'"
| create_dir: "h_create_dir_all h path w = (r1, w') \<Longrightarrow> world_step h allowed w w'"
| open_package: "h_open_package h path w = (r2, w') \<Longrightarrow> world_step h allowed w w'"
| run_check: "h_run_check h command path seconds w = (r3, w') \<Longrightarrow> world_step h allowed w w'"
| new_id: "h_new_attempt_id h w = (i, w') \<Longrightarrow> world_step h allowed w w'"

inductive worker_step :: "'w host \<Rightarrow> (queue \<Rightarrow> string list \<Rightarrow> bool) \<Rightarrow> queue \<times> 'w \<Rightarrow> queue \<times> 'w \<Rightarrow> bool" for h allowed where
  store: "queue_ok q \<Longrightarrow> queue_ok q' \<Longrightarrow> queue_follows q q' \<Longrightarrow> worker_step h allowed (q, w) (q', w)"
| world: "world_step h (allowed q) w w' \<Longrightarrow> worker_step h allowed (q, w) (q, w')"

section \<open>Actions that do not push\<close>

definition act_stays :: "('w \<Rightarrow> 'w \<Rightarrow> bool) \<Rightarrow> ('w, 'e, 'a) action \<Rightarrow> bool" where
  "act_stays R m \<longleftrightarrow> (\<forall>w r w'. m w = (r, w') \<longrightarrow> R w w')"

locale conduct =
  fixes R :: "'w \<Rightarrow> 'w \<Rightarrow> bool"
  assumes refl: "R w w" and trans: "R u v \<Longrightarrow> R v w \<Longrightarrow> R u w"
begin

lemma return: "act_stays R (act_return r)"
  by (simp add: act_stays_def act_return_def refl)

lemma bind: "act_stays R m \<Longrightarrow> (\<And>x. act_stays R (f x)) \<Longrightarrow> act_stays R (act_bind m f)"
  unfolding act_stays_def act_bind_def by (auto split: prod.splits sum.splits) (metis trans)

lemma error: "act_stays R m \<Longrightarrow> act_stays R (act_err g m)"
  unfolding act_stays_def act_err_def by (auto split: prod.splits)

lemma choice: "act_stays R m \<Longrightarrow> act_stays R n \<Longrightarrow> act_stays R (if b then m else n)"
  by simp

end

interpretation conducting: conduct "(world_step h allowed)\<^sup>*\<^sup>*" for h allowed
  by unfold_locales auto

abbreviation quiet :: "'w host \<Rightarrow> ('w, 'e, 'a) action \<Rightarrow> bool" where
  "quiet h \<equiv> act_stays (world_step h (\<lambda>_. False))\<^sup>*\<^sup>*"

lemma quiet_git: "\<not> is_push args \<Longrightarrow> quiet h (git_run (h_git h) dir args timeout)"
  unfolding git_run_def
  by (auto simp: act_stays_def intro!: conducting.return intro: world_step.git)

named_theorems quiet_rules "actions that never push"

lemmas [quiet_rules] = conducting.return conducting.bind conducting.error quiet_git

lemma not_push [simp]: "is_push (c # args) \<longleftrightarrow> c = ''push''"
  by (simp add: is_push_def)

lemma act_stays_if: "(b \<Longrightarrow> act_stays R m) \<Longrightarrow> (\<not> b \<Longrightarrow> act_stays R n) \<Longrightarrow> act_stays R (if b then m else n)"
  by simp

lemma quiet_text [quiet_rules]: "\<not> is_push args \<Longrightarrow> quiet h (git_text (h_git h) dir args timeout)"
  unfolding git_text_def by (intro quiet_rules)

lemma quiet_remote_ref [quiet_rules]: "quiet h (remote_ref (h_git h) dir remote ref timeout)"
  unfolding remote_ref_def by (intro quiet_rules) simp

lemma quiet_unmerged [quiet_rules]: "quiet h (unmerged_paths (h_git h) cw timeout)"
  unfolding unmerged_paths_def by (intro quiet_rules) simp

lemma quiet_staged [quiet_rules]: "quiet h (staged_tree (h_git h) cw timeout)"
  unfolding staged_tree_def by (intro quiet_rules) simp

lemma quiet_apply [quiet_rules]: "quiet h (apply_snapshot (h_git h) cw timeout)"
proof -
  have one: "quiet h (git_run (h_git h) (cw_path cw) [''cherry-pick'', ''--no-commit'', cw_snapshot_ref cw] timeout)"
    by (intro quiet_rules) simp
  have two: "quiet h (act_bind (staged_tree (h_git h) cw timeout) (\<lambda>tree. act_return (Inr (Applied tree))))"
    "quiet h (act_bind (unmerged_paths (h_git h) cw timeout) (\<lambda>paths.
        act_return (if paths = [] then Inl e else Inr (Conflicted paths))))" for e
    by (intro quiet_rules)+
  show ?thesis
    unfolding act_stays_def apply_snapshot_def
  proof (intro allI impI)
    fix w w' and r :: "(git_error, candidate_apply_outcome) result"
    assume run: "(case git_run (h_git h) (cw_path cw) [''cherry-pick'', ''--no-commit'', cw_snapshot_ref cw] timeout w of
        (Inr _, w) \<Rightarrow> act_bind (staged_tree (h_git h) cw timeout) (\<lambda>tree. act_return (Inr (Applied tree))) w
      | (Inl e, w) \<Rightarrow>
          act_bind (unmerged_paths (h_git h) cw timeout) (\<lambda>paths.
            act_return (if paths = [] then Inl e else Inr (Conflicted paths))) w) = (r, w')"
    obtain x v where v: "git_run (h_git h) (cw_path cw) [''cherry-pick'', ''--no-commit'', cw_snapshot_ref cw] timeout w = (x, v)"
      by fastforce
    then have "(world_step h (\<lambda>_. False))\<^sup>*\<^sup>* v w'"
      using run two unfolding act_stays_def by (cases x) auto
    moreover have "(world_step h (\<lambda>_. False))\<^sup>*\<^sup>* w v" using one v unfolding act_stays_def by blast
    ultimately show "(world_step h (\<lambda>_. False))\<^sup>*\<^sup>* w w'" by simp
  qed
qed

lemma quiet_verify [quiet_rules]: "quiet h (cw_verify (h_git h) cw timeout)"
  unfolding cw_verify_def by (auto intro!: quiet_rules act_stays_if)

lemma quiet_persist [quiet_rules]: "quiet h (cw_persist (h_git h) cw req timeout)"
  unfolding cw_persist_def by (auto intro!: quiet_rules split: prod.split)

lemma quiet_validate [quiet_rules]: "quiet h (validate_persisted_candidate (h_git h) cw c timeout)"
  unfolding validate_persisted_candidate_def by (auto intro!: quiet_rules)

lemma quiet_recover [quiet_rules]: "quiet h (recover_publication (h_git h) cw c req timeout)"
  unfolding recover_publication_def by (auto intro!: quiet_rules)

lemma quiet_guard [quiet_rules]:
  assumes "quiet h m"
  shows "quiet h (\<lambda>w. if h_exists h path w then (Inl e, w) else m w)"
  using assms conducting.refl unfolding act_stays_def by (auto split: if_splits)

lemma quiet_provision [quiet_rules]: "quiet h (provision h remote path timeout)"
proof -
  have "provision h remote path timeout = (\<lambda>w. if h_exists h path w then (Inl (ManagedPathExists path), w) else
      (case path_split path of None \<Rightarrow> act_return (Inl InvalidInvocation)
       | Some (parent, name) \<Rightarrow> act_bind (git_run (h_git h) parent [''clone'', ''--mirror'', remote, name] timeout)
           (\<lambda>_. act_return (Inr path))) w)"
    by (auto simp: provision_def act_return_def fun_eq_iff split: option.split)
  then show ?thesis by (auto intro!: quiet_rules split: option.split)
qed

lemma quiet_fetch [quiet_rules]: "quiet h (fetch_ref h path remote ref timeout)"
  unfolding fetch_ref_def by (intro quiet_rules) simp

lemma quiet_resolve [quiet_rules]: "quiet h (mirror_resolve h path ref timeout)"
  unfolding mirror_resolve_def by (intro quiet_rules) simp

lemma quiet_head [quiet_rules]: "quiet h (remote_head h path remote ref timeout)"
  unfolding remote_head_def by (intro quiet_rules)

lemma quiet_workspace [quiet_rules]: "quiet h (create_release_workspace h mirror destination commit timeout)"
proof -
  have "create_release_workspace h mirror destination commit timeout =
    (\<lambda>w. if h_exists h destination w then (Inl (ManagedPathExists destination), w) else
      (case path_split destination of None \<Rightarrow> act_return (Inl InvalidInvocation)
       | Some (parent, name) \<Rightarrow>
            act_bind (git_run (h_git h) parent [''clone'', ''--no-checkout'', mirror, name] timeout) (\<lambda>_.
            act_bind (git_run (h_git h) destination [''checkout'', ''--detach'', commit] timeout) (\<lambda>_.
              act_return (Inr destination)))) w)"
    by (auto simp: create_release_workspace_def act_return_def fun_eq_iff split: option.split)
  then show ?thesis by (auto intro!: quiet_rules split: option.split)
qed

lemma quiet_open [quiet_rules]: "quiet h (h_open_package h path)"
  by (auto simp: act_stays_def intro: world_step.open_package)

lemma quiet_create [quiet_rules]: "quiet h (h_create_dir_all h path)"
  by (auto simp: act_stays_def intro: world_step.create_dir)

lemma quiet_check [quiet_rules]: "quiet h (h_run_check h command path seconds)"
  by (auto simp: act_stays_def intro: world_step.run_check)

lemma quiet_expect [quiet_rules]: "quiet h (expect_object h path ref expected part timeout)"
  unfolding expect_object_def by (intro quiet_rules) simp

lemma quiet_prepare [quiet_rules]: "quiet h (prepare_candidate_workspace h mirror destination target package timeout)"
  unfolding prepare_candidate_workspace_def Let_def by (auto intro!: quiet_rules)

lemma quiet_clone [quiet_rules]: "quiet h (managed_clone h worker remote name)"
proof -
  let ?path = "path_join (rw_managed_root worker) (name @ ''.git'')"
  let ?m = "act_bind (case path_split ?path of Some (parent, _) \<Rightarrow> act_err GitIo (h_create_dir_all h parent)
      | None \<Rightarrow> act_return (Inr ())) (\<lambda>_. provision h remote ?path git_timeout)"
  have "quiet h ?m" by (auto intro!: quiet_rules split: option.split)
  then show ?thesis unfolding act_stays_def managed_clone_def Let_def by auto
qed

lemma quiet_base [quiet_rules]: "quiet h (base_of_candidate h mirror remote publication)"
  unfolding base_of_candidate_def by (auto intro!: quiet_rules act_stays_if)


section \<open>The push\<close>

lemma world_step_mono: "world_step h (\<lambda>_. False) w w' \<Longrightarrow> world_step h allowed w w'"
  by (induction rule: world_step.induct) (auto intro: world_step.intros)

lemma world_steps_mono: "(world_step h (\<lambda>_. False))\<^sup>*\<^sup>* w w' \<Longrightarrow> (world_step h allowed)\<^sup>*\<^sup>* w w'"
  by (induction rule: rtranclp_induct) (auto intro: rtranclp.rtrancl_into_rtrancl world_step_mono)

lemma act_staysI: "(\<And>w r w'. m w = (r, w') \<Longrightarrow> R w w') \<Longrightarrow> act_stays R m"
  by (simp add: act_stays_def)

lemma act_staysD: "act_stays R m \<Longrightarrow> m w = (r, w') \<Longrightarrow> R w w'"
  by (simp add: act_stays_def)

lemma quiet_any: "quiet h m \<Longrightarrow> act_stays (world_step h allowed)\<^sup>*\<^sup>* m"
  by (rule act_staysI) (rule world_steps_mono, erule (1) act_staysD)

lemma publish_conduct:
  assumes "\<And>leased. allowed (push_args req leased (pc_commit c))"
  shows "act_stays (world_step h allowed)\<^sup>*\<^sup>* (publish (h_git h) cw c req timeout)"
proof -
  have push: "act_stays (world_step h allowed)\<^sup>*\<^sup>* (git_run (h_git h) dir (push_args req leased (pc_commit c)) timeout)" for dir leased
    using assms unfolding git_run_def act_stays_def act_return_def
    by (auto split: if_splits intro: world_step.git)
  show ?thesis
    unfolding publish_def
    by (intro conducting.bind conducting.return conducting.error push quiet_any [OF quiet_validate] quiet_any [OF quiet_remote_ref])
qed

section \<open>The worker's calls of the store\<close>

lemma stays_option: "stays R m \<Longrightarrow> (\<And>x. stays R (f x)) \<Longrightarrow> stays R (case found of None \<Rightarrow> m | Some x \<Rightarrow> f x)"
  by (cases found) simp_all

lemma stays_sum: "(\<And>e. stays R (f e)) \<Longrightarrow> (\<And>x. stays R (g x)) \<Longrightarrow> stays R (case r of Inl e \<Rightarrow> f e | Inr x \<Rightarrow> g x)"
  by (cases r) simp_all

lemma stays_if: "stays R m \<Longrightarrow> stays R n \<Longrightarrow> stays R (if b then m else n)"
  by simp

lemmas stays_branch = stays_option stays_sum stays_if

lemma block_task_stays: "stays queue_moves (block_task f v reason now t)"
  unfolding block_task_def by (intro queue.sequence queue.reading queue.return advancing_stays stays_branch)

lemma advancing_attempt_stays: "stays queue_moves (advancing_attempt i target reason now)"
  unfolding advancing_attempt_def by (rule on_attempts_stays) (rule attempt_step.advance)

lemma failing_stays: "stays queue_moves (on_attempts (\<lambda>db. record_publication_failure db i classification now))"
  by (rule on_attempts_stays) (rule attempt_step.failure)

lemma block_release_stays: "stays queue_moves (block_release text attempt classification detail now)"
  unfolding block_release_def load_attempt_def
  by (intro queue.sequence queue.reading queue.return queue.each_loop stays_branch advancing_attempt_stays on_backoff_stays
      block_task_stays failing_stays)

lemma publish_tasks_stays: "stays queue_moves (publish_tasks attempt now)"
  unfolding publish_tasks_def
  by (intro queue.sequence queue.reading queue.return queue.each_loop stays_branch advancing_to_stays invalidate_stays)

lemma observing_stays: "stays queue_moves (on_attempts (\<lambda>db. record_remote_observation db i observed now))"
  by (rule on_attempts_stays) (rule attempt_step.observe)

lemma confirm_publication_stays: "stays queue_moves (confirm_publication attempt candidate now)"
  unfolding confirm_publication_def load_attempt_def Let_def
  by (intro queue.sequence queue.reading queue.return stays_branch advancing_attempt_stays publish_tasks_stays observing_stays)

section \<open>Both halves together\<close>

definition works ::
  "'w host \<Rightarrow> (queue \<Rightarrow> string list \<Rightarrow> bool) \<Rightarrow> (queue \<Rightarrow> bool) \<Rightarrow> queue \<times> 'w \<Rightarrow> queue \<times> 'w \<Rightarrow> bool" where
  "works h allowed P s s' \<longleftrightarrow>
     (queue_ok (fst s) \<and> P (fst s) \<longrightarrow> queue_ok (fst s') \<and> P (fst s') \<and> (worker_step h allowed)\<^sup>*\<^sup>* s s')"

interpretation working: behaviour "works h allowed P" for h allowed P
  by unfold_locales (auto simp: works_def)

definition lasting :: "(queue \<Rightarrow> bool) \<Rightarrow> bool" where
  "lasting P \<longleftrightarrow> (\<forall>q q'. queue_follows q q' \<longrightarrow> P q \<longrightarrow> P q')"

lemma on_store_works:
  assumes "stays queue_moves m" and "lasting P"
  shows "stays (works (h :: 'w host) allowed P) (on_store m)"
  unfolding stays_def works_def
proof (intro allI impI, elim conjE)
  fix s s' :: "queue \<times> 'w" and r
  assume run: "on_store m s = Some (r, s')" and ok: "queue_ok (fst s)" and P: "P (fst s)"
  obtain q' where q': "m (fst s) = Some (r, q')" "s' = (q', snd s)" using run by (auto simp: on_store_def)
  have "queue_ok q' \<and> queue_follows (fst s) q'" using assms(1) q'(1) ok unfolding stays_def queue_moves_def by blast
  then show "queue_ok (fst s') \<and> P (fst s') \<and> (worker_step h allowed)\<^sup>*\<^sup>* s s'"
    using q'(2) ok P assms(2) worker_step.store [of "fst s" q' h allowed "snd s"] unfolding lasting_def by auto
qed

lemma world_steps_lift: "(world_step h (allowed q))\<^sup>*\<^sup>* w w' \<Longrightarrow> (worker_step h allowed)\<^sup>*\<^sup>* (q, w) (q, w')"
  by (induction rule: rtranclp_induct) (auto intro: rtranclp.rtrancl_into_rtrancl worker_step.world)

lemma on_world_works: "quiet h m \<Longrightarrow> stays (works h allowed P) (on_world m)"
  using quiet_any [of h m] world_steps_lift [of h allowed]
  unfolding stays_def works_def on_world_def act_stays_def by (fastforce split: prod.splits)

lemma storing_works: "stays queue_moves m \<Longrightarrow> lasting P \<Longrightarrow> stays (works h allowed P) (storing m)"
  unfolding storing_def by (intro working.mapping_error on_store_works)

lemma running_git_works: "quiet h m \<Longrightarrow> stays (works h allowed P) (running_git m)"
  unfolding running_git_def by (intro working.mapping_error on_world_works)

lemma give_up_works: "lasting P \<Longrightarrow> stays (works h allowed P) (give_up h attempt classification detail now)"
  unfolding give_up_def by (intro working.steps storing_works block_release_stays)

lemma resolve_works: "lasting P \<Longrightarrow> stays (works h allowed P) (resolve_against_remote h attempt workspace candidate req now)"
  unfolding resolve_against_remote_def
  by (auto intro!: working.steps on_world_works quiet_recover storing_works confirm_publication_stays give_up_works
      split: publication_recovery.split)

lemma publish_error_works:
  "lasting P \<Longrightarrow> stays (works h allowed P) (handle_publish_error h worker attempt workspace candidate req now e)"
  unfolding handle_publish_error_def Let_def
  by (auto intro!: working.steps resolve_works storing_works on_attempts_stays attempt_step.defer_retry give_up_works
      split: publication_resolution.split)

lemma check_works: "stays (works h allowed P) (run_candidate_check h check i snapshot directory base now)"
proof -
  have "stays R (\<lambda>_. None)" for R :: "queue \<times> 'a \<Rightarrow> queue \<times> 'a \<Rightarrow> bool" by (simp add: stays_def)
  moreover have "quiet h (\<lambda>w. (Inr (environment_fingerprint h w), w))" "quiet h (current_unix_ms h)"
    by (auto simp: act_stays_def current_unix_ms_def split: sum.splits)
  ultimately show ?thesis
    unfolding run_candidate_check_def Let_def
    by (auto intro!: working.steps on_world_works quiet_rules)
qed

lemma run_checks_works:
  "lasting P \<Longrightarrow> stays (works h allowed P) (run_checks h attempt snapshot workspace target_commit now checks)"
proof (induction checks)
  case (Cons check checks)
  have "stays queue_moves (on_checks (\<lambda>q. record_candidate_validation_evidence (attempt_ids q) (package_keys q) e))" for e
    by (rule on_checks_stays) (rule record_candidate_stays)
  then show ?case
    using Cons unfolding run_checks.simps
    by (auto intro!: working.steps check_works give_up_works storing_works split: sum.split)
qed (auto intro: working.return)


section \<open>A release\<close>

definition owned :: "attempt_id \<Rightarrow> string \<Rightarrow> string \<Rightarrow> queue \<Rightarrow> bool" where
  "owned i remote ref q \<longleftrightarrow>
     (\<exists>r \<in> set (q_attempts q). c_attempt_id r = i \<and> c_target_remote r = remote \<and> c_target_ref r = ref)"

lemma attempts_follow: "queue_follows q q' \<Longrightarrow> r \<in> set (q_attempts q) \<Longrightarrow> \<exists>r' \<in> set (q_attempts q'). row_evolves r r'"
  unfolding queue_follows_def grows_def by (metis in_set_conv_nth in_set_takeD list_all2_conv_all_nth)

lemma lasting_owned: "lasting (owned i remote ref)"
  unfolding lasting_def owned_def
proof (intro allI impI)
  fix q q' assume "queue_follows q q'"
    and "\<exists>r \<in> set (q_attempts q). c_attempt_id r = i \<and> c_target_remote r = remote \<and> c_target_ref r = ref"
  then obtain r r' where "r' \<in> set (q_attempts q')" "row_evolves r r'"
    "c_attempt_id r = i \<and> c_target_remote r = remote \<and> c_target_ref r = ref"
    using attempts_follow by blast
  then show "\<exists>r \<in> set (q_attempts q'). c_attempt_id r = i \<and> c_target_remote r = remote \<and> c_target_ref r = ref"
    by (auto simp: row_evolves_def)
qed

definition recorded :: "attempt_id \<Rightarrow> string \<Rightarrow> queue \<Rightarrow> bool" where
  "recorded i commit q \<longleftrightarrow> (\<exists>r \<in> set (q_attempts q). c_attempt_id r = i \<and> c_candidate_sha r = Some commit)"

lemma one_hit: "length (filter hit rows) = 1 \<Longrightarrow> \<exists>r \<in> set rows. hit r"
  by (cases "filter hit rows") (auto simp: filter_eq_Cons_iff)

lemma recording:
  assumes "on_attempts (\<lambda>db. record_push_intent db i commit parent now) q = Some (Inr a, q')"
  shows "recorded i commit q'"
proof -
  let ?hit = "\<lambda>r. c_attempt_id r = i \<and> c_status r = ''commit_prepared''
         \<and> c_candidate_sha r \<in> {None, Some commit} \<and> c_candidate_parent_sha r \<in> {None, Some parent}"
  let ?change = "\<lambda>r. r\<lparr>c_candidate_sha := Some commit, c_candidate_parent_sha := Some parent,
             c_push_intent_at := Some now, c_updated_at := now\<rparr>"
  obtain db where db: "record_push_intent (attempt_view q) i commit parent now = Inr (db, a)" "q' = q\<lparr>q_attempts := db_attempts db\<rparr>"
    using assms by (auto simp: on_attempts_def writing_Inr_iff and_then_Inr_iff)
  then have "write_back i (sql_update (attempt_view q) ?hit ?change) = Inr (db, a)"
    by (auto simp: record_push_intent_def res split: if_splits option.splits)
  then have "length (filter ?hit (q_attempts q)) = 1" "db_attempts db = map (\<lambda>r. if ?hit r then ?change r else r) (q_attempts q)"
    by (auto simp: write_back_def sql_update_def commit_rows_Inr expect_one_row_def res attempt_view_def)
  then obtain r where "r \<in> set (q_attempts q)" "?hit r" using one_hit by blast
  then have "?change r \<in> set (q_attempts q')" "c_attempt_id (?change r) = i"
    using db(2) \<open>db_attempts db = _\<close> by (auto intro!: image_eqI [of _ _ r])
  then show ?thesis unfolding recorded_def by (intro bexI [of _ "?change r"]) simp_all
qed

lemma lasting_recorded: "lasting (recorded i commit)"
  unfolding lasting_def recorded_def
proof (intro allI impI)
  fix q q' assume "queue_follows q q'"
    and "\<exists>r \<in> set (q_attempts q). c_attempt_id r = i \<and> c_candidate_sha r = Some commit"
  then obtain r r' where "r' \<in> set (q_attempts q')" "row_evolves r r'" "c_attempt_id r = i \<and> c_candidate_sha r = Some commit"
    using attempts_follow by blast
  then show "\<exists>r \<in> set (q_attempts q'). c_attempt_id r = i \<and> c_candidate_sha r = Some commit"
    by (auto simp: row_evolves_def)
qed

text \<open>The row of an attempt that has just been moved.\<close>

lemma advancing_write:
  assumes "advancing_attempt i target reason now q = Some (Inr a, q')"
  obtains hit change where "is_publication_stage target" and "length (filter hit (q_attempts q)) = 1"
    and "\<forall>r. hit r \<longrightarrow> c_attempt_id r = i"
    and "\<forall>r. c_attempt_id (change r) = c_attempt_id r \<and> c_status (change r) = status_column target
      \<and> c_observed_remote_sha (change r) = c_observed_remote_sha r"
    and "q_attempts q' = map (\<lambda>r. if hit r then change r else r) (q_attempts q)"
proof -
  obtain db where db: "advance_release_attempt (attempt_view q) i target reason now = Inr (db, a)" "q' = q\<lparr>q_attempts := db_attempts db\<rparr>"
    using assms by (auto simp: advancing_attempt_def on_attempts_def writing_Inr_iff and_then_Inr_iff)
  obtain column b st' where "expect_attempt (attempt_view q) i = Inr b"
    and column: "column = status_column target" and target: "is_publication_stage target"
    and "ts_transition (ra_state b) target reason = Inr st'"
    and w: "write_back i (sql_update (attempt_view q)
        (\<lambda>r. c_attempt_id r = i \<and> c_status r = status_column (ts_status (ra_state b))
           \<and> c_blocked_from r = Option.bind (ts_blocked_from (ra_state b)) stage_column)
        (\<lambda>r. r\<lparr>c_status := column, c_reason := ts_reason st',
               c_blocked_from := Option.bind (ts_blocked_from st') stage_column,
               c_retry_not_before := (if column = ''push_pending'' then c_retry_not_before r else None),
               c_updated_at := now\<rparr>)) = Inr (db, a)"
    using db(1) by (auto simp: advance_release_attempt_def res require_publication_stage_Inr Let_def split: if_splits)
  let ?hit = "\<lambda>r. c_attempt_id r = i \<and> c_status r = status_column (ts_status (ra_state b))
           \<and> c_blocked_from r = Option.bind (ts_blocked_from (ra_state b)) stage_column"
  let ?change = "\<lambda>r. r\<lparr>c_status := column, c_reason := ts_reason st',
               c_blocked_from := Option.bind (ts_blocked_from st') stage_column,
               c_retry_not_before := (if column = ''push_pending'' then c_retry_not_before r else None),
               c_updated_at := now\<rparr>"
  show thesis
  proof (rule that [of ?hit ?change])
    show "length (filter ?hit (q_attempts q)) = 1" "q_attempts q' = map (\<lambda>r. if ?hit r then ?change r else r) (q_attempts q)"
      using w db(2) by (auto simp: write_back_def sql_update_def commit_rows_Inr expect_one_row_def res attempt_view_def)
  qed (use target column in simp_all)
qed

lemma attempt_ids_distinct: "queue_ok q \<Longrightarrow> distinct (map c_attempt_id (q_attempts q))"
  by (simp add: queue_ok_def db_ok_def constraints_hold_def attempt_view_def)

lemma same_attempt_row:
  assumes "queue_ok q" and "r \<in> set (q_attempts q)" "r' \<in> set (q_attempts q)" "c_attempt_id r = c_attempt_id r'"
  shows "r = r'"
  by (rule key_unique [OF attempt_ids_distinct [OF assms(1)] assms(2-4)])

lemma advancing_row:
  assumes "queue_ok q" and "advancing_attempt i target reason now q = Some (Inr a, q')"
  shows "queue_ok q'" and "queue_follows q q'"
    and "\<exists>r \<in> set (q_attempts q'). c_attempt_id r = i \<and> c_status r = status_column target"
    and "r \<in> set (q_attempts q') \<Longrightarrow> c_attempt_id r = i \<Longrightarrow> c_status r = status_column target"
proof -
  show ok: "queue_ok q'" "queue_follows q q'"
    using advancing_attempt_stays assms unfolding stays_def queue_moves_def by blast+
  obtain hit change where one: "length (filter hit (q_attempts q)) = 1" and hit: "\<forall>r. hit r \<longrightarrow> c_attempt_id r = i"
    and change: "\<forall>r. c_attempt_id (change r) = c_attempt_id r \<and> c_status (change r) = status_column target
      \<and> c_observed_remote_sha (change r) = c_observed_remote_sha r"
    and rows: "q_attempts q' = map (\<lambda>r. if hit r then change r else r) (q_attempts q)"
    by (rule advancing_write [OF assms(2)])
  obtain r where "r \<in> set (q_attempts q)" "hit r" using one_hit [OF one] by blast
  then have "change r \<in> set (q_attempts q')" unfolding rows by force
  then show ex: "\<exists>r \<in> set (q_attempts q'). c_attempt_id r = i \<and> c_status r = status_column target"
    using \<open>hit r\<close> hit change by (intro bexI [of _ "change r"]) simp_all
  then show "r \<in> set (q_attempts q') \<Longrightarrow> c_attempt_id r = i \<Longrightarrow> c_status r = status_column target" for r
    using same_attempt_row [OF ok(1)] by metis
qed

lemma lasting_conj: "lasting P \<Longrightarrow> lasting Q \<Longrightarrow> lasting (\<lambda>q. P q \<and> Q q)"
  by (simp add: lasting_def)

lemma worksD: "stays (works h allowed P) m \<Longrightarrow> m s = Some (r, s') \<Longrightarrow> works h allowed P s s'"
  unfolding stays_def by blast

lemma storing_Some_iff: "storing m s = Some (r, s') \<longleftrightarrow>
    (\<exists>x q'. m (fst s) = Some (x, q') \<and> r = map_err ReleaseStore x \<and> s' = (q', snd s))"
  by (auto simp: storing_def c_map_err_def match_Some_iff on_store_def reading_Some_iff)

lemma on_world_Some_iff: "on_world m s = Some (r, s') \<longleftrightarrow> (\<exists>w'. m (snd s) = (r, w') \<and> s' = (fst s, w'))"
  by (auto simp: on_world_def split: prod.splits)

text \<open>What the store holds when the push is sent.\<close>

lemma intended_push:
  assumes ok: "queue_ok q" and known: "owned i remote ref q" "recorded i commit q"
    and step: "advancing_attempt i PushPending None now q = Some (Inr a, q')"
  shows "intended q' (push_args \<lparr>pr_remote = remote, pr_target_ref = ref, pr_create_if_absent = create\<rparr> leased commit)"
proof -
  note moved = advancing_row [OF ok step]
  have "owned i remote ref q'" "recorded i commit q'"
    using known moved(2) lasting_owned lasting_recorded unfolding lasting_def by blast+
  then obtain r r' where r: "r \<in> set (q_attempts q')" "c_attempt_id r = i" "c_target_remote r = remote" "c_target_ref r = ref"
    and r': "r' \<in> set (q_attempts q')" "c_attempt_id r' = i" "c_candidate_sha r' = Some commit"
    unfolding owned_def recorded_def by blast
  have "r' = r" using same_attempt_row [OF moved(1) r'(1) r(1)] r(2) r'(2) by simp
  moreover have "c_status r = ''push_pending''" using moved(4) [OF r(1,2)] by simp
  ultimately show ?thesis
    using r r'(3) unfolding intended_def push_args_def by (intro bexI [of _ r] exI [of _ commit] exI [of _ leased]) simp_all
qed

lemma publish_with_retry_works:
  assumes "i = ra_attempt_id attempt" and "ref = target_ref_str (pb_branch publication)" and "commit = pc_commit candidate"
  shows "stays (works h intended (\<lambda>q. owned i remote ref q \<and> recorded i commit q))
    (publish_with_retry h worker attempt workspace candidate remote publication now)"
proof -
  let ?P = "\<lambda>q. owned i remote ref q \<and> recorded i commit q"
  let ?req = "\<lparr>pr_remote = remote, pr_target_ref = ref, pr_create_if_absent = pb_create_if_absent publication\<rparr>"
  have last: "lasting ?P" by (intro lasting_conj lasting_owned lasting_recorded)
  let ?rest = "\<lambda>pushed. case pushed of
        Inr published \<Rightarrow>
          c_then (storing (on_backoff (\<lambda>t. Inr (clear_integration_failure t Git
            (id_display (h_uuid_text h) RepositoryKind (ra_repository_id attempt)), ())))) (\<lambda>_.
          c_then (storing (confirm_publication attempt (pd_commit published) now)) (\<lambda>_.
          c_return (ReleasePublished i (pd_commit published))))
      | Inl e \<Rightarrow> handle_publish_error h worker attempt workspace candidate ?req now e"
  have rest: "stays (works h intended ?P) (?rest pushed)" for pushed
    by (intro stays_branch working.sequence working.return storing_works on_backoff_stays confirm_publication_stays
        publish_error_works last)
  have adv: "stays (works h intended ?P) (storing (advancing_attempt i PushPending None now))"
    by (intro storing_works advancing_attempt_stays last)
  show ?thesis
    unfolding stays_def
  proof (intro allI impI)
    fix s s' and r :: "(release_error, release_outcome) result"
    assume run: "publish_with_retry h worker attempt workspace candidate remote publication now s = Some (r, s')"
    have run: "c_then (storing (advancing_attempt i PushPending None now)) (\<lambda>_.
        c_match (on_world (publish (h_git h) workspace candidate ?req git_timeout)) ?rest) s = Some (r, s')"
      using run by (simp only: publish_with_retry_def Let_def assms)
    show "works h intended ?P s s'"
    proof (cases "\<exists>e. storing (advancing_attempt i PushPending None now) s = Some (Inl e, s') \<and> r = Inl e")
      case True
      then show ?thesis using worksD [OF adv] by blast
    next
      case False
      then obtain a s1 where a: "storing (advancing_attempt i PushPending None now) s = Some (Inr a, s1)"
        and next_: "c_match (on_world (publish (h_git h) workspace candidate ?req git_timeout)) ?rest s1 = Some (r, s')"
        using run unfolding then_Some_iff by blast
      obtain pushed s2 where push: "on_world (publish (h_git h) workspace candidate ?req git_timeout) s1 = Some (pushed, s2)"
        and rest_run: "?rest pushed s2 = Some (r, s')"
        using next_ unfolding match_Some_iff by blast
      have one: "works h intended ?P s s1" by (rule worksD [OF adv a])
      have two: "works h intended ?P s1 s2" if "queue_ok (fst s)" "?P (fst s)"
      proof -
        have "intended (fst s1) (push_args ?req leased (pc_commit candidate))" for leased
        proof -
          obtain q1 where q1: "advancing_attempt i PushPending None now (fst s) = Some (Inr a, q1)" "s1 = (q1, snd s)"
            using a unfolding storing_Some_iff by (metis map_err_Inr_iff)
          have "intended q1 (push_args ?req leased commit)"
            by (rule intended_push [OF that(1) _ _ q1(1)]) (use that(2) in blast)+
          then show ?thesis using q1(2) assms(3) by simp
        qed
        then have "(world_step h (intended (fst s1)))\<^sup>*\<^sup>* (snd s1) (snd s2)"
        proof -
          obtain w1 where w1: "publish (h_git h) workspace candidate ?req git_timeout (snd s1) = (pushed, w1)" "s2 = (fst s1, w1)"
            using push unfolding on_world_Some_iff by blast
          have "act_stays (world_step h (intended (fst s1)))\<^sup>*\<^sup>* (publish (h_git h) workspace candidate ?req git_timeout)"
            by (rule publish_conduct) fact
          from act_staysD [OF this w1(1)] show ?thesis using w1(2) by simp
        qed
        then have "(worker_step h intended)\<^sup>*\<^sup>* (fst s1, snd s1) (fst s1, snd s2)" by (rule world_steps_lift)
        moreover have "fst s2 = fst s1" using push unfolding on_world_Some_iff by auto
        ultimately show ?thesis by (cases s1; cases s2) (simp add: works_def)
      qed
      have three: "works h intended ?P s2 s'" by (rule worksD [OF rest rest_run])
      show ?thesis using one two three working.trans unfolding works_def by (meson rtranclp_trans)
    qed
  qed
qed


lemma intent_stays: "stays queue_moves (on_attempts (\<lambda>db. record_push_intent db i commit parent now))"
  by (rule on_attempts_stays) (rule attempt_step.push_intent)

lemma record_and_publish_works:
  assumes "i = ra_attempt_id attempt" and "ref = target_ref_str (pb_branch publication)"
  shows "stays (works h intended (owned i remote ref))
    (c_then (storing (on_attempts (\<lambda>db. record_push_intent db i (pc_commit candidate) (pc_parent_commit candidate) now)))
      (\<lambda>_. publish_with_retry h worker attempt workspace candidate remote publication now))"
  unfolding stays_def
proof (intro allI impI)
  let ?intent = "on_attempts (\<lambda>db. record_push_intent db i (pc_commit candidate) (pc_parent_commit candidate) now)"
  let ?publish = "publish_with_retry h worker attempt workspace candidate remote publication now"
  let ?R = "works h intended (owned i remote ref)"
  fix s s' and r :: "(release_error, release_outcome) result"
  assume run: "c_then (storing ?intent) (\<lambda>_. ?publish) s = Some (r, s')"
  have one: "stays ?R (storing ?intent)" by (intro storing_works intent_stays lasting_owned)
  show "?R s s'"
  proof (cases "\<exists>e. storing ?intent s = Some (Inl e, s') \<and> r = Inl e")
    case True
    then show ?thesis using worksD [OF one] by blast
  next
    case False
    then obtain a s1 where a: "storing ?intent s = Some (Inr a, s1)" and next_: "?publish s1 = Some (r, s')"
      using run unfolding then_Some_iff by blast
    have "?R s s1" by (rule worksD [OF one a])
    moreover have "works h intended (\<lambda>q. owned i remote ref q \<and> recorded i (pc_commit candidate) q) s1 s'"
      by (rule worksD [OF publish_with_retry_works next_]) (use assms in simp_all)
    moreover have "recorded i (pc_commit candidate) (fst s1)"
    proof -
      obtain q1 where q1: "?intent (fst s) = Some (Inr a, q1)" "s1 = (q1, snd s)"
        using a unfolding storing_Some_iff by (metis map_err_Inr_iff)
      then show ?thesis using recording by simp
    qed
    ultimately show ?thesis unfolding works_def by (meson rtranclp_trans)
  qed
qed

lemma commit_and_publish_works:
  assumes "i = ra_attempt_id attempt" and "ref = target_ref_str (pb_branch publication)"
  shows "stays (works h intended (owned i remote ref)) (commit_and_publish h worker attempt workspace remote publication req now)"
  unfolding commit_and_publish_def Let_def assms(1) [symmetric]
  by (intro working.sequence working.matching stays_branch storing_works advancing_attempt_stays lasting_owned
      on_world_works quiet_persist give_up_works record_and_publish_works assms)

lemma verify_and_publish_works:
  assumes "i = ra_attempt_id attempt" and "ref = target_ref_str (pb_branch publication)"
  shows "stays (works h intended (owned i remote ref))
    (verify_and_publish h worker attempt snapshot workspace target_commit remote publication req now)"
  unfolding verify_and_publish_def
  by (intro working.sequence working.matching working.return stays_branch storing_works advancing_attempt_stays lasting_owned
      queue.reading on_world_works quiet_verify give_up_works run_checks_works commit_and_publish_works assms)

lemma stays_applied: "(\<And>t. stays R (f t)) \<Longrightarrow> (\<And>ps. stays R (g ps))
    \<Longrightarrow> stays R (case applied of Applied t \<Rightarrow> f t | Conflicted ps \<Rightarrow> g ps)"
  by (cases applied) simp_all

lemma run_attempt_works:
  assumes "i = ra_attempt_id attempt" and "ref = target_ref_str (pb_branch publication)"
  shows "stays (works h intended (owned i remote ref)) (run_attempt h worker attempt snapshot remote publication req now)"
  unfolding run_attempt_def Let_def
  by (intro working.sequence working.mapping_error stays_applied storing_works advancing_attempt_stays lasting_owned
      running_git_works on_world_works quiet_clone quiet_base quiet_fetch quiet_resolve quiet_open quiet_create quiet_prepare
      quiet_apply give_up_works verify_and_publish_works assms)

section \<open>From the request\<close>

lemma target_ref_new_wf: "target_ref_new v = Inr t \<Longrightarrow> target_wf t"
  by (auto simp: target_ref_new_Inr_iff target_wf_def)

lemma loaded_targets:
  assumes "repository_of g i = Inr (Some s)"
  shows "target_wf (rp_target (sr_active_policy s))"
    and "rp_development_target (sr_active_policy s) = Some d \<Longrightarrow> target_wf d"
proof -
  obtain r p where "stored_repository_of r p = Inr s"
    using assms by (auto simp: repository_of_def and_then_Inr_iff split: option.splits)
  then obtain target development mode policy integration active where
    t: "policy_data_error (target_ref_new (pw_target_ref p)) = Inr target"
    and d: "(case pw_development_target_ref p of None \<Rightarrow> Inr None
       | Some v \<Rightarrow> and_then (policy_data_error (target_ref_new v)) (\<lambda>t. Inr (Some t))) = Inr development"
    and p: "policy_data_error (repository_policy_new (rr_id r) (pw_revision p) mode target development) = Inr policy"
    and a: "policy_data_error (with_target_integration policy integration) = Inr active"
    and s: "sr_active_policy s = active"
    unfolding stored_repository_of_def and_then_Inr_iff by auto
  have "rp_target policy = target \<and> rp_development_target policy = development"
    using p by (auto simp: policy_data_error_def map_err_Inr_iff repository_policy_new_def res split: if_splits)
  then have "rp_target (sr_active_policy s) = target \<and> rp_development_target (sr_active_policy s) = development"
  proof -
    have "active = policy\<lparr>rp_target_integration := integration\<rparr>"
      using a by (auto simp: policy_data_error_def map_err_Inr_iff with_target_integration_def split: if_splits)
    then show ?thesis using \<open>rp_target policy = target \<and> rp_development_target policy = development\<close> unfolding s by simp
  qed
  then show "target_wf (rp_target (sr_active_policy s))" "rp_development_target (sr_active_policy s) = Some d \<Longrightarrow> target_wf d"
    using t d by (auto simp: policy_data_error_def map_err_Inr_iff and_then_Inr_iff intro: target_ref_new_wf split: option.splits)
qed

lemma publication_target_wf:
  assumes "repository_of g i = Inr (Some s)"
  shows "target_wf (pb_branch (publication_target_of (sr_active_policy s) k v q))"
  using loaded_targets [OF assms] by (auto simp: publication_target_of_def Let_def split: publication_mode.splits option.splits)

lemma opened_attempt:
  assumes "on_attempts (\<lambda>db. open_release_attempt db req) q = Some (Inr a, q')"
  shows "ra_attempt_id a = na_attempt_id req"
    and "owned (na_attempt_id req) (na_remote req) (target_ref_str (na_target req)) q'"
proof -
  obtain db where db: "open_release_attempt (attempt_view q) req = Inr (db, a)" "q' = q\<lparr>q_attempts := db_attempts db\<rparr>"
    using assms by (auto simp: on_attempts_def writing_Inr_iff and_then_Inr_iff)
  obtain r where "db = (attempt_view q)\<lparr>db_attempts := db_attempts (attempt_view q) @ [r]\<rparr>" "c_attempt_id r = na_attempt_id req"
    "c_target_remote r = na_remote req" "c_target_ref r = target_ref_str (na_target req)"
    by (rule open_release_attempt_Inr [OF db(1)]) blast
  then show "owned (na_attempt_id req) (na_remote req) (target_ref_str (na_target req)) q'"
    by (auto simp: owned_def db(2))
  have "release_attempt_of db (na_attempt_id req) = Inr (Some a)"
    using db(1) by (auto simp: open_release_attempt_def res)
  then show "ra_attempt_id a = na_attempt_id req"
    by (auto simp: release_attempt_of_def attempt_from_row_def res find_Some_iff split: option.splits)
qed

lemma sequence_of:
  assumes "stays (works h allowed P) m" and "\<And>x s s1. m s = Some (Inr x, s1) \<Longrightarrow> stays (works h allowed P) (f x)"
  shows "stays (works h allowed P) (c_then m f)"
  unfolding stays_def
proof (intro allI impI)
  fix s r s' assume run: "c_then m f s = Some (r, s')"
  show "works h allowed P s s'"
  proof (cases "\<exists>e. m s = Some (Inl e, s') \<and> r = Inl e")
    case True
    then show ?thesis using worksD [OF assms(1)] by blast
  next
    case False
    then obtain x s1 where x: "m s = Some (Inr x, s1)" "f x s1 = Some (r, s')" using run unfolding then_Some_iff by blast
    show ?thesis by (rule working.trans [OF worksD [OF assms(1) x(1)] worksD [OF assms(2) [OF x(1)] x(2)]])
  qed
qed

lemma lasting_True: "lasting (\<lambda>_. True)"
  by (simp add: lasting_def)

lemma open_and_run_works:
  assumes "target_wf (na_target n)" and "na_target n = pb_branch publication"
  shows "stays (works h intended (\<lambda>_. True)) (open_and_run h worker snapshot publication req now n)"
  unfolding stays_def
proof (intro allI impI)
  let ?open = "on_attempts (\<lambda>db. open_release_attempt db n)"
  let ?rest = "\<lambda>attempt r. case r of Inr out \<Rightarrow> c_return out
     | Inl e \<Rightarrow> give_up h attempt ''internal_error'' (release_error_text h e) now"
  let ?R = "works h intended (\<lambda>_. True)"
  let ?O = "works h intended (owned (na_attempt_id n) (na_remote n) (target_ref_str (na_target n)))"
  fix s s' and r :: "(release_error, release_outcome) result"
  assume run: "open_and_run h worker snapshot publication req now n s = Some (r, s')"
  have "stays queue_moves ?open" by (rule on_attempts_stays) (rule attempt_step.open_attempt [OF _ assms(1)])
  then have one: "stays ?R (storing ?open)" by (intro storing_works lasting_True)
  show "?R s s'"
  proof (cases "\<exists>e. storing ?open s = Some (Inl e, s') \<and> r = Inl e")
    case True
    then show ?thesis using worksD [OF one] by blast
  next
    case False
    then obtain a s1 where a: "storing ?open s = Some (Inr a, s1)"
      and next_: "c_match (run_attempt h worker a snapshot (na_remote n) publication req now) (?rest a) s1 = Some (r, s')"
      using run unfolding open_and_run_def then_Some_iff by blast
    obtain q1 where q1: "?open (fst s) = Some (Inr a, q1)" "s1 = (q1, snd s)"
      using a unfolding storing_Some_iff by (metis map_err_Inr_iff)
    have "stays ?O (run_attempt h worker a snapshot (na_remote n) publication req now)"
      by (rule run_attempt_works) (simp_all add: opened_attempt(1) [OF q1(1)] assms(2))
    moreover have "stays ?O (?rest a x)" for x
      by (intro stays_branch working.return give_up_works lasting_owned)
    ultimately have "stays ?O (c_match (run_attempt h worker a snapshot (na_remote n) publication req now) (?rest a))"
      by (rule working.matching)
    then have "?O s1 s'" using next_ by (rule worksD)
    moreover have "?R s s1" by (rule worksD [OF one a])
    ultimately show ?thesis using opened_attempt(2) [OF q1(1)] q1(2) unfolding works_def by (auto intro: rtranclp_trans)
  qed
qed


lemma release_works: "stays (works h intended (\<lambda>_. True)) (release_package h worker req now)"
proof -
  let ?R = "works h intended (\<lambda>_. True)"
  have read: "stays ?R (storing (reading f))" for f :: "queue \<Rightarrow> (store_error, 'x) result"
    by (intro storing_works queue.reading lasting_True)
  have plan: "stays ?R (storing (reading_or_panic f))" for f :: "queue \<Rightarrow> (store_error, 'x) result option"
    by (intro storing_works queue.reading_or_panic lasting_True)
  have new: "quiet h (\<lambda>w. case h_new_attempt_id h w of (i, w) \<Rightarrow> (Inr i, w))"
    by (auto simp: act_stays_def split: prod.splits intro: world_step.new_id)
  have reads: "\<exists>q. f q = Inr x" if "storing (reading f) s = Some (Inr x, s1)"
    for f :: "queue \<Rightarrow> (store_error, 'x) result" and s s1 x
    using that by (auto simp: storing_Some_iff reading_Some_iff) (metis map_err_Inr_iff)
  have option: "found = Some x" if "reading (\<lambda>_. ok_or found e) s = Some (Inr x, s1)"
    for found :: "'x option" and e :: release_error and s s1 :: "queue \<times> 'w" and x
    using that by (cases found) (auto simp: reading_Some_iff)
  show ?thesis
    unfolding release_package_def
    by (rule working.sequence [OF read], rule working.sequence [OF working.reading], rule working.sequence [OF plan],
        rule working.sequence [OF working.reading], rule sequence_of [OF read], drule reads, rule sequence_of [OF working.reading],
        drule option, rule sequence_of [OF read], drule reads, rule working.sequence [OF on_world_works [OF new]],
        rule working.sequence [OF working.reading], rule open_and_run_works)
      (auto intro: publication_target_wf)
qed

section \<open>Recovery looks and never sends\<close>

lemma settle_works: "stays (works h allowed (\<lambda>_. True)) (settle_interrupted h attempt candidate observed now)"
  unfolding settle_interrupted_def
  by (intro stays_branch storing_works confirm_publication_stays block_release_stays working.return lasting_True)

lemma recover_works: "stays (works h (\<lambda>_ _. False) (\<lambda>_. True)) (recover_interrupted_release h worker attempt now)"
  unfolding recover_interrupted_release_def Let_def
  by (intro working.sequence working.reading working.return stays_branch storing_works queue.reading block_release_stays
      running_git_works quiet_clone quiet_head quiet_fetch quiet_resolve settle_works lasting_True)

lemma recover_all_works: "stays (works h (\<lambda>_ _. False) (\<lambda>_. True)) (recover_interrupted_releases h worker now)"
  unfolding recover_interrupted_releases_def recover_one_def
  by (intro working.sequence working.fold_loop working.matching working.return stays_branch on_store_works queue.reading
      recover_works lasting_True)

end
