(* ===== verification/Reports.thy ===== *)
theory Reports
  imports Journey
begin

text \<open>
  What a run of the release worker returns to its caller (daemon/src/release.rs,
  \<^theory_text>\<open>ReleaseOutcome\<close>), compared with the attempt rows the run leaves in the store: an outcome
  never claims more than is on record.
\<close>

section \<open>What the worker reports is on record\<close>

lemma reading_Inr_iff: "reading f s = Some (Inr x, s') \<longleftrightarrow> f s = Inr x \<and> s' = s"
  by (auto simp: reading_def)

text \<open>Calls that leave the attempts alone.\<close>

definition same_attempts :: "queue \<Rightarrow> queue \<Rightarrow> bool" where
  "same_attempts q q' \<longleftrightarrow> q_attempts q' = q_attempts q"

interpretation apart: behaviour same_attempts
  by unfold_locales (simp_all add: same_attempts_def)

lemma advancing_apart: "stays same_attempts (advancing f v t target reason now)"
  unfolding advancing_def on_plans_def by (rule apart.writing) (auto simp: and_then_Inr_iff same_attempts_def)

lemma advancing_to_apart: "stays same_attempts (advancing_to f v t target now)"
  by (auto simp: stays_def advancing_to_def on_plans_run_def same_attempts_def split: prod.splits)

lemma on_backoff_apart: "stays same_attempts (on_backoff f)"
  unfolding on_backoff_def by (rule apart.writing) (auto simp: and_then_Inr_iff same_attempts_def)

lemma mark_queued_apart: "mark_queued f v now q t = Inr q' \<Longrightarrow> same_attempts q q'"
  by (auto simp: mark_queued_def set_task_status_def Let_def same_attempts_def res split: if_splits)

lemma marks_apart: "fold_res (mark_queued f v now) q ts = Inr q' \<Longrightarrow> same_attempts q q'"
proof (induction ts arbitrary: q)
  case (Cons t ts)
  then obtain q1 where "mark_queued f v now q t = Inr q1" "fold_res (mark_queued f v now) q1 ts = Inr q'"
    by (auto simp: and_then_Inr_iff)
  then show ?case using mark_queued_apart Cons.IH apart.trans by blast
qed (simp add: same_attempts_def)

lemma invalidate_apart: "stays same_attempts (writing (invalidate_schedule_slot i reason now))"
proof (rule apart.writing)
  fix q q' :: queue and x assume run: "invalidate_schedule_slot i reason now q = Inr (q', x)"
  show "same_attempts q q'"
  proof (cases "schedule_slot_of q i")
    case None
    then show ?thesis using run by (auto simp: invalidate_schedule_slot_def res same_attempts_def)
  next
    case (Some slot)
    have "\<exists>(u :: release_unit_record) withdrawn q1. withdraw_slot i reason now q = Inr q1
        \<and> fold_res (mark_queued (ur_feature_id u) (ur_plan_revision u) now) q1 withdrawn = Inr q'"
      using run Some by (simp add: invalidate_schedule_slot_def and_then_Inr_iff) blast
    then obtain u :: release_unit_record and withdrawn q1 where q1: "withdraw_slot i reason now q = Inr q1"
      and marks: "fold_res (mark_queued (ur_feature_id u) (ur_plan_revision u) now) q1 withdrawn = Inr q'" by blast
    have "same_attempts q q1" using q1 by (auto simp: withdraw_slot_def Let_def same_attempts_def res split: if_splits)
    then show ?thesis using marks_apart [OF marks] apart.trans by blast
  qed
qed

lemma block_task_apart: "stays same_attempts (block_task f v reason now t)"
  unfolding block_task_def by (intro apart.sequence apart.reading apart.return advancing_apart stays_branch)

lemma publish_tasks_apart: "stays same_attempts (publish_tasks attempt now)"
  unfolding publish_tasks_def
  by (intro apart.sequence apart.reading apart.return apart.each_loop stays_branch advancing_to_apart invalidate_apart)


definition settled_as :: "attempt_id \<Rightarrow> (attempt_row \<Rightarrow> bool) \<Rightarrow> queue \<Rightarrow> bool" where
  "settled_as i P q \<longleftrightarrow> (\<exists>r \<in> set (q_attempts q). c_attempt_id r = i \<and> P r)"

abbreviation observed :: "attempt_id \<Rightarrow> string \<Rightarrow> queue \<Rightarrow> bool" where
  "observed i c \<equiv> settled_as i (\<lambda>r. c_observed_remote_sha r = Some c)"

text \<open>Moving an attempt changes nothing else of it that matters here.\<close>

lemma advancing_keeps_observation:
  assumes "queue_ok q" and "advancing_attempt i target reason now q = Some (Inr a, q')" and "observed i c q"
  shows "observed i c q'"
proof -
  obtain hit change where change: "\<forall>r. c_attempt_id (change r) = c_attempt_id r \<and> c_status (change r) = status_column target
      \<and> c_observed_remote_sha (change r) = c_observed_remote_sha r"
    and rows: "q_attempts q' = map (\<lambda>r. if hit r then change r else r) (q_attempts q)"
    by (rule advancing_write [OF assms(2)])
  obtain r where r: "r \<in> set (q_attempts q)" "c_attempt_id r = i" "c_observed_remote_sha r = Some c"
    using assms(3) unfolding settled_as_def by blast
  then have "(if hit r then change r else r) \<in> set (q_attempts q')" unfolding rows by force
  then show ?thesis
    using r change unfolding settled_as_def by (intro bexI [of _ "if hit r then change r else r"]) simp_all
qed


lemma apart_settled: "stays same_attempts m \<Longrightarrow> m q = Some (r, q') \<Longrightarrow> settled_as i P q' \<longleftrightarrow> settled_as i P q"
  unfolding stays_def same_attempts_def settled_as_def by auto

lemma observing:
  assumes "on_attempts (\<lambda>db. record_remote_observation db i c now) q = Some (Inr a, q')"
  shows "observed i c q'"
proof -
  obtain db where db: "record_remote_observation (attempt_view q) i c now = Inr (db, a)" "q' = q\<lparr>q_attempts := db_attempts db\<rparr>"
    using assms by (auto simp: on_attempts_def writing_Inr_iff and_then_Inr_iff)
  obtain v where w: "write_back i (sql_update (attempt_view q) (\<lambda>r. c_attempt_id r = i \<and> c_status r = v)
      (\<lambda>r. r\<lparr>c_observed_remote_sha := Some c, c_updated_at := now\<rparr>)) = Inr (db, a)"
    using db(1) by (auto simp: record_remote_observation_def res)
  let ?hit = "\<lambda>r. c_attempt_id r = i \<and> c_status r = v"
  let ?change = "\<lambda>r. r\<lparr>c_observed_remote_sha := Some c, c_updated_at := now\<rparr>"
  have one: "length (filter ?hit (q_attempts q)) = 1" and rows: "q_attempts q' = map (\<lambda>r. if ?hit r then ?change r else r) (q_attempts q)"
    using w db(2) by (auto simp: write_back_def sql_update_def commit_rows_Inr expect_one_row_def res attempt_view_def)
  obtain r where r: "r \<in> set (q_attempts q)" "?hit r" using one_hit [OF one] by blast
  then have "?change r \<in> set (q_attempts q')" unfolding rows by force
  then show ?thesis using r(2) unfolding settled_as_def by (intro bexI [of _ "?change r"]) simp_all
qed

text \<open>A confirmed publication: the attempt is published and remembers the commit the remote was seen to hold.\<close>

lemma confirm_settles:
  assumes ok: "queue_ok q" and run: "confirm_publication attempt c now q = Some (Inr x, q')"
  shows "settled_as (ra_attempt_id attempt) (\<lambda>r. c_status r = ''published'' \<and> c_observed_remote_sha r = Some c) q'"
proof -
  let ?i = "ra_attempt_id attempt"
  obtain current :: release_attempt and q1 a1 q2 a2 q3 a3 q4 where
    resume: "(if ts_status (ra_state current) = Blocked
              then c_then (advancing_attempt ?i PushPending None now) (\<lambda>_. c_return ()) else c_return ()) q = Some (Inr (), q1)"
    and observe: "on_attempts (\<lambda>db. record_remote_observation db ?i c now) q1 = Some (Inr a1, q2)"
    and confirmed: "advancing_attempt ?i RemoteConfirmed None now q2 = Some (Inr a2, q3)"
    and published: "advancing_attempt ?i Published None now q3 = Some (Inr a3, q4)"
    and tasks: "publish_tasks attempt now q4 = Some (Inr x, q')"
    using run unfolding confirm_publication_def Let_def load_attempt_def
    by (auto simp: then_Inr_iff reading_Inr_iff)
  have "stays queue_moves (if ts_status (ra_state current) = Blocked
              then c_then (advancing_attempt ?i PushPending None now) (\<lambda>_. c_return ()) else c_return ())"
    by (intro stays_branch queue.sequence queue.return advancing_attempt_stays)
  then have ok1: "queue_ok q1" using resume ok unfolding stays_def queue_moves_def by blast
  have ok2: "queue_ok q2" using observing_stays observe ok1 unfolding stays_def queue_moves_def by blast
  note three = advancing_row [OF ok2 confirmed]
  note four = advancing_row [OF three(1) published]
  have "observed ?i c q4"
    using advancing_keeps_observation [OF three(1) published] advancing_keeps_observation [OF ok2 confirmed] observing [OF observe] by blast
  then have "settled_as ?i (\<lambda>r. c_status r = ''published'' \<and> c_observed_remote_sha r = Some c) q4"
    using four(4) unfolding settled_as_def by fastforce
  then show ?thesis using apart_settled [OF publish_tasks_apart tasks] by blast
qed

text \<open>A stopped attempt.\<close>

definition at_rest :: "attempt_row \<Rightarrow> bool" where
  "at_rest r \<longleftrightarrow> c_status r \<in> {''blocked'', ''published'', ''cancelled'', ''superseded''}"

lemma block_settles:
  assumes ok: "queue_ok q" and run: "block_release text attempt classification detail now q = Some (Inr x, q')"
  shows "settled_as (ra_attempt_id attempt) at_rest q'"
proof -
  let ?i = "ra_attempt_id attempt"
  obtain current where current: "release_attempt_of (attempt_view q) ?i = Inr (Some current)"
    using run by (auto simp: block_release_def load_attempt_def then_Inr_iff reading_Inr_iff and_then_Inr_iff ok_or_Inr_iff)
  show ?thesis
  proof (cases "is_terminal (ts_status (ra_state current)) \<or> ts_status (ra_state current) = Blocked")
    case True
    then have "q' = q" using run current
      by (auto simp: block_release_def load_attempt_def then_Inr_iff reading_Inr_iff run_return)
    obtain r where "find (\<lambda>r. c_attempt_id r = ?i) (q_attempts q) = Some r" and row: "attempt_from_row r = Inr current"
      using current by (auto simp: release_attempt_of_def attempt_view_def and_then_Inr_iff split: option.splits)
    then have r: "r \<in> set (q_attempts q)" "c_attempt_id r = ?i" using find_Some_in by fastforce+
    have "c_status r = status_column (ts_status (ra_state current))" using row by (auto simp: attempt_from_row_Inr row_state_def)
    then have "at_rest r" using True column_terminal [of "ts_status (ra_state current)"] by (auto simp: at_rest_def)
    then show ?thesis using r \<open>q' = q\<close> unfolding settled_as_def by blast
  next
    case False
    let ?fail = "on_attempts (\<lambda>db. record_publication_failure db ?i classification now)"
    let ?health = "on_backoff (\<lambda>t. record_integration_failure t Git
         (id_display text RepositoryKind (ra_repository_id attempt)) (classify_git detail) detail backoff_default now)"
    let ?tasks = "\<lambda>reason. c_then (reading (\<lambda>q. snapshot_of (q_packages q) (ra_package_id attempt) (ra_package_revision attempt))) (\<lambda>found.
       case found of
         None \<Rightarrow> c_return ()
       | Some snapshot \<Rightarrow>
           c_then (reading (\<lambda>q. Inr (package_task_ids (q_plans q) (ra_package_id attempt) (ra_package_revision attempt)))) (\<lambda>ts.
           c_each (block_task (sn_feature_id snapshot) (sn_plan_revision snapshot) reason now) ts))"
    obtain z1 q1 z2 q2 reason a q3 where fail: "?fail q = Some (Inr z1, q1)" and health: "?health q1 = Some (Inr z2, q2)"
      and blocked: "advancing_attempt ?i Blocked (Some reason) now q2 = Some (Inr a, q3)"
      and tasks: "?tasks reason q3 = Some (Inr x, q')"
      using run current False by (auto simp: block_release_def load_attempt_def then_Inr_iff reading_Inr_iff)
    have "queue_ok q1" using failing_stays fail ok unfolding stays_def queue_moves_def by blast
    then have ok2: "queue_ok q2" using on_backoff_stays health unfolding stays_def queue_moves_def by blast
    note moved = advancing_row [OF ok2 blocked]
    have "settled_as ?i at_rest q3" using moved(3) unfolding settled_as_def at_rest_def by auto
    moreover have "stays same_attempts (?tasks reason)"
      by (intro apart.sequence apart.reading apart.return apart.each_loop stays_branch block_task_apart)
    ultimately show ?thesis using apart_settled [where m = "?tasks reason", OF _ tasks] by blast
  qed
qed


section \<open>Every report\<close>

fun reported :: "queue \<Rightarrow> release_outcome \<Rightarrow> bool" where
  "reported q (ReleasePublished i c) \<longleftrightarrow>
     settled_as i (\<lambda>r. c_status r = ''published'' \<and> c_observed_remote_sha r = Some c) q"
| "reported q (ReleaseBlocked i _ _) \<longleftrightarrow> settled_as i at_rest q"
| "reported q (ReleaseDeferred i t _) \<longleftrightarrow>
     settled_as i (\<lambda>r. c_status r = ''push_pending'' \<and> c_retry_not_before r = Some t) q"

definition tells :: "('w, release_error, release_outcome) work \<Rightarrow> bool" where
  "tells m \<longleftrightarrow> (\<forall>s out s'. queue_ok (fst s) \<longrightarrow> m s = Some (Inr out, s') \<longrightarrow> reported (fst s') out)"

definition sound :: "(queue \<times> 'w, 'e, 'a) cmd \<Rightarrow> bool" where
  "sound m \<longleftrightarrow> stays (\<lambda>s s'. queue_ok (fst s) \<longrightarrow> queue_ok (fst s')) m"

interpretation sounding: behaviour "\<lambda>s s' :: queue \<times> 'w. queue_ok (fst s) \<longrightarrow> queue_ok (fst s')"
  by unfold_locales auto

lemma sound_on_store: "stays queue_moves m \<Longrightarrow> sound (on_store m)"
  unfolding sound_def stays_def queue_moves_def on_store_def by auto

lemma sound_storing: "stays queue_moves m \<Longrightarrow> sound (storing m)"
  unfolding storing_def sound_def by (intro sounding.mapping_error sound_on_store [unfolded sound_def])

lemma sound_on_world: "sound (on_world m)"
  unfolding sound_def stays_def on_world_def by (auto split: prod.splits)

lemma sound_running_git: "sound (running_git m)"
  unfolding running_git_def sound_def by (intro sounding.mapping_error sound_on_world [unfolded sound_def])

lemma sound_reading: "sound (reading f)"
  unfolding sound_def by (rule sounding.reading)

lemma sound_map_err: "sound m \<Longrightarrow> sound (c_map_err g m)"
  unfolding sound_def by (rule sounding.mapping_error)

lemma tells_then: "sound m \<Longrightarrow> (\<And>x. tells (f x)) \<Longrightarrow> tells (c_then m f)"
  unfolding tells_def sound_def stays_def then_Inr_iff by blast

lemma tells_match: "sound m \<Longrightarrow> (\<And>r. tells (f r)) \<Longrightarrow> tells (c_match m f)"
  unfolding tells_def sound_def stays_def match_Some_iff by blast

lemma tells_branch:
  "tells m \<Longrightarrow> (\<And>x. tells (g x)) \<Longrightarrow> tells (case found of None \<Rightarrow> m | Some x \<Rightarrow> g x)"
  "(\<And>e. tells (k e)) \<Longrightarrow> (\<And>x. tells (l x)) \<Longrightarrow> tells (case r of Inl e \<Rightarrow> k e | Inr x \<Rightarrow> l x)"
  "tells m \<Longrightarrow> tells n \<Longrightarrow> tells (if b then m else n)"
  by (simp_all split: option.split sum.split)

lemma storing_Inr_iff: "storing m s = Some (Inr x, s') \<longleftrightarrow> (\<exists>q'. m (fst s) = Some (Inr x, q') \<and> s' = (q', snd s))"
  unfolding storing_Some_iff by (auto intro: exI [of _ "Inr x"]) (metis map_err_Inr_iff)

lemma tells_give_up: "tells (give_up h attempt classification detail now)"
  unfolding tells_def give_up_def storing_Inr_iff then_Inr_iff
  by (auto simp: run_return dest!: block_settles)

lemma tells_confirm: "tells (c_then (storing (confirm_publication attempt c now)) (\<lambda>_. c_return (ReleasePublished (ra_attempt_id attempt) c)))"
  unfolding tells_def storing_Inr_iff then_Inr_iff
  by (auto simp: run_return dest!: confirm_settles)


lemma deferring:
  assumes "on_attempts (\<lambda>db. defer_publication_retry db i classification t now) q = Some (Inr a, q')"
  shows "settled_as i (\<lambda>r. c_status r = ''push_pending'' \<and> c_retry_not_before r = Some t) q'"
proof -
  obtain db where db: "defer_publication_retry (attempt_view q) i classification t now = Inr (db, a)" "q' = q\<lparr>q_attempts := db_attempts db\<rparr>"
    using assms by (auto simp: on_attempts_def writing_Inr_iff and_then_Inr_iff)
  obtain n v where w: "write_back i (sql_update (attempt_view q)
      (\<lambda>r. c_attempt_id r = i \<and> c_status r = ''push_pending'' \<and> c_failed_attempts r = n
         \<and> c_retry_not_before r = v)
      (\<lambda>r. r\<lparr>c_failure_classification := Some classification,
             c_failed_attempts := c_failed_attempts r + 1,
             c_retry_not_before := Some t, c_updated_at := now\<rparr>)) = Inr (db, a)"
    using db(1) by (auto simp: defer_publication_retry_def res split: if_splits)
  let ?hit = "\<lambda>r. c_attempt_id r = i \<and> c_status r = ''push_pending'' \<and> c_failed_attempts r = n \<and> c_retry_not_before r = v"
  let ?change = "\<lambda>r. r\<lparr>c_failure_classification := Some classification, c_failed_attempts := c_failed_attempts r + 1,
             c_retry_not_before := Some t, c_updated_at := now\<rparr>"
  have one: "length (filter ?hit (q_attempts q)) = 1" and rows: "q_attempts q' = map (\<lambda>r. if ?hit r then ?change r else r) (q_attempts q)"
    using w db(2) by (auto simp: write_back_def sql_update_def commit_rows_Inr expect_one_row_def res attempt_view_def)
  obtain r where r: "r \<in> set (q_attempts q)" "?hit r" using one_hit [OF one] by blast
  then have "?change r \<in> set (q_attempts q')" unfolding rows by force
  then show ?thesis using r(2) unfolding settled_as_def by (intro bexI [of _ "?change r"]) simp_all
qed

lemma tells_defer: "tells (c_then (storing (on_attempts (\<lambda>db. defer_publication_retry db i classification t now)))
    (\<lambda>_. c_return (ReleaseDeferred i t detail)))"
  unfolding tells_def storing_Inr_iff then_Inr_iff by (auto simp: run_return dest!: deferring)

lemma tells_resolve: "tells (resolve_against_remote h attempt workspace candidate req now)"
  unfolding resolve_against_remote_def
proof (rule tells_then)
  show "sound (c_map_err ReleasePublish (on_world (recover_publication (h_git h) workspace candidate req git_timeout)))"
    by (intro sound_map_err sound_on_world)
qed (auto intro: tells_give_up tells_confirm split: publication_recovery.split)

lemma tells_error: "tells (handle_publish_error h worker attempt workspace candidate req now e)"
  unfolding handle_publish_error_def Let_def
  by (auto intro: tells_give_up tells_resolve split: publication_resolution.split
      intro!: tells_then [OF sound_reading] tells_defer)

lemma tells_publish: "tells (publish_with_retry h worker attempt workspace candidate remote publication now)"
  unfolding publish_with_retry_def Let_def
  by (intro tells_then tells_match tells_branch sound_storing sound_on_world advancing_attempt_stays on_backoff_stays
      tells_confirm tells_error)

lemma tells_commit: "tells (commit_and_publish h worker attempt workspace remote publication req now)"
  unfolding commit_and_publish_def Let_def
  by (intro tells_then tells_match tells_branch sound_storing sound_on_world advancing_attempt_stays intent_stays
      tells_give_up tells_publish)

text \<open>The checks stop with a report or go on.\<close>

lemma checks_tell:
  assumes "queue_ok (fst s)"
    and "run_checks h attempt snapshot workspace target_commit now checks s = Some (Inr stopped, s')"
  shows "queue_ok (fst s') \<and> (\<forall>out. stopped = Some out \<longrightarrow> reported (fst s') out)"
  using assms
proof (induction checks arbitrary: s)
  case Nil
  then show ?case by (simp add: run_return)
next
  case (Cons check checks)
  obtain r s1 where r: "run_candidate_check h check (ra_attempt_id attempt) snapshot (cw_path workspace) target_commit now s = Some (r, s1)"
    using Cons.prems(2) by (auto simp: match_Some_iff)
  have "works h intended (\<lambda>_. True) s s1" by (rule worksD [OF check_works r])
  then have ok1: "queue_ok (fst s1)" using Cons.prems(1) by (simp add: works_def)
  have stop: "queue_ok (fst s') \<and> (\<forall>out. stopped = Some out \<longrightarrow> reported (fst s') out)"
    if go: "c_then (give_up h attempt cls detail now) (\<lambda>out. c_return (Some out)) u = Some (Inr stopped, s')"
      and ok: "queue_ok (fst u)" for u cls detail
  proof -
    obtain out where out: "give_up h attempt cls detail now u = Some (Inr out, s')" "stopped = Some out"
      using go by (auto simp: then_Inr_iff run_return)
    have "works h intended (\<lambda>_. True) u s'" by (rule worksD [OF give_up_works [OF lasting_True] out(1)])
    then show ?thesis using ok out tells_give_up [of h attempt cls detail now] unfolding tells_def works_def by blast
  qed
  show ?case
  proof (cases r)
    case (Inl e)
    then have "c_then (give_up h attempt ''validation_unavailable'' (release_error_text h e) now) (\<lambda>out. c_return (Some out)) s1
        = Some (Inr stopped, s')"
      using Cons.prems(2) r by (simp add: c_match_def)
    then show ?thesis using stop ok1 by blast
  next
    case (Inr evidence)
    let ?store = "storing (on_checks (\<lambda>q. record_candidate_validation_evidence (attempt_ids q) (package_keys q) evidence))"
    let ?next = "if ce_exit_code evidence = Some 0 \<and> \<not> ce_timed_out evidence
        then run_checks h attempt snapshot workspace target_commit now checks
        else c_then (give_up h attempt ''validation_failed''
             (''trusted check '' @ tc_id check @ '' failed against reconciled candidate'') now) (\<lambda>out. c_return (Some out))"
    have "c_then ?store (\<lambda>_. ?next) s1 = Some (Inr stopped, s')"
      using Cons.prems(2) r Inr by (simp add: c_match_def)
    then obtain y s2 where y: "?store s1 = Some (Inr y, s2)" "?next s2 = Some (Inr stopped, s')"
      unfolding then_Inr_iff by blast
    have "stays queue_moves (on_checks (\<lambda>q. record_candidate_validation_evidence (attempt_ids q) (package_keys q) evidence))"
      by (rule on_checks_stays) (rule record_candidate_stays)
    then have ok2: "queue_ok (fst s2)" using sound_storing y(1) ok1 unfolding sound_def stays_def by blast
    show ?thesis
    proof (cases "ce_exit_code evidence = Some 0 \<and> \<not> ce_timed_out evidence")
      case True
      then show ?thesis using y(2) Cons.IH [OF ok2] by simp
    next
      case False
      have "c_then (give_up h attempt ''validation_failed''
             (''trusted check '' @ tc_id check @ '' failed against reconciled candidate'') now) (\<lambda>out. c_return (Some out)) s2
          = Some (Inr stopped, s')"
        using y(2) by (simp only: if_not_P [OF False])
      then show ?thesis by (rule stop [OF _ ok2])
    qed
  qed
qed

lemma tells_verify: "tells (verify_and_publish h worker attempt snapshot workspace target_commit remote publication req now)"
proof -
  have checks: "tells (c_then (run_checks h attempt snapshot workspace target_commit now checks) (\<lambda>stopped.
       case stopped of Some out \<Rightarrow> c_return out | None \<Rightarrow> commit_and_publish h worker attempt workspace remote publication req now))" for checks
    unfolding tells_def
  proof (intro allI impI)
    fix s s' out assume ok: "queue_ok (fst s)"
      and run: "c_then (run_checks h attempt snapshot workspace target_commit now checks) (\<lambda>stopped.
       case stopped of Some out \<Rightarrow> c_return out | None \<Rightarrow> commit_and_publish h worker attempt workspace remote publication req now) s
        = Some (Inr out, s')"
    obtain stopped s1 where one: "run_checks h attempt snapshot workspace target_commit now checks s = Some (Inr stopped, s1)"
      and two: "(case stopped of Some out \<Rightarrow> c_return out
        | None \<Rightarrow> commit_and_publish h worker attempt workspace remote publication req now) s1 = Some (Inr out, s')"
      using run unfolding then_Inr_iff by blast
    note told = checks_tell [OF ok one]
    show "reported (fst s') out"
    proof (cases stopped)
      case None
      then show ?thesis using two told tells_commit unfolding tells_def by fastforce
    next
      case (Some x)
      then show ?thesis using two told by (simp add: run_return)
    qed
  qed
  show ?thesis
    unfolding verify_and_publish_def
    by (intro tells_then tells_match tells_branch sound_storing sound_on_world advancing_attempt_stays queue.reading
        tells_give_up checks)
qed

lemma tells_run: "tells (run_attempt h worker attempt snapshot remote publication req now)"
proof -
  have applied: "tells (case applied of Applied t \<Rightarrow> f t | Conflicted ps \<Rightarrow> g ps)"
    if "\<And>t. tells (f t)" "\<And>ps. tells (g ps)" for applied and f g :: "_ \<Rightarrow> ('w, release_error, release_outcome) work"
    using that by (cases applied) simp_all
  show ?thesis
    unfolding run_attempt_def Let_def
    by (intro tells_then applied sound_storing advancing_attempt_stays sound_running_git sound_map_err sound_on_world
        tells_give_up tells_verify)
qed

text \<open>Whatever happens after the attempt is open, the caller hears what the store says.\<close>

lemma tells_open:
  assumes "target_wf (na_target n)" and "na_target n = pb_branch publication"
  shows "tells (open_and_run h worker snapshot publication req now n)"
  unfolding tells_def
proof (intro allI impI)
  let ?open = "on_attempts (\<lambda>db. open_release_attempt db n)"
  let ?run = "\<lambda>a. run_attempt h worker a snapshot (na_remote n) publication req now"
  fix s s' out assume ok: "queue_ok (fst s)" and go: "open_and_run h worker snapshot publication req now n s = Some (Inr out, s')"
  obtain a s1 r s2 where opened: "storing ?open s = Some (Inr a, s1)" and one: "?run a s1 = Some (r, s2)"
    and two: "(case r of Inr out \<Rightarrow> c_return out | Inl e \<Rightarrow> give_up h a ''internal_error'' (release_error_text h e) now) s2
      = Some (Inr out, s')"
    using go unfolding open_and_run_def then_Inr_iff match_Some_iff by blast
  obtain q1 where q1: "?open (fst s) = Some (Inr a, q1)" "s1 = (q1, snd s)" using opened unfolding storing_Inr_iff by blast
  have "stays queue_moves ?open" by (rule on_attempts_stays) (rule attempt_step.open_attempt [OF _ assms(1)])
  then have ok1: "queue_ok (fst s1)" using q1 ok unfolding stays_def queue_moves_def by auto
  have "works h intended (owned (na_attempt_id n) (na_remote n) (target_ref_str (na_target n))) s1 s2"
    by (rule worksD [OF run_attempt_works one]) (simp_all add: opened_attempt(1) [OF q1(1)] assms(2))
  then have ok2: "queue_ok (fst s2)" using ok1 opened_attempt(2) [OF q1(1)] q1(2) by (simp add: works_def)
  show "reported (fst s') out"
  proof (cases r)
    case (Inl e)
    then show ?thesis using two ok2 tells_give_up unfolding tells_def by fastforce
  next
    case (Inr x)
    then have "?run a s1 = Some (Inr out, s')" using one two by (simp add: run_return)
    then show ?thesis using tells_run ok1 unfolding tells_def by blast
  qed
qed

lemma release_tells: "tells (release_package h worker req now)"
proof -
  have read: "sound (storing (reading f))" for f :: "queue \<Rightarrow> (store_error, 'x) result"
    by (intro sound_storing queue.reading)
  have plan: "sound (storing (reading_or_panic f))" for f :: "queue \<Rightarrow> (store_error, 'x) result option"
    by (intro sound_storing queue.reading_or_panic)
  have after: "tells (c_then m f)" if "sound m" "\<And>x s s1. m s = Some (Inr x, s1) \<Longrightarrow> tells (f x)"
    for m :: "('w, release_error, 'x) work" and f :: "'x \<Rightarrow> ('w, release_error, release_outcome) work"
    using that unfolding tells_def sound_def stays_def then_Inr_iff by blast
  have reads: "\<exists>q. f q = Inr x" if "storing (reading f) s = Some (Inr x, s1)"
    for f :: "queue \<Rightarrow> (store_error, 'x) result" and s s1 x
    using that by (auto simp: storing_Inr_iff reading_Inr_iff)
  have option: "found = Some x" if "reading (\<lambda>_. ok_or found e) s = Some (Inr x, s1)"
    for found :: "'x option" and e :: release_error and s s1 :: "queue \<times> 'w" and x
    using that by (auto simp: reading_Inr_iff ok_or_Inr_iff)
  show ?thesis
    unfolding release_package_def
    by (rule tells_then [OF read], rule tells_then [OF sound_reading], rule tells_then [OF plan],
        rule tells_then [OF sound_reading], rule after [OF read], drule reads, rule after [OF sound_reading],
        drule option, rule after [OF read], drule reads, rule tells_then [OF sound_on_world],
        rule tells_then [OF sound_reading], rule tells_open)
      (auto intro: publication_target_wf)
qed

end
