(* ===== verification/Sample.thy ===== *)
theory Sample
  imports Scheduling GivingUp
begin

text \<open>
  A store with work in it, reached by the operations themselves: one repository that publishes around
  noon, a sealed plan of two tasks of which the second needs the first captured, one package that
  delivers both, the unit that ships them and the time selected for it.  The properties that need a
  store to speak about are applied to it.
\<close>

section \<open>Plans, packages and queued tasks\<close>


definition sample_schedule :: stored_schedule_policy where
  "sample_schedule =
     \<lparr>ssp_repository_id = Id 1, ssp_revision = revision_first, ssp_policy = noon_policy, ssp_created_at = 2\<rparr>"

definition sample_workspace :: workspace_record where
  "sample_workspace =
     \<lparr>wk_feature_id = Id 1, wk_revision = revision_first, wk_path = ''/w'', wk_base_commit = replicate 40 CHR ''a'',
      wk_prerequisites = JArray [], wk_created_at = 6\<rparr>"

definition sample_snapshot :: snapshot_record where
  "sample_snapshot =
     \<lparr>sn_package_id = Id 7, sn_revision = revision_first, sn_feature_id = Id 1, sn_plan_revision = revision_first,
      sn_path = ''/p'', sn_base_tree = replicate 40 CHR ''b'', sn_result_tree = replicate 40 CHR ''c'',
      sn_content_hash = replicate 64 CHR ''d'', sn_parent = None, sn_manifest = JObject [(''base_commit'', JString (replicate 40 CHR ''a''))],
      sn_created_at = 7\<rparr>"

definition timed_registry :: registry where
  "timed_registry = registry_after (activate_schedule_policy sample_registry sample_schedule)"

lemma timed_texts: "rg_violation timed_registry = []" "rg_uuid_text timed_registry = (\<lambda>_. [])"
proof -
  show "rg_violation timed_registry = []" by code_simp
  show "rg_uuid_text timed_registry = (\<lambda>_. [])" by (rule ext) code_simp
qed

definition sample_packages :: package_db where
  "sample_packages = empty_packages\<lparr>kd_workspaces := [sample_workspace], kd_snapshots := [sample_snapshot]\<rparr>"

definition captured_db :: plan_db where
  "captured_db = sample_plan_db\<lparr>pdb_registry := timed_registry, pdb_packages := sample_packages,
     pdb_package_tasks := [(Id 7, revision_first, Id 1), (Id 7, revision_first, Id 2)]\<rparr>"

definition queued_db :: plan_db where
  "queued_db = snd (advance_task_to (snd (advance_task_to captured_db (Id 1) revision_first (Id 1) Queued 9))
     (Id 1) revision_first (Id 2) Queued 9)"

lemma captured_db_reachable: "plan_db_reachable captured_db"
proof -
  let ?timed = "sample_plan_db\<lparr>pdb_registry := timed_registry\<rparr>"
  let ?opened = "empty_packages\<lparr>kd_workspaces := [sample_workspace]\<rparr>"
  let ?plans = "plan_key ` set (pdb_plans ?timed)"
  have base: "pdb_registry sample_plan_db = sample_registry" "pdb_packages sample_plan_db = empty_packages"
    "pdb_package_tasks sample_plan_db = []"
    by (simp_all add: sample_plan_db_def after_import_def empty_plan_db_def)
  have "is_ok (activate_schedule_policy sample_registry sample_schedule)" by code_simp
  then have "activate_schedule_policy sample_registry sample_schedule = Inr timed_registry"
    by (auto simp: res timed_registry_def registry_after_def)
  then have "plan_db_step sample_plan_db ?timed"
    using plan_db_step.registry [of sample_plan_db timed_registry] base(1) registry_step.schedule by metis
  then have timed: "plan_db_reachable ?timed" by (rule plan_db_reachable.step [OF sample_plan_db_reachable])
  have "(Id 1, revision_first) \<in> ?plans"
    by (simp add: sample_plan_db_def after_import_def new_plan_row_def plan_key_def sample_plan_def)
  then have "record_workspace ?plans empty_packages sample_workspace = Inr ?opened"
    by (simp add: record_workspace_def workspace_validate_def workspaces_ok_def workspace_key_def sample_workspace_def
        empty_packages_def is_absolute_def prefix_def hex_text_def is_ascii_hexdigit_def is_array_def ensure_def list_all_iff)
  then have "plan_db_step ?timed (?timed\<lparr>pdb_packages := ?opened\<rparr>)"
    using plan_db_step.packages [of ?timed ?opened] package_step.workspace base(2) by simp
  then have opened: "plan_db_reachable (?timed\<lparr>pdb_packages := ?opened\<rparr>)" by (rule plan_db_reachable.step [OF timed])
  have "record_snapshot ?opened sample_snapshot = Inr sample_packages"
    by (simp add: record_snapshot_def snapshot_validate_def snapshots_ok_def snapshot_key_def workspace_key_def sample_workspace_def
        sample_snapshot_def sample_packages_def
        empty_packages_def is_absolute_def prefix_def hex_text_def is_ascii_hexdigit_def is_object_def ensure_def list_all_iff)
  then have "plan_db_step (?timed\<lparr>pdb_packages := ?opened\<rparr>) (?timed\<lparr>pdb_packages := sample_packages\<rparr>)"
    using plan_db_step.packages [of "?timed\<lparr>pdb_packages := ?opened\<rparr>" sample_packages] package_step.snapshot by simp
  then have packed: "plan_db_reachable (?timed\<lparr>pdb_packages := sample_packages\<rparr>)" by (rule plan_db_reachable.step [OF opened])
  have "record_package_tasks (?timed\<lparr>pdb_packages := sample_packages\<rparr>) (Id 7) revision_first [Id 1, Id 2] = Inr captured_db"
    by (simp add: record_package_tasks_def insert_package_task_def package_tasks_ok_def captured_db_def base sample_packages_def
        snapshot_key_def sample_snapshot_def)
  then show ?thesis by (intro plan_db_reachable.step [OF packed] plan_db_step.package)
qed

definition stored_work :: queue where
  "stored_work =
     \<lparr>q_plans = queued_db, q_checks = \<lparr>cd_trusted = [], cd_evidence = [], cd_candidates = [], cd_violation = []\<rparr>,
      q_units = [], q_unit_tasks = [], q_slots = [], q_pauses = [], q_pull_requests = [], q_attempts = [],
      q_backoff = (\<lambda>_. None)\<rparr>"

lemma queued_parts:
  "pdb_plans queued_db = [new_plan_row sample_plan 5]" "pdb_registry queued_db = timed_registry"
  "pdb_packages queued_db = sample_packages"
  "pdb_package_tasks queued_db = [(Id 7, revision_first, Id 1), (Id 7, revision_first, Id 2)]"
  "pdb_edges queued_db = map (new_edge_row sample_plan) (plan_edges (plan_tasks_of sample_plan))"
proof -
  obtain r db where one: "advance_task_to captured_db (Id 1) revision_first (Id 1) Queued 9 = (r, db)" by fastforce
  obtain r' where two: "advance_task_to db (Id 1) revision_first (Id 2) Queued 9 = (r', queued_db)"
    using one by (simp add: queued_db_def) (metis prod.collapse)
  obtain rows rows' where "db = captured_db\<lparr>pdb_tasks := rows\<rparr>" "queued_db = db\<lparr>pdb_tasks := rows'\<rparr>"
    using advance_task_to_frame [OF one] advance_task_to_frame [OF two] by blast
  then have q: "queued_db = captured_db\<lparr>pdb_tasks := rows'\<rparr>" by simp
  show "pdb_plans queued_db = [new_plan_row sample_plan 5]" "pdb_registry queued_db = timed_registry"
    "pdb_packages queued_db = sample_packages"
    "pdb_package_tasks queued_db = [(Id 7, revision_first, Id 1), (Id 7, revision_first, Id 2)]"
    "pdb_edges queued_db = map (new_edge_row sample_plan) (plan_edges (plan_tasks_of sample_plan))"
    by (simp_all add: q captured_db_def sample_plan_db_def after_import_def empty_plan_db_def)
qed

lemma queued_tasks:
  "pdb_tasks queued_db =
     map (\<lambda>t. (new_task_row sample_plan 5 t)\<lparr>tk_status := ''queued'', tk_updated_at := 9\<rparr>) (plan_tasks_of sample_plan)"
  by code_simp


lemma queued_db_reachable: "plan_db_reachable queued_db"
proof -
  obtain r db where one: "advance_task_to captured_db (Id 1) revision_first (Id 1) Queued 9 = (r, db)" by fastforce
  obtain r' where two: "advance_task_to db (Id 1) revision_first (Id 2) Queued 9 = (r', queued_db)"
    using one by (simp add: queued_db_def) (metis prod.collapse)
  show ?thesis
    by (rule plan_db_reachable.step [OF plan_db_reachable.step [OF captured_db_reachable]])
       (rule plan_db_step.advance_to [OF one], rule plan_db_step.advance_to [OF two])
qed

lemma queued_db_ok: "pdb_ok queued_db"
  by (rule plan_db_reachable_ok [OF queued_db_reachable])

lemma stored_work_ok: "queue_ok stored_work"
  using queued_db_ok
  by (simp add: queue_ok_def stored_work_def checks_ok_def units_ok_def unit_tasks_ok_def slots_ok_def pauses_ok_def
      pull_requests_ok_def units_formed_def slots_placed_def db_ok_def attempt_view_def
      trusted_ok_def evidence_ok_def candidates_ok_def standing_agree_def constraints_hold_def live_target_keys_def)

section \<open>A unit\<close>

lemma sample_plan_row: "plan_key (new_plan_row sample_plan 5) = (Id 1, revision_first)"
  "fp_feature_id sample_plan = Id 1" "fp_revision sample_plan = revision_first"
  "pl_document (new_plan_row sample_plan 5) = sample_plan" "pl_repository_id (new_plan_row sample_plan 5) = Id 1"
  by (simp_all add: plan_key_def new_plan_row_def) (simp_all add: sample_plan_def)

lemma sample_plan_tasks: "set (plan_tasks_of sample_plan)
    = {\<lparr>pt_id = Id 2, pt_name = ''Add API'', pt_dependencies = [(Id 1, MCaptured)],
        pt_acceptance_checks = [\<lparr>ac_id = ''response'', ac_description = ''API returns''\<rparr>]\<rparr>,
       \<lparr>pt_id = Id 1, pt_name = ''Add schema'', pt_dependencies = [],
        pt_acceptance_checks = [\<lparr>ac_id = ''migration'', ac_description = ''Completes''\<rparr>]\<rparr>}"
  by (simp add: sample_plan_def plan_tasks_of_def)

lemma stored_work_groupable:
  "groupable stored_work (Id 1) revision_first [Id 1, Id 2]"
  "\<not> groupable stored_work (Id 1) revision_first [Id 2]"
  by (simp_all add: groupable_def stored_work_def queued_parts sample_plan_row sample_plan_tasks coupled_closed_def)

definition formed_work :: queue where
  "formed_work = with_unit stored_work (Id 8) (Id 1) revision_first [Id 1, Id 2] 10"

lemma formed_work_ok: "queue_ok formed_work"
  using with_unit_moves [OF stored_work_ok _ _ stored_work_groupable(1), of 10 "Id 8"]
  by (simp add: formed_work_def ungrouped_def stored_work_def)

lemma formed_work_parts:
  "q_plans formed_work = queued_db" "q_slots formed_work = []" "q_pauses formed_work = []" "q_attempts formed_work = []"
  "q_units formed_work = [\<lparr>un_unit_id = Id 8, un_feature_id = Id 1, un_plan_revision = revision_first, un_created_at = 10\<rparr>]"
  "members formed_work (Id 8) = [Id 1, Id 2]" "q_backoff formed_work = (\<lambda>_. None)"
  by (simp_all add: members_def formed_work_def with_unit_def stored_work_def)

section \<open>A selected time\<close>

definition sample_slot :: new_schedule_slot where
  "sample_slot =
     \<lparr>ns_unit_id = Id 8, ns_package_id = Id 7, ns_package_revision = revision_first, ns_policy_revision = revision_first,
      ns_timezone = ''UTC'', ns_eligible_at = 11, ns_selected_at = 43260000, ns_created_at = 11, ns_on_request = False\<rparr>"

lemma sample_slot_sel:
  "ns_unit_id sample_slot = Id 8" "ns_package_id sample_slot = Id 7" "ns_package_revision sample_slot = revision_first"
  "ns_timezone sample_slot = ''UTC''" "ns_selected_at sample_slot = 43260000" "ns_created_at sample_slot = 11"
  "ns_on_request sample_slot = False"
  by (simp_all add: sample_slot_def)

lemma queued_tasks_held: "tasks_held queued_db (Id 1) revision_first {Id 1, Id 2} Queued"
  by (simp add: tasks_held_def queued_tasks task_key_def new_task_row_def sample_plan_tasks sample_plan_row
      row_holds_def ts_reachable_plain)

lemma sample_slot_schedulable: "schedulable formed_work sample_slot
   \<lparr>un_unit_id = Id 8, un_feature_id = Id 1, un_plan_revision = revision_first, un_created_at = 10\<rparr> (new_plan_row sample_plan 5)"
proof -
  have "and_then (repository_of timed_registry (Id 1)) (\<lambda>found.
      Inr (Option.bind found (\<lambda>r. rp_development_target (sr_active_policy r)))) = Inr None"
    by code_simp
  then have d: "development_target formed_work (Id 1) = Inr None"
    by (simp add: development_target_def formed_work_parts queued_parts)
  have p: "package_task_ids queued_db (Id 7) revision_first = [Id 1, Id 2]"
    by (simp add: package_task_ids_def order_by_task_def queued_parts timed_texts id_display_def)
  have "milestones_met formed_work (new_plan_row sample_plan 5) (bts_collect [Id 1, Id 2]) None"
    by (simp add: milestones_met_def sample_plan_row sample_plan_tasks edges_met_def)
  moreover have "\<exists>s \<in> set (kd_snapshots sample_packages). snapshot_key s = (Id 7, revision_first)
      \<and> sn_feature_id s = Id 1 \<and> sn_plan_revision s = revision_first"
    by (simp add: sample_packages_def sample_snapshot_def snapshot_key_def)
  ultimately show ?thesis
    unfolding schedulable_def request_ok_def formed_work_parts sample_slot_sel sample_plan_row queued_parts d p
    using queued_tasks_held
    by (simp add: live_slot_unit_for_package_def formed_work_parts sql_blank_def)
qed

definition timed_work :: queue where
  "timed_work = moved (with_slot formed_work sample_slot (Id 1)) (Id 1) revision_first {Id 1, Id 2} Scheduled 11"

lemma persist_sample_slot:
  "persist_schedule_slot sample_slot formed_work = Some (Inr (slot_from_row (new_slot_row sample_slot (Id 1))), timed_work)"
proof -
  have none: "schedule_slot_of formed_work (ns_unit_id sample_slot) = None"
    by (simp add: schedule_slot_of_def formed_work_def with_unit_def stored_work_def)
  have valid: "slot_validate sample_slot = Inr ()" by code_simp
  obtain r q' where out: "persist_schedule_slot sample_slot formed_work = Some (r, q')"
    "case r of
       Inl e \<Rightarrow> q' = formed_work \<and> \<not> (slot_validate sample_slot = Inr () \<and> (\<exists>x p. schedulable formed_work sample_slot x p))
     | Inr slot \<Rightarrow> slot_validate sample_slot = Inr () \<and> (\<exists>x p. schedulable formed_work sample_slot x p
         \<and> slot = slot_from_row (new_slot_row sample_slot (pl_repository_id p))
         \<and> q' = moved (with_slot formed_work sample_slot (pl_repository_id p)) (un_feature_id x) (un_plan_revision x)
                (set (members formed_work (ns_unit_id sample_slot))) Scheduled (ns_created_at sample_slot))"
    using persist_schedule_slot_outcome [OF formed_work_ok none] by blast
  obtain slot where slot: "r = Inr slot" using out(2) valid sample_slot_schedulable by (cases r) auto
  then obtain x p where xp: "schedulable formed_work sample_slot x p" "slot = slot_from_row (new_slot_row sample_slot (pl_repository_id p))"
    "q' = moved (with_slot formed_work sample_slot (pl_repository_id p)) (un_feature_id x) (un_plan_revision x)
                (set (members formed_work (ns_unit_id sample_slot))) Scheduled (ns_created_at sample_slot)"
    using out(2) by auto
  have "p = new_plan_row sample_plan 5" "un_feature_id x = Id 1" "un_plan_revision x = revision_first"
    using xp(1) unfolding schedulable_def request_ok_def formed_work_parts queued_parts by auto
  then show ?thesis
    using out(1) slot xp(2,3) by (simp add: timed_work_def sample_plan_row formed_work_parts sample_slot_sel)
qed

lemma timed_work_ok: "queue_ok timed_work"
  using persist_schedule_slot_stays persist_sample_slot formed_work_ok unfolding stays_def queue_moves_def by blast

lemma timed_work_parts:
  "q_slots timed_work = [new_slot_row sample_slot (Id 1)]"
  "q_units timed_work = [\<lparr>un_unit_id = Id 8, un_feature_id = Id 1, un_plan_revision = revision_first, un_created_at = 10\<rparr>]"
  "q_plans timed_work = queued_db\<lparr>pdb_tasks := move_tasks (Id 1) revision_first {Id 1, Id 2} Scheduled 11 (pdb_tasks queued_db)\<rparr>"
  "members timed_work (Id 8) = [Id 1, Id 2]" "q_attempts timed_work = []" "q_pauses timed_work = []"
  "q_backoff timed_work = (\<lambda>_. None)"
  using formed_work_parts(6) by (simp_all add: timed_work_def with_slot_def formed_work_parts members_def)

lemma timed_tasks_held: "tasks_held (q_plans timed_work) (Id 1) revision_first {Id 1, Id 2} Scheduled"
  by (simp add: tasks_held_def timed_work_parts queued_tasks task_key_def new_task_row_def sample_plan_tasks sample_plan_row
      row_holds_def ts_reachable_plain move_tasks_def moved_row_def)

end
