(* ===== verification/Whole.thy ===== *)
theory Whole
  imports Sample Journey
begin

text \<open>
  The store as one machine.  Every command of the components is a step of it, whatever the command
  answers; a store is reachable when a sequence of commands builds it from one without work in it.
  The theory shows what every reachable store answers and keeps.
\<close>

section \<open>Steps\<close>

inductive store_step :: "'d calendar \<Rightarrow> queue \<Rightarrow> queue \<Rightarrow> bool" for cal where
  plans: "plan_db_step (q_plans q) db \<Longrightarrow> store_step cal q (q\<lparr>q_plans := db\<rparr>)"
| attempts: "attempt_step (attempt_view q) db \<Longrightarrow> store_step cal q (q\<lparr>q_attempts := db_attempts db\<rparr>)"
| add_check: "add_trusted_check (repository_ids q) (q_checks q) c = Inr k \<Longrightarrow> store_step cal q (q\<lparr>q_checks := k\<rparr>)"
| evidence: "record_validation_evidence (package_keys q) (q_checks q) e = Inr k \<Longrightarrow> store_step cal q (q\<lparr>q_checks := k\<rparr>)"
| candidate: "on_checks (\<lambda>q. record_candidate_validation_evidence (attempt_ids q) (package_keys q) ce) q = Some (r1, q')
    \<Longrightarrow> store_step cal q q'"
| stale_evidence: "invalidating_evidence t reason now q = Some (r2, q') \<Longrightarrow> store_step cal q q'"
| failure: "on_backoff (\<lambda>t. record_integration_failure t integration scope fault detail policy now) q = Some (r3, q')
    \<Longrightarrow> store_step cal q q'"
| success: "on_backoff (\<lambda>t. Inr (clear_integration_failure t integration scope, ())) q = Some (r19, q') \<Longrightarrow> store_step cal q q'"
| pull_request: "record_pull_request (unit_ids q) (repository_ids q) (q_text q) (q_pull_requests q) p = Inr rows
    \<Longrightarrow> store_step cal q (q\<lparr>q_pull_requests := rows\<rparr>)"
| observation: "observe_pull_request (unit_ids q) (repository_ids q) (q_text q) (q_violation q) (q_pull_requests q) i state merged now
    = Inr rows \<Longrightarrow> store_step cal q (q\<lparr>q_pull_requests := rows\<rparr>)"
| unit: "bts_sorted ts \<Longrightarrow> writing (create_release_unit i f' v ts now) q = Some (r4, q') \<Longrightarrow> store_step cal q q'"
| discard: "writing (discard_unscheduled_release_unit i) q = Some (r5, q') \<Longrightarrow> store_step cal q q'"
| persist: "persist_schedule_slot n q = Some (r6, q') \<Longrightarrow> store_step cal q q'"
| schedule: "schedule_at cal i k v seed requested now q = Some (r7, q') \<Longrightarrow> store_step cal q q'"
| withdraw: "writing (invalidate_schedule_slot i reason now) q = Some (r8, q') \<Longrightarrow> store_step cal q q'"
| recalculate: "invalidate_repository_schedule repo reason now q = Some (r9, q') \<Longrightarrow> store_step cal q q'"
| now: "release_unit_now i now q = Some (r10, q') \<Longrightarrow> store_step cal q q'"
| reconcile: "reconcile_missed_windows cal repo seed now q = Some (r11, q') \<Longrightarrow> store_step cal q q'"
| pause: "writing (pause_repository repo reason now) q = Some (r12, q') \<Longrightarrow> store_step cal q q'"
| resume: "writing (resume_repository repo) q = Some (r13, q') \<Longrightarrow> store_step cal q q'"
| cancel: "cancel_task f' v t message now q = Some (r14, q') \<Longrightarrow> store_step cal q q'"
| supersede: "supersede_task f' v t message now q = Some (r15, q') \<Longrightarrow> store_step cal q q'"
| dependents: "block_dependents f' v t code message now q = Some (r16, q') \<Longrightarrow> store_step cal q q'"
| block: "block_release text attempt classification detail now q = Some (r17, q') \<Longrightarrow> store_step cal q q'"
| confirm: "confirm_publication attempt sha now q = Some (r18, q') \<Longrightarrow> store_step cal q q'"

text \<open>Before any work is stored, there are the enrolled repositories, their plans and packages.\<close>

definition no_work :: "queue \<Rightarrow> bool" where
  "no_work q \<longleftrightarrow>
     q_attempts q = [] \<and> cd_trusted (q_checks q) = [] \<and> cd_evidence (q_checks q) = [] \<and> cd_candidates (q_checks q) = []
     \<and> q_units q = [] \<and> q_unit_tasks q = [] \<and> q_slots q = [] \<and> q_pauses q = [] \<and> q_pull_requests q = []"

inductive store_reachable :: "'d calendar \<Rightarrow> queue \<Rightarrow> bool" for cal where
  start: "plan_db_reachable (q_plans q) \<Longrightarrow> no_work q \<Longrightarrow> store_reachable cal q"
| step: "store_reachable cal q \<Longrightarrow> store_step cal q q' \<Longrightarrow> store_reachable cal q'"

section \<open>Steps keep the promises\<close>

lemma trusted_check_moves:
  "add_trusted_check repos k c = Inr k' \<Longrightarrow> checks_move repos packages attempts k k'"
  by (auto simp: add_trusted_check_def res Let_def checks_move_def checks_ok_def checks_follow_def evidence_follows_def
      candidate_follows_def grows_refl split: if_splits)

lemma validation_evidence_moves:
  assumes "record_validation_evidence packages k e = Inr k'"
  shows "checks_move repos packages attempts k k'"
proof -
  have "k' = k\<lparr>cd_evidence := cd_evidence k @ [\<lparr>ev_evidence = e, ev_invalidated_at = None, ev_invalidated_reason = None\<rparr>]\<rparr>"
    "evidence_ok packages (cd_evidence k')"
    using assms by (auto simp: record_validation_evidence_def res Let_def split: if_splits)
  then show ?thesis
    using grows_append [of evidence_follows "cd_evidence k"]
    by (auto simp: checks_move_def checks_ok_def checks_follow_def evidence_follows_def candidate_follows_def grows_refl)
qed

lemma start_ok: "plan_db_reachable (q_plans q) \<Longrightarrow> no_work q \<Longrightarrow> queue_ok q"
  using plan_db_reachable_ok [of "q_plans q"]
  by (simp add: no_work_def queue_ok_def checks_ok_def units_ok_def unit_tasks_ok_def slots_ok_def pauses_ok_def
      pull_requests_ok_def units_formed_def slots_placed_def db_ok_def attempt_view_def
      trusted_ok_def evidence_ok_def candidates_ok_def standing_agree_def constraints_hold_def live_target_keys_def)

lemma stays_step: "stays queue_moves m \<Longrightarrow> m q = Some (r, q') \<Longrightarrow> queue_moves q q'"
  by (auto simp: stays_def)

lemma store_step_moves: "store_step cal q q' \<Longrightarrow> queue_moves q q'"
proof (induction rule: store_step.induct)
  case (plans q db)
  then show ?case using plan_db_step_grows [of "q_plans q" db] change_plans [of q db] by (auto simp: queue_moves_def queue_ok_def)
next
  case (attempts q db)
  then show ?case using change_attempts by (simp add: queue_moves_def)
next
  case (add_check q c k)
  then show ?case using change_checks [of q k] trusted_check_moves by (simp add: queue_moves_def)
next
  case (evidence q e k)
  then show ?case using change_checks [of q k] validation_evidence_moves by (simp add: queue_moves_def)
next
  case (pull_request q p rows)
  have p: "rows = q_pull_requests q @ [p]" "pull_requests_ok (unit_ids q) (repository_ids q) rows"
    using record_pull_request_Inr [OF pull_request] by auto
  then have "pull_requests_ok (unit_ids q) (repository_ids q) (q_pull_requests q)"
    by (auto simp: pull_requests_ok_def)
  then have "grows pull_request_follows (q_pull_requests q) rows"
    unfolding p(1) by (rule grows_append [OF pull_requests_follow_refl])
  then show ?case using change_pull_requests p(2) by (simp add: queue_moves_def)
next
  case (observation q i state merged now rows)
  note seen = observe_pull_request_Inr [OF observation]
  then have "grows pull_request_follows (q_pull_requests q) rows"
    using list_all2_lengthD [OF seen(3)] by (simp add: grows_def)
  then show ?case using change_pull_requests seen(1) by (simp add: queue_moves_def)
next
  case (candidate ce q r1 q')
  then show ?case by (rule stays_step [OF on_checks_stays, OF record_candidate_stays])
next
  case (unit ts i f' v now q r4 q')
  then show ?case using stays_step [OF create_release_unit_stays] by blast
qed (erule stays_step [rotated],
     rule invalidating_evidence_stays on_backoff_stays discard_stays persist_schedule_slot_stays schedule_at_stays
       invalidate_stays invalidate_repository_schedule_stays release_unit_now_stays reconcile_missed_windows_stays
       pause_repository_stays resume_repository_stays cancel_task_stays supersede_task_stays block_dependents_stays
       block_release_stays confirm_publication_stays)+

lemma store_reachable_ok: "store_reachable cal q \<Longrightarrow> queue_ok q"
  by (induction rule: store_reachable.induct) (use start_ok store_step_moves in \<open>auto simp: queue_moves_def\<close>)

lemma store_history: "(store_step cal)\<^sup>*\<^sup>* q q' \<Longrightarrow> queue_ok q \<Longrightarrow> queue_ok q' \<and> queue_follows q q'"
  by (induction rule: rtranclp_induct)
     (use queue_follows_refl store_step_moves queue.trans in \<open>auto simp: queue_moves_def\<close>)

end
