(* ===== verification/Ledger.thy ===== *)
theory Ledger
  imports Whole Reports
begin

text \<open>
  What can be read off a store and off the list of Git commands a worker issued.  A host that writes
  every Git command down is put in place of the real one; the worker cannot tell the difference, and
  the list tells which pushes a run made.
\<close>

section \<open>Every stored value can be read\<close>

lemma attempts_read: "queue_ok q \<Longrightarrow> is_ok (release_attempt_of (attempt_view q) i)"
proof -
  assume "queue_ok q"
  then have "\<exists>a. attempt_from_row r = Inr a" if "r \<in> set (db_attempts (attempt_view q))" for r
    using that row_ok_loads by (auto simp: queue_ok_def db_ok_def)
  then show ?thesis
    by (auto simp: release_attempt_of_def res split: option.splits dest!: find_Some_in)
qed

lemma tasks_read: "queue_ok q \<Longrightarrow> is_ok (task_of (q_plans q) f v t)"
proof -
  assume "queue_ok q"
  then have "\<exists>x. task_from_row r = Inr x" if "r \<in> set (pdb_tasks (q_plans q))" for r
    using that task_from_row_Inr by (fastforce simp: queue_ok_def pdb_ok_def list_all_iff)
  then show ?thesis
    by (auto simp: task_of_def res split: option.splits dest!: find_Some_in)
qed

lemma repositories_read: "queue_ok q \<Longrightarrow> is_ok (repository_of (q_registry q) i)"
proof -
  assume "queue_ok q"
  then have ok: "registry_ok (q_registry q)" by (simp add: queue_ok_def pdb_ok_def)
  have "\<exists>s. stored_repository_of r (policy_of_row (q_registry q) r) = Inr s" if "r \<in> set (rg_repositories (q_registry q))" for r
    using joined_row_loads [OF ok that] by blast
  then show ?thesis
    by (auto simp: repository_of_row [OF ok] res split: option.splits dest!: find_Some_in)
qed

lemma awaiting_listed:
  assumes "queue_ok q" and "r \<in> set (q_attempts q)" and "awaiting_resolution_predicate r"
  shows "\<exists>as a. release_attempts_awaiting_remote_resolution (attempt_view q) = Inr as \<and> a \<in> set as
    \<and> attempt_from_row r = Inr a"
proof -
  let ?rows = "sort_key c_updated_at (filter awaiting_resolution_predicate (q_attempts q))"
  have "\<forall>r \<in> set ?rows. \<exists>a. attempt_from_row r = Inr a"
    using assms(1) row_ok_loads by (auto simp: queue_ok_def db_ok_def attempt_view_def)
  then obtain as where as: "collect_res attempt_from_row ?rows = Inr as" using collect_loads by blast
  moreover obtain a where a: "attempt_from_row r = Inr a"
    using assms(1,2) row_ok_loads by (auto simp: queue_ok_def db_ok_def attempt_view_def)
  moreover have "r \<in> set ?rows" using assms(2,3) by simp
  then have "a \<in> set as" using a unfolding collect_set [OF as] by blast
  ultimately show ?thesis by (auto simp: release_attempts_awaiting_remote_resolution_def attempt_view_def)
qed

section \<open>A host that writes Git commands down\<close>

definition aside :: "('w, 'e, 'a) action \<Rightarrow> ('w \<times> string list list, 'e, 'a) action" where
  "aside m s = (case m (fst s) of (r, w) \<Rightarrow> (r, (w, snd s)))"

definition logging :: "'w host \<Rightarrow> ('w \<times> string list list) host" where
  "logging h =
     \<lparr>h_git = (\<lambda>dir args timeout s. case h_git h dir args timeout (fst s) of (r, w) \<Rightarrow> (r, (w, snd s @ [args]))),
      h_io_text = h_io_text h,
      h_exists = (\<lambda>path s. h_exists h path (fst s)),
      h_create_dir_all = (\<lambda>path. aside (h_create_dir_all h path)),
      h_open_package = (\<lambda>path. aside (h_open_package h path)),
      h_run_check = (\<lambda>command path seconds. aside (h_run_check h command path seconds)),
      h_environment = (\<lambda>s. h_environment h (fst s)),
      h_sha256 = h_sha256 h,
      h_since_epoch = (\<lambda>s. h_since_epoch h (fst s)),
      h_new_attempt_id = (\<lambda>s. case h_new_attempt_id h (fst s) of (i, w) \<Rightarrow> (i, (w, snd s))),
      h_uuid_text = h_uuid_text h,
      h_redact = h_redact h\<rparr>"

lemma aside_keeps: "aside m s = (r, s') \<Longrightarrow> snd s' = snd s"
  by (auto simp: aside_def split: prod.splits)

lemma logged_step:
  assumes "world_step (logging h) allowed s s'"
  obtains "snd s' = snd s" | args where "snd s' = snd s @ [args]" and "is_push args \<Longrightarrow> allowed args"
  using assms
proof cases
  case (git args dir timeout r)
  then show ?thesis using that(2) by (auto simp: logging_def split: prod.splits)
qed (use that(1) in \<open>auto simp: logging_def dest: aside_keeps split: prod.splits\<close>)

text \<open>Along a run the list only grows, and each push on it found its permission in the store of that moment.\<close>

lemma logged_run:
  assumes "(worker_step (logging h) allowed)\<^sup>*\<^sup>* s s'" and "queue_ok (fst s)"
  shows "queue_ok (fst s') \<and> queue_follows (fst s) (fst s') \<and> prefix (snd (snd s)) (snd (snd s'))
    \<and> (\<forall>k. length (snd (snd s)) \<le> k \<and> k < length (snd (snd s')) \<and> is_push (snd (snd s') ! k) \<longrightarrow>
         (\<exists>q w. (worker_step (logging h) allowed)\<^sup>*\<^sup>* s (q, w, take k (snd (snd s'))) \<and> queue_ok q
            \<and> queue_follows (fst s) q \<and> queue_follows q (fst s') \<and> allowed q (snd (snd s') ! k)))"
  using assms
proof (induction rule: rtranclp_induct)
  case base
  then show ?case using queue_follows_refl by auto
next
  case (step t u)
  let ?log = "snd (snd t)" and ?P = "\<lambda>u k. \<exists>q w. (worker_step (logging h) allowed)\<^sup>*\<^sup>* s (q, w, take k (snd (snd u)))
    \<and> queue_ok q \<and> queue_follows (fst s) q \<and> queue_follows q (fst u) \<and> allowed q (snd (snd u) ! k)"
  note ih = step.IH [OF step.prems]
  have follow: "queue_follows a c" if "queue_ok a" "queue_ok b" "queue_follows a b" "queue_ok c" "queue_follows b c" for a b c
    using queue.trans [of a b c] that by (auto simp: queue_moves_def)
  have old: "?P u k" if "queue_ok (fst u)" "queue_follows (fst t) (fst u)" "prefix ?log (snd (snd u))"
    "length (snd (snd s)) \<le> k" "k < length ?log" "is_push (snd (snd u) ! k)" for k
  proof -
    have same: "take k (snd (snd u)) = take k ?log" "snd (snd u) ! k = ?log ! k"
      using that(3,5) by (auto simp: prefix_def nth_append)
    have push: "is_push (?log ! k)" using that(6) same(2) by simp
    note here = that(4,5)
    obtain q w where q: "(worker_step (logging h) allowed)\<^sup>*\<^sup>* s (q, w, take k ?log)" "queue_ok q"
      "queue_follows (fst s) q" "queue_follows q (fst t)" "allowed q (?log ! k)"
      using ih here push by blast
    have "queue_follows q (fst u)" using follow [of q "fst t" "fst u"] q ih that by blast
    then show ?thesis using q same by metis
  qed
  from step.hyps(2) show ?case
  proof cases
    case (store q q' w)
    have "queue_follows (fst s) q'" using follow [OF step.prems, of q q'] store ih by auto
    moreover have "?P u k" if "length (snd (snd s)) \<le> k" "k < length (snd w)" "is_push (snd w ! k)" for k
      using old [of k] store that by simp
    ultimately show ?thesis using store ih by simp
  next
    case (world q w w')
    have q: "queue_ok q" "queue_follows (fst s) q" "queue_follows q q" using ih world queue_follows_refl by auto
    show ?thesis
    proof (rule logged_step [OF world(3)])
      assume same: "snd w' = snd w"
      then show ?thesis using old world ih q by simp
    next
      fix args assume new: "snd w' = snd w @ [args]" and may: "is_push args \<Longrightarrow> allowed q args"
      have last: "?P u (length (snd w))" if "is_push args"
        using step.hyps(1) q may [OF that] world(1,2) new by (intro exI [of _ q] exI [of _ "fst w"]) simp
      have "?P u k" if "length (snd (snd s)) \<le> k" "k < length (snd w')" "is_push (snd w' ! k)" for k
      proof (cases "k < length (snd w)")
        case True
        then show ?thesis using old [of k] world q new that by simp
      next
        case False
        then have "k = length (snd w)" using that(2) new by simp
        then show ?thesis using last that(3) new by simp
      qed
      then show ?thesis using world ih q new by (auto intro: prefix_order.trans)
    qed
  qed
qed

section \<open>Pushes\<close>

lemma intended_listed:
  assumes "queue_ok q" and "intended q args"
  shows "\<exists>r as a commit leased. r \<in> set (q_attempts q) \<and> c_candidate_sha r = Some commit \<and> c_attempt_id r = ra_attempt_id a
    \<and> release_attempts_awaiting_remote_resolution (attempt_view q) = Inr as \<and> a \<in> set as
    \<and> ra_candidate_sha a = Some commit
    \<and> args = [''push'', ''--porcelain'', ''--force-with-lease='' @ target_ref_str (ra_target a) @ '':'' @ leased,
        ra_remote a, commit @ '':'' @ target_ref_str (ra_target a)]"
proof -
  obtain r commit leased where r: "r \<in> set (q_attempts q)" "c_status r = ''push_pending''" "c_candidate_sha r = Some commit"
    and args: "args = [''push'', ''--porcelain'', ''--force-with-lease='' @ c_target_ref r @ '':'' @ leased,
        c_target_remote r, commit @ '':'' @ c_target_ref r]"
    using assms(2) unfolding intended_def by blast
  have "awaiting_resolution_predicate r" using r(2) by (simp add: awaiting_resolution_predicate_def)
  then obtain as a where a: "release_attempts_awaiting_remote_resolution (attempt_view q) = Inr as" "a \<in> set as"
    "attempt_from_row r = Inr a"
    using awaiting_listed [OF assms(1) r(1)] by blast
  obtain t st where t: "target_ref_new (c_target_ref r) = Inr t" "a = attempt_of r t st"
    using a(3) by (auto simp: attempt_from_row_Inr)
  have "target_ref_str t = c_target_ref r" using t(1) by (auto simp: target_ref_new_Inr_iff)
  then have "c_attempt_id r = ra_attempt_id a" "ra_candidate_sha a = Some commit" "target_ref_str (ra_target a) = c_target_ref r"
    "ra_remote a = c_target_remote r"
    using t(2) r(3) by (simp_all add: attempt_of_def)
  then show ?thesis using r a args by metis
qed

lemma evolved_candidate:
  assumes "queue_follows q q'" and "r \<in> set (q_attempts q)" and "c_candidate_sha r = Some commit"
  shows "\<exists>r' \<in> set (q_attempts q'). c_attempt_id r' = c_attempt_id r \<and> c_candidate_sha r' = Some commit"
proof -
  have "grows row_evolves (q_attempts q) (q_attempts q')" using assms(1) by (simp add: queue_follows_def)
  from grows_nth [OF this assms(2)] obtain r' where r': "r' \<in> set (q_attempts q')" "row_evolves r r'" by blast
  then show ?thesis using assms(3) by (intro bexI [of _ r']) (auto simp: row_evolves_def)
qed

lemma pushes_recorded:
  assumes ok: "queue_ok q" and run: "release_package (logging h) worker req now (q, w, []) = Some (r, q', w', log)"
    and k: "k < length log" "is_push (log ! k)"
  shows "\<exists>q1 w1 as a commit leased. (worker_step (logging h) intended)\<^sup>*\<^sup>* (q, w, []) (q1, w1, take k log)
    \<and> queue_follows q1 q'
    \<and> release_attempts_awaiting_remote_resolution (attempt_view q1) = Inr as \<and> a \<in> set as
    \<and> ra_candidate_sha a = Some commit
    \<and> log ! k = [''push'', ''--porcelain'', ''--force-with-lease='' @ target_ref_str (ra_target a) @ '':'' @ leased,
        ra_remote a, commit @ '':'' @ target_ref_str (ra_target a)]
    \<and> (\<exists>r' \<in> set (q_attempts q'). c_attempt_id r' = ra_attempt_id a \<and> c_candidate_sha r' = Some commit)"
proof -
  have path: "(worker_step (logging h) intended)\<^sup>*\<^sup>* (q, w, []) (q', w', log)"
    using worksD [OF release_works run] ok by (simp add: works_def)
  obtain q1 w1 where one: "(worker_step (logging h) intended)\<^sup>*\<^sup>* (q, w, []) (q1, w1, take k log)" "queue_ok q1"
    "queue_follows q1 q'" "intended q1 (log ! k)"
    using logged_run [OF path] ok k by auto
  obtain r1 as a commit leased where listed: "r1 \<in> set (q_attempts q1)" "c_candidate_sha r1 = Some commit"
    "c_attempt_id r1 = ra_attempt_id a" "release_attempts_awaiting_remote_resolution (attempt_view q1) = Inr as" "a \<in> set as"
    "ra_candidate_sha a = Some commit"
    "log ! k = [''push'', ''--porcelain'', ''--force-with-lease='' @ target_ref_str (ra_target a) @ '':'' @ leased,
        ra_remote a, commit @ '':'' @ target_ref_str (ra_target a)]"
    using intended_listed [OF one(2,4)] by blast
  have "\<exists>r' \<in> set (q_attempts q'). c_attempt_id r' = ra_attempt_id a \<and> c_candidate_sha r' = Some commit"
    using evolved_candidate [OF one(3) listed(1,2)] listed(3) by simp
  then show ?thesis using one(1,3) listed(4-7) by blast
qed

lemma recovery_silent:
  assumes ok: "queue_ok q" and run: "recover_interrupted_releases (logging h) worker now (q, w, []) = Some (r, q', w', log)"
  shows "queue_ok q' \<and> queue_follows q q' \<and> (\<forall>args \<in> set log. \<not> is_push args)"
proof -
  have path: "(worker_step (logging h) (\<lambda>_ _. False))\<^sup>*\<^sup>* (q, w, []) (q', w', log)"
    using worksD [OF recover_all_works run] ok by (simp add: works_def)
  show ?thesis using logged_run [OF path] ok by (auto simp: in_set_conv_nth)
qed

end
