(* ===== verification/Trial.thy ===== *)
theory Trial
  imports Ledger
begin

text \<open>
  One release run, executed: the worker publishes the sample package to a remote that goes away at the
  moment of the push.  The run is the concrete case that the contracts of the worker are applied to.
\<close>

section \<open>A remote that does not answer the push\<close>

definition sha :: "char \<Rightarrow> string" where
  "sha c = replicate 40 c"

text \<open>The world is the commit checked out in the workspace and the commit the remote branch is at.\<close>

definition trial_git :: "(string \<times> string) git" where
  "trial_git dir args timeout w =
     (if take 1 args = [''ls-remote''] then (Inr (snd w @ [CHR 0x09] @ ''refs/heads/main''), w)
      else if args = [''rev-parse'', ''HEAD''] then (Inr (fst w), w)
      else if take 1 args \<in> {[''rev-parse''], [''write-tree'']} then (Inr (sha CHR ''e''), w)
      else if ''commit'' \<in> set args then (Inr [], (sha CHR ''f'', snd w))
      else if is_push args then (Inl (GitFailed (Some 128) ''Could not resolve host''), w)
      else (Inr [], w))"

definition trial_manifest :: snapshot_manifest where
  "trial_manifest =
     \<lparr>pm_schema_version = 1, pm_package_id = Id 7, pm_revision = revision_first, pm_feature_id = Id 1,
      pm_plan_revision = revision_first, pm_task_ids = [Id 1, Id 2], pm_parent_package_id = None,
      pm_base_commit = sha CHR ''e'', pm_base_tree = sha CHR ''b'', pm_result_tree = sha CHR ''e'',
      pm_snapshot_commit = sha CHR ''e'', pm_bundle_sha256 = replicate 64 CHR ''d'',
      pm_content_hash = replicate 64 CHR ''d''\<rparr>"

definition trial_host :: "(string \<times> string) host" where
  "trial_host =
     \<lparr>h_git = trial_git, h_io_text = (\<lambda>_. ''io''), h_exists = (\<lambda>_ _. False),
      h_create_dir_all = (\<lambda>_. act_return (Inr ())),
      h_open_package = (\<lambda>path. act_return (Inr \<lparr>pk_path = path, pk_manifest = trial_manifest\<rparr>)),
      h_run_check = (\<lambda>_ _ _. act_return (Inr (Some (Some 0)))),
      h_environment = (\<lambda>_. []), h_sha256 = (\<lambda>_. replicate 64 CHR ''0''), h_since_epoch = (\<lambda>_. Inr 20),
      h_new_attempt_id = (\<lambda>w. (Id 9, w)), h_uuid_text = (\<lambda>_. ''u''), h_redact = id\<rparr>"

definition trial_worker :: release_worker where
  "trial_worker = release_worker_new ''/m'' ''/r'' ''me''"

definition trial_request :: release_request where
  "trial_request = \<lparr>rq_package_id = Id 7, rq_package_revision = revision_first, rq_message = ''ship'',
     rq_author_name = ''a'', rq_author_email = ''a@b''\<rparr>"

lemma logged_trial:
  "h_git (logging trial_host) dir args t (w, log) = (fst (trial_git dir args t w), snd (trial_git dir args t w), log @ [args])"
  "h_exists (logging trial_host) path s = False"
  "h_create_dir_all (logging trial_host) path s = (Inr (), s)"
  "h_open_package (logging trial_host) path s = (Inr \<lparr>pk_path = path, pk_manifest = trial_manifest\<rparr>, s)"
  "h_new_attempt_id (logging trial_host) s = (Id 9, s)"
  "h_uuid_text (logging trial_host) = (\<lambda>_. ''u'')" "h_io_text (logging trial_host) = (\<lambda>_. ''io'')"
  by (simp_all add: logging_def trial_host_def aside_def act_return_def split: prod.splits)

lemma sha_text:
  "valid_utf8 (sha CHR ''e'')" "valid_utf8 (sha CHR ''f'')" "trim (sha CHR ''e'') = sha CHR ''e''" "trim (sha CHR ''f'') = sha CHR ''f''"
  "is_object_id (sha CHR ''e'')" "is_object_id (sha CHR ''f'')" "valid_utf8 []" "trim [] = []"
  by code_simp+

lemma sha_differ [simp]: "sha CHR ''e'' \<noteq> sha CHR ''f''" "sha CHR ''f'' \<noteq> sha CHR ''e''"
  by (simp_all add: sha_def replicate_eq_replicate)

lemma sha_long [simp]: "''commit'' \<noteq> sha c"
proof
  assume "''commit'' = sha c"
  then have "length ''commit'' = length (sha c)" by (rule arg_cong)
  then show False by (simp add: sha_def)
qed

lemma trial_reply: "parse_remote_ref ''refs/heads/main'' (sha CHR ''e'' @ CHR 0x09 # ''refs/heads/main'') = Inr (Some (sha CHR ''e''))"
  by code_simp

lemma git_timeout_positive: "git_timeout \<noteq> 0"
  by (simp add: git_timeout_def from_secs_def)

section \<open>The store around the attempts\<close>

definition with_rows :: "attempt_row list \<Rightarrow> queue" where
  "with_rows rows = timed_work\<lparr>q_attempts := rows\<rparr>"

definition trial_db :: "attempt_row list \<Rightarrow> attempt_db" where
  "trial_db rows = \<lparr>db_repositories = [Id 1], db_packages = [(Id 7, revision_first)],
     db_violation = [], db_uuid_text = (\<lambda>_. []), db_attempts = rows\<rparr>"

lemma timed_work_rows: "timed_work = with_rows []"
  using timed_work_parts(5) by (simp add: with_rows_def)

lemma trial_view: "attempt_view (with_rows rows) = trial_db rows"
proof -
  have "map rr_id (rg_repositories timed_registry) = [Id 1]" by code_simp
  then show ?thesis
    by (simp add: timed_texts attempt_view_def trial_db_def with_rows_def timed_work_parts queued_parts
        sample_packages_def sample_snapshot_def snapshot_key_def)
qed

lemma writing_rows:
  assumes "f (trial_db rows) = Inr (trial_db rows', x)"
  shows "storing (on_attempts f) (with_rows rows, w) = Some (Inr x, with_rows rows', w)"
proof -
  have "on_attempts f (with_rows rows) = Some (Inr x, with_rows rows')"
    unfolding on_attempts_def writing_def trial_view using assms by (simp add: with_rows_def trial_db_def)
  then show ?thesis unfolding storing_Inr_iff by simp
qed

section \<open>The attempt\<close>

definition trial_attempt :: new_release_attempt where
  "trial_attempt =
     \<lparr>na_attempt_id = Id 9, na_repository_id = Id 1, na_package_id = Id 7, na_package_revision = revision_first,
      na_remote = ''git@host:a/b'', na_target = TargetRef ''refs/heads/main'', na_base_commit = replicate 40 CHR ''a'',
      na_lease = \<lparr>al_owner = ''me'', al_expires = 300020\<rparr>, na_created_at = 20\<rparr>"

definition trial_row :: "string \<Rightarrow> attempt_row" where
  "trial_row status = (opened_row trial_attempt)\<lparr>c_status := status\<rparr>"

definition trial_pushed :: attempt_row where
  "trial_pushed = (trial_row ''commit_prepared'')\<lparr>c_candidate_sha := Some (sha CHR ''f''),
     c_candidate_parent_sha := Some (sha CHR ''e''), c_push_intent_at := Some 20\<rparr>"

definition attempt_at :: "attempt_row \<Rightarrow> task_status \<Rightarrow> release_attempt" where
  "attempt_at r s = attempt_of r (TargetRef ''refs/heads/main'') (plain s)"

lemma trial_open: "open_release_attempt (trial_db []) trial_attempt
    = Inr (trial_db [trial_row ''scheduled''], attempt_at (trial_row ''scheduled'') Scheduled)"
  by (simp add: trial_db_def) code_simp

lemma trial_stages:
  "advance_release_attempt (trial_db [trial_row ''scheduled'']) (Id 9) Reconciling None 20
    = Inr (trial_db [trial_row ''reconciling''], attempt_at (trial_row ''reconciling'') Reconciling)"
  "advance_release_attempt (trial_db [trial_row ''reconciling'']) (Id 9) Verifying None 20
    = Inr (trial_db [trial_row ''verifying''], attempt_at (trial_row ''verifying'') Verifying)"
  "advance_release_attempt (trial_db [trial_row ''verifying'']) (Id 9) CommitPrepared None 20
    = Inr (trial_db [trial_row ''commit_prepared''], attempt_at (trial_row ''commit_prepared'') CommitPrepared)"
  "record_push_intent (trial_db [trial_row ''commit_prepared'']) (Id 9) (sha CHR ''f'') (sha CHR ''e'') 20
    = Inr (trial_db [trial_pushed], attempt_at trial_pushed CommitPrepared)"
  "advance_release_attempt (trial_db [trial_pushed]) (Id 9) PushPending None 20
    = Inr (trial_db [trial_pushed\<lparr>c_status := ''push_pending''\<rparr>],
        attempt_at (trial_pushed\<lparr>c_status := ''push_pending''\<rparr>) PushPending)"
  by (simp_all add: trial_db_def) code_simp+

definition trial_deferred :: attempt_row where
  "trial_deferred = trial_pushed\<lparr>c_status := ''push_pending'', c_failure_classification := Some ''transport'',
     c_failed_attempts := 1, c_retry_not_before := Some 5020\<rparr>"

lemma trial_defer:
  "defer_publication_retry (trial_db [trial_pushed\<lparr>c_status := ''push_pending''\<rparr>]) (Id 9) ''transport'' 5020 20
    = Inr (trial_db [trial_deferred], attempt_at trial_deferred PushPending)"
  by (simp add: trial_db_def) code_simp

section \<open>What an action and a call do, and what they send\<close>

definition goes :: "(string list) set \<Rightarrow> ((string \<times> string) \<times> string list list, 'e, 'a) action \<Rightarrow> string \<times> string
    \<Rightarrow> ('e, 'a) result \<Rightarrow> string \<times> string \<Rightarrow> bool" where
  "goes S m w r w' \<longleftrightarrow> (\<forall>log. \<exists>log'. m (w, log) = (r, w', log') \<and> S \<union> set log \<subseteq> set log')"

definition does :: "(string list) set \<Rightarrow> ((string \<times> string) \<times> string list list, 'e, 'a) work \<Rightarrow> queue \<Rightarrow> string \<times> string
    \<Rightarrow> ('e, 'a) result \<Rightarrow> queue \<Rightarrow> string \<times> string \<Rightarrow> bool" where
  "does S m q w r q' w' \<longleftrightarrow> (\<forall>log. \<exists>log'. m (q, w, log) = Some (r, q', w', log') \<and> S \<union> set log \<subseteq> set log')"

lemma goes_return: "goes {} (act_return r) w r w"
  by (simp add: goes_def act_return_def)

lemma goes_bind: "goes S m w (Inr y) w1 \<Longrightarrow> goes T (f y) w1 r w' \<Longrightarrow> goes (S \<union> T) (act_bind m f) w r w'"
 (is "_ \<Longrightarrow> _ \<Longrightarrow> ?goal")
proof -
  assume m: "goes S m w (Inr y) w1" and f: "goes T (f y) w1 r w'"
  show ?goal
    unfolding goes_def
  proof
    fix log
    obtain l1 where one: "m (w, log) = (Inr y, w1, l1)" "S \<union> set log \<subseteq> set l1" using m unfolding goes_def by blast
    obtain l2 where two: "f y (w1, l1) = (r, w', l2)" "T \<union> set l1 \<subseteq> set l2" using f unfolding goes_def by blast
    show "\<exists>log'. act_bind m f (w, log) = (r, w', log') \<and> (S \<union> T) \<union> set log \<subseteq> set log'"
      using one two by (intro exI [of _ l2]) (auto simp: act_bind_def)
  qed
qed

lemma goes_stop:
  assumes "goes S m w (Inl e) w'"
  shows "goes S (act_bind m f) w (Inl e) w'"
  unfolding goes_def
proof
  fix log
  obtain l1 where "m (w, log) = (Inl e, w', l1)" "S \<union> set log \<subseteq> set l1" using assms unfolding goes_def by blast
  then show "\<exists>log'. act_bind m f (w, log) = (Inl e, w', log') \<and> S \<union> set log \<subseteq> set log'"
    by (intro exI [of _ l1]) (auto simp: act_bind_def)
qed

lemma goes_err: "goes S m w r w' \<Longrightarrow> goes S (act_err g m) w (map_err g r) w'"
  unfolding goes_def act_err_def by (metis (no_types, lifting) case_prod_conv)

lemma goes_git:
  assumes "trial_git dir args t w = (r, w')" and "prefix ''/'' dir" and "args \<noteq> []" and "t \<noteq> 0"
  shows "goes {args} (git_run (h_git (logging trial_host)) dir args t) w r w'"
  using assms by (auto simp: goes_def git_run_def logged_trial)

lemma goes_text:
  assumes "trial_git dir args t w = (Inr out, w')" and "prefix ''/'' dir" and "args \<noteq> []" and "t \<noteq> 0"
    and "valid_utf8 out" and "trim out = y"
  shows "goes ({args} \<union> {}) (git_text (h_git (logging trial_host)) dir args t) w (Inr y) w'"
  unfolding git_text_def
  by (rule goes_bind [OF goes_git [OF assms(1-4)]]) (use assms(5,6) goes_return [of "Inr y" w'] in simp)

lemma does_match:
  assumes "does S m q w y q1 w1" and "does T (f y) q1 w1 r q' w'"
  shows "does (S \<union> T) (c_match m f) q w r q' w'"
  unfolding does_def
proof
  fix log
  obtain l1 where one: "m (q, w, log) = Some (y, q1, w1, l1)" "S \<union> set log \<subseteq> set l1" using assms(1) unfolding does_def by blast
  obtain l2 where two: "f y (q1, w1, l1) = Some (r, q', w', l2)" "T \<union> set l1 \<subseteq> set l2"
    using assms(2) unfolding does_def by blast
  show "\<exists>log'. c_match m f (q, w, log) = Some (r, q', w', log') \<and> (S \<union> T) \<union> set log \<subseteq> set log'"
    using one two by (intro exI [of _ l2]) (auto simp: c_match_def)
qed

lemma does_then: "does S m q w (Inr y) q1 w1 \<Longrightarrow> does T (f y) q1 w1 r q' w' \<Longrightarrow> does (S \<union> T) (c_then m f) q w r q' w'"
  unfolding c_then_def by (erule does_match) simp

lemma does_run: "does S m q w r q' w' \<Longrightarrow> \<exists>log. m (q, w, []) = Some (r, q', w', log) \<and> S \<subseteq> set log"
  unfolding does_def by (drule spec [of _ "[]"]) simp

lemma does_return: "does {} (c_return x) q w (Inr x) q w"
  by (simp add: does_def run_return)

lemma does_reading: "(\<And>s. f s = r) \<Longrightarrow> does {} (reading f) q w r q w"
  by (simp add: does_def run_reading)

lemma does_ok: "does {} (reading (\<lambda>_. ok_or (Some x) e)) q w (Inr x) q w"
  by (rule does_reading) simp

lemma does_store_read: "f q = Inr x \<Longrightarrow> does {} (storing (reading f)) q w (Inr x) q w"
  unfolding does_def storing_Inr_iff by (fastforce simp: reading_Inr_iff)

lemma does_write: "f (trial_db rows) = Inr (trial_db rows', x)
    \<Longrightarrow> does {} (storing (on_attempts f)) (with_rows rows) w (Inr x) (with_rows rows') w"
  by (simp add: does_def writing_rows)

lemma does_world: "goes S m w r w' \<Longrightarrow> does S (on_world m) q w r q w'"
  unfolding does_def goes_def on_world_def by (metis (no_types, lifting) case_prod_conv fst_conv snd_conv)

lemma does_err: "does S m q w r q' w' \<Longrightarrow> does S (c_map_err g m) q w (map_err g r) q' w'"
  unfolding c_map_err_def by (drule does_match [where f = "\<lambda>r. reading (\<lambda>_. map_err g r)", OF _ does_reading]) simp_all

lemma does_git: "goes S m w (Inr x) w' \<Longrightarrow> does S (running_git m) q w (Inr x) q w'"
  unfolding running_git_def by (drule does_world, drule does_err) simp

section \<open>The workspace\<close>

definition trial_workspace :: candidate_workspace where
  "trial_workspace = \<lparr>cw_path = ''/r/release-attempt_u'', cw_target_commit = sha CHR ''e'',
     cw_snapshot_commit = sha CHR ''e'', cw_snapshot_ref = ''refs/reccursive/candidates/package_u/1''\<rparr>"

definition trial_candidate :: persisted_candidate where
  "trial_candidate = \<lparr>pc_commit = sha CHR ''f'', pc_parent_commit = sha CHR ''e'', pc_tree = sha CHR ''e''\<rparr>"

abbreviation trial_start :: "string \<times> string" where
  "trial_start \<equiv> (sha CHR ''e'', sha CHR ''e'')"

abbreviation trial_committed :: "string \<times> string" where
  "trial_committed \<equiv> (sha CHR ''f'', sha CHR ''e'')"

lemmas trial_eval = goes_def git_run_def git_text_def act_bind_def act_err_def act_return_def logged_trial trial_git_def
  git_timeout_positive sha_text is_push_def subset_iff

lemma trial_paths:
  "path_split ''/m/repo_u.git'' = Some (''/m'', ''repo_u.git'')"
  "path_split ''/r/release-attempt_u'' = Some (''/r'', ''release-attempt_u'')"
  "path_join ''/m'' ''repo_u.git'' = ''/m/repo_u.git''"
  "path_join ''/r'' ''release-attempt_u'' = ''/r/release-attempt_u''"
  "path_join ''/p'' ''objects.bundle'' = ''/p/objects.bundle''"
  "id_display (\<lambda>_. ''u'') RepositoryKind i = ''repo_u''" "id_display (\<lambda>_. ''u'') AttemptKind j = ''attempt_u''"
  "id_display (\<lambda>_. ''u'') PackageKind k = ''package_u''" "show_nat (unat (revision_get revision_first)) = ''1''"
  by code_simp+

lemma trial_clone: "goes {} (managed_clone (logging trial_host) trial_worker ''git@host:a/b'' ''repo_u'') trial_start
    (Inr ''/m/repo_u.git'') trial_start"
  by (simp add: trial_eval managed_clone_def provision_def trial_worker_def release_worker_new_def trial_paths)

lemma trial_fetch: "goes {} (fetch_ref (logging trial_host) ''/m/repo_u.git'' ''git@host:a/b'' ''refs/heads/main'' git_timeout)
    trial_start (Inr []) trial_start"
  by (simp add: trial_eval fetch_ref_def)

lemma trial_resolve: "goes {} (mirror_resolve (logging trial_host) ''/m/repo_u.git'' ''refs/heads/main'' git_timeout)
    trial_start (Inr (sha CHR ''e'')) trial_start"
  by (simp add: trial_eval mirror_resolve_def)

lemma trial_prepare: "goes {} (prepare_candidate_workspace (logging trial_host) ''/m/repo_u.git'' ''/r/release-attempt_u''
    (sha CHR ''e'') \<lparr>pk_path = ''/p'', pk_manifest = trial_manifest\<rparr> git_timeout) trial_start (Inr trial_workspace) trial_start"
  by (simp add: trial_eval prepare_candidate_workspace_def create_release_workspace_def expect_object_def trial_paths
      trial_manifest_def Let_def trial_workspace_def)

lemma trial_apply: "goes {} (apply_snapshot (h_git (logging trial_host)) trial_workspace git_timeout) trial_start
    (Inr (Applied (sha CHR ''e''))) trial_start"
  by (simp add: trial_eval apply_snapshot_def staged_tree_def trial_workspace_def)

lemma trial_verify: "goes {} (cw_verify (h_git (logging trial_host)) trial_workspace git_timeout) trial_start
    (Inr (sha CHR ''e'', sha CHR ''e'')) trial_start"
  by (simp add: trial_eval cw_verify_def unmerged_paths_def staged_tree_def trial_workspace_def)

lemma trial_commit: "goes {} (cw_persist (h_git (logging trial_host)) trial_workspace
    \<lparr>cc_message = ''ship'', cc_author_name = ''a'', cc_author_email = ''a@b''\<rparr> git_timeout) trial_start
    (Inr trial_candidate) trial_committed"
proof -
  have "validate_commit_request \<lparr>cc_message = ''ship'', cc_author_name = ''a'', cc_author_email = ''a@b''\<rparr> = Inr ()"
    by code_simp
  then show ?thesis
    by (simp add: trial_eval cw_persist_def cw_verify_def unmerged_paths_def staged_tree_def trial_workspace_def trial_candidate_def)
qed

definition trial_publish :: candidate_publish_request where
  "trial_publish = \<lparr>pr_remote = ''git@host:a/b'', pr_target_ref = ''refs/heads/main'', pr_create_if_absent = False\<rparr>"

abbreviation trial_error :: git_error where
  "trial_error \<equiv> GitFailed (Some 128) ''Could not resolve host''"

lemma trial_push: "goes {push_args trial_publish (sha CHR ''e'') (sha CHR ''f'')}
    (publish (h_git (logging trial_host)) trial_workspace trial_candidate trial_publish git_timeout) trial_committed
    (Inl (PublishGit trial_error)) trial_committed"
proof -
  have "validate_publish_request trial_publish = Inr ()" by code_simp
  then show ?thesis
    by (simp add: trial_eval publish_def validate_persisted_candidate_def remote_ref_def trial_reply leased_commit_def
        trial_workspace_def trial_candidate_def trial_publish_def push_args_def)
qed

section \<open>The run\<close>

lemma trial_deferral: "does {}
    (handle_publish_error (logging trial_host) trial_worker (attempt_at (trial_row ''scheduled'') Scheduled) trial_workspace
      trial_candidate trial_publish 20 (PublishGit trial_error))
    (with_rows [trial_pushed\<lparr>c_status := ''push_pending''\<rparr>]) w
    (Inr (ReleaseDeferred (Id 9) 5020 ''transport: Git failed (Some(128)): Could not resolve host''))
    (with_rows [trial_deferred]) w"
proof -
  have kind: "release_failure_str (classify (\<lambda>_. ''io'') (PublishGit trial_error)) = ''transport''" by code_simp
  have shown: "publish_error_text (\<lambda>_. ''io'') (PublishGit trial_error) = ''Git failed (Some(128)): Could not resolve host''"
    by code_simp
  have attempt: "ra_attempt_id (attempt_at (trial_row ''scheduled'') Scheduled) = Id 9"
    "ra_failed_attempts (attempt_at (trial_row ''scheduled'') Scheduled) = 0"
    by (simp_all add: attempt_at_def attempt_of_def trial_row_def opened_row_def trial_attempt_def)
  have "classify_publication_error (PublishGit trial_error) = Retryable" by code_simp
  then have retry: "decide (rw_retry trial_worker) (u8_saturating_add 0 1) (PublishGit trial_error) = Retry (from_secs 5)"
    by (simp add: decide_def trial_worker_def release_worker_new_def retry_default_def u8_saturating_add_def delay_for_def
        unwrap_or_def u32_one_checked_shl_def duration_checked_mul_def from_secs_def duration_max_def)
  have later: "retry_not_before 20 (from_secs 5) = Inr 5020"
    by (simp add: retry_not_before_def as_millis_def from_secs_def i64_try_from_def i64_checked_add_def i64_max_def i64_min_def)
  have "does ({} \<union> ({} \<union> {}))
    (handle_publish_error (logging trial_host) trial_worker (attempt_at (trial_row ''scheduled'') Scheduled) trial_workspace
      trial_candidate trial_publish 20 (PublishGit trial_error))
    (with_rows [trial_pushed\<lparr>c_status := ''push_pending''\<rparr>]) w
    (Inr (ReleaseDeferred (Id 9) 5020 (''transport'' @ '': '' @ ''Git failed (Some(128)): Could not resolve host'')))
    (with_rows [trial_deferred]) w"
    unfolding handle_publish_error_def Let_def logged_trial kind shown attempt retry publication_resolution.case
    by (rule does_then [OF does_reading [OF later]], rule does_then, rule does_write, rule trial_defer, rule does_return)
  then show ?thesis by simp
qed

abbreviation trial_outcome :: release_outcome where
  "trial_outcome \<equiv> ReleaseDeferred (Id 9) 5020 ''transport: Git failed (Some(128)): Could not resolve host''"

abbreviation trial_opened :: release_attempt where
  "trial_opened \<equiv> attempt_at (trial_row ''scheduled'') Scheduled"

abbreviation trial_target :: publication_target where
  "trial_target \<equiv> \<lparr>pb_branch = TargetRef ''refs/heads/main'', pb_base = TargetRef ''refs/heads/main'', pb_create_if_absent = False\<rparr>"

abbreviation trial_sent :: "string list" where
  "trial_sent \<equiv> push_args trial_publish (sha CHR ''e'') (sha CHR ''f'')"

lemma trial_opened_parts:
  "ra_attempt_id trial_opened = Id 9" "ra_repository_id trial_opened = Id 1"
  by (simp_all add: attempt_at_def attempt_of_def trial_row_def opened_row_def trial_attempt_def)

lemma trial_with_retry: "does ({} \<union> ({trial_sent} \<union> {}))
    (publish_with_retry (logging trial_host) trial_worker trial_opened trial_workspace trial_candidate ''git@host:a/b''
      trial_target 20) (with_rows [trial_pushed]) trial_committed (Inr trial_outcome) (with_rows [trial_deferred]) trial_committed"
proof -
  have req: "\<lparr>pr_remote = ''git@host:a/b'', pr_target_ref = target_ref_str (pb_branch trial_target),
      pr_create_if_absent = pb_create_if_absent trial_target\<rparr> = trial_publish"
    by (simp add: trial_publish_def)
  show ?thesis
    unfolding publish_with_retry_def Let_def req trial_opened_parts advancing_attempt_def
    by (rule does_then, rule does_write, rule trial_stages(5), rule does_match, rule does_world, rule trial_push)
       (use trial_deferral in simp)
qed

lemma trial_commit_and_publish: "does ({} \<union> ({} \<union> ({} \<union> ({} \<union> ({trial_sent} \<union> {})))))
    (commit_and_publish (logging trial_host) trial_worker trial_opened trial_workspace ''git@host:a/b'' trial_target
      trial_request 20) (with_rows [trial_row ''verifying'']) trial_start (Inr trial_outcome) (with_rows [trial_deferred]) trial_committed"
proof -
  have req: "\<lparr>cc_message = rq_message trial_request, cc_author_name = rq_author_name trial_request,
      cc_author_email = rq_author_email trial_request\<rparr> = \<lparr>cc_message = ''ship'', cc_author_name = ''a'', cc_author_email = ''a@b''\<rparr>"
    by (simp add: trial_request_def)
  show ?thesis
    unfolding commit_and_publish_def Let_def req trial_opened_parts advancing_attempt_def
    by (rule does_then, rule does_write, rule trial_stages(3), rule does_match, rule does_world, rule trial_commit,
        unfold sum.case, rule does_then, rule does_write, unfold trial_candidate_def persisted_candidate.simps,
        rule trial_stages(4), fold trial_candidate_def, rule trial_with_retry)
qed

lemma trial_verify_and_publish: "does ({} \<union> ({} \<union> ({} \<union> ({} \<union> ({} \<union> ({} \<union> ({} \<union> ({} \<union> ({trial_sent} \<union> {})))))))))
    (verify_and_publish (logging trial_host) trial_worker trial_opened snapshot trial_workspace target ''git@host:a/b'' trial_target
      trial_request 20) (with_rows [trial_row ''reconciling'']) trial_start (Inr trial_outcome) (with_rows [trial_deferred]) trial_committed"
proof -
  have none: "filter tc_enabled (trusted_checks (q_checks (with_rows rows)) i) = []" for rows i
    by (simp add: with_rows_def trusted_checks_def timed_work_def with_slot_def formed_work_def with_unit_def stored_work_def)
  show ?thesis
    unfolding verify_and_publish_def trial_opened_parts advancing_attempt_def
    by (rule does_then, rule does_write, rule trial_stages(2), rule does_match, rule does_world, rule trial_verify,
        unfold sum.case, rule does_then, rule does_store_read, unfold none, rule refl, unfold run_checks.simps,
        rule does_then, rule does_return, unfold option.case, rule trial_commit_and_publish)
qed

definition sends :: "((string \<times> string) \<times> string list list, 'e, 'a) work \<Rightarrow> queue \<Rightarrow> ('e, 'a) result \<Rightarrow> queue \<Rightarrow> bool" where
  "sends m q r q' \<longleftrightarrow> (\<exists>S. trial_sent \<in> S \<and> does S m q trial_start r q' trial_committed)"

lemma sends_here: "does S m q trial_start r q' trial_committed \<Longrightarrow> trial_sent \<in> S \<Longrightarrow> sends m q r q'"
  unfolding sends_def by blast

lemma sends_then:
  assumes "does S m q trial_start (Inr y) q1 trial_start" and "sends (f y) q1 r q'"
  shows "sends (c_then m f) q r q'"
proof -
  obtain T where T: "trial_sent \<in> T" "does T (f y) q1 trial_start r q' trial_committed" using assms(2) unfolding sends_def by blast
  have "does (S \<union> T) (c_then m f) q trial_start r q' trial_committed" by (rule does_then) fact+
  then show ?thesis by (rule sends_here) (simp add: T(1))
qed

lemma sends_match:
  assumes "sends m q y q1" and "does {} (f y) q1 trial_committed r q' trial_committed"
  shows "sends (c_match m f) q r q'"
proof -
  obtain T where T: "trial_sent \<in> T" "does T m q trial_start y q1 trial_committed" using assms(1) unfolding sends_def by blast
  have "does (T \<union> {}) (c_match m f) q trial_start r q' trial_committed" by (rule does_match) fact+
  then show ?thesis by (rule sends_here) (simp add: T(1))
qed

lemma trial_runs: "sends
    (run_attempt (logging trial_host) trial_worker trial_opened sample_snapshot ''git@host:a/b'' trial_target trial_request 20)
    (with_rows [trial_row ''scheduled'']) (Inr trial_outcome) (with_rows [trial_deferred])"
proof -
  have base: "goes {} (base_of_candidate (logging trial_host) ''/m/repo_u.git'' ''git@host:a/b'' trial_target) trial_start
      (Inr (TargetRef ''refs/heads/main'')) trial_start"
    by (simp add: base_of_candidate_def goes_return)
  have open_: "does {} (c_map_err ReleaseUnavailable (on_world (h_open_package (logging trial_host) (sn_path sample_snapshot))))
      q trial_start (Inr \<lparr>pk_path = ''/p'', pk_manifest = trial_manifest\<rparr>) q trial_start" for q
  proof -
    have "goes {} (h_open_package (logging trial_host) (sn_path sample_snapshot)) trial_start
        (Inr \<lparr>pk_path = ''/p'', pk_manifest = trial_manifest\<rparr>) trial_start"
      by (simp add: goes_def logged_trial sample_snapshot_def)
    then show ?thesis by (drule_tac does_err [OF does_world, where g = ReleaseUnavailable]) simp
  qed
  have dir: "does {} (c_map_err ReleaseIo (on_world (h_create_dir_all (logging trial_host) (rw_workspace_root trial_worker))))
      q trial_start (Inr ()) q trial_start" for q
  proof -
    have "goes {} (h_create_dir_all (logging trial_host) (rw_workspace_root trial_worker)) trial_start (Inr ()) trial_start"
      by (simp add: goes_def logged_trial)
    then show ?thesis by (drule_tac does_err [OF does_world, where g = ReleaseIo]) simp
  qed
  have root: "path_join (rw_workspace_root trial_worker) (''release-'' @ ''attempt_u'') = ''/r/release-attempt_u''"
    using trial_paths(4) by (simp add: trial_worker_def release_worker_new_def)
  show ?thesis
    unfolding run_attempt_def Let_def trial_opened_parts advancing_attempt_def logged_trial(6) trial_paths root
    by (rule sends_then, rule does_write, rule trial_stages(1), rule sends_then, rule does_git, rule trial_clone,
        rule sends_then, rule does_git, rule base, unfold target_ref.sel, rule sends_then, rule does_git, rule trial_fetch,
        rule sends_then, rule does_git, rule trial_resolve, rule sends_then, rule open_, rule sends_then, rule dir,
        rule sends_then, rule does_git, rule trial_prepare, rule sends_then, rule does_git, rule trial_apply,
        unfold candidate_apply_outcome.case, rule sends_here, rule trial_verify_and_publish, simp)
qed

lemma trial_opens: "sends
    (open_and_run (logging trial_host) trial_worker sample_snapshot trial_target trial_request 20 trial_attempt)
    timed_work (Inr trial_outcome) (with_rows [trial_deferred])"
proof -
  have remote: "na_remote trial_attempt = ''git@host:a/b''" by (simp add: trial_attempt_def)
  show ?thesis
    unfolding open_and_run_def remote timed_work_rows
    by (rule sends_then, rule does_write, rule trial_open, rule sends_match, rule trial_runs, unfold sum.case, rule does_return)
qed

section \<open>What the run reads first\<close>

lemma trial_snapshot: "snapshot_of (q_packages timed_work) (Id 7) revision_first = Inr (Some sample_snapshot)"
proof -
  have "snapshot_of sample_packages (Id 7) revision_first = Inr (Some sample_snapshot)" by code_simp
  then show ?thesis by (simp add: timed_work_parts queued_parts)
qed

lemma trial_repository: "\<exists>s. repository_of (q_registry timed_work) (Id 1) = Inr (Some s)
    \<and> rg_id (sr_registration s) = Id 1 \<and> rg_canonical_remote (sr_registration s) = ''git@host:a/b''
    \<and> rp_publication_mode (sr_active_policy s) = ScheduledCreation \<and> rp_target (sr_active_policy s) = TargetRef ''refs/heads/main''"
proof -
  have "(case repository_of timed_registry (Id 1) of Inr (Some s) \<Rightarrow> rg_id (sr_registration s) = Id 1
      \<and> rg_canonical_remote (sr_registration s) = ''git@host:a/b''
      \<and> rp_publication_mode (sr_active_policy s) = ScheduledCreation \<and> rp_target (sr_active_policy s) = TargetRef ''refs/heads/main''
    | _ \<Rightarrow> False)" by code_simp
  then show ?thesis by (auto simp: timed_work_parts queued_parts split: sum.splits option.splits)
qed

lemma trial_base: "snapshot_base_commit sample_snapshot = Inr (replicate 40 CHR ''a'')"
  by (simp add: snapshot_base_commit_def sample_snapshot_def)

lemma trial_lease: "i64_wrapping_add 20 lease_duration_ms = 300020"
  by (simp add: i64_wrapping_add_def lease_duration_ms_def)

lemma trial_plan: "plan_of (q_plans timed_work) (Id 1) (Some revision_first)
    = Some (Inr (Some \<lparr>stp_plan = sample_plan, stp_created_at = 5\<rparr>))"
proof -
  have "newest_plan [new_plan_row sample_plan 5] = Some (new_plan_row sample_plan 5)" by (simp add: newest_plan_def)
  moreover have "pl_feature_id (new_plan_row sample_plan 5) = Id 1" "pl_revision (new_plan_row sample_plan 5) = revision_first"
    "pl_created_at (new_plan_row sample_plan 5) = 5"
    by (simp_all add: new_plan_row_def sample_plan_row)
  ultimately show ?thesis
    by (simp add: plan_of_def plans_of_feature_def timed_work_parts queued_parts load_plan_def sample_plan_row sample_plan_valid)
qed

text \<open>The worker records the push, sends it, and waits for its answer until the retry time.\<close>

lemma trial_release: "sends (release_package (logging trial_host) trial_worker trial_request 20) timed_work
    (Inr trial_outcome) (with_rows [trial_deferred])"
proof -
  obtain s where s: "repository_of (q_registry timed_work) (Id 1) = Inr (Some s)" "rg_id (sr_registration s) = Id 1"
    "rg_canonical_remote (sr_registration s) = ''git@host:a/b''"
    "rp_publication_mode (sr_active_policy s) = ScheduledCreation" "rp_target (sr_active_policy s) = TargetRef ''refs/heads/main''"
    using trial_repository by blast
  have package: "rq_package_id trial_request = Id 7" "rq_package_revision trial_request = revision_first"
    by (simp_all add: trial_request_def)
  have sn: "sn_feature_id sample_snapshot = Id 1" "sn_plan_revision sample_snapshot = revision_first"
    "sn_package_id sample_snapshot = Id 7" "sn_revision sample_snapshot = revision_first"
    by (simp_all add: sample_snapshot_def)
  have repository: "fp_repository_id sample_plan = Id 1" by (simp add: sample_plan_def)
  have target: "publication_target_of (sr_active_policy s) (Id 7) revision_first q = trial_target" for q
    by (simp add: publication_target_of_def s(4,5) Let_def)
  have owner: "rw_lease_owner trial_worker = ''me''" by (simp add: trial_worker_def release_worker_new_def)
  have attempt: "\<lparr>na_attempt_id = Id 9, na_repository_id = Id 1, na_package_id = Id 7, na_package_revision = revision_first,
      na_remote = ''git@host:a/b'', na_target = pb_branch trial_target, na_base_commit = replicate 40 CHR ''a'',
      na_lease = \<lparr>al_owner = ''me'', al_expires = 300020\<rparr>, na_created_at = 20\<rparr> = trial_attempt"
    by (simp add: trial_attempt_def)
  have plan: "does {} (storing (reading_or_panic (\<lambda>q. plan_of (q_plans q) (Id 1) (Some revision_first)))) timed_work w
      (Inr (Some \<lparr>stp_plan = sample_plan, stp_created_at = 5\<rparr>)) timed_work w" for w
    by (simp add: does_def storing_Inr_iff reading_or_panic_def trial_plan)
  have new: "does {} (on_world (\<lambda>w. case h_new_attempt_id (logging trial_host) w of (i, w) \<Rightarrow> (Inr i, w))) timed_work w
      (Inr (Id 9)) timed_work w" for w
    by (rule does_world) (simp add: goes_def logged_trial)
  have base: "does {} (reading (\<lambda>_. snapshot_base_commit sample_snapshot)) timed_work w (Inr (replicate 40 CHR ''a'')) timed_work w"
    for w by (rule does_reading) (rule trial_base)
  show ?thesis
    unfolding release_package_def package
    by (rule sends_then, rule does_store_read, rule trial_snapshot, rule sends_then, rule does_ok, unfold sn, rule sends_then,
        rule plan, rule sends_then, rule does_ok, unfold stored_plan.simps repository, rule sends_then, rule does_store_read,
        rule s(1), rule sends_then, rule does_ok, rule sends_then, rule does_store_read, unfold target, rule refl,
        rule sends_then, rule new, rule sends_then, rule base, unfold owner trial_lease s attempt, rule trial_opens)
qed

lemma trial_log: "\<exists>log k. release_package (logging trial_host) trial_worker trial_request 20 (timed_work, trial_start, [])
      = Some (Inr trial_outcome, with_rows [trial_deferred], trial_committed, log)
    \<and> k < length log \<and> is_push (log ! k)"
proof -
  obtain S where S: "trial_sent \<in> S" "does S (release_package (logging trial_host) trial_worker trial_request 20) timed_work
      trial_start (Inr trial_outcome) (with_rows [trial_deferred]) trial_committed"
    using trial_release unfolding sends_def by blast
  from does_run [OF S(2)] obtain log where
    log: "release_package (logging trial_host) trial_worker trial_request 20 (timed_work, trial_start, [])
      = Some (Inr trial_outcome, with_rows [trial_deferred], trial_committed, log)" "S \<subseteq> set log" by (elim exE conjE)
  have "trial_sent \<in> set log" using log(2) S(1) by (rule subsetD)
  then obtain k where "k < length log" "log ! k = trial_sent" by (auto simp: in_set_conv_nth)
  moreover have "is_push trial_sent" by (simp add: push_args_def)
  ultimately show ?thesis using log(1) by (intro exI [of _ log] exI [of _ k] conjI) (simp_all only:)
qed

section \<open>Recovery after the run\<close>

text \<open>Recovery asks the remote, finds the parent of the candidate there, and leaves the attempt to its retry time.\<close>

lemma trial_recovery: "\<exists>log. recover_interrupted_releases (logging trial_host) trial_worker 6000
      (with_rows [trial_deferred], trial_committed, [])
    = Some (Inr \<lparr>rc_resolved = [Id 9], rc_failures = []\<rparr>, with_rows [trial_deferred], trial_committed, log)"
proof -
  let ?a = "attempt_at trial_deferred PushPending"
  have parts: "ra_attempt_id ?a = Id 9" "ra_repository_id ?a = Id 1" "ra_remote ?a = ''git@host:a/b''"
    "ra_target ?a = TargetRef ''refs/heads/main''" "ra_candidate_sha ?a = Some (sha CHR ''f'')"
    "ra_candidate_parent_sha ?a = Some (sha CHR ''e'')" "ra_retry_not_before ?a = Some 5020"
    by (simp_all add: attempt_at_def attempt_of_def trial_deferred_def trial_pushed_def trial_row_def opened_row_def trial_attempt_def)
  have listed: "release_attempts_awaiting_remote_resolution (attempt_view (with_rows [trial_deferred])) = Inr [?a]"
    unfolding trial_view by (simp add: trial_db_def) code_simp
  obtain s where s: "repository_of (q_registry timed_work) (Id 1) = Inr (Some s)" "rp_target (sr_active_policy s) = TargetRef ''refs/heads/main''"
    using trial_repository by blast
  have main: "is_development_publication ?a (with_rows rows) = Inr False" for rows
    by (simp add: is_development_publication_def parts with_rows_def s)
  have clone: "goes {} (managed_clone (logging trial_host) trial_worker ''git@host:a/b'' ''repo_u'') trial_committed
      (Inr ''/m/repo_u.git'') trial_committed"
    by (simp add: trial_eval managed_clone_def provision_def trial_worker_def release_worker_new_def trial_paths)
  have fetch: "goes {} (fetch_ref (logging trial_host) ''/m/repo_u.git'' ''git@host:a/b'' ''refs/heads/main'' git_timeout)
      trial_committed (Inr []) trial_committed"
    by (simp add: trial_eval fetch_ref_def)
  have resolve: "goes {} (mirror_resolve (logging trial_host) ''/m/repo_u.git'' ''refs/heads/main'' git_timeout)
      trial_committed (Inr (sha CHR ''e'')) trial_committed"
    by (simp add: trial_eval mirror_resolve_def)
  have settle: "settle_interrupted (logging trial_host) ?a (sha CHR ''f'') (sha CHR ''e'') 6000 = c_return ()"
    by (simp add: settle_interrupted_def parts)
  have one: "\<exists>S. does S (recover_interrupted_release (logging trial_host) trial_worker ?a 6000) (with_rows [trial_deferred])
      trial_committed (Inr ()) (with_rows [trial_deferred]) trial_committed"
    unfolding recover_interrupted_release_def Let_def parts logged_trial(6) trial_paths target_ref.sel
    by (intro exI, rule does_then, rule does_reading, simp, rule does_then, rule does_git, rule clone,
        rule does_then, rule does_store_read, rule main, unfold if_False, rule does_then, rule does_return, unfold if_False,
        rule does_then, rule does_git, rule fetch, rule does_then, rule does_git, rule resolve, unfold settle, rule does_return)
  then obtain S where "does S (recover_interrupted_release (logging trial_host) trial_worker ?a 6000) (with_rows [trial_deferred])
      trial_committed (Inr ()) (with_rows [trial_deferred]) trial_committed" by (elim exE)
  from does_run [OF this] obtain log where
    "recover_interrupted_release (logging trial_host) trial_worker ?a 6000 (with_rows [trial_deferred], trial_committed, [])
      = Some (Inr (), with_rows [trial_deferred], trial_committed, log)" by (elim exE conjE)
  then have "recover_one (logging trial_host) trial_worker 6000 \<lparr>rc_resolved = [], rc_failures = []\<rparr> ?a
      (with_rows [trial_deferred], trial_committed, [])
    = Some (Inr \<lparr>rc_resolved = [Id 9], rc_failures = []\<rparr>, with_rows [trial_deferred], trial_committed, log)"
    by (simp add: recover_one_def c_match_def parts run_return)
  then show ?thesis
    by (simp add: recover_interrupted_releases_def run_then on_store_def run_reading listed run_return)
qed

section \<open>The sample store, reached and read\<close>

lemma trial_left_ok: "queue_ok (with_rows [trial_deferred])"
proof -
  obtain log where "release_package (logging trial_host) trial_worker trial_request 20 (timed_work, trial_start, [])
      = Some (Inr trial_outcome, with_rows [trial_deferred], trial_committed, log)"
    using trial_log by (elim exE conjE)
  from worksD [OF release_works this] timed_work_ok show ?thesis by (simp add: works_def)
qed

lemma timed_repositories: "map rr_id (rg_repositories timed_registry) = [Id 1]"
  by code_simp

lemma timed_schedule: "\<exists>policy. schedule_policy_of timed_registry (Id 1) = Some policy"
proof -
  have "(case schedule_policy_of timed_registry (Id 1) of Some _ \<Rightarrow> True | None \<Rightarrow> False)" by code_simp
  then show ?thesis by (auto split: option.splits)
qed

lemma timed_policies: "policies_sound timed_registry"
proof -
  have "map vr_value (rg_schedules timed_registry) = [noon_policy]" by code_simp
  then obtain x where "rg_schedules timed_registry = [x]" "vr_value x = noon_policy"
    by (cases "rg_schedules timed_registry") auto
  moreover have "rg_overrides timed_registry = []" by code_simp
  ultimately show ?thesis
    using noon_policy_ok by (simp add: policies_sound_def sound_policy_def sound_range_def) (simp add: noon_policy_def)
qed

text \<open>No task of the sample unit is at work while it waits for its time.\<close>

lemma timed_tasks_idle:
  assumes "t = Id 1 \<or> t = Id 2"
  shows "\<not> task_status_is timed_work (Id 1) revision_first t at_work"
proof -
  have "pdb_ok (q_plans timed_work)" using timed_work_ok by (simp add: queue_ok_def)
  from tasks_held_iff [OF this, of Scheduled "Id 1" revision_first "{Id 1, Id 2}"] timed_tasks_held assms
  obtain r where "task_of (q_plans timed_work) (Id 1) revision_first t = Inr (Some r)" "ts_status (tr_state r) = Scheduled"
    by auto
  then show ?thesis by (simp add: task_status_is_def at_work_def)
qed

lemma sample_unit_formed: "\<exists>u. create_release_unit (Id 8) (Id 1) revision_first [Id 1, Id 2] 10 stored_work = Inr (formed_work, u)"
proof -
  let ?u = "\<lparr>ur_unit_id = Id 8, ur_feature_id = Id 1, ur_plan_revision = revision_first, ur_task_ids = [Id 1, Id 2], ur_created_at = 10\<rparr>"
  have "grouped_as formed_work (Id 1) revision_first [Id 1, Id 2] ?u"
    by (simp add: grouped_as_def formed_work_parts)
  moreover have "ungrouped stored_work (Id 1) revision_first [Id 1, Id 2]" "Id 8 \<notin> unit_ids stored_work"
    by (simp_all add: ungrouped_def stored_work_def)
  moreover have "bts_sorted [Id 1 :: task_id, Id 2]" by (simp add: bts_sorted_def)
  ultimately show ?thesis
    using create_release_unit_decides [OF stored_work_ok, of "[Id 1, Id 2]" 10 "Id 8" "Id 1" revision_first formed_work ?u]
      stored_work_groupable(1)
    by (auto simp: formed_work_def)
qed

lemma timed_work_reachable: "store_reachable utc timed_work"
proof -
  have start: "store_reachable utc stored_work"
    by (rule store_reachable.start) (simp_all add: stored_work_def no_work_def queued_db_reachable)
  obtain u where "create_release_unit (Id 8) (Id 1) revision_first [Id 1, Id 2] 10 stored_work = Inr (formed_work, u)"
    using sample_unit_formed by (elim exE)
  then have "writing (create_release_unit (Id 8) (Id 1) revision_first [Id 1, Id 2] 10) stored_work = Some (Inr u, formed_work)"
    by (simp only: writing_Inr_iff)
  then have "store_step utc stored_work formed_work" by (rule store_step.unit [rotated]) (simp add: bts_sorted_def)
  from store_reachable.step [OF store_reachable.step [OF start this] store_step.persist [OF persist_sample_slot]]
  show ?thesis .
qed

end
