(* ===== verification/Guarantees.thy ===== *)
theory Guarantees
  imports Trial
begin

text \<open>
  The contracts of the stored work and of the release worker, each stated over the code's definitions
  and applied to the sample store.  Their proofs are in the theories of the components.
\<close>

section \<open>The release worker\<close>



text \<open>C5: Recovery after a restart issues no push at all, whatever the remotes answer, and undoes nothing
  that the store holds.\<close>

theorem recovery_never_pushes:
  assumes "queue_ok q" and "recover_interrupted_releases (logging h) worker now (q, w, []) = Some (r, q', w', log)"
  shows "queue_ok q' \<and> queue_follows q q' \<and> (\<forall>args \<in> set log. \<not> is_push args)"
  by (rule recovery_silent [OF assms])

theorem recovery_never_pushes_witness:
  "\<exists>log. recover_interrupted_releases (logging trial_host) trial_worker 6000 (with_rows [trial_deferred], trial_committed, [])
      = Some (Inr \<lparr>rc_resolved = [Id 9], rc_failures = []\<rparr>, with_rows [trial_deferred], trial_committed, log)
    \<and> (\<forall>args \<in> set log. \<not> is_push args)"
proof -
  obtain log where run: "recover_interrupted_releases (logging trial_host) trial_worker 6000 (with_rows [trial_deferred], trial_committed, [])
      = Some (Inr \<lparr>rc_resolved = [Id 9], rc_failures = []\<rparr>, with_rows [trial_deferred], trial_committed, log)"
    using trial_recovery by (elim exE)
  from recovery_never_pushes [OF trial_left_ok run] run show ?thesis by blast
qed



section \<open>The store\<close>

text \<open>C7: Every store that any sequence of commands builds is well formed: its attempts, tasks and repositories
  load, every unit is non-empty and holds what its tasks need captured, a task is in one unit only, one time
  is selected for a unit and for a package, and later commands only move it forward.\<close>

theorem store_contract:
  assumes "store_reachable cal q"
  shows "is_ok (release_attempt_of (attempt_view q) a) \<and> is_ok (task_of (q_plans q) f v t)
    \<and> is_ok (repository_of (q_registry q) i)
    \<and> (\<forall>u \<in> set (q_units q). unit_formed q u)
    \<and> distinct (map (\<lambda>r. (ut_feature_id r, ut_plan_revision r, ut_task_id r)) (q_unit_tasks q))
    \<and> distinct (map sl_unit_id (filter sl_live (q_slots q)))
    \<and> distinct (map (\<lambda>s. (sl_package_id s, sl_package_revision s)) (filter sl_live (q_slots q)))
    \<and> (\<forall>q'. (store_step cal)\<^sup>*\<^sup>* q q' \<longrightarrow> queue_follows q q')"
proof -
  have ok: "queue_ok q" by (rule store_reachable_ok [OF assms])
  then have "units_formed q" "unit_tasks_ok q (q_unit_tasks q)" "slots_ok q (q_slots q)" by (simp_all add: queue_ok_def)
  moreover have "\<forall>q'. (store_step cal)\<^sup>*\<^sup>* q q' \<longrightarrow> queue_follows q q'" using store_history [OF _ ok] by blast
  ultimately show ?thesis
    using attempts_read [OF ok] tasks_read [OF ok] repositories_read [OF ok]
    by (simp add: units_formed_def unit_tasks_ok_def slots_ok_def list_all_iff)
qed

theorem store_contract_witness:
  "\<exists>u \<in> set (q_units timed_work). un_unit_id u = Id 8 \<and> unit_formed timed_work u
     \<and> is_ok (task_of (q_plans timed_work) (Id 1) revision_first (Id 2))"
  using store_contract [OF timed_work_reachable, of "Id 9" "Id 1" revision_first "Id 2" "Id 1"] timed_work_parts(2) by simp

text \<open>C12: Grouping tasks succeeds exactly when they are tasks of a stored plan revision that hold what they need
  captured, and nobody else has any of them; asking again for the same group returns the unit it has.\<close>

theorem release_unit_decides:
  assumes "queue_ok q" and "bts_sorted ts" and "0 \<le> created"
  shows "create_release_unit i f v ts created q = Inr (q', u) \<longleftrightarrow>
     groupable q f v ts \<and>
     (q' = q \<and> grouped_as q f v ts u
      \<or> q' = with_unit q i f v ts created \<and> grouped_as q' f v ts u \<and> ur_unit_id u = i
        \<and> ungrouped q f v ts \<and> i \<notin> unit_ids q)"
  by (rule create_release_unit_decides [OF assms])

theorem release_unit_decides_witness:
  "\<exists>u. create_release_unit (Id 8) (Id 1) revision_first [Id 1, Id 2] 10 stored_work = Inr (formed_work, u)
   \<and> \<not> (\<exists>q' u. create_release_unit (Id 8) (Id 1) revision_first [Id 2] 10 stored_work = Inr (q', u))"
proof -
  have "bts_sorted [Id 2 :: task_id]" by (simp add: bts_sorted_def)
  then have "\<not> (\<exists>q' u. create_release_unit (Id 8) (Id 1) revision_first [Id 2] 10 stored_work = Inr (q', u))"
    using release_unit_decides [OF stored_work_ok, of "[Id 2]" 10 "Id 8" "Id 1" revision_first] stored_work_groupable(2) by simp
  then show ?thesis using sample_unit_formed by blast
qed

text \<open>C18: Blocking what waits on a task ends, on any dependency graph, and blocks exactly the open tasks that
  depend on it directly or through others, every other row untouched.\<close>

theorem dependents_blocked_exactly:
  assumes "pdb_ok (q_plans q)" and "state_reason_new code message = Inr reason" and "0 \<le> now"
  shows "let waiting = {t. (p, t) \<in> trancl (waits_on q f v)} - {p} in
    block_dependents f v p code message now q
      = Some (Inr (sorted_list_of_set (open_tasks q f v \<inter> waiting)),
          with_tasks q (block_rows f v reason now waiting (pdb_tasks (q_plans q))))"
  by (rule block_dependents_decides [OF assms])

theorem dependents_blocked_exactly_witness:
  "\<exists>ts q'. block_dependents (Id 1) revision_first (Id 1) PrerequisiteCancelled ''gone'' 12 timed_work = Some (Inr ts, q')"
proof -
  have ok: "pdb_ok (q_plans timed_work)" using timed_work_ok by (simp add: queue_ok_def)
  have reason: "state_reason_new PrerequisiteCancelled ''gone'' = Inr \<lparr>sr_code = PrerequisiteCancelled, sr_message = ''gone''\<rparr>"
    by code_simp
  show ?thesis
    using dependents_blocked_exactly [OF ok reason, of 12 "Id 1" "Id 1" revision_first] by (auto simp: Let_def)
qed

section \<open>Selecting and withdrawing times\<close>



text \<open>C10: Recording a time for a unit that has none changes nothing when it fails, and when it succeeds adds the
  time and moves every task of the unit to scheduled, together.\<close>

theorem schedule_slot_decides:
  assumes "queue_ok q" and "schedule_slot_of q (ns_unit_id n) = None"
  shows "\<exists>r q'. persist_schedule_slot n q = Some (r, q')
    \<and> (case r of
         Inl e \<Rightarrow> q' = q \<and> \<not> (slot_validate n = Inr () \<and> (\<exists>x p. schedulable q n x p))
       | Inr slot \<Rightarrow> slot_validate n = Inr () \<and> (\<exists>x p. schedulable q n x p
           \<and> slot = slot_from_row (new_slot_row n (pl_repository_id p))
           \<and> q' = moved (with_slot q n (pl_repository_id p)) (un_feature_id x) (un_plan_revision x)
                (set (members q (ns_unit_id n))) Scheduled (ns_created_at n)))"
  by (rule persist_schedule_slot_outcome [OF assms])

theorem schedule_slot_decides_witness:
  "\<exists>slot q'. persist_schedule_slot sample_slot formed_work = Some (Inr slot, q') \<and> slot_validate sample_slot = Inr ()"
proof -
  have "schedule_slot_of formed_work (ns_unit_id sample_slot) = None"
    by (simp add: schedule_slot_of_def formed_work_parts)
  from schedule_slot_decides [OF formed_work_ok this] persist_sample_slot show ?thesis by auto
qed

text \<open>C16: Withdrawing a time is refused once a task of the unit is at work, and otherwise keeps the row with its
  reason and returns every waiting task to the queue.\<close>

theorem withdrawal_restores_queue:
  assumes "queue_ok q" and "0 \<le> now" and "short_reason ''schedule invalidation'' reason = Inr ()"
    and "schedule_slot_of q i = Some slot"
  shows "\<exists>x \<in> set (q_units q). un_unit_id x = i \<and>
    (if \<exists>t \<in> set (members q i). task_status_is q (un_feature_id x) (un_plan_revision x) t at_work
     then \<exists>e. invalidate_schedule_slot i reason now q = Inl (Conflict e)
     else invalidate_schedule_slot i reason now q
       = Inr (moved (without_slot q i reason now) (un_feature_id x) (un_plan_revision x) (waiting_tasks q x) Queued now, Some slot))"
  by (rule invalidate_outcome [OF assms])

theorem withdrawal_restores_queue_witness:
  "\<exists>q' slot. invalidate_schedule_slot (Id 8) ''replanned'' 12 timed_work = Inr (q', Some slot)"
proof -
  have short: "short_reason ''schedule invalidation'' ''replanned'' = Inr ()" by code_simp
  have slot: "schedule_slot_of timed_work (Id 8) = Some (slot_from_row (new_slot_row sample_slot (Id 1)))"
    by (simp add: schedule_slot_of_def timed_work_parts new_slot_row_def sample_slot_sel sl_live_def)
  obtain x where x: "x \<in> set (q_units timed_work)" "un_unit_id x = Id 8"
    "if \<exists>t \<in> set (members timed_work (Id 8)). task_status_is timed_work (un_feature_id x) (un_plan_revision x) t at_work
     then \<exists>e. invalidate_schedule_slot (Id 8) ''replanned'' 12 timed_work = Inl (Conflict e)
     else invalidate_schedule_slot (Id 8) ''replanned'' 12 timed_work
       = Inr (moved (without_slot timed_work (Id 8) ''replanned'' 12) (un_feature_id x) (un_plan_revision x)
           (waiting_tasks timed_work x) Queued 12, Some (slot_from_row (new_slot_row sample_slot (Id 1))))"
    using withdrawal_restores_queue [OF timed_work_ok _ short slot, of 12] by auto
  then show ?thesis using timed_tasks_idle timed_work_parts by auto
qed

text \<open>C17: Cancelling a task is all or nothing: on success the task is cancelled, every open task that depends on it
  is blocked with the reason, and no unit that held one of them keeps a live time.\<close>

theorem cancellation_settles_dependents:
  assumes "queue_ok q" and "0 \<le> now"
  shows "\<exists>r q'. cancel_task f v t message now q = Some (r, q') \<and> queue_ok q' \<and> queue_follows q q'
    \<and> (case r of
         Inl e \<Rightarrow> q' = q
       | Inr out \<Rightarrow> given_up q f v t Cancelled
           \<lparr>sr_code = PrerequisiteCancelled, sr_message = ''a prerequisite was cancelled''\<rparr> out q')"
  by (rule cancel_task_settles [OF assms])

theorem cancellation_settles_dependents_witness:
  "\<exists>r q'. cancel_task (Id 1) revision_first (Id 1) ''no longer needed'' 12 timed_work = Some (r, q') \<and> queue_ok q'"
  using cancellation_settles_dependents [OF timed_work_ok, of 12] by (simp) blast

section \<open>The scheduler\<close>







end
