(* ===== verification/Spec2Isabelle.thy ===== *)
theory Spec2Isabelle
  imports Prelude Ids TaskState BTree Policy Remote Graph Plan States Integration Schedule Attempts GitPublish
    Tables Registry Packages PlanStore Commands Checks PullRequests Queue
    Units Dependents Eligibility Slots Withdrawals GivingUp Scheduler Scheduling
    Mirror Release Journey Reports Sample Whole Ledger Trial Guarantees
begin

text \<open>
  A verification development for Reccursive, a daemon that takes finished units of work and
  publishes them to Git branches at planned times.  The Rust crates under \<open>src/crates\<close> are modelled
  one theory per component, each definition translated from the function it is named after.

  \<^bold>\<open>The program.\<close>  \<open>core\<close> holds the domain: typed identifiers, the lifecycle of a task, repository and
  schedule policies, feature plans and their dependency graph.  \<open>store\<close> keeps all of it in one SQLite
  file.  \<open>git\<close> runs the Git process and decides what a failed publication means.  The daemon ties them
  together: the scheduler picks a time, the release worker opens an attempt, builds a candidate
  commit, pushes it under a lease, and resolves whatever a crash left uncertain.

  \<^bold>\<open>The theories.\<close>
  \<^item> \<open>Prelude\<close>: results, strings, machine integers and durations as Rust's standard library has them.
  \<^item> \<open>Ids\<close> (\<open>core/src/ids.rs\<close>, \<open>revision.rs\<close>): identifiers as 128-bit words, their text, revisions.
  \<^item> \<open>TaskState\<close> (\<open>core/src/task.rs\<close>): the state machine of a task, blocked states included.
  \<^item> \<open>BTree\<close>: ordered sets and maps as sorted lists, behind the locale \<open>ordered_map\<close>.
  \<^item> \<open>Policy\<close> (\<open>core/src/policy.rs\<close>, \<open>release.rs\<close>): target references, policies, release units.
  \<^item> \<open>Remote\<close> (\<open>core/src/remote.rs\<close>): the identity of a remote address.
  \<^item> \<open>Graph\<close> (\<open>core/src/graph.rs\<close>) and \<open>Plan\<close> (\<open>core/src/plan.rs\<close>): validation and topological order.
  \<^item> \<open>States\<close> (\<open>store/src/states.rs\<close>, \<open>lib.rs\<close>): the columns a state is stored in, storage errors.
  \<^item> \<open>Integration\<close> (\<open>core/src/integration.rs\<close>, \<open>store/src/integrations.rs\<close>): faults and backoff.
  \<^item> \<open>Schedule\<close> (\<open>core/src/schedule.rs\<close>): policies, the slot generator, the check of a chosen time.
  \<^item> \<open>Attempts\<close> (\<open>store/src/attempts.rs\<close>): the attempt table, its constraints and its operations.
  \<^item> \<open>GitPublish\<close> (\<open>git/src/lib.rs\<close>): candidate workspaces, publication, recovery, retries.
  \<^item> \<open>Tables\<close>: what stored tables share; the locale \<open>table\<close> is the contract of a table in a database.
  \<^item> \<open>Registry\<close> (\<open>store/src/repository.rs\<close>): enrollment, policy and schedule revisions.
  \<^item> \<open>Packages\<close> (\<open>store/src/workspaces.rs\<close>, \<open>snapshots.rs\<close>): workspaces, packages, recovery issues.
  \<^item> \<open>PlanStore\<close> (\<open>store/src/plans.rs\<close>, \<open>tasks.rs\<close>): stored plan revisions and the state of their tasks.
  \<^item> \<open>Commands\<close>: sequences of store calls; the locale \<open>behaviour\<close> carries what each call keeps to
    every sequence, loop and recovery of calls.
  \<^item> \<open>Checks\<close> (\<open>store/src/checks.rs\<close>): trusted checks and the evidence of their runs.
  \<^item> \<open>PullRequests\<close> (\<open>store/src/pull_requests.rs\<close>): what is known of opened pull requests.
  \<^item> \<open>Queue\<close> (\<open>store/src/lib.rs\<close>, \<open>migrations.rs\<close>): the whole store as one state, the invariant of its tables
    together (\<open>queue_ok\<close>) and what no operation undoes (\<open>queue_follows\<close>).
  \<^item> \<open>Units\<close>, \<open>Dependents\<close>, \<open>GivingUp\<close> (\<open>store/src/units.rs\<close>): grouping tasks into release units,
    blocking what waits on a task, and giving a task up with all that follows.
  \<^item> \<open>Eligibility\<close>, \<open>Slots\<close>, \<open>Withdrawals\<close> (\<open>store/src/schedules.rs\<close>): when a unit may be released, selecting
    its time, and withdrawing it.

  \<^bold>\<open>What the lemmas show.\<close>  Each stored component has an invariant (\<open>registry_ok\<close>, \<open>packages_ok\<close>, \<open>pdb_ok\<close>,
  \<open>checks_ok\<close>, \<open>db_ok\<close>) that its operations keep, and a relation for what no operation undoes
  (\<open>tasks_follow\<close>, \<open>checks_follow\<close>, \<open>row_evolves\<close>).  The pure components have exact descriptions of
  their results, errors included.

  \<^bold>\<open>How code is read.\<close>  A fallible call is a sum with the error on the left; a string is its UTF-8 bytes;
  timestamps are integers with the range checks of the code written out.  A table is the list of
  its rows, and a statement succeeds when the new table satisfies the constraints of the schema.
  Identifiers, revisions and JSON values stand for their stored text, which reads back unchanged.  The text of UUIDs and of
  SQLite's messages, time zone arithmetic and the git process are parameters.  Loops that are not
  structural are functions with a termination proof; nothing runs on fuel except \<open>strip_leading\<close>,
  whose bound is the length of the text it shortens.

  \<^bold>\<open>Not modelled.\<close>  The opening and backup of the database file, the process runner and the managed clone
  of \<open>git\<close>, the file handling of \<open>capture\<close>, the transport and message types of \<open>protocol\<close>, the HTTP
  client of \<open>github\<close>, the daemon's threads and sockets and the command line: they are input and
  output around the modelled core.
\<close>

end
